(* ===== verification/Prelude.thy ===== *)
theory Prelude
  imports Main "HOL-Library.Word"
begin

text \<open>
  Shared vocabulary of the development: the C types as machine words, the four ways a C
  function of the library can end, the sequencing combinator that stands for the idiom
  \<^verbatim>\<open>if (!f(stream, ...)) return false;\<close>, little-endian byte lists, and generic lemmas on
  lists and words that the components use.
\<close>

unbundle bit_operations_syntax

named_theorems emits_intros \<open>what an encoder of the library writes\<close>

section \<open>Machine types\<close>

text \<open>
  The pods are built for 64-bit Apple platforms (LP64, little endian): \<^verbatim>\<open>size_t\<close> has 64 bits,
  \<^verbatim>\<open>unsigned\<close> has 32, pointers have 8 bytes.
\<close>

type_synonym byte = "8 word"
type_synonym u8 = "8 word"
type_synonym u16 = "16 word"
type_synonym u32 = "32 word"
type_synonym u64 = "64 word"
type_synonym size_t = "64 word"

section \<open>Outcomes of a C function\<close>

text \<open>
  \<open>Ok v\<close>: the function returned true (or its value \<open>v\<close>, which also carries the results it
  stores through out-parameters). \<open>Err\<close>: it returned false. \<open>UB\<close>: it reached an operation the
  C standard leaves undefined (a read or write past the end of a buffer, an invalid
  \<^verbatim>\<open>free\<close>, a call through a null pointer). \<open>Fuel\<close>: it did not return within the bound the
  model gives to nested calls and to loops that user code controls.
\<close>

datatype 'a outcome = Ok 'a | Err | UB | Fuel

type_synonym ('a, 's) res = "'a outcome \<times> 's"

definition checkreturn :: "('a, 's) res \<Rightarrow> ('a \<Rightarrow> 's \<Rightarrow> ('b, 's) res) \<Rightarrow> ('b, 's) res" where
  "checkreturn r k = (case r of (Ok a, s) \<Rightarrow> k a s | (Err, s) \<Rightarrow> (Err, s)
                      | (UB, s) \<Rightarrow> (UB, s) | (Fuel, s) \<Rightarrow> (Fuel, s))"

lemma checkreturn_simps [simp]:
  "checkreturn (Ok a, s) k = k a s"
  "checkreturn (Err, s) k = (Err, s)"
  "checkreturn (UB, s) k = (UB, s)"
  "checkreturn (Fuel, s) k = (Fuel, s)"
  by (simp_all add: checkreturn_def)

lemma checkreturn_cong [fundef_cong]:
  assumes "r = r'" and "\<And>a s. r' = (Ok a, s) \<Longrightarrow> k a s = k' a s"
  shows "checkreturn r k = checkreturn r' k'"
  using assms by (auto simp: checkreturn_def split: prod.splits outcome.splits)

lemma checkreturn_split:
  "P (checkreturn r k) \<longleftrightarrow>
     (\<forall>a s. r = (Ok a, s) \<longrightarrow> P (k a s)) \<and> (\<forall>s. r = (Err, s) \<longrightarrow> P (Err, s)) \<and>
     (\<forall>s. r = (UB, s) \<longrightarrow> P (UB, s)) \<and> (\<forall>s. r = (Fuel, s) \<longrightarrow> P (Fuel, s))"
  by (auto simp: checkreturn_def split: prod.splits outcome.splits)

lemma checkreturn_split_asm:
  "P (checkreturn r k) \<longleftrightarrow>
     \<not> ((\<exists>a s. r = (Ok a, s) \<and> \<not> P (k a s)) \<or> (\<exists>s. r = (Err, s) \<and> \<not> P (Err, s)) \<or>
        (\<exists>s. r = (UB, s) \<and> \<not> P (UB, s)) \<or> (\<exists>s. r = (Fuel, s) \<and> \<not> P (Fuel, s)))"
  by (auto simp: checkreturn_def split: prod.splits outcome.splits)

lemmas checkreturn_splits = checkreturn_split checkreturn_split_asm

lemma checkreturn_Ok_iff:
  "checkreturn r k = (Ok b, t) \<longleftrightarrow> (\<exists>a s. r = (Ok a, s) \<and> k a s = (Ok b, t))"
  by (auto split: checkreturn_splits)

lemma checkreturn_assoc:
  "checkreturn (checkreturn r k) l = checkreturn r (\<lambda>a s. checkreturn (k a s) l)"
  by (simp add: checkreturn_def split: prod.splits outcome.splits)

text \<open>A list of steps, each run when the one before it succeeded.\<close>

fun seq_all :: "('s \<Rightarrow> (unit, 's) res) list \<Rightarrow> 's \<Rightarrow> (unit, 's) res" where
  "seq_all [] s = (Ok (), s)"
| "seq_all (f # fs) s = checkreturn (f s) (\<lambda>_. seq_all fs)"

text \<open>Running a function on one component of a larger state.\<close>

definition on_fst :: "('s \<Rightarrow> ('a, 's) res) \<Rightarrow> 's \<times> 'h \<Rightarrow> ('a, 's \<times> 'h) res" where
  "on_fst f = (\<lambda>(s, h). case f s of (r, s') \<Rightarrow> (r, (s', h)))"

lemma on_fst_eq [simp]: "on_fst f (s, h) = (fst (f s), (snd (f s), h))"
  by (simp add: on_fst_def split: prod.splits)

section \<open>Little-endian byte lists\<close>

definition le_of_word :: "nat \<Rightarrow> 'a::len word \<Rightarrow> byte list" where
  "le_of_word n w = map (\<lambda>i. ucast (drop_bit (8 * i) w)) [0..<n]"

fun word_of_le :: "byte list \<Rightarrow> 'a::len word" where
  "word_of_le [] = 0"
| "word_of_le (b # bs) = ucast b OR push_bit 8 (word_of_le bs)"

lemma length_le_of_word [simp]: "length (le_of_word n w) = n"
  by (simp add: le_of_word_def)

lemma le_of_word_0 [simp]: "le_of_word 0 w = []"
  by (simp add: le_of_word_def)

lemma le_of_word_Suc: "le_of_word (Suc n) w = ucast w # le_of_word n (drop_bit 8 w)"
proof -
  have "[0..<Suc n] = 0 # map Suc [0..<n]"
    by (metis map_Suc_upt upt_conv_Cons zero_less_Suc)
  then show ?thesis
    by (simp add: le_of_word_def drop_bit_drop_bit add.commute)
qed

lemma bit_word_of_le:
  "bit (word_of_le bs :: 'a::len word) k \<longleftrightarrow>
     k < LENGTH('a) \<and> k div 8 < length bs \<and> bit (bs ! (k div 8)) (k mod 8)"
proof (induction bs arbitrary: k)
  case Nil
  then show ?case by simp
next
  case (Cons b bs)
  show ?case
  proof (cases "k < 8")
    case True
    then show ?thesis by (auto simp: bit_simps)
  next
    case False
    then obtain j where j: "k = 8 + j" using le_Suc_ex by (metis not_less)
    have "\<not> bit b (8 + j)" using bit_imp_le_length[of b "8 + j"] by auto
    moreover have "(8 + j) div 8 = Suc (j div 8)" by simp
    ultimately show ?thesis using Cons.IH[of j] by (auto simp: bit_simps j)
  qed
qed

lemma word_of_le_of_word:
  assumes "LENGTH('a::len) \<le> 8 * n"
  shows "word_of_le (le_of_word n (w :: 'a word)) = w"
proof (rule bit_word_eqI)
  fix k assume k: "k < LENGTH('a)"
  then have "k div 8 < n" using assms by linarith
  then show "bit (word_of_le (le_of_word n w) :: 'a word) k \<longleftrightarrow> bit w k"
    using k by (auto simp: bit_word_of_le le_of_word_def bit_simps)
qed

lemma le_of_word_of_le:
  assumes "8 * length bs \<le> LENGTH('a)"
  shows "le_of_word (length bs) (word_of_le bs :: 'a::len word) = bs"
proof (rule nth_equalityI)
  fix i assume i: "i < length (le_of_word (length bs) (word_of_le bs :: 'a word))"
  then have il: "i < length bs" by simp
  show "le_of_word (length bs) (word_of_le bs :: 'a word) ! i = bs ! i"
  proof (rule bit_word_eqI)
    fix k :: nat assume k: "k < LENGTH(8)"
    have "8 * i + k < LENGTH('a)" using il k assms by simp
    moreover have "(8 * i + k) div 8 = i" "(8 * i + k) mod 8 = k" using k by simp_all
    ultimately show "bit (le_of_word (length bs) (word_of_le bs :: 'a word) ! i) k \<longleftrightarrow> bit (bs ! i) k"
      using il k by (simp add: le_of_word_def bit_word_of_le bit_simps ac_simps)
  qed
qed simp

section \<open>Words\<close>

lemma unat_diff_le: "b \<le> a \<Longrightarrow> unat (a - b) = unat a - unat (b :: 'a::len word)"
  by (simp add: unat_sub word_le_nat_alt)

lemma unat_less_two_power: "unat (w :: 'a::len word) < 2 ^ LENGTH('a)"
  by (rule unsigned_less)

lemma unat_word_of_nat: "n < 2 ^ LENGTH('a) \<Longrightarrow> unat (word_of_nat n :: 'a::len word) = n"
  by (simp add: unsigned_of_nat take_bit_nat_eq_self)

lemma unat_inc_less:
  assumes "n < (m :: 'a::len word)"
  shows "unat (n + 1) = Suc (unat n)"
proof -
  have "Suc (unat n) < 2 ^ LENGTH('a)"
    using assms unat_less_two_power[of m] unfolding word_less_nat_alt by linarith
  then show ?thesis by (simp add: unat_word_ariths)
qed

lemma ucast_u32:
  "unat (ucast (n :: u32) :: size_t) = unat n" "(ucast n :: size_t) = 0 \<longleftrightarrow> n = 0"
  "(ucast m :: size_t) < ucast n \<longleftrightarrow> (m :: u32) < n"
proof -
  show u: "unat (ucast (n :: u32) :: size_t) = unat n" for n
    using unat_less_two_power[of n] by (simp add: unsigned_ucast_eq take_bit_nat_eq_self)
  show "(ucast n :: size_t) = 0 \<longleftrightarrow> n = 0" using u[of n] by (metis unat_eq_zero)
  show "(ucast m :: size_t) < ucast n \<longleftrightarrow> m < n" by (simp add: word_less_nat_alt u)
qed

lemma drop_bit_less:
  assumes "0 < n" and "w \<noteq> 0"
  shows "drop_bit n w < (w :: 'a::len word)"
proof -
  have pos: "0 < unat w" using assms(2) by (simp add: unat_gt_0)
  have "unat (drop_bit n w) = unat w div 2 ^ n"
    by (simp add: unat_drop_bit_eq flip: drop_bit_eq_div)
  also have "\<dots> < unat w"
    using pos assms(1) one_less_power[of "2 :: nat" n] by (intro div_less_dividend) simp_all
  finally show ?thesis by (simp add: word_less_nat_alt)
qed

lemma and_0x80_iff: "(b :: byte) AND 0x80 = 0 \<longleftrightarrow> \<not> bit b 7"
  using and_exp_eq_0_iff_not_bit[of b 7] by simp

end
