(* ===== verification/C_Memory.thy ===== *)
theory C_Memory
  imports Prelude
begin

text \<open>
  The memory that message structures live in: a byte for every address, and the list of
  blocks that \<^verbatim>\<open>realloc\<close> has handed out. Typed access is little endian, as on the
  platforms the pods are built for. \<open>c_realloc\<close> and \<open>c_free\<close> model the two C library
  functions the decoder calls; where a new block is placed, and whether there is room for
  it, is decided by an allocator passed as an argument.
\<close>

type_synonym addr = int

record heap =
  hbytes :: "addr \<Rightarrow> byte"
  live :: "(addr \<times> nat) list"

section \<open>Raw access\<close>

definition load :: "heap \<Rightarrow> addr \<Rightarrow> nat \<Rightarrow> byte list" where
  "load h a n = map (\<lambda>i. hbytes h (a + int i)) [0..<n]"

definition store :: "addr \<Rightarrow> byte list \<Rightarrow> heap \<Rightarrow> heap" where
  "store a bs h =
     h\<lparr>hbytes := \<lambda>x. if a \<le> x \<and> x < a + int (length bs) then bs ! nat (x - a) else hbytes h x\<rparr>"

definition region :: "addr \<Rightarrow> nat \<Rightarrow> addr set" where
  "region a n = {a ..< a + int n}"

lemma length_load [simp]: "length (load h a n) = n"
  by (simp add: load_def)

lemma live_store [simp]: "live (store a bs h) = live h"
  by (simp add: store_def)

lemma in_region [simp]: "x \<in> region a n \<longleftrightarrow> a \<le> x \<and> x < a + int n"
  by (auto simp: region_def)

lemma region_0 [simp]: "region a 0 = {}"
  by (auto simp: region_def)

lemma region_mono: "a \<le> b \<Longrightarrow> b + int m \<le> a + int n \<Longrightarrow> region b m \<subseteq> region a n"
  by (auto simp: region_def)

lemma region_part: "region a n \<subseteq> A \<Longrightarrow> k + m \<le> n \<Longrightarrow> region (a + int k) m \<subseteq> A"
  by (rule order_trans[OF region_mono]) auto

lemma region_prefix: "region a n \<subseteq> A \<Longrightarrow> m \<le> n \<Longrightarrow> region a m \<subseteq> A"
  using region_part[of a n A 0 m] by simp

lemma load_store_same [simp]: "n = length bs \<Longrightarrow> load (store a bs h) a n = bs"
  by (rule nth_equalityI) (simp_all add: load_def store_def)

lemma load_store_disjoint:
  assumes "region a (length bs) \<inter> region b n = {}"
  shows "load (store a bs h) b n = load h b n"
proof (rule nth_equalityI)
  fix i assume "i < length (load (store a bs h) b n)"
  then have i: "i < n" by simp
  then have "b + int i \<in> region b n" by simp
  then have "b + int i \<notin> region a (length bs)" using assms by blast
  then show "load (store a bs h) b n ! i = load h b n ! i"
    using i by (auto simp: load_def store_def)
qed simp

lemma load_cong: "(\<And>x. x \<in> region a n \<Longrightarrow> hbytes h x = hbytes h' x) \<Longrightarrow> load h a n = load h' a n"
  by (auto simp: load_def)

lemma load_add: "load h a (m + n) = load h a m @ load h (a + int m) n"
proof (rule nth_equalityI)
  fix i assume "i < length (load h a (m + n))"
  then show "load h a (m + n) ! i = (load h a m @ load h (a + int m) n) ! i"
    by (cases "i < m") (auto simp: load_def nth_append)
qed simp

section \<open>Typed access\<close>

definition load_u32 :: "heap \<Rightarrow> addr \<Rightarrow> u32" where
  "load_u32 h a = word_of_le (load h a 4)"

definition store_u32 :: "addr \<Rightarrow> u32 \<Rightarrow> heap \<Rightarrow> heap" where
  "store_u32 a v = store a (le_of_word 4 v)"

definition load_bool :: "heap \<Rightarrow> addr \<Rightarrow> bool" where
  "load_bool h a \<longleftrightarrow> hbytes h a \<noteq> 0"

definition store_bool :: "addr \<Rightarrow> bool \<Rightarrow> heap \<Rightarrow> heap" where
  "store_bool a b = store a [of_bool b]"

definition load_ptr :: "heap \<Rightarrow> addr \<Rightarrow> addr" where
  "load_ptr h a = uint (word_of_le (load h a 8) :: u64)"

definition store_ptr :: "addr \<Rightarrow> addr \<Rightarrow> heap \<Rightarrow> heap" where
  "store_ptr a p = store a (le_of_word 8 (word_of_int p :: u64))"

definition memset0 :: "addr \<Rightarrow> nat \<Rightarrow> heap \<Rightarrow> heap" where
  "memset0 a n = store a (replicate n 0)"

lemma live_typed_store [simp]:
  "live (store_u32 a v h) = live h" "live (store_bool a b h) = live h"
  "live (store_ptr a p h) = live h" "live (memset0 a n h) = live h"
  by (simp_all add: store_u32_def store_bool_def store_ptr_def memset0_def)

lemma load_store_u32 [simp]: "load_u32 (store_u32 a v h) a = v"
  by (simp add: load_u32_def store_u32_def word_of_le_of_word)

lemma load_store_bool [simp]: "load_bool (store_bool a b h) a = b"
  by (simp add: load_bool_def store_bool_def store_def)

lemma load_store_ptr [simp]:
  "0 \<le> p \<Longrightarrow> p < 2 ^ 64 \<Longrightarrow> load_ptr (store_ptr a p h) a = p"
  by (simp add: load_ptr_def store_ptr_def word_of_le_of_word unsigned_of_int take_bit_int_eq_self)

section \<open>What a write leaves alone\<close>

definition unchanged :: "addr set \<Rightarrow> heap \<Rightarrow> heap \<Rightarrow> bool" where
  "unchanged A h h' \<longleftrightarrow> (\<forall>x. x \<notin> A \<longrightarrow> hbytes h' x = hbytes h x) \<and> live h' = live h"

lemma unchanged_refl [simp, intro]: "unchanged A h h"
  by (simp add: unchanged_def)

lemma unchanged_trans: "unchanged A h h' \<Longrightarrow> unchanged A h' h'' \<Longrightarrow> unchanged A h h''"
  by (simp add: unchanged_def)

lemma unchanged_mono: "unchanged A h h' \<Longrightarrow> A \<subseteq> B \<Longrightarrow> unchanged B h h'"
  by (auto simp: unchanged_def)

lemma unchanged_store: "region a (length bs) \<subseteq> A \<Longrightarrow> unchanged A h (store a bs h)"
  by (auto simp: unchanged_def store_def region_def)

lemma unchanged_typed_store:
  "region a 4 \<subseteq> A \<Longrightarrow> unchanged A h (store_u32 a v h)"
  "region a 1 \<subseteq> A \<Longrightarrow> unchanged A h (store_bool a b h)"
  "region a 8 \<subseteq> A \<Longrightarrow> unchanged A h (store_ptr a p h)"
  "region a n \<subseteq> A \<Longrightarrow> unchanged A h (memset0 a n h)"
  by (simp_all add: store_u32_def store_bool_def store_ptr_def memset0_def unchanged_store)

lemma unchanged_load: "unchanged A h h' \<Longrightarrow> A \<inter> region a n = {} \<Longrightarrow> load h' a n = load h a n"
  by (rule load_cong) (auto simp: unchanged_def)

section \<open>The allocator\<close>

text \<open>
  \<open>pick h n\<close> is the address of a block of \<open>n\<close> bytes, or \<open>None\<close> when the C library
  returns \<^verbatim>\<open>NULL\<close>. A block that grows is copied; the old block is no longer live afterwards.
  Reallocating or freeing an address that is not the start of a live block is undefined.
\<close>

type_synonym allocator = "heap \<Rightarrow> nat \<Rightarrow> addr option"

definition drop_block :: "addr \<Rightarrow> heap \<Rightarrow> heap" where
  "drop_block p h = h\<lparr>live := filter (\<lambda>b. fst b \<noteq> p) (live h)\<rparr>"

definition c_free :: "addr \<Rightarrow> heap \<Rightarrow> (unit, heap) res" where
  "c_free p h = (if p = 0 then (Ok (), h)
                 else if map_of (live h) p = None then (UB, h)
                 else (Ok (), drop_block p h))"

definition c_realloc :: "allocator \<Rightarrow> addr \<Rightarrow> nat \<Rightarrow> heap \<Rightarrow> (addr, heap) res" where
  "c_realloc pick p n h =
     (if p = 0 then
        (case pick h n of None \<Rightarrow> (Ok 0, h) | Some a \<Rightarrow> (Ok a, h\<lparr>live := (a, n) # live h\<rparr>))
      else (case map_of (live h) p of
        None \<Rightarrow> (UB, h)
      | Some old \<Rightarrow>
          (case pick h n of None \<Rightarrow> (Ok 0, h)
           | Some a \<Rightarrow>
               (let h' = drop_block p (store a (load h p (min old n)) h)
                in (Ok a, h'\<lparr>live := (a, n) # live h'\<rparr>)))))"

text \<open>
  The contract of the C library's allocator: a block it returns has a non-null address below
  \<open>2 ^ 64\<close> and overlaps no live block.
\<close>

locale allocation =
  fixes pick :: allocator
  assumes pick_pos: "pick h n = Some a \<Longrightarrow> 0 < a"
    and pick_range: "pick h n = Some a \<Longrightarrow> a + int n < 2 ^ 64"
    and pick_fresh: "pick h n = Some a \<Longrightarrow> (b, m) \<in> set (live h) \<Longrightarrow> region a n \<inter> region b m = {}"
begin

lemma realloc_keeps_contents:
  assumes "c_realloc pick p n h = (Ok a, h')" "a \<noteq> 0" "p \<noteq> 0"
  shows "\<exists>old. map_of (live h) p = Some old \<and> load h' a (min old n) = load h p (min old n)"
  using assms by (auto simp: c_realloc_def Let_def drop_block_def load_def store_def split: option.splits if_splits)

lemma realloc_live: "c_realloc pick p n h = (Ok a, h') \<Longrightarrow> a \<noteq> 0 \<Longrightarrow> map_of (live h') a = Some n"
  by (auto simp: c_realloc_def Let_def split: option.splits if_splits)

lemma realloc_null: "c_realloc pick p n h = (Ok 0, h') \<Longrightarrow> h' = h"
  using pick_pos by (fastforce simp: c_realloc_def Let_def split: option.splits if_splits)

lemma realloc_no_live_block_touched:
  assumes "c_realloc pick p n h = (Ok a, h')" "(b, m) \<in> set (live h)"
  shows "load h' b m = load h b m"
proof -
  have "load (store a (load h p (min old n)) h) b m = load h b m" if "pick h n = Some a" for old
  proof (rule load_store_disjoint)
    have "region a (min old n) \<subseteq> region a n" by (auto simp: region_def)
    then show "region a (length (load h p (min old n))) \<inter> region b m = {}"
      using pick_fresh[OF that assms(2)] by auto
  qed
  moreover have "load (h\<lparr>live := l\<rparr>) b m = load h b m" for h l by (simp add: load_def)
  ultimately show ?thesis
    using assms(1) by (auto simp: c_realloc_def Let_def drop_block_def split: option.splits if_splits)
qed

end

text \<open>
  A bump allocator that serves every request below a limit satisfies the contract.
\<close>

definition heap_top :: "heap \<Rightarrow> addr" where
  "heap_top h = fold (\<lambda>b t. max t (fst b + int (snd b))) (live h) 16"

definition bump :: "addr \<Rightarrow> allocator" where
  "bump limit h n = (if heap_top h + int n < min limit (2 ^ 64) then Some (heap_top h) else None)"

lemma fold_max_ge: "(t :: int) \<le> fold (\<lambda>b t. max t (f b)) bs t"
proof (induction bs arbitrary: t)
  case (Cons b bs)
  from Cons.IH[of "max t (f b)"] show ?case by simp
qed simp

lemma fold_max_in: "b \<in> set bs \<Longrightarrow> (f b :: int) \<le> fold (\<lambda>b t. max t (f b)) bs t"
proof (induction bs arbitrary: t)
  case (Cons c bs)
  show ?case
  proof (cases "b = c")
    case True
    then show ?thesis using fold_max_ge[of "max t (f c)" f bs] by simp
  next
    case False
    then show ?thesis using Cons.IH[of "max t (f c)"] Cons.prems by simp
  qed
qed simp

interpretation bump: allocation "bump limit" for limit
proof
  fix h n a assume "bump limit h n = Some a"
  then have a: "a = heap_top h" "heap_top h + int n < 2 ^ 64"
    by (auto simp: bump_def split: if_splits)
  show "a + int n < 2 ^ 64" using a by simp
  have "16 \<le> heap_top h" unfolding heap_top_def by (rule fold_max_ge)
  then show "0 < a" using a by simp
  fix b m assume "(b, m) \<in> set (live h)"
  then have "b + int m \<le> heap_top h"
    using fold_max_in[of "(b, m)" "live h" "\<lambda>b. fst b + int (snd b)" 16] by (simp add: heap_top_def)
  then show "region a n \<inter> region b m = {}" using a by (auto simp: region_def)
qed

end
