(* ===== verification/Pb_Types.thy ===== *)
theory Pb_Types
  imports C_Memory
begin

text \<open>
  \<^verbatim>\<open>nanopb/pb.h\<close>: the field type codes, the descriptor \<^verbatim>\<open>pb_field_t\<close>, the structures a
  message may hold, and the macros generated files use to write descriptor tables. The pods
  are compiled with \<^verbatim>\<open>PB_FIELD_32BIT\<close>, \<^verbatim>\<open>PB_NO_PACKED_STRUCTS\<close> and \<^verbatim>\<open>PB_ENABLE_MALLOC\<close>.
\<close>

section \<open>Field types\<close>

definition PB_LTYPE_VARINT :: u8 where [simp]: "PB_LTYPE_VARINT = 0x00"
definition PB_LTYPE_UVARINT :: u8 where [simp]: "PB_LTYPE_UVARINT = 0x01"
definition PB_LTYPE_SVARINT :: u8 where [simp]: "PB_LTYPE_SVARINT = 0x02"
definition PB_LTYPE_FIXED32 :: u8 where [simp]: "PB_LTYPE_FIXED32 = 0x03"
definition PB_LTYPE_FIXED64 :: u8 where [simp]: "PB_LTYPE_FIXED64 = 0x04"
definition PB_LTYPE_LAST_PACKABLE :: u8 where [simp]: "PB_LTYPE_LAST_PACKABLE = 0x04"
definition PB_LTYPE_BYTES :: u8 where [simp]: "PB_LTYPE_BYTES = 0x05"
definition PB_LTYPE_STRING :: u8 where [simp]: "PB_LTYPE_STRING = 0x06"
definition PB_LTYPE_SUBMESSAGE :: u8 where [simp]: "PB_LTYPE_SUBMESSAGE = 0x07"
definition PB_LTYPE_EXTENSION :: u8 where [simp]: "PB_LTYPE_EXTENSION = 0x08"
definition PB_LTYPE_FIXED_LENGTH_BYTES :: u8 where [simp]: "PB_LTYPE_FIXED_LENGTH_BYTES = 0x09"

definition PB_HTYPE_REQUIRED :: u8 where [simp]: "PB_HTYPE_REQUIRED = 0x00"
definition PB_HTYPE_OPTIONAL :: u8 where [simp]: "PB_HTYPE_OPTIONAL = 0x10"
definition PB_HTYPE_REPEATED :: u8 where [simp]: "PB_HTYPE_REPEATED = 0x20"
definition PB_HTYPE_ONEOF :: u8 where [simp]: "PB_HTYPE_ONEOF = 0x30"

definition PB_ATYPE_STATIC :: u8 where [simp]: "PB_ATYPE_STATIC = 0x00"
definition PB_ATYPE_POINTER :: u8 where [simp]: "PB_ATYPE_POINTER = 0x80"
definition PB_ATYPE_CALLBACK :: u8 where [simp]: "PB_ATYPE_CALLBACK = 0x40"

definition PB_ATYPE :: "u8 \<Rightarrow> u8" where "PB_ATYPE x = x AND 0xC0"
definition PB_HTYPE :: "u8 \<Rightarrow> u8" where "PB_HTYPE x = x AND 0x30"
definition PB_LTYPE :: "u8 \<Rightarrow> u8" where "PB_LTYPE x = x AND 0x0F"

text \<open>\<^verbatim>\<open>PB_FIELD_32BIT\<close>: \<^verbatim>\<open>pb_size_t\<close> is \<^verbatim>\<open>uint32_t\<close>, \<^verbatim>\<open>pb_ssize_t\<close> its signed twin.\<close>

type_synonym pb_size_t = u32
type_synonym pb_ssize_t = u32

definition PB_SIZE_MAX :: pb_size_t where [simp]: "PB_SIZE_MAX = 0xFFFFFFFF"

text \<open>The wire types; a decoded tag may also carry one of the unused codes 3, 4, 6 and 7.\<close>

type_synonym pb_wire_type_t = u32

definition PB_WT_VARINT :: pb_wire_type_t where [simp]: "PB_WT_VARINT = 0"
definition PB_WT_64BIT :: pb_wire_type_t where [simp]: "PB_WT_64BIT = 1"
definition PB_WT_STRING :: pb_wire_type_t where [simp]: "PB_WT_STRING = 2"
definition PB_WT_32BIT :: pb_wire_type_t where [simp]: "PB_WT_32BIT = 5"

section \<open>Descriptors\<close>

text \<open>
  \<^verbatim>\<open>ptr\<close> points to the descriptors of a submessage or to a default value. The model follows
  the pointer: a descriptor holds the table it refers to. A table that refers to itself is
  therefore not representable; the generated tables of this repository do not.
  The signed \<^verbatim>\<open>size_offset\<close> is kept as a word and read with \<open>sint\<close>.
\<close>

datatype pb_field_t =
    Pb_field (tag: pb_size_t) (ftype: u8) (data_offset: pb_size_t) (size_offset: pb_ssize_t)
             (data_size: pb_size_t) (array_size: pb_size_t) (ptr: pb_ptr)
and pb_ptr = Null | Submsg "pb_field_t list" | Default "byte list"

definition PB_LAST_FIELD :: pb_field_t where
  "PB_LAST_FIELD = Pb_field 0 0 0 0 0 0 Null"

text \<open>
  A table is the array up to and including the entry that ends it. Reading past the array
  yields the terminator, which well-formed tables never do.
\<close>

definition field_at :: "pb_field_t list \<Rightarrow> nat \<Rightarrow> pb_field_t" where
  "field_at fs i = (if i < length fs then fs ! i else PB_LAST_FIELD)"

lemma tag_PB_LAST_FIELD [simp]: "tag PB_LAST_FIELD = 0"
  by (simp add: PB_LAST_FIELD_def)

lemma field_at_tag: "tag (field_at fs i) \<noteq> 0 \<Longrightarrow> i < length fs"
  by (auto simp: field_at_def split: if_splits)

lemma field_at_mem: "tag (field_at fs i) \<noteq> 0 \<Longrightarrow> field_at fs i \<in> set fs"
  by (auto simp: field_at_def split: if_splits)

section \<open>Structures found in a message\<close>

text \<open>\<^verbatim>\<open>pb_bytes_array_t\<close>: \<^verbatim>\<open>pb_size_t size\<close> at 0, \<^verbatim>\<open>pb_byte_t bytes[1]\<close> at 4.\<close>

definition bytes_size :: "heap \<Rightarrow> addr \<Rightarrow> pb_size_t" where
  "bytes_size h a = load_u32 h a"

definition bytes_bytes :: "addr \<Rightarrow> addr" where
  "bytes_bytes a = a + 4"

definition PB_BYTES_ARRAY_T_ALLOCSIZE :: "u32 \<Rightarrow> size_t" where
  "PB_BYTES_ARRAY_T_ALLOCSIZE n = ucast n + 4"

text \<open>\<^verbatim>\<open>pb_callback_t\<close>: the function pointer at 0 and \<^verbatim>\<open>arg\<close> at 8.\<close>

definition callback_func :: "heap \<Rightarrow> addr \<Rightarrow> addr" where
  "callback_func h a = load_ptr h a"

definition callback_arg :: "addr \<Rightarrow> addr" where
  "callback_arg a = a + 8"

text \<open>\<^verbatim>\<open>pb_extension_type_t\<close>: \<^verbatim>\<open>decode\<close> at 0, \<^verbatim>\<open>encode\<close> at 8, \<^verbatim>\<open>arg\<close> at 16.\<close>

definition exttype_decode :: "heap \<Rightarrow> addr \<Rightarrow> addr" where
  "exttype_decode h a = load_ptr h a"

definition exttype_encode :: "heap \<Rightarrow> addr \<Rightarrow> addr" where
  "exttype_encode h a = load_ptr h (a + 8)"

definition exttype_arg :: "heap \<Rightarrow> addr \<Rightarrow> addr" where
  "exttype_arg h a = load_ptr h (a + 16)"

text \<open>\<^verbatim>\<open>pb_extension_t\<close>: \<^verbatim>\<open>type\<close> at 0, \<^verbatim>\<open>dest\<close> at 8, \<^verbatim>\<open>next\<close> at 16, \<^verbatim>\<open>found\<close> at 24.\<close>

definition ext_type :: "heap \<Rightarrow> addr \<Rightarrow> addr" where
  "ext_type h a = load_ptr h a"

definition ext_dest_field :: "addr \<Rightarrow> addr" where
  "ext_dest_field a = a + 8"

definition ext_dest :: "heap \<Rightarrow> addr \<Rightarrow> addr" where
  "ext_dest h a = load_ptr h (ext_dest_field a)"

definition ext_next :: "heap \<Rightarrow> addr \<Rightarrow> addr" where
  "ext_next h a = load_ptr h (a + 16)"

definition ext_found_field :: "addr \<Rightarrow> addr" where
  "ext_found_field a = a + 24"

section \<open>Layout of a C structure\<close>

text \<open>
  The macros below use \<^verbatim>\<open>offsetof\<close> and \<^verbatim>\<open>sizeof\<close>. A structure is the list of its members
  with their sizes and alignments; \<open>m_elem\<close> is the size of \<^verbatim>\<open>m[0]\<close> for arrays and pointers, and \<open>m_type\<close> is the
  type of the member, or of what it points to: an integer, \<^verbatim>\<open>pb_bytes_array_t\<close>, or the named message structure.
\<close>

datatype c_type = C_integer | C_bytes | C_message string

record member =
  m_name :: string
  m_size :: nat
  m_align :: nat
  m_elem :: nat
  m_type :: c_type

definition align_up :: "nat \<Rightarrow> nat \<Rightarrow> nat" where
  "align_up n a = (n + a - 1) div a * a"

fun offsets :: "nat \<Rightarrow> member list \<Rightarrow> (string \<times> nat) list" where
  "offsets n [] = []"
| "offsets n (m # ms) =
     (let off = align_up n (m_align m) in (m_name m, off) # offsets (off + m_size m) ms)"

fun struct_end :: "nat \<Rightarrow> member list \<Rightarrow> nat" where
  "struct_end n [] = n"
| "struct_end n (m # ms) = struct_end (align_up n (m_align m) + m_size m) ms"

definition struct_align :: "member list \<Rightarrow> nat" where
  "struct_align st = fold (max \<circ> m_align) st 1"

definition sizeof_struct :: "member list \<Rightarrow> nat" where
  "sizeof_struct st = align_up (struct_end 0 st) (struct_align st)"

definition find_member :: "member list \<Rightarrow> string \<Rightarrow> member" where
  "find_member st m =
     (case List.find (\<lambda>x. m_name x = m) st of Some x \<Rightarrow> x
      | None \<Rightarrow> \<lparr>m_name = m, m_size = 0, m_align = 1, m_elem = 0, m_type = C_integer\<rparr>)"

definition offsetof :: "member list \<Rightarrow> string \<Rightarrow> nat" where
  "offsetof st m = (case map_of (offsets 0 st) m of Some n \<Rightarrow> n | None \<Rightarrow> 0)"

definition pb_membersize :: "member list \<Rightarrow> string \<Rightarrow> nat" where
  "pb_membersize st m = m_size (find_member st m)"

definition pb_elemsize :: "member list \<Rightarrow> string \<Rightarrow> nat" where
  "pb_elemsize st m = m_elem (find_member st m)"

definition pb_arraysize :: "member list \<Rightarrow> string \<Rightarrow> nat" where
  "pb_arraysize st m = pb_membersize st m div pb_elemsize st m"

definition pb_delta :: "member list \<Rightarrow> string \<Rightarrow> string \<Rightarrow> pb_ssize_t" where
  "pb_delta st m1 m2 = word_of_int (int (offsetof st m1) - int (offsetof st m2))"

datatype placement = FIRST | OTHER | UNION

definition PB_DATAOFFSET :: "placement \<Rightarrow> member list \<Rightarrow> string \<Rightarrow> string \<Rightarrow> pb_size_t" where
  "PB_DATAOFFSET pl st m1 m2 =
     (case pl of
        FIRST \<Rightarrow> word_of_nat (offsetof st m1)
      | OTHER \<Rightarrow> word_of_int (int (offsetof st m1) - int (offsetof st m2) - int (pb_membersize st m2))
      | UNION \<Rightarrow> PB_SIZE_MAX)"

section \<open>The descriptor macros\<close>

datatype rules = REQUIRED | OPTIONAL | SINGULAR | REPEATED | OPTEXT
datatype allocation_type = STATIC | POINTER | CALLBACK
datatype proto_type = BOOL | BYTES | DOUBLE | ENUM | UENUM | FIXED32 | FIXED64 | FLOAT | INT32
  | INT64 | MESSAGE | SFIXED32 | SFIXED64 | SINT32 | SINT64 | STRING | UINT32 | UINT64
  | EXTENSION | FIXED_LENGTH_BYTES

fun PB_LTYPE_MAP :: "proto_type \<Rightarrow> u8" where
  "PB_LTYPE_MAP BOOL = PB_LTYPE_VARINT"
| "PB_LTYPE_MAP BYTES = PB_LTYPE_BYTES"
| "PB_LTYPE_MAP DOUBLE = PB_LTYPE_FIXED64"
| "PB_LTYPE_MAP ENUM = PB_LTYPE_VARINT"
| "PB_LTYPE_MAP UENUM = PB_LTYPE_UVARINT"
| "PB_LTYPE_MAP FIXED32 = PB_LTYPE_FIXED32"
| "PB_LTYPE_MAP FIXED64 = PB_LTYPE_FIXED64"
| "PB_LTYPE_MAP FLOAT = PB_LTYPE_FIXED32"
| "PB_LTYPE_MAP INT32 = PB_LTYPE_VARINT"
| "PB_LTYPE_MAP INT64 = PB_LTYPE_VARINT"
| "PB_LTYPE_MAP MESSAGE = PB_LTYPE_SUBMESSAGE"
| "PB_LTYPE_MAP SFIXED32 = PB_LTYPE_FIXED32"
| "PB_LTYPE_MAP SFIXED64 = PB_LTYPE_FIXED64"
| "PB_LTYPE_MAP SINT32 = PB_LTYPE_SVARINT"
| "PB_LTYPE_MAP SINT64 = PB_LTYPE_SVARINT"
| "PB_LTYPE_MAP STRING = PB_LTYPE_STRING"
| "PB_LTYPE_MAP UINT32 = PB_LTYPE_UVARINT"
| "PB_LTYPE_MAP UINT64 = PB_LTYPE_UVARINT"
| "PB_LTYPE_MAP EXTENSION = PB_LTYPE_EXTENSION"
| "PB_LTYPE_MAP FIXED_LENGTH_BYTES = PB_LTYPE_FIXED_LENGTH_BYTES"

definition has_name :: "string \<Rightarrow> string" where "has_name m = ''has_'' @ m"
definition count_name :: "string \<Rightarrow> string" where "count_name m = m @ ''_count''"
definition which_name :: "string \<Rightarrow> string" where "which_name u = ''which_'' @ u"

text \<open>
  The fifteen macros that \<^verbatim>\<open>PB_FIELD\<close> selects by pasting \<^verbatim>\<open>rules\<close> and \<^verbatim>\<open>allocation\<close>.
\<close>

fun pb_rule_macro :: "rules \<Rightarrow> allocation_type \<Rightarrow> pb_size_t \<Rightarrow> member list \<Rightarrow> string \<Rightarrow> pb_size_t
    \<Rightarrow> u8 \<Rightarrow> pb_ptr \<Rightarrow> pb_field_t" where
  "pb_rule_macro REQUIRED STATIC t st m fd lt p =
     Pb_field t (PB_ATYPE_STATIC OR PB_HTYPE_REQUIRED OR lt) fd 0 (word_of_nat (pb_membersize st m)) 0 p"
| "pb_rule_macro OPTIONAL STATIC t st m fd lt p =
     Pb_field t (PB_ATYPE_STATIC OR PB_HTYPE_OPTIONAL OR lt) fd (pb_delta st (has_name m) m)
       (word_of_nat (pb_membersize st m)) 0 p"
| "pb_rule_macro SINGULAR STATIC t st m fd lt p =
     Pb_field t (PB_ATYPE_STATIC OR PB_HTYPE_OPTIONAL OR lt) fd 0 (word_of_nat (pb_membersize st m)) 0 p"
| "pb_rule_macro REPEATED STATIC t st m fd lt p =
     Pb_field t (PB_ATYPE_STATIC OR PB_HTYPE_REPEATED OR lt) fd (pb_delta st (count_name m) m)
       (word_of_nat (pb_elemsize st m)) (word_of_nat (pb_arraysize st m)) p"
| "pb_rule_macro REQUIRED POINTER t st m fd lt p =
     Pb_field t (PB_ATYPE_POINTER OR PB_HTYPE_REQUIRED OR lt) fd 0 (word_of_nat (pb_elemsize st m)) 0 p"
| "pb_rule_macro OPTIONAL POINTER t st m fd lt p =
     Pb_field t (PB_ATYPE_POINTER OR PB_HTYPE_OPTIONAL OR lt) fd 0 (word_of_nat (pb_elemsize st m)) 0 p"
| "pb_rule_macro SINGULAR POINTER t st m fd lt p =
     Pb_field t (PB_ATYPE_POINTER OR PB_HTYPE_OPTIONAL OR lt) fd 0 (word_of_nat (pb_elemsize st m)) 0 p"
| "pb_rule_macro REPEATED POINTER t st m fd lt p =
     Pb_field t (PB_ATYPE_POINTER OR PB_HTYPE_REPEATED OR lt) fd (pb_delta st (count_name m) m)
       (word_of_nat (pb_elemsize st m)) 0 p"
| "pb_rule_macro REQUIRED CALLBACK t st m fd lt p =
     Pb_field t (PB_ATYPE_CALLBACK OR PB_HTYPE_REQUIRED OR lt) fd 0 (word_of_nat (pb_membersize st m)) 0 p"
| "pb_rule_macro OPTIONAL CALLBACK t st m fd lt p =
     Pb_field t (PB_ATYPE_CALLBACK OR PB_HTYPE_OPTIONAL OR lt) fd 0 (word_of_nat (pb_membersize st m)) 0 p"
| "pb_rule_macro SINGULAR CALLBACK t st m fd lt p =
     Pb_field t (PB_ATYPE_CALLBACK OR PB_HTYPE_OPTIONAL OR lt) fd 0 (word_of_nat (pb_membersize st m)) 0 p"
| "pb_rule_macro REPEATED CALLBACK t st m fd lt p =
     Pb_field t (PB_ATYPE_CALLBACK OR PB_HTYPE_REPEATED OR lt) fd 0 (word_of_nat (pb_membersize st m)) 0 p"
| "pb_rule_macro OPTEXT STATIC t st m fd lt p =
     Pb_field t (PB_ATYPE_STATIC OR PB_HTYPE_REQUIRED OR lt) 0 0 (word_of_nat (pb_membersize st m)) 0 p"
| "pb_rule_macro OPTEXT POINTER t st m fd lt p =
     Pb_field t (PB_ATYPE_POINTER OR PB_HTYPE_OPTIONAL OR lt) fd 0 (word_of_nat (pb_elemsize st m)) 0 p"
| "pb_rule_macro OPTEXT CALLBACK t st m fd lt p =
     Pb_field t (PB_ATYPE_CALLBACK OR PB_HTYPE_OPTIONAL OR lt) fd 0 (word_of_nat (pb_membersize st m)) 0 p"

definition PB_FIELD :: "pb_size_t \<Rightarrow> proto_type \<Rightarrow> rules \<Rightarrow> allocation_type \<Rightarrow> placement
    \<Rightarrow> member list \<Rightarrow> string \<Rightarrow> string \<Rightarrow> pb_ptr \<Rightarrow> pb_field_t" where
  "PB_FIELD t ty r al pl st m prev p =
     pb_rule_macro r al t st m (PB_DATAOFFSET pl st m prev) (PB_LTYPE_MAP ty) p"

definition PB_REPEATED_FIXED_COUNT :: "pb_size_t \<Rightarrow> proto_type \<Rightarrow> placement
    \<Rightarrow> member list \<Rightarrow> string \<Rightarrow> string \<Rightarrow> pb_ptr \<Rightarrow> pb_field_t" where
  "PB_REPEATED_FIXED_COUNT t ty pl st m prev p =
     Pb_field t (PB_ATYPE_STATIC OR PB_HTYPE_REPEATED OR PB_LTYPE_MAP ty) (PB_DATAOFFSET pl st m prev) 0
       (word_of_nat (pb_elemsize st m)) (word_of_nat (pb_arraysize st m)) p"

text \<open>
  The macros for members of a union \<open>u\<close>, whose members all start at the offset of \<open>u\<close>. \<open>n\<close> is
  \<^verbatim>\<open>pb_membersize(st, u.m)\<close>, or the size of \<^verbatim>\<open>u.m[0]\<close> for a pointer. There is no macro for a
  callback inside a union.
\<close>

definition PB_ONEOF_STATIC ::
    "string \<Rightarrow> pb_size_t \<Rightarrow> member list \<Rightarrow> nat \<Rightarrow> pb_size_t \<Rightarrow> u8 \<Rightarrow> pb_ptr \<Rightarrow> pb_field_t" where
  "PB_ONEOF_STATIC u t st n fd lt p =
     Pb_field t (PB_ATYPE_STATIC OR PB_HTYPE_ONEOF OR lt) fd (pb_delta st (which_name u) u)
       (word_of_nat n) 0 p"

definition PB_ONEOF_POINTER ::
    "string \<Rightarrow> pb_size_t \<Rightarrow> member list \<Rightarrow> nat \<Rightarrow> pb_size_t \<Rightarrow> u8 \<Rightarrow> pb_ptr \<Rightarrow> pb_field_t" where
  "PB_ONEOF_POINTER u t st n fd lt p =
     Pb_field t (PB_ATYPE_POINTER OR PB_HTYPE_ONEOF OR lt) fd (pb_delta st (which_name u) u)
       (word_of_nat n) 0 p"

end
