(* ===== verification/Pb_Common.thy ===== *)
theory Pb_Common
  imports Pb_Types
begin

text \<open>
  \<^verbatim>\<open>nanopb/pb_common.c\<close>: the iterator that walks a descriptor table and, in step, the message
  structure. The table is an array; \<open>pos\<close> is an index into it. The main results are that the
  iterator started at the beginning visits every field once with the data pointer of that
  field, wraps back to its first state, and that a search ends and finds a field exactly
  when the table has one.
\<close>

section \<open>The iterator\<close>

text \<open>
  \<^verbatim>\<open>pSize\<close> points into the message, or, while a repeated field of fixed count is decoded, at the
  local counter \<^verbatim>\<open>fixed_count_size\<close> of the decoder (\<open>Local\<close>).
\<close>

datatype size_ptr = At addr | Local

record pb_field_iter_t =
  start :: "pb_field_t list"
  pos :: nat
  required_field_index :: u32
  dest_struct :: addr
  pData :: addr
  pSize :: size_ptr

abbreviation cur :: "pb_field_iter_t \<Rightarrow> pb_field_t" where
  "cur it \<equiv> field_at (start it) (pos it)"

definition pb_field_iter_begin :: "pb_field_t list \<Rightarrow> addr \<Rightarrow> bool \<times> pb_field_iter_t" where
  "pb_field_iter_begin fs dest =
     (let f = field_at fs 0;
          pd = dest + uint (data_offset f)
      in (tag f \<noteq> 0,
          \<lparr>start = fs, pos = 0, required_field_index = 0, dest_struct = dest,
           pData = pd, pSize = At (pd + sint (size_offset f))\<rparr>))"

definition pb_field_iter_next :: "pb_field_iter_t \<Rightarrow> bool \<times> pb_field_iter_t" where
  "pb_field_iter_next it =
     (let prev_field = cur it in
      if tag prev_field = 0 then (False, it)
      else
        let it1 = it\<lparr>pos := pos it + 1\<rparr>; f = cur it1 in
        if tag f = 0 then (False, snd (pb_field_iter_begin (start it) (dest_struct it)))
        else if PB_HTYPE (ftype prev_field) = PB_HTYPE_ONEOF \<and> PB_HTYPE (ftype f) = PB_HTYPE_ONEOF
                \<and> data_offset f = PB_SIZE_MAX
        then (True, it1)
        else
          let prev_size =
                (if PB_ATYPE (ftype prev_field) = PB_ATYPE_STATIC
                    \<and> PB_HTYPE (ftype prev_field) = PB_HTYPE_REPEATED
                 then uint (data_size prev_field) * uint (array_size prev_field)
                 else if PB_ATYPE (ftype prev_field) = PB_ATYPE_POINTER then 8
                 else uint (data_size prev_field));
              it2 = (if PB_HTYPE (ftype prev_field) = PB_HTYPE_REQUIRED
                     then it1\<lparr>required_field_index := required_field_index it1 + 1\<rparr> else it1);
              pd = pData it + prev_size + uint (data_offset f)
          in (True, it2\<lparr>pData := pd, pSize := At (pd + sint (size_offset f))\<rparr>))"

text \<open>
  \<^verbatim>\<open>do { if (found) return true; next; } while (iter->pos != start); return false;\<close> with the
  test \<open>P\<close> on the current field. An iterator that is not on the cycle of its table would loop
  for ever; \<open>None\<close> stands for that. The bound is one more than the number of entries.
\<close>

fun iter_search :: "nat \<Rightarrow> (pb_field_t \<Rightarrow> bool) \<Rightarrow> nat \<Rightarrow> pb_field_iter_t \<Rightarrow> (bool \<times> pb_field_iter_t) option" where
  "iter_search 0 P st it = None"
| "iter_search (Suc n) P st it =
     (if P (cur it) then Some (True, it)
      else let it' = snd (pb_field_iter_next it)
           in if pos it' \<noteq> st then iter_search n P st it' else Some (False, it'))"

definition pb_field_iter_find :: "pb_field_iter_t \<Rightarrow> u32 \<Rightarrow> (bool \<times> pb_field_iter_t) option" where
  "pb_field_iter_find it t =
     iter_search (Suc (length (start it)))
       (\<lambda>f. tag f = t \<and> PB_LTYPE (ftype f) \<noteq> PB_LTYPE_EXTENSION) (pos it) it"

section \<open>Walking a table\<close>

text \<open>
  \<^verbatim>\<open>do { body(&iter) } while (pb_field_iter_next(&iter))\<close>, for a body that may fail.
\<close>

lemma pb_field_iter_next_True:
  assumes "pb_field_iter_next it = (True, it')"
  shows "start it' = start it" "pos it' = Suc (pos it)" "dest_struct it' = dest_struct it"
    "pos it' < length (start it)" "tag (cur it') \<noteq> 0" "tag (cur it) \<noteq> 0"
  using assms field_at_tag[of "start it" "Suc (pos it)"]
  by (auto simp: pb_field_iter_next_def Let_def split: if_splits)

lemma iter_next_measure:
  assumes "(b, it') = pb_field_iter_next it" "b"
  shows "length (start it') - pos it' < length (start it) - pos it"
proof -
  have "pb_field_iter_next it = (True, it')" using assms by simp
  from pb_field_iter_next_True[OF this] show ?thesis by simp
qed

function iter_loop :: "(pb_field_iter_t \<Rightarrow> 's \<Rightarrow> (unit, 's) res) \<Rightarrow> pb_field_iter_t \<Rightarrow> 's \<Rightarrow> (unit, 's) res" where
  "iter_loop body it s =
     checkreturn (body it s)
       (\<lambda>_ s'. case pb_field_iter_next it of
                 (True, it') \<Rightarrow> iter_loop body it' s'
               | (False, _) \<Rightarrow> (Ok (), s'))"
  by pat_completeness auto
termination
  by (relation "measure (\<lambda>(body, it, s). length (start it) - pos it)")
     (auto intro: iter_next_measure)

declare iter_loop.simps [simp del]

section \<open>The cycle of iterator states\<close>

text \<open>
  A table is well formed when its last entry is the terminator and no other entry is.
\<close>

definition table_ok :: "pb_field_t list \<Rightarrow> bool" where
  "table_ok fs \<longleftrightarrow> fs \<noteq> [] \<and> tag (last fs) = 0 \<and> (\<forall>f \<in> set (butlast fs). tag f \<noteq> 0)"

definition n_fields :: "pb_field_t list \<Rightarrow> nat" where
  "n_fields fs = length fs - 1"

fun iter_at :: "pb_field_t list \<Rightarrow> addr \<Rightarrow> nat \<Rightarrow> pb_field_iter_t" where
  "iter_at fs d 0 = snd (pb_field_iter_begin fs d)"
| "iter_at fs d (Suc k) = snd (pb_field_iter_next (iter_at fs d k))"

lemma iter_begin_simps [simp]:
  "start (snd (pb_field_iter_begin fs d)) = fs" "pos (snd (pb_field_iter_begin fs d)) = 0"
  "dest_struct (snd (pb_field_iter_begin fs d)) = d"
  "fst (pb_field_iter_begin fs d) \<longleftrightarrow> tag (field_at fs 0) \<noteq> 0"
  by (simp_all add: pb_field_iter_begin_def Let_def)

lemma table_ok_tag:
  assumes "table_ok fs"
  shows "tag (field_at fs k) \<noteq> 0 \<longleftrightarrow> k < n_fields fs"
proof (cases "k < n_fields fs")
  case True
  then have "fs ! k \<in> set (butlast fs)"
    by (metis n_fields_def length_butlast nth_butlast nth_mem)
  then show ?thesis using True assms by (simp add: table_ok_def field_at_def n_fields_def)
next
  case False
  have "tag (field_at fs k) = 0"
  proof (cases "k < length fs")
    case True
    then have "k = length fs - 1" using False by (simp add: n_fields_def)
    then show ?thesis using assms True
      by (auto simp: table_ok_def field_at_def last_conv_nth)
  qed (simp add: field_at_def)
  then show ?thesis using False by simp
qed

lemma iter_at_inv:
  assumes "table_ok fs" "k < n_fields fs \<or> k = 0"
  shows "start (iter_at fs d k) = fs \<and> dest_struct (iter_at fs d k) = d \<and> pos (iter_at fs d k) = k"
  using assms(2)
proof (induction k)
  case (Suc k)
  then have IH: "start (iter_at fs d k) = fs" "dest_struct (iter_at fs d k) = d" "pos (iter_at fs d k) = k"
    by auto
  have "tag (field_at fs k) \<noteq> 0" "tag (field_at fs (Suc k)) \<noteq> 0"
    using Suc.prems table_ok_tag[OF assms(1)] by auto
  then show ?case using IH by (auto simp: pb_field_iter_next_def Let_def)
qed simp

lemma iter_at_next:
  assumes "table_ok fs" "k < n_fields fs"
  shows "pb_field_iter_next (iter_at fs d k) =
           (if Suc k < n_fields fs then (True, iter_at fs d (Suc k)) else (False, iter_at fs d 0))"
proof -
  have inv: "start (iter_at fs d k) = fs" "dest_struct (iter_at fs d k) = d" "pos (iter_at fs d k) = k"
    using iter_at_inv[OF assms(1)] assms(2) by auto
  have t: "tag (field_at fs k) \<noteq> 0" "tag (field_at fs (Suc k)) \<noteq> 0 \<longleftrightarrow> Suc k < n_fields fs"
    using table_ok_tag[OF assms(1)] assms(2) by auto
  show ?thesis using t by (auto simp: pb_field_iter_next_def Let_def inv)
qed

text \<open>Moving the structure moves the pointers and nothing else.\<close>

definition shift_iter :: "addr \<Rightarrow> pb_field_iter_t \<Rightarrow> pb_field_iter_t" where
  "shift_iter d it = it\<lparr>dest_struct := dest_struct it + d, pData := pData it + d,
                        pSize := (case pSize it of At a \<Rightarrow> At (a + d) | Local \<Rightarrow> Local)\<rparr>"

lemma iter_next_shift:
  "pb_field_iter_next (shift_iter d it) = map_prod id (shift_iter d) (pb_field_iter_next it)"
  by (simp add: pb_field_iter_next_def shift_iter_def Let_def pb_field_iter_begin_def)

lemma iter_at_shift: "iter_at fs (d + e) k = shift_iter e (iter_at fs d k)"
  by (induction k) (simp_all add: iter_next_shift, simp add: pb_field_iter_begin_def shift_iter_def Let_def)

declare iter_at.simps [simp del]

section \<open>Searching\<close>

lemma mod_Suc_cycle:
  fixes n :: nat
  assumes "j < n"
  shows "Suc j mod n = (if Suc j < n then Suc j else 0)"
proof (cases "Suc j < n")
  case False
  then have "Suc j = n" using assms by simp
  then show ?thesis by simp
qed simp

lemma iter_at_step:
  assumes "table_ok fs" "0 < n_fields fs"
  shows "snd (pb_field_iter_next (iter_at fs d (m mod n_fields fs))) = iter_at fs d (Suc m mod n_fields fs)"
proof -
  let ?n = "n_fields fs"
  have m: "m mod ?n < ?n" using assms(2) by simp
  have "Suc m mod ?n = Suc (m mod ?n) mod ?n" by (simp add: mod_Suc_eq)
  then show ?thesis
    using iter_at_next[OF assms(1) m, of d] mod_Suc_cycle[OF m] by (simp split: if_splits)
qed

lemma cycle_back_iff:
  fixes n :: nat
  assumes "k < n" "i < n"
  shows "Suc (k + i) mod n = k \<longleftrightarrow> Suc i = n"
proof
  assume eq: "Suc (k + i) mod n = k"
  show "Suc i = n"
  proof (cases "Suc (k + i) < n")
    case True
    then show ?thesis using eq by simp
  next
    case False
    then have "Suc (k + i) mod n = Suc (k + i) - n"
      using assms by (simp add: mod_if)
    then show ?thesis using eq False assms by simp
  qed
next
  assume "Suc i = n"
  then have "Suc (k + i) = k + n" by simp
  then have "Suc (k + i) mod n = (k + n) mod n" by (simp only:)
  also have "\<dots> = k" using assms(1) by simp
  finally show "Suc (k + i) mod n = k" .
qed

lemma iter_search_cycle:
  assumes ok: "table_ok fs" and k: "k < n_fields fs"
  assumes "i < n_fields fs" "n_fields fs - i \<le> fuel"
    and "\<forall>i' < i. \<not> P (field_at fs ((k + i') mod n_fields fs))"
  shows "\<exists>b j. iter_search fuel P k (iter_at fs d ((k + i) mod n_fields fs)) = Some (b, iter_at fs d j)
     \<and> j < n_fields fs \<and> (b \<longrightarrow> P (field_at fs j))
     \<and> (\<not> b \<longrightarrow> j = k \<and> (\<forall>i' < n_fields fs. \<not> P (field_at fs ((k + i') mod n_fields fs))))"
  using assms(3-)
proof (induction fuel arbitrary: i)
  case 0
  then show ?case by simp
next
  case (Suc fuel)
  let ?n = "n_fields fs" and ?j = "(k + i) mod n_fields fs"
  have j: "?j < ?n" using k by simp
  have inv: "start (iter_at fs d ?j) = fs" "pos (iter_at fs d ?j) = ?j"
    using iter_at_inv[OF ok] j by auto
  have nxt: "snd (pb_field_iter_next (iter_at fs d ?j)) = iter_at fs d (Suc (k + i) mod ?n)"
    using iter_at_step[OF ok] k by simp
  have pos': "pos (iter_at fs d (Suc (k + i) mod ?n)) = Suc (k + i) mod ?n"
    using iter_at_inv[OF ok] k by simp
  show ?case
  proof (cases "P (field_at fs ?j)")
    case True
    then show ?thesis using j by (intro exI[of _ True] exI[of _ ?j]) (simp add: inv)
  next
    case False
    have none: "\<forall>i' < Suc i. \<not> P (field_at fs ((k + i') mod ?n))"
      using Suc.prems(3) False less_Suc_eq by auto
    show ?thesis
    proof (cases "Suc i = ?n")
      case True
      then have wrap: "Suc (k + i) mod ?n = k" using cycle_back_iff[OF k Suc.prems(1)] by simp
      have "iter_search (Suc fuel) P k (iter_at fs d ?j) = Some (False, iter_at fs d k)"
        using False nxt wrap pos' by (simp add: inv Let_def)
      then show ?thesis using none True k by (intro exI[of _ False] exI[of _ k]) simp
    next
      case no_wrap: False
      have "Suc (k + i) mod ?n \<noteq> k" using cycle_back_iff[OF k Suc.prems(1)] no_wrap by simp
      then have "iter_search (Suc fuel) P k (iter_at fs d ?j)
          = iter_search fuel P k (iter_at fs d ((k + Suc i) mod ?n))"
        using False nxt pos' by (simp add: inv Let_def)
      moreover have "Suc i < ?n" "?n - Suc i \<le> fuel" using Suc.prems no_wrap by auto
      ultimately show ?thesis using Suc.IH[of "Suc i"] none by simp
    qed
  qed
qed

lemma all_cycle:
  fixes n :: nat
  assumes "k < n" "\<forall>i < n. Q ((k + i) mod n)" "j < n"
  shows "Q j"
proof (cases "k \<le> j")
  case True
  then have "(k + (j - k)) mod n = j" using assms(3) by simp
  moreover have "j - k < n" using assms(3) by simp
  ultimately show ?thesis using assms(2) by metis
next
  case False
  have "(k + (n - (k - j))) mod n = (j + n) mod n" using False assms(1) by (simp add: algebra_simps)
  then have "(k + (n - (k - j))) mod n = j" using assms(3) by simp
  moreover have "n - (k - j) < n" using False assms(1) by simp
  ultimately show ?thesis using assms(2) by metis
qed

lemma set_butlast_field_at: "set (butlast fs) = field_at fs ` {..< n_fields fs}"
proof -
  have "butlast fs = map (field_at fs) [0..<n_fields fs]"
    by (rule nth_equalityI) (auto simp: n_fields_def field_at_def nth_butlast)
  then show ?thesis by (simp add: atLeast0LessThan)
qed

text \<open>A search started on the cycle ends on the cycle, and finds a field iff there is one.\<close>

lemma iter_search_correct:
  assumes "table_ok fs" "k < n_fields fs"
  obtains b j where
    "iter_search (Suc (length fs)) P k (iter_at fs d k) = Some (b, iter_at fs d j)"
    "j < n_fields fs" "b \<longleftrightarrow> (\<exists>f \<in> set (butlast fs). P f)" "b \<Longrightarrow> P (field_at fs j)" "\<not> b \<Longrightarrow> j = k"
proof -
  have "0 < n_fields fs" "n_fields fs - 0 \<le> Suc (length fs)" "k mod n_fields fs = k"
    using assms(2) by (auto simp: n_fields_def)
  then obtain b j where r: "iter_search (Suc (length fs)) P k (iter_at fs d k) = Some (b, iter_at fs d j)"
      "j < n_fields fs" "b \<longrightarrow> P (field_at fs j)"
      "\<not> b \<longrightarrow> j = k \<and> (\<forall>i' < n_fields fs. \<not> P (field_at fs ((k + i') mod n_fields fs)))"
    using iter_search_cycle[OF assms, of 0 "Suc (length fs)" P d] by auto
  have "b \<longleftrightarrow> (\<exists>f \<in> set (butlast fs). P f)"
  proof (cases b)
    case True
    then show ?thesis using r(2,3) by (auto simp: set_butlast_field_at)
  next
    case False
    then have "\<forall>j < n_fields fs. \<not> P (field_at fs j)"
      using r(4) all_cycle[OF assms(2), of "\<lambda>j. \<not> P (field_at fs j)"] by blast
    then show ?thesis using False by (auto simp: set_butlast_field_at)
  qed
  then show ?thesis using that r by blast
qed

lemma iter_find_on_cycle:
  assumes "table_ok fs" "k < n_fields fs"
  obtains b j where
    "pb_field_iter_find (iter_at fs d k) t = Some (b, iter_at fs d j)" "j < n_fields fs"
    "b \<longleftrightarrow> (\<exists>f \<in> set (butlast fs). tag f = t \<and> PB_LTYPE (ftype f) \<noteq> PB_LTYPE_EXTENSION)"
    "b \<Longrightarrow> tag (field_at fs j) = t \<and> PB_LTYPE (ftype (field_at fs j)) \<noteq> PB_LTYPE_EXTENSION"
    "\<not> b \<Longrightarrow> j = k"
proof -
  let ?P = "\<lambda>f. tag f = t \<and> PB_LTYPE (ftype f) \<noteq> PB_LTYPE_EXTENSION"
  have inv: "start (iter_at fs d k) = fs" "pos (iter_at fs d k) = k"
    using iter_at_inv[OF assms(1)] assms(2) by auto
  have eq: "pb_field_iter_find (iter_at fs d k) t = iter_search (Suc (length fs)) ?P k (iter_at fs d k)"
    by (simp only: pb_field_iter_find_def inv)
  obtain b j where "iter_search (Suc (length fs)) ?P k (iter_at fs d k) = Some (b, iter_at fs d j)"
      "j < n_fields fs" "b \<longleftrightarrow> (\<exists>f \<in> set (butlast fs). ?P f)" "b \<Longrightarrow> ?P (field_at fs j)" "\<not> b \<Longrightarrow> j = k"
    using iter_search_correct[OF assms, of ?P d] by blast
  then show ?thesis using that[of b j] unfolding eq by blast
qed

section \<open>Walking\<close>

lemma iter_loop_steps:
  assumes "table_ok fs" "k < n_fields fs"
  shows "iter_loop body (iter_at fs d k) s = seq_all (map (\<lambda>j. body (iter_at fs d j)) [k..<n_fields fs]) s"
  using assms(2)
proof (induction "n_fields fs - k" arbitrary: k s)
  case (Suc m)
  have "[k..<n_fields fs] = k # [Suc k..<n_fields fs]" using Suc.prems by (simp add: upt_conv_Cons)
  moreover have "Suc k < n_fields fs \<Longrightarrow> iter_loop body (iter_at fs d (Suc k)) s' =
      seq_all (map (\<lambda>j. body (iter_at fs d j)) [Suc k..<n_fields fs]) s'" for s'
    using Suc by (intro Suc.hyps(1)) simp_all
  ultimately show ?case
    by (subst iter_loop.simps) (auto simp: iter_at_next[OF assms(1) Suc.prems] intro!: checkreturn_cong)
qed simp

lemma iter_begin_at:
  assumes "table_ok fs"
  shows "pb_field_iter_begin fs d = (0 < n_fields fs, iter_at fs d 0)"
  using table_ok_tag[OF assms, of 0] by (simp add: iter_at.simps prod_eq_iff)

section \<open>Properties\<close>

text \<open>C23: on a table that ends with \<^verbatim>\<open>PB_LAST_FIELD\<close>, from whatever field the iterator stands on,
  \<^verbatim>\<open>pb_field_iter_find\<close> returns; it returns true exactly when some field of the table has the
  tag and is not an extension range, and then the iterator stands on such a field with the
  pointers a walk from the start of the message would give it; otherwise the iterator is back
  where it was.\<close>

theorem iter_find_correct:
  assumes "table_ok fs" "k < n_fields fs"
  shows "\<exists>b j. pb_field_iter_find (iter_at fs d k) t = Some (b, iter_at fs d j) \<and> j < n_fields fs \<and>
    (b = (\<exists>f \<in> set (butlast fs). tag f = t \<and> PB_LTYPE (ftype f) \<noteq> PB_LTYPE_EXTENSION)) \<and>
    (if b then tag (field_at fs j) = t \<and> PB_LTYPE (ftype (field_at fs j)) \<noteq> PB_LTYPE_EXTENSION else j = k)"
  by (rule iter_find_on_cycle[OF assms, of d t]) auto

theorem iter_find_correct_witness:
  "\<exists>b j. pb_field_iter_find (iter_at [Pb_field 3 0 0 0 4 0 Null, Pb_field 5 0 4 0 4 0 Null, PB_LAST_FIELD] 64 1) 3
      = Some (b, iter_at [Pb_field 3 0 0 0 4 0 Null, Pb_field 5 0 4 0 4 0 Null, PB_LAST_FIELD] 64 j) \<and> b"
  using iter_find_correct[of "[Pb_field 3 0 0 0 4 0 Null, Pb_field 5 0 4 0 4 0 Null, PB_LAST_FIELD]" 1 64 3]
  by (auto simp: table_ok_def n_fields_def PB_LTYPE_def)

text \<open>C24: the loop that encoding, releasing and setting defaults share visits every field of the
  table once, in the order of the table, and stops at the first failure.\<close>

theorem iter_loop_visits_all:
  assumes "table_ok fs" "0 < n_fields fs"
  shows "pb_field_iter_begin fs d = (True, iter_at fs d 0) \<and>
    iter_loop body (iter_at fs d 0) s = seq_all (map (\<lambda>j. body (iter_at fs d j)) [0..<n_fields fs]) s \<and>
    map (\<lambda>j. cur (iter_at fs d j)) [0..<n_fields fs] = butlast fs"
proof -
  have "cur (iter_at fs d j) = fs ! j" if "j < n_fields fs" for j
    using iter_at_inv[OF assms(1), of j d] that by (auto simp: field_at_def n_fields_def)
  then have "map (\<lambda>j. cur (iter_at fs d j)) [0..<n_fields fs] = butlast fs"
    by (intro nth_equalityI) (simp_all add: n_fields_def nth_butlast)
  moreover have "pb_field_iter_begin fs d = (True, iter_at fs d 0)"
    using assms by (simp add: iter_begin_at)
  ultimately show ?thesis using iter_loop_steps[OF assms] by simp
qed

theorem iter_loop_visits_all_witness:
  "iter_loop (\<lambda>it acc. (Ok (), acc @ [tag (cur it)]))
     (iter_at [Pb_field 3 0 0 0 4 0 Null, Pb_field 5 0 4 0 4 0 Null, PB_LAST_FIELD] 64 0) [] = (Ok (), [3, 5])"
  using iter_loop_visits_all[of "[Pb_field 3 0 0 0 4 0 Null, Pb_field 5 0 4 0 4 0 Null, PB_LAST_FIELD]" 64
      "\<lambda>it acc. (Ok (), acc @ [tag (cur it)])" "[]"]
  by (simp add: table_ok_def n_fields_def upt_rec)

end
