(* ===== verification/Pb_Istream.thy ===== *)
theory Pb_Istream
  imports Prelude Pb_Types
begin

text \<open>
  The input side of \<^verbatim>\<open>nanopb/pb_decode.c\<close>: streams, raw reads, varints, tags, skipping and
  substreams. A stream over a memory buffer owns the bytes from its \<^verbatim>\<open>state\<close> pointer on, so a
  read past the end of the buffer is visible as \<open>UB\<close>.
\<close>

section \<open>Streams\<close>

text \<open>
  A user stream is a callback together with its state. The interface in \<^verbatim>\<open>pb_decode.h\<close>
  lets the callback keep its own state, asks it to fill \<open>count\<close> bytes or to return false, and
  forbids it to rely on \<^verbatim>\<open>bytes_left\<close>: it is a resumption that maps a count to the bytes
  read (by index) or to a failure, and to its next state. The fields \<^verbatim>\<open>callback\<close> and \<^verbatim>\<open>state\<close>
  are one component here: \<open>Buffer bs\<close> has the callback \<^verbatim>\<open>buf_read\<close>.
\<close>

codatatype read_cb = Read_cb (on_read: "size_t \<Rightarrow> (nat \<Rightarrow> byte) option \<times> read_cb")

datatype istate = Buffer "byte list" | User read_cb

record pb_istream_t =
  istate :: istate
  bytes_left :: size_t
  ierrmsg :: "string option"

definition PB_SET_ERROR_i :: "string \<Rightarrow> pb_istream_t \<Rightarrow> pb_istream_t" where
  "PB_SET_ERROR_i msg s =
     s\<lparr>ierrmsg := (case ierrmsg s of Some e \<Rightarrow> Some e | None \<Rightarrow> Some msg)\<rparr>"

lemma PB_SET_ERROR_i_simps [simp]:
  "istate (PB_SET_ERROR_i msg s) = istate s" "bytes_left (PB_SET_ERROR_i msg s) = bytes_left s"
  by (simp_all add: PB_SET_ERROR_i_def)

definition PB_RETURN_ERROR_i :: "string \<Rightarrow> pb_istream_t \<Rightarrow> ('a, pb_istream_t) res" where
  "PB_RETURN_ERROR_i msg s = (Err, PB_SET_ERROR_i msg s)"

definition pb_istream_from_buffer :: "byte list \<Rightarrow> size_t \<Rightarrow> pb_istream_t" where
  "pb_istream_from_buffer buf bufsize =
     \<lparr>istate = Buffer buf, bytes_left = bufsize, ierrmsg = None\<rparr>"

definition buf_read :: "byte list \<Rightarrow> size_t \<Rightarrow> pb_istream_t \<Rightarrow> (byte list, pb_istream_t) res" where
  "buf_read source count s =
     (if unat count \<le> length source
      then (Ok (take (unat count) source), s\<lparr>istate := Buffer (drop (unat count) source)\<rparr>)
      else (UB, s))"

text \<open>\<^verbatim>\<open>stream->callback(stream, buf, count)\<close>, with the error message of its callers.\<close>

definition icallback :: "size_t \<Rightarrow> pb_istream_t \<Rightarrow> (byte list, pb_istream_t) res" where
  "icallback count s =
     (case istate s of
        Buffer source \<Rightarrow> buf_read source count s
      | User cb \<Rightarrow>
          (case on_read cb count of
             (Some f, cb') \<Rightarrow> (Ok (map f [0..<unat count]), s\<lparr>istate := User cb'\<rparr>)
           | (None, cb') \<Rightarrow> PB_RETURN_ERROR_i ''io error'' (s\<lparr>istate := User cb'\<rparr>)))"

text \<open>\<^verbatim>\<open>pb_read\<close> with a buffer; the bytes read are the result.\<close>

definition pb_read_buf :: "size_t \<Rightarrow> pb_istream_t \<Rightarrow> (byte list, pb_istream_t) res" where
  "pb_read_buf count s =
     (if bytes_left s < count then PB_RETURN_ERROR_i ''end-of-stream'' s
      else checkreturn (icallback count s)
             (\<lambda>bs s. (Ok bs, s\<lparr>bytes_left := bytes_left s - count\<rparr>)))"

text \<open>\<^verbatim>\<open>pb_read\<close> with a null buffer skips: a user stream in blocks of 16 bytes.\<close>

function pb_skip_blocks :: "size_t \<Rightarrow> pb_istream_t \<Rightarrow> (unit, pb_istream_t) res" where
  "pb_skip_blocks count s =
     (if count > 16 then checkreturn (pb_read_buf 16 s) (\<lambda>_ s. pb_skip_blocks (count - 16) s)
      else checkreturn (pb_read_buf count s) (\<lambda>_ s. (Ok (), s)))"
  by pat_completeness auto
termination
  by (relation "measure (\<lambda>(count, s). unat count)") (auto simp: unat_diff_le word_less_nat_alt word_le_nat_alt)

declare pb_skip_blocks.simps [simp del]

definition pb_read_null :: "size_t \<Rightarrow> pb_istream_t \<Rightarrow> (unit, pb_istream_t) res" where
  "pb_read_null count s =
     (case istate s of
        User _ \<Rightarrow> pb_skip_blocks count s
      | Buffer _ \<Rightarrow> checkreturn (pb_read_buf count s) (\<lambda>_ s. (Ok (), s)))"

definition pb_readbyte :: "pb_istream_t \<Rightarrow> (byte, pb_istream_t) res" where
  "pb_readbyte s =
     (if bytes_left s = 0 then PB_RETURN_ERROR_i ''end-of-stream'' s
      else checkreturn (icallback 1 s)
             (\<lambda>bs s. (Ok (hd bs), s\<lparr>bytes_left := bytes_left s - 1\<rparr>)))"

lemma icallback_Ok:
  assumes "icallback count s = (Ok bs, s')"
  shows "length bs = unat count" "bytes_left s' = bytes_left s" "ierrmsg s' = ierrmsg s"
  using assms
  by (auto simp: icallback_def buf_read_def PB_RETURN_ERROR_i_def split: istate.splits if_splits prod.splits option.splits)

lemma pb_readbyte_Ok:
  assumes "pb_readbyte s = (Ok b, s')"
  shows "bytes_left s \<noteq> 0" "bytes_left s' = bytes_left s - 1" "unat (bytes_left s') < unat (bytes_left s)"
    "unat (bytes_left s) = Suc (unat (bytes_left s'))"
proof -
  show nz: "bytes_left s \<noteq> 0" and eq: "bytes_left s' = bytes_left s - 1"
    using assms by (auto simp: pb_readbyte_def PB_RETURN_ERROR_i_def checkreturn_Ok_iff dest: icallback_Ok split: if_splits)
  have "1 \<le> bytes_left s" using nz by (simp add: unat_gt_0 word_le_nat_alt Suc_leI)
  then have "unat (bytes_left s') = unat (bytes_left s) - 1" using eq by (simp add: unat_diff_le)
  moreover have "0 < unat (bytes_left s)" using nz by (simp add: unat_gt_0)
  ultimately show "unat (bytes_left s') < unat (bytes_left s)" "unat (bytes_left s) = Suc (unat (bytes_left s'))"
    by simp_all
qed

section \<open>Varints\<close>

text \<open>
  \<^verbatim>\<open>uint_fast8_t\<close> is \<^verbatim>\<open>uint8_t\<close> on Apple platforms: \<open>bitpos\<close> has 8 bits and its update wraps.
\<close>

function varint32_loop :: "u8 \<Rightarrow> u32 \<Rightarrow> pb_istream_t \<Rightarrow> (u32, pb_istream_t) res" where
  "varint32_loop bitpos result s =
     checkreturn (pb_readbyte s) (\<lambda>byte s.
       if bitpos \<ge> 32 \<and> byte AND 0x7F \<noteq> 0
          \<and> (drop_bit 31 result = 0 \<or> byte \<noteq> (if bitpos < 63 then 0xFF else 0x01))
       then PB_RETURN_ERROR_i ''varint overflow'' s
       else
         let result' = (if bitpos \<ge> 32 then result
                        else result OR push_bit (unat bitpos) (ucast (byte AND 0x7F)));
             bitpos' = bitpos + 7
         in if byte AND 0x80 \<noteq> 0 then varint32_loop bitpos' result' s
            else if bitpos' = 35 \<and> byte AND 0x70 \<noteq> 0
            then PB_RETURN_ERROR_i ''varint overflow'' s
            else (Ok result', s))"
  by pat_completeness auto
termination
  by (relation "measure (\<lambda>(bitpos, result, s). unat (bytes_left s))") (auto dest: pb_readbyte_Ok)

declare varint32_loop.simps [simp del]

text \<open>The second component is the value stored through \<^verbatim>\<open>eof\<close>, if it is stored.\<close>

definition pb_decode_varint32_eof :: "pb_istream_t \<Rightarrow> bool \<times> (u32, pb_istream_t) res" where
  "pb_decode_varint32_eof s =
     (case pb_readbyte s of
        (Ok byte, s1) \<Rightarrow>
          (False, if byte AND 0x80 = 0 then (Ok (ucast byte), s1)
                  else varint32_loop 7 (ucast (byte AND 0x7F)) s1)
      | (Err, s1) \<Rightarrow> (bytes_left s1 = 0, (Err, s1))
      | (UB, s1) \<Rightarrow> (False, (UB, s1))
      | (Fuel, s1) \<Rightarrow> (False, (Fuel, s1)))"

definition pb_decode_varint32 :: "pb_istream_t \<Rightarrow> (u32, pb_istream_t) res" where
  "pb_decode_varint32 s = snd (pb_decode_varint32_eof s)"

function varint_loop :: "u8 \<Rightarrow> u64 \<Rightarrow> pb_istream_t \<Rightarrow> (u64, pb_istream_t) res" where
  "varint_loop bitpos result s =
     (if bitpos \<ge> 64 then PB_RETURN_ERROR_i ''varint overflow'' s
      else checkreturn (pb_readbyte s) (\<lambda>byte s.
        let result' = result OR push_bit (unat bitpos) (ucast (byte AND 0x7F))
        in if byte AND 0x80 \<noteq> 0 then varint_loop (bitpos + 7) result' s else (Ok result', s)))"
  by pat_completeness auto
termination
  by (relation "measure (\<lambda>(bitpos, result, s). unat (bytes_left s))") (auto dest: pb_readbyte_Ok)

declare varint_loop.simps [simp del]

definition pb_decode_varint :: "pb_istream_t \<Rightarrow> (u64, pb_istream_t) res" where
  "pb_decode_varint s = varint_loop 0 0 s"

definition pb_decode_svarint :: "pb_istream_t \<Rightarrow> (u64, pb_istream_t) res" where
  "pb_decode_svarint s =
     checkreturn (pb_decode_varint s) (\<lambda>value s.
       (Ok (if value AND 1 \<noteq> 0 then NOT (drop_bit 1 value) else drop_bit 1 value), s))"

definition pb_decode_fixed32 :: "pb_istream_t \<Rightarrow> (u32, pb_istream_t) res" where
  "pb_decode_fixed32 s =
     checkreturn (pb_read_buf 4 s) (\<lambda>bytes s.
       (Ok (push_bit 0 (ucast (bytes ! 0)) OR push_bit 8 (ucast (bytes ! 1))
            OR push_bit 16 (ucast (bytes ! 2)) OR push_bit 24 (ucast (bytes ! 3))), s))"

definition pb_decode_fixed64 :: "pb_istream_t \<Rightarrow> (u64, pb_istream_t) res" where
  "pb_decode_fixed64 s =
     checkreturn (pb_read_buf 8 s) (\<lambda>bytes s.
       (Ok (push_bit 0 (ucast (bytes ! 0)) OR push_bit 8 (ucast (bytes ! 1))
            OR push_bit 16 (ucast (bytes ! 2)) OR push_bit 24 (ucast (bytes ! 3))
            OR push_bit 32 (ucast (bytes ! 4)) OR push_bit 40 (ucast (bytes ! 5))
            OR push_bit 48 (ucast (bytes ! 6)) OR push_bit 56 (ucast (bytes ! 7))), s))"

section \<open>Skipping and tags\<close>

lemma pb_read_buf_Ok:
  assumes "pb_read_buf count s = (Ok bs, s')"
  shows "length bs = unat count" "count \<le> bytes_left s" "bytes_left s' = bytes_left s - count"
    "unat (bytes_left s) = unat count + unat (bytes_left s')"
proof -
  show "length bs = unat count" and le: "count \<le> bytes_left s" and eq: "bytes_left s' = bytes_left s - count"
    using assms by (auto simp: pb_read_buf_def PB_RETURN_ERROR_i_def checkreturn_Ok_iff dest: icallback_Ok split: if_splits)
  show "unat (bytes_left s) = unat count + unat (bytes_left s')"
    using le by (simp add: eq unat_diff_le word_le_nat_alt)
qed

function pb_skip_varint :: "pb_istream_t \<Rightarrow> (unit, pb_istream_t) res" where
  "pb_skip_varint s =
     checkreturn (pb_read_buf 1 s) (\<lambda>bs s.
       if hd bs AND 0x80 \<noteq> 0 then pb_skip_varint s else (Ok (), s))"
  by pat_completeness auto
termination
  by (relation "measure (\<lambda>s. unat (bytes_left s))") (auto dest: pb_read_buf_Ok(4))

declare pb_skip_varint.simps [simp del]

definition pb_skip_string :: "pb_istream_t \<Rightarrow> (unit, pb_istream_t) res" where
  "pb_skip_string s = checkreturn (pb_decode_varint32 s) (\<lambda>len s. pb_read_null (ucast len) s)"

text \<open>
  The first component is \<^verbatim>\<open>*eof\<close>; the result carries \<^verbatim>\<open>*wire_type\<close> and \<^verbatim>\<open>*tag\<close>.
\<close>

definition pb_decode_tag :: "pb_istream_t \<Rightarrow> bool \<times> (pb_wire_type_t \<times> u32, pb_istream_t) res" where
  "pb_decode_tag s =
     (case pb_decode_varint32_eof s of
        (_, (Ok temp, s1)) \<Rightarrow>
          if temp = 0 then (True, (Err, s1))
          else (False, (Ok (temp AND 7, drop_bit 3 temp), s1))
      | (eof, (Err, s1)) \<Rightarrow> (eof, (Err, s1))
      | (eof, (UB, s1)) \<Rightarrow> (eof, (UB, s1))
      | (eof, (Fuel, s1)) \<Rightarrow> (eof, (Fuel, s1)))"

definition pb_skip_field :: "pb_wire_type_t \<Rightarrow> pb_istream_t \<Rightarrow> (unit, pb_istream_t) res" where
  "pb_skip_field wire_type s =
     (if wire_type = PB_WT_VARINT then pb_skip_varint s
      else if wire_type = PB_WT_64BIT then pb_read_null 8 s
      else if wire_type = PB_WT_STRING then pb_skip_string s
      else if wire_type = PB_WT_32BIT then pb_read_null 4 s
      else PB_RETURN_ERROR_i ''invalid wire_type'' s)"

text \<open>
  \<^verbatim>\<open>read_raw_value\<close>: \<open>n\<close> is how many more bytes the caller's buffer takes. The result is the
  part of the buffer that was filled, so its length is \<^verbatim>\<open>*size\<close>.
\<close>

fun read_raw_varint :: "nat \<Rightarrow> pb_istream_t \<Rightarrow> (byte list, pb_istream_t) res" where
  "read_raw_varint 0 s = (Err, s)"
| "read_raw_varint (Suc n) s =
     checkreturn (pb_read_buf 1 s) (\<lambda>bs s.
       if hd bs AND 0x80 \<noteq> 0
       then checkreturn (read_raw_varint n s) (\<lambda>rest s. (Ok (hd bs # rest), s))
       else (Ok [hd bs], s))"

definition read_raw_value :: "pb_wire_type_t \<Rightarrow> nat \<Rightarrow> pb_istream_t \<Rightarrow> (byte list, pb_istream_t) res" where
  "read_raw_value wire_type max_size s =
     (if wire_type = PB_WT_VARINT then read_raw_varint max_size s
      else if wire_type = PB_WT_64BIT then pb_read_buf 8 s
      else if wire_type = PB_WT_32BIT then pb_read_buf 4 s
      else PB_RETURN_ERROR_i ''invalid wire_type'' s)"

section \<open>Substreams\<close>

text \<open>The result is the substream; the state is the parent.\<close>

definition pb_make_string_substream :: "pb_istream_t \<Rightarrow> (pb_istream_t, pb_istream_t) res" where
  "pb_make_string_substream s =
     checkreturn (pb_decode_varint32 s) (\<lambda>size s.
       let substream = s in
       if bytes_left substream < ucast size then PB_RETURN_ERROR_i ''parent stream too short'' s
       else (Ok (substream\<lparr>bytes_left := ucast size\<rparr>),
             s\<lparr>bytes_left := bytes_left s - ucast size\<rparr>))"

text \<open>The result is the final substream; the state is the parent.\<close>

definition pb_close_string_substream ::
    "pb_istream_t \<Rightarrow> pb_istream_t \<Rightarrow> (pb_istream_t, pb_istream_t) res" where
  "pb_close_string_substream substream s =
     (case (if bytes_left substream \<noteq> 0 then pb_read_null (bytes_left substream) substream
            else (Ok (), substream)) of
        (Ok _, sub') \<Rightarrow> (Ok sub', s\<lparr>istate := istate sub', ierrmsg := ierrmsg sub'\<rparr>)
      | (Err, sub') \<Rightarrow> (Err, s)
      | (UB, sub') \<Rightarrow> (UB, s)
      | (Fuel, sub') \<Rightarrow> (Fuel, s))"

end
