(* ===== verification/Pb_Ostream.thy ===== *)
theory Pb_Ostream
  imports Prelude Pb_Types
begin

text \<open>
  The output side of \<^verbatim>\<open>nanopb/pb_encode.c\<close> that does not depend on descriptors: streams,
  \<^verbatim>\<open>pb_write\<close> and the encoders of varints, fixed-width integers, tags and strings.
\<close>

section \<open>Streams\<close>

text \<open>
  \<open>Sizing\<close> is a stream whose \<^verbatim>\<open>callback\<close> is null. \<open>Into cap out\<close> has the callback
  \<^verbatim>\<open>buf_write\<close>: \<open>cap\<close> is the size of the array the stream was made for, \<open>out\<close> what lies between
  its start and the \<^verbatim>\<open>state\<close> pointer. \<open>UserOut\<close> is any other callback with its state.
\<close>

codatatype write_cb = Write_cb (on_write: "byte list \<Rightarrow> bool \<times> write_cb")

datatype ostate = Sizing | Into nat "byte list" | UserOut write_cb

record pb_ostream_t =
  ostate :: ostate
  max_size :: size_t
  bytes_written :: size_t
  oerrmsg :: "string option"

definition PB_SET_ERROR_o :: "string \<Rightarrow> pb_ostream_t \<Rightarrow> pb_ostream_t" where
  "PB_SET_ERROR_o msg s =
     s\<lparr>oerrmsg := (case oerrmsg s of Some e \<Rightarrow> Some e | None \<Rightarrow> Some msg)\<rparr>"

definition PB_RETURN_ERROR_o :: "string \<Rightarrow> pb_ostream_t \<Rightarrow> ('a, pb_ostream_t) res" where
  "PB_RETURN_ERROR_o msg s = (Err, PB_SET_ERROR_o msg s)"

definition PB_OSTREAM_SIZING :: pb_ostream_t where
  "PB_OSTREAM_SIZING = \<lparr>ostate = Sizing, max_size = 0, bytes_written = 0, oerrmsg = None\<rparr>"

definition pb_ostream_from_buffer :: "size_t \<Rightarrow> pb_ostream_t" where
  "pb_ostream_from_buffer bufsize =
     \<lparr>ostate = Into (unat bufsize) [], max_size = bufsize, bytes_written = 0, oerrmsg = None\<rparr>"

definition buf_write :: "nat \<Rightarrow> byte list \<Rightarrow> byte list \<Rightarrow> pb_ostream_t \<Rightarrow> (unit, pb_ostream_t) res" where
  "buf_write cap out buf s =
     (if length out + length buf \<le> cap then (Ok (), s\<lparr>ostate := Into cap (out @ buf)\<rparr>) else (UB, s))"

text \<open>
  \<open>buf\<close> is the memory the pointer argument points at; \<open>None\<close> is the null pointer, which only a
  sizing stream or an empty write may be given.
\<close>

definition pb_write :: "byte list option \<Rightarrow> size_t \<Rightarrow> pb_ostream_t \<Rightarrow> (unit, pb_ostream_t) res" where
  "pb_write buf count s =
     (let finish = (\<lambda>s. (Ok (), s\<lparr>bytes_written := bytes_written s + count\<rparr>)) in
      case ostate s of
        Sizing \<Rightarrow> finish s
      | st \<Rightarrow>
          if bytes_written s + count > max_size s then PB_RETURN_ERROR_o ''stream full'' s
          else (case (if count = 0 then Some [] else map_option (take (unat count)) buf) of
                  None \<Rightarrow> (UB, s)
                | Some data \<Rightarrow>
                    if length data < unat count then (UB, s)
                    else (case st of
                            Into cap out \<Rightarrow> checkreturn (buf_write cap out data s) (\<lambda>_. finish)
                          | UserOut cb \<Rightarrow>
                              (case on_write cb data of
                                 (ok, cb') \<Rightarrow>
                                   let s' = s\<lparr>ostate := UserOut cb'\<rparr>
                                   in if ok then finish s' else PB_RETURN_ERROR_o ''io error'' s')
                          | Sizing \<Rightarrow> finish s)))"

section \<open>Encoders\<close>

text \<open>\<^verbatim>\<open>while (value) { buffer[i] = (value & 0x7F) | 0x80; value >>= 7; i++; }\<close>\<close>

function varint_buffer :: "u64 \<Rightarrow> byte list" where
  "varint_buffer value =
     (if value = 0 then [] else ucast ((value AND 0x7F) OR 0x80) # varint_buffer (drop_bit 7 value))"
  by pat_completeness auto
termination
  by (relation "measure unat") (auto simp flip: word_less_nat_alt intro: drop_bit_less)

declare varint_buffer.simps [simp del]

definition pb_encode_varint :: "u64 \<Rightarrow> pb_ostream_t \<Rightarrow> (unit, pb_ostream_t) res" where
  "pb_encode_varint value s =
     (if value \<le> 0x7F then pb_write (Some [ucast value]) 1 s
      else
        let buffer = varint_buffer value; i = length buffer;
            buffer = buffer[i - 1 := buffer ! (i - 1) AND 0x7F]
        in pb_write (Some buffer) (word_of_nat i) s)"

definition pb_encode_svarint :: "u64 \<Rightarrow> pb_ostream_t \<Rightarrow> (unit, pb_ostream_t) res" where
  "pb_encode_svarint value s =
     pb_encode_varint (if sint value < 0 then NOT (push_bit 1 value) else push_bit 1 value) s"

definition pb_encode_fixed32 :: "u32 \<Rightarrow> pb_ostream_t \<Rightarrow> (unit, pb_ostream_t) res" where
  "pb_encode_fixed32 val s =
     pb_write (Some [ucast (val AND 0xFF), ucast (drop_bit 8 val AND 0xFF),
                     ucast (drop_bit 16 val AND 0xFF), ucast (drop_bit 24 val AND 0xFF)]) 4 s"

definition pb_encode_fixed64 :: "u64 \<Rightarrow> pb_ostream_t \<Rightarrow> (unit, pb_ostream_t) res" where
  "pb_encode_fixed64 val s =
     pb_write (Some [ucast (val AND 0xFF), ucast (drop_bit 8 val AND 0xFF),
                     ucast (drop_bit 16 val AND 0xFF), ucast (drop_bit 24 val AND 0xFF),
                     ucast (drop_bit 32 val AND 0xFF), ucast (drop_bit 40 val AND 0xFF),
                     ucast (drop_bit 48 val AND 0xFF), ucast (drop_bit 56 val AND 0xFF)]) 8 s"

definition pb_encode_tag :: "pb_wire_type_t \<Rightarrow> u32 \<Rightarrow> pb_ostream_t \<Rightarrow> (unit, pb_ostream_t) res" where
  "pb_encode_tag wiretype field_number s =
     pb_encode_varint (push_bit 3 (ucast field_number) OR ucast wiretype) s"

definition pb_encode_tag_for_field :: "pb_field_t \<Rightarrow> pb_ostream_t \<Rightarrow> (unit, pb_ostream_t) res" where
  "pb_encode_tag_for_field field s =
     (let lt = PB_LTYPE (ftype field) in
      if lt \<in> {PB_LTYPE_VARINT, PB_LTYPE_UVARINT, PB_LTYPE_SVARINT}
      then pb_encode_tag PB_WT_VARINT (tag field) s
      else if lt = PB_LTYPE_FIXED32 then pb_encode_tag PB_WT_32BIT (tag field) s
      else if lt = PB_LTYPE_FIXED64 then pb_encode_tag PB_WT_64BIT (tag field) s
      else if lt \<in> {PB_LTYPE_BYTES, PB_LTYPE_STRING, PB_LTYPE_SUBMESSAGE, PB_LTYPE_FIXED_LENGTH_BYTES}
      then pb_encode_tag PB_WT_STRING (tag field) s
      else PB_RETURN_ERROR_o ''invalid field type'' s)"

definition pb_encode_string :: "byte list option \<Rightarrow> size_t \<Rightarrow> pb_ostream_t \<Rightarrow> (unit, pb_ostream_t) res" where
  "pb_encode_string buffer n s =
     checkreturn (pb_encode_varint n s) (\<lambda>_. pb_write buffer n)"

end
