(* ===== verification/Pb_Env.thy ===== *)
theory Pb_Env
  imports Pb_Common Pb_Istream Pb_Ostream
begin

text \<open>
  What nanopb takes from outside: the functions behind the function pointers stored in
  messages, the descriptors of extensions, and the allocator. They are not under the
  repository's nanopb sources, so they are one argument, \<open>env\<close>, of the operations that
  reach them. Function pointers are addresses.
\<close>

record pb_env =
  env_encode :: "addr \<Rightarrow> pb_field_t \<Rightarrow> addr \<Rightarrow> pb_ostream_t \<times> heap \<Rightarrow> (unit, pb_ostream_t \<times> heap) res"
  env_decode :: "addr \<Rightarrow> pb_field_t \<Rightarrow> addr \<Rightarrow> pb_istream_t \<times> heap \<Rightarrow> (unit, pb_istream_t \<times> heap) res"
  env_ext_encode :: "addr \<Rightarrow> addr \<Rightarrow> pb_ostream_t \<times> heap \<Rightarrow> (unit, pb_ostream_t \<times> heap) res"
  env_ext_decode :: "addr \<Rightarrow> addr \<Rightarrow> u32 \<Rightarrow> pb_wire_type_t \<Rightarrow> pb_istream_t \<times> heap
                       \<Rightarrow> (unit, pb_istream_t \<times> heap) res"
  env_ext_fields :: "addr \<Rightarrow> pb_field_t list"
  env_alloc :: allocator

text \<open>\<^verbatim>\<open>(const pb_field_t* )extension->type->arg\<close>\<close>

definition ext_fields :: "pb_env \<Rightarrow> heap \<Rightarrow> addr \<Rightarrow> pb_field_t list" where
  "ext_fields env h ext = env_ext_fields env (exttype_arg h (ext_type h ext))"

definition ext_field :: "pb_env \<Rightarrow> heap \<Rightarrow> addr \<Rightarrow> pb_field_t" where
  "ext_field env h ext = field_at (ext_fields env h ext) 0"

text \<open>
  An environment that has no callbacks, no extensions and no memory to give.
\<close>

definition no_env :: pb_env where
  "no_env = \<lparr>env_encode = (\<lambda>_ _ _ s. (Err, s)), env_decode = (\<lambda>_ _ _ s. (Err, s)),
             env_ext_encode = (\<lambda>_ _ s. (Err, s)), env_ext_decode = (\<lambda>_ _ _ _ s. (Err, s)),
             env_ext_fields = (\<lambda>_. []), env_alloc = (\<lambda>_ _. None)\<rparr>"

end
