(* ===== verification/Pb_Encode.thy ===== *)
theory Pb_Encode
  imports Pb_Env
begin

text \<open>
  \<^verbatim>\<open>nanopb/pb_encode.c\<close>: the field encoders and the traversal of a message. The state is the
  output stream and the memory that holds the message; callbacks may change both. The
  functions that the C code reaches recursively through a submessage take that call as an
  argument (\<open>rec\<close>); \<open>pb_encode\<close> ties the knot, one unit of fuel for each nested message.
\<close>

type_synonym enc_state = "pb_ostream_t \<times> heap"
type_synonym encoder = "enc_state \<Rightarrow> (unit, enc_state) res"

abbreviation enc_error :: "string \<Rightarrow> encoder" where
  "enc_error msg \<equiv> on_fst (PB_RETURN_ERROR_o msg)"

section \<open>Field encoders\<close>

definition load_signed :: "heap \<Rightarrow> addr \<Rightarrow> pb_size_t \<Rightarrow> u64 option" where
  "load_signed h src n =
     (if n = 1 then Some (scast (word_of_le (load h src 1) :: u8))
      else if n = 2 then Some (scast (word_of_le (load h src 2) :: u16))
      else if n = 4 then Some (scast (word_of_le (load h src 4) :: u32))
      else if n = 8 then Some (word_of_le (load h src 8))
      else None)"

definition load_unsigned :: "heap \<Rightarrow> addr \<Rightarrow> pb_size_t \<Rightarrow> u64 option" where
  "load_unsigned h src n =
     (if n = 1 then Some (ucast (word_of_le (load h src 1) :: u8))
      else if n = 2 then Some (ucast (word_of_le (load h src 2) :: u16))
      else if n = 4 then Some (ucast (word_of_le (load h src 4) :: u32))
      else if n = 8 then Some (word_of_le (load h src 8))
      else None)"

definition pb_enc_varint :: "pb_field_t \<Rightarrow> addr \<Rightarrow> encoder" where
  "pb_enc_varint field src = (\<lambda>(s, h).
     case load_signed h src (data_size field) of
       None \<Rightarrow> enc_error ''invalid data_size'' (s, h)
     | Some value \<Rightarrow> on_fst (pb_encode_varint value) (s, h))"

definition pb_enc_uvarint :: "pb_field_t \<Rightarrow> addr \<Rightarrow> encoder" where
  "pb_enc_uvarint field src = (\<lambda>(s, h).
     case load_unsigned h src (data_size field) of
       None \<Rightarrow> enc_error ''invalid data_size'' (s, h)
     | Some value \<Rightarrow> on_fst (pb_encode_varint value) (s, h))"

definition pb_enc_svarint :: "pb_field_t \<Rightarrow> addr \<Rightarrow> encoder" where
  "pb_enc_svarint field src = (\<lambda>(s, h).
     case load_signed h src (data_size field) of
       None \<Rightarrow> enc_error ''invalid data_size'' (s, h)
     | Some value \<Rightarrow> on_fst (pb_encode_svarint value) (s, h))"

definition pb_enc_fixed64 :: "pb_field_t \<Rightarrow> addr \<Rightarrow> encoder" where
  "pb_enc_fixed64 field src = (\<lambda>(s, h). on_fst (pb_encode_fixed64 (word_of_le (load h src 8))) (s, h))"

definition pb_enc_fixed32 :: "pb_field_t \<Rightarrow> addr \<Rightarrow> encoder" where
  "pb_enc_fixed32 field src = (\<lambda>(s, h). on_fst (pb_encode_fixed32 (word_of_le (load h src 4))) (s, h))"

definition pb_enc_bytes :: "pb_field_t \<Rightarrow> addr \<Rightarrow> encoder" where
  "pb_enc_bytes field src = (\<lambda>(s, h).
     if src = 0 then on_fst (pb_encode_string None 0) (s, h)
     else if PB_ATYPE (ftype field) = PB_ATYPE_STATIC
             \<and> PB_BYTES_ARRAY_T_ALLOCSIZE (bytes_size h src) > ucast (data_size field)
     then enc_error ''bytes size exceeded'' (s, h)
     else on_fst (pb_encode_string (Some (load h (bytes_bytes src) (unat (bytes_size h src))))
                                   (ucast (bytes_size h src))) (s, h))"

text \<open>\<^verbatim>\<open>while (size < max_size && *p != '\0') { size++; p++; }\<close>\<close>

function strnlen_loop :: "heap \<Rightarrow> addr \<Rightarrow> size_t \<Rightarrow> size_t \<Rightarrow> size_t" where
  "strnlen_loop h p n max_n =
     (if n < max_n \<and> hbytes h p \<noteq> 0 then strnlen_loop h (p + 1) (n + 1) max_n else n)"
  by pat_completeness auto
termination
  by (relation "measure (\<lambda>(h, p, n, max_n). unat max_n - unat n)")
     (auto simp: unat_inc_less word_less_nat_alt)

declare strnlen_loop.simps [simp del]

definition pb_enc_string :: "pb_field_t \<Rightarrow> addr \<Rightarrow> encoder" where
  "pb_enc_string field src = (\<lambda>(s, h).
     let max_n = (if PB_ATYPE (ftype field) = PB_ATYPE_POINTER then - 1 else ucast (data_size field));
         n = (if src = 0 then 0 else strnlen_loop h src 0 max_n)
     in on_fst (pb_encode_string (if src = 0 then None else Some (load h src (unat n))) n) (s, h))"

definition pb_enc_fixed_length_bytes :: "pb_field_t \<Rightarrow> addr \<Rightarrow> encoder" where
  "pb_enc_fixed_length_bytes field src = (\<lambda>(s, h).
     on_fst (pb_encode_string (Some (load h src (unat (data_size field)))) (ucast (data_size field))) (s, h))"

definition is_sizing :: "pb_ostream_t \<Rightarrow> bool" where
  "is_sizing s = (case ostate s of Sizing \<Rightarrow> True | _ \<Rightarrow> False)"

text \<open>
  The first call of \<open>rec\<close> only counts; the second writes through a substream limited to that
  count.
\<close>

definition pb_encode_submessage ::
    "(pb_field_t list \<Rightarrow> addr \<Rightarrow> encoder) \<Rightarrow> pb_field_t list \<Rightarrow> addr \<Rightarrow> encoder" where
  "pb_encode_submessage rec fs src = (\<lambda>(s, h).
     case rec fs src (PB_OSTREAM_SIZING, h) of
       (Err, (sub, h1)) \<Rightarrow> (Err, (s\<lparr>oerrmsg := oerrmsg sub\<rparr>, h1))
     | (UB, (sub, h1)) \<Rightarrow> (UB, (s, h1))
     | (Fuel, (sub, h1)) \<Rightarrow> (Fuel, (s, h1))
     | (Ok _, (sub, h1)) \<Rightarrow>
         let n = bytes_written sub in
         checkreturn (on_fst (pb_encode_varint n) (s, h1)) (\<lambda>_ (s, h1).
           if is_sizing s then on_fst (pb_write None n) (s, h1)
           else if bytes_written s + n > max_size s then enc_error ''stream full'' (s, h1)
           else
             case rec fs src (\<lparr>ostate = ostate s, max_size = n, bytes_written = 0, oerrmsg = None\<rparr>, h1) of
               (status, (sub, h2)) \<Rightarrow>
                 let s' = s\<lparr>bytes_written := bytes_written s + bytes_written sub,
                            ostate := ostate sub, oerrmsg := oerrmsg sub\<rparr>
                 in if status = UB \<or> status = Fuel then (status, (s', h2))
                    else if bytes_written sub \<noteq> n then enc_error ''submsg size changed'' (s', h2)
                    else (status, (s', h2))))"

definition pb_enc_submessage ::
    "(pb_field_t list \<Rightarrow> addr \<Rightarrow> encoder) \<Rightarrow> pb_field_t \<Rightarrow> addr \<Rightarrow> encoder" where
  "pb_enc_submessage rec field src =
     (case ptr field of
        Null \<Rightarrow> enc_error ''invalid field descriptor''
      | Submsg fs \<Rightarrow> pb_encode_submessage rec fs src
      | Default _ \<Rightarrow> (\<lambda>s. (UB, s)))"

text \<open>\<^verbatim>\<open>PB_ENCODERS\<close>; the entry for extensions is null and there are none past index 9.\<close>

definition PB_ENCODERS :: "(pb_field_t list \<Rightarrow> addr \<Rightarrow> encoder) \<Rightarrow> u8 \<Rightarrow> pb_field_t \<Rightarrow> addr \<Rightarrow> encoder" where
  "PB_ENCODERS rec lt =
     (if lt = PB_LTYPE_VARINT then pb_enc_varint
      else if lt = PB_LTYPE_UVARINT then pb_enc_uvarint
      else if lt = PB_LTYPE_SVARINT then pb_enc_svarint
      else if lt = PB_LTYPE_FIXED32 then pb_enc_fixed32
      else if lt = PB_LTYPE_FIXED64 then pb_enc_fixed64
      else if lt = PB_LTYPE_BYTES then pb_enc_bytes
      else if lt = PB_LTYPE_STRING then pb_enc_string
      else if lt = PB_LTYPE_SUBMESSAGE then pb_enc_submessage rec
      else if lt = PB_LTYPE_FIXED_LENGTH_BYTES then pb_enc_fixed_length_bytes
      else (\<lambda>_ _ s. (UB, s)))"

section \<open>Arrays\<close>

text \<open>\<^verbatim>\<open>for (i = 0; i < count; i++) { if (!body(p)) return false; p += data_size; }\<close>\<close>

fun enc_items :: "nat \<Rightarrow> (addr \<Rightarrow> encoder) \<Rightarrow> int \<Rightarrow> addr \<Rightarrow> encoder" where
  "enc_items 0 body stride p s = (Ok (), s)"
| "enc_items (Suc n) body stride p s =
     checkreturn (body p s) (\<lambda>_. enc_items n body stride (p + stride))"

definition encode_array ::
    "pb_field_t \<Rightarrow> addr \<Rightarrow> size_t \<Rightarrow> (pb_field_t \<Rightarrow> addr \<Rightarrow> encoder) \<Rightarrow> encoder" where
  "encode_array field pd count func = (\<lambda>(s, h).
     let lt = PB_LTYPE (ftype field); stride = uint (data_size field) in
     if count = 0 then (Ok (), (s, h))
     else if PB_ATYPE (ftype field) \<noteq> PB_ATYPE_POINTER \<and> count > ucast (array_size field)
     then enc_error ''array max size exceeded'' (s, h)
     else if lt \<le> PB_LTYPE_LAST_PACKABLE then
       checkreturn (on_fst (pb_encode_tag PB_WT_STRING (tag field)) (s, h)) (\<lambda>_ (s, h).
         let sized = (if lt = PB_LTYPE_FIXED32 then (Ok (4 * count), (s, h))
                      else if lt = PB_LTYPE_FIXED64 then (Ok (8 * count), (s, h))
                      else case enc_items (unat count) (func field) stride pd (PB_OSTREAM_SIZING, h) of
                             (Ok _, (sz, h)) \<Rightarrow> (Ok (bytes_written sz), (s, h))
                           | (Err, (sz, h)) \<Rightarrow> (Err, (s, h))
                           | (UB, (sz, h)) \<Rightarrow> (UB, (s, h))
                           | (Fuel, (sz, h)) \<Rightarrow> (Fuel, (s, h)))
         in checkreturn sized (\<lambda>n (s, h).
              checkreturn (on_fst (pb_encode_varint n) (s, h)) (\<lambda>_ (s, h).
                if is_sizing s then on_fst (pb_write None n) (s, h)
                else enc_items (unat count) (func field) stride pd (s, h))))
     else
       enc_items (unat count) (\<lambda>p. \<lambda>(s, h).
         checkreturn (on_fst (pb_encode_tag_for_field field) (s, h)) (\<lambda>_ (s, h).
           if PB_ATYPE (ftype field) = PB_ATYPE_POINTER \<and> (lt = PB_LTYPE_STRING \<or> lt = PB_LTYPE_BYTES)
           then func field (load_ptr h p) (s, h)
           else func field p (s, h))) stride pd (s, h))"

section \<open>Fields\<close>

text \<open>
  \<open>Ok True\<close>: the field has its proto3 default value. A submessage is compared field by field.
\<close>

fun pb_check_proto3_default_value :: "nat \<Rightarrow> heap \<Rightarrow> pb_field_t \<Rightarrow> addr \<Rightarrow> bool outcome" where
  "pb_check_proto3_default_value 0 h field pd = Fuel"
| "pb_check_proto3_default_value (Suc n) h field pd =
     (let ty = ftype field; ps = pd + sint (size_offset field);
          zero_bytes = Ok (\<forall>b \<in> set (load h pd (unat (data_size field))). b = 0)
      in
      if PB_HTYPE ty = PB_HTYPE_REQUIRED then Ok False
      else if PB_HTYPE ty = PB_HTYPE_REPEATED then Ok (load_u32 h ps = 0)
      else if PB_HTYPE ty = PB_HTYPE_ONEOF then Ok (load_u32 h ps = 0)
      else if PB_HTYPE ty = PB_HTYPE_OPTIONAL \<and> size_offset field \<noteq> 0 then Ok (\<not> load_bool h ps)
      else if PB_ATYPE ty = PB_ATYPE_STATIC then
        (if PB_LTYPE ty = PB_LTYPE_BYTES then Ok (bytes_size h pd = 0)
         else if PB_LTYPE ty = PB_LTYPE_STRING then Ok (hbytes h pd = 0)
         else if PB_LTYPE ty = PB_LTYPE_FIXED_LENGTH_BYTES then Ok (data_size field = 0)
         else if PB_LTYPE ty = PB_LTYPE_SUBMESSAGE then
           (case ptr field of
              Submsg fs \<Rightarrow>
                (case pb_field_iter_begin fs pd of
                   (False, _) \<Rightarrow> Ok True
                 | (True, it) \<Rightarrow>
                     (case iter_loop (\<lambda>it u. case pb_check_proto3_default_value n h (cur it) (pData it) of
                                           Ok True \<Rightarrow> (Ok (), u) | Ok False \<Rightarrow> (Err, u)
                                         | Err \<Rightarrow> (UB, u) | UB \<Rightarrow> (UB, u) | Fuel \<Rightarrow> (Fuel, u)) it () of
                        (Ok _, _) \<Rightarrow> Ok True | (Err, _) \<Rightarrow> Ok False
                      | (UB, _) \<Rightarrow> UB | (Fuel, _) \<Rightarrow> Fuel))
            | _ \<Rightarrow> UB)
         else zero_bytes)
      else zero_bytes)"

definition encode_basic_field ::
    "nat \<Rightarrow> (pb_field_t list \<Rightarrow> addr \<Rightarrow> encoder) \<Rightarrow> pb_field_t \<Rightarrow> addr \<Rightarrow> encoder" where
  "encode_basic_field n rec field pd0 = (\<lambda>(s, h).
     let ty = ftype field; func = PB_ENCODERS rec (PB_LTYPE ty);
         has_size = (size_offset field \<noteq> 0);
         ps = pd0 + sint (size_offset field);
         implicit = (if has_size then Ok True
                     else if PB_HTYPE ty = PB_HTYPE_OPTIONAL
                     then (case pb_check_proto3_default_value n h field pd0 of
                             Ok b \<Rightarrow> Ok (\<not> b) | e \<Rightarrow> e)
                     else Ok True);
         pd = (if PB_ATYPE ty = PB_ATYPE_POINTER then load_ptr h pd0 else pd0);
         put = (\<lambda>s. checkreturn (on_fst (pb_encode_tag_for_field field) s) (\<lambda>_. func field pd))
     in case implicit of
          Err \<Rightarrow> (Err, (s, h)) | UB \<Rightarrow> (UB, (s, h)) | Fuel \<Rightarrow> (Fuel, (s, h))
        | Ok implicit0 \<Rightarrow>
            let implicit_has = (if PB_ATYPE ty = PB_ATYPE_POINTER then pd \<noteq> 0 else implicit0) in
            if PB_HTYPE ty = PB_HTYPE_REQUIRED then
              (if pd = 0 then enc_error ''missing required field'' (s, h) else put (s, h))
            else if PB_HTYPE ty = PB_HTYPE_OPTIONAL then
              (if (if has_size then load_bool h ps else implicit_has) then put (s, h) else (Ok (), (s, h)))
            else if PB_HTYPE ty = PB_HTYPE_REPEATED then
              encode_array field pd (ucast (if has_size then load_u32 h ps else array_size field)) func (s, h)
            else
              (if \<not> has_size then (UB, (s, h))
               else if load_u32 h ps = tag field then put (s, h) else (Ok (), (s, h))))"

definition encode_callback_field :: "pb_env \<Rightarrow> pb_field_t \<Rightarrow> addr \<Rightarrow> encoder" where
  "encode_callback_field env field pd = (\<lambda>(s, h).
     if callback_func h pd = 0 then (Ok (), (s, h))
     else case env_encode env (callback_func h pd) field (callback_arg pd) (s, h) of
            (Err, s') \<Rightarrow> enc_error ''callback error'' s'
          | r \<Rightarrow> r)"

definition encode_field ::
    "nat \<Rightarrow> pb_env \<Rightarrow> (pb_field_t list \<Rightarrow> addr \<Rightarrow> encoder) \<Rightarrow> pb_field_t \<Rightarrow> addr \<Rightarrow> encoder" where
  "encode_field n env rec field pd =
     (if PB_ATYPE (ftype field) = PB_ATYPE_STATIC \<or> PB_ATYPE (ftype field) = PB_ATYPE_POINTER
      then encode_basic_field n rec field pd
      else if PB_ATYPE (ftype field) = PB_ATYPE_CALLBACK then encode_callback_field env field pd
      else enc_error ''invalid field type'')"

definition default_extension_encoder ::
    "nat \<Rightarrow> pb_env \<Rightarrow> (pb_field_t list \<Rightarrow> addr \<Rightarrow> encoder) \<Rightarrow> addr \<Rightarrow> encoder" where
  "default_extension_encoder n env rec ext = (\<lambda>(s, h).
     let field = ext_field env h ext in
     if PB_ATYPE (ftype field) = PB_ATYPE_POINTER
     then encode_field n env rec field (ext_dest_field ext) (s, h)
     else encode_field n env rec field (ext_dest h ext) (s, h))"

text \<open>\<^verbatim>\<open>while (extension)\<close>: the list is user data, so the walk is bounded by fuel.\<close>

fun encode_extensions ::
    "nat \<Rightarrow> nat \<Rightarrow> pb_env \<Rightarrow> (pb_field_t list \<Rightarrow> addr \<Rightarrow> encoder) \<Rightarrow> addr \<Rightarrow> encoder" where
  "encode_extensions 0 n env rec ext s = (Fuel, s)"
| "encode_extensions (Suc k) n env rec ext (s, h) =
     (if ext = 0 then (Ok (), (s, h))
      else
        let enc = exttype_encode h (ext_type h ext) in
        checkreturn (if enc \<noteq> 0 then env_ext_encode env enc ext (s, h)
                     else default_extension_encoder n env rec ext (s, h))
          (\<lambda>_ (s, h). encode_extensions k n env rec (ext_next h ext) (s, h)))"

definition encode_extension_field ::
    "nat \<Rightarrow> pb_env \<Rightarrow> (pb_field_t list \<Rightarrow> addr \<Rightarrow> encoder) \<Rightarrow> addr \<Rightarrow> encoder" where
  "encode_extension_field n env rec pd = (\<lambda>(s, h). encode_extensions n n env rec (load_ptr h pd) (s, h))"

section \<open>Messages\<close>

text \<open>The body of the loop in \<^verbatim>\<open>pb_encode\<close>.\<close>

definition encode_one ::
    "nat \<Rightarrow> pb_env \<Rightarrow> (pb_field_t list \<Rightarrow> addr \<Rightarrow> encoder) \<Rightarrow> pb_field_iter_t \<Rightarrow> encoder" where
  "encode_one n env rec it =
     (if PB_LTYPE (ftype (cur it)) = PB_LTYPE_EXTENSION
      then encode_extension_field n env rec (pData it)
      else encode_field n env rec (cur it) (pData it))"

primrec pb_encode :: "nat \<Rightarrow> pb_env \<Rightarrow> pb_field_t list \<Rightarrow> addr \<Rightarrow> encoder" where
  "pb_encode 0 env fs src = (\<lambda>s. (Fuel, s))"
| "pb_encode (Suc n) env fs src =
     (case pb_field_iter_begin fs src of
        (False, _) \<Rightarrow> (\<lambda>s. (Ok (), s))
      | (True, it) \<Rightarrow> iter_loop (encode_one n env (pb_encode n env)) it)"

definition pb_encode_delimited :: "nat \<Rightarrow> pb_env \<Rightarrow> pb_field_t list \<Rightarrow> addr \<Rightarrow> encoder" where
  "pb_encode_delimited n env fs src = pb_encode_submessage (pb_encode n env) fs src"

definition pb_encode_nullterminated :: "nat \<Rightarrow> pb_env \<Rightarrow> pb_field_t list \<Rightarrow> addr \<Rightarrow> encoder" where
  "pb_encode_nullterminated n env fs src s =
     checkreturn (pb_encode n env fs src s) (\<lambda>_. on_fst (pb_write (Some [0]) 1))"

definition pb_get_encoded_size :: "nat \<Rightarrow> pb_env \<Rightarrow> pb_field_t list \<Rightarrow> addr \<Rightarrow> heap \<Rightarrow> (size_t, heap) res" where
  "pb_get_encoded_size n env fs src h =
     (case pb_encode n env fs src (PB_OSTREAM_SIZING, h) of
        (Ok _, (s, h')) \<Rightarrow> (Ok (bytes_written s), h')
      | (Err, (s, h')) \<Rightarrow> (Err, h') | (UB, (s, h')) \<Rightarrow> (UB, h') | (Fuel, (s, h')) \<Rightarrow> (Fuel, h'))"

end
