(* ===== verification/Pb_Istream_Laws.thy ===== *)
theory Pb_Istream_Laws
  imports Pb_Istream
begin

text \<open>
  What every reading operation of the input side promises: from a stream whose \<^verbatim>\<open>bytes_left\<close>
  does not exceed its buffer, it returns, it never reads past the buffer, and it moves the
  buffer pointer and \<^verbatim>\<open>bytes_left\<close> in step. The promise is the locale \<open>stream_reader\<close>; every
  operation of \<open>Pb_Istream\<close> is an instance.
\<close>

section \<open>Positions\<close>

definition in_bounds :: "pb_istream_t \<Rightarrow> bool" where
  "in_bounds s = (case istate s of Buffer bs \<Rightarrow> unat (bytes_left s) \<le> length bs | User _ \<Rightarrow> True)"

definition advances :: "pb_istream_t \<Rightarrow> pb_istream_t \<Rightarrow> bool" where
  "advances s s' \<longleftrightarrow>
     (\<exists>k. k + unat (bytes_left s') = unat (bytes_left s) \<and>
        (case istate s of
           Buffer bs \<Rightarrow> istate s' = Buffer (drop k bs)
         | User _ \<Rightarrow> (\<exists>cb. istate s' = User cb)))"

lemma advances_refl [simp]: "advances s s"
  by (auto simp: advances_def intro!: exI[of _ 0] split: istate.splits)

lemma advances_trans: "advances s s' \<Longrightarrow> advances s' s'' \<Longrightarrow> advances s s''"
proof -
  assume "advances s s'" "advances s' s''"
  then obtain k l where "k + unat (bytes_left s') = unat (bytes_left s)"
      "case istate s of Buffer bs \<Rightarrow> istate s' = Buffer (drop k bs) | User _ \<Rightarrow> (\<exists>cb. istate s' = User cb)"
      "l + unat (bytes_left s'') = unat (bytes_left s')"
      "case istate s' of Buffer bs \<Rightarrow> istate s'' = Buffer (drop l bs) | User _ \<Rightarrow> (\<exists>cb. istate s'' = User cb)"
    unfolding advances_def by blast
  then show ?thesis unfolding advances_def
    by (intro exI[of _ "l + k"]) (auto split: istate.splits)
qed

lemma advances_in_bounds: "advances s s' \<Longrightarrow> in_bounds s \<Longrightarrow> in_bounds s'"
  by (auto simp: advances_def in_bounds_def split: istate.splits)

lemma advances_bytes_left: "advances s s' \<Longrightarrow> unat (bytes_left s') \<le> unat (bytes_left s)"
  by (auto simp: advances_def)

lemma advances_cong:
  "istate s' = istate t \<Longrightarrow> bytes_left s' = bytes_left t \<Longrightarrow> advances s t \<Longrightarrow> advances s s'"
  by (auto simp: advances_def split: istate.splits)

lemma advances_errmsg [simp]: "advances s (t\<lparr>ierrmsg := e\<rparr>) = advances s t"
  by (auto simp: advances_def split: istate.splits)

lemma advances_set_error [simp]: "advances s (PB_SET_ERROR_i msg t) = advances s t"
  by (simp add: PB_SET_ERROR_i_def)

lemma in_bounds_set_error [simp]: "in_bounds (PB_SET_ERROR_i msg t) = in_bounds t"
  by (simp add: PB_SET_ERROR_i_def in_bounds_def split: istate.splits)

section \<open>The contract\<close>

text \<open>
  A reader returns true or false, and moves the position of the stream and \<^verbatim>\<open>bytes_left\<close> by the
  same number of bytes.
\<close>

locale stream_reader =
  fixes rd :: "pb_istream_t \<Rightarrow> ('a, pb_istream_t) res"
  assumes contract: "in_bounds s \<Longrightarrow> fst (rd s) \<noteq> UB \<and> fst (rd s) \<noteq> Fuel \<and> advances s (snd (rd s))"
begin

lemma no_overrun: "in_bounds s \<Longrightarrow> rd s \<noteq> (UB, s')"
  using contract[of s] by auto

lemma returns: "in_bounds s \<Longrightarrow> (\<exists>v s'. rd s = (Ok v, s')) \<or> (\<exists>s'. rd s = (Err, s'))"
  using contract[of s] by (cases "rd s"; cases "fst (rd s)") auto

lemma stays_in_bounds: "in_bounds s \<Longrightarrow> in_bounds (snd (rd s))"
  using contract[of s] advances_in_bounds by blast

lemma never_gains_bytes: "in_bounds s \<Longrightarrow> unat (bytes_left (snd (rd s))) \<le> unat (bytes_left s)"
  using contract[of s] advances_bytes_left by blast

end

lemma stream_reader_seq:
  assumes "stream_reader f" and "\<And>a. stream_reader (k a)"
  shows "stream_reader (\<lambda>s. checkreturn (f s) k)"
proof
  fix s assume b: "in_bounds s"
  obtain r s' where r: "f s = (r, s')" by (cases "f s")
  have c: "r \<noteq> UB" "r \<noteq> Fuel" "advances s s'" using stream_reader.contract[OF assms(1) b] r by auto
  show "fst (checkreturn (f s) k) \<noteq> UB \<and> fst (checkreturn (f s) k) \<noteq> Fuel \<and>
        advances s (snd (checkreturn (f s) k))"
  proof (cases r)
    case (Ok a)
    have "in_bounds s'" using advances_in_bounds[OF c(3) b] .
    from stream_reader.contract[OF assms(2) this, of a] show ?thesis
      using Ok r c(3) advances_trans by auto
  qed (use c r in auto)
qed

lemma stream_reader_Ok [intro]: "stream_reader (\<lambda>s. (Ok v, s))"
  by standard simp

lemma stream_reader_Err [intro]: "stream_reader (\<lambda>s. (Err, s))"
  by standard simp

lemma stream_reader_error [intro]: "stream_reader (PB_RETURN_ERROR_i msg)"
  by standard (simp add: PB_RETURN_ERROR_i_def)

lemma stream_reader_If [intro]: "stream_reader f \<Longrightarrow> stream_reader g \<Longrightarrow> stream_reader (\<lambda>s. if b then f s else g s)"
  by (cases b) simp_all

section \<open>The instances\<close>

lemma icallback_contract:
  assumes b: "in_bounds s" and c: "c \<le> bytes_left s" and r: "icallback c s = (r, s')"
  shows "r \<noteq> UB \<and> r \<noteq> Fuel \<and> (r = Err \<longrightarrow> advances s s') \<and>
         (\<forall>bs. r = Ok bs \<longrightarrow> length bs = unat c \<and> advances s (s'\<lparr>bytes_left := bytes_left s' - c\<rparr>))"
proof (cases "istate s")
  case (Buffer bs)
  have cb: "unat c \<le> length bs" using b c Buffer by (simp add: in_bounds_def word_le_nat_alt)
  have "unat c + unat (bytes_left s - c) = unat (bytes_left s)"
    using c by (simp add: unat_diff_le word_le_nat_alt)
  then show ?thesis
    using r Buffer cb by (auto simp: icallback_def buf_read_def advances_def intro: exI[of _ "unat c"])
next
  case (User cb)
  have "unat c + unat (bytes_left s - c) = unat (bytes_left s)"
    using c by (simp add: unat_diff_le word_le_nat_alt)
  then show ?thesis
    using r User
    by (auto simp: icallback_def PB_RETURN_ERROR_i_def advances_def intro: exI[of _ 0] split: prod.splits option.splits)
qed

interpretation pb_read_buf: stream_reader "pb_read_buf c" for c
proof
  fix s assume b: "in_bounds s"
  show "fst (pb_read_buf c s) \<noteq> UB \<and> fst (pb_read_buf c s) \<noteq> Fuel \<and> advances s (snd (pb_read_buf c s))"
  proof (cases "bytes_left s < c")
    case False
    then have "c \<le> bytes_left s" by simp
    obtain r s' where r: "icallback c s = (r, s')" by (cases "icallback c s")
    from icallback_contract[OF b \<open>c \<le> bytes_left s\<close> r] show ?thesis
      using False r by (cases r) (auto simp: pb_read_buf_def)
  qed (simp add: pb_read_buf_def PB_RETURN_ERROR_i_def)
qed

interpretation pb_readbyte: stream_reader pb_readbyte
proof
  fix s assume b: "in_bounds s"
  show "fst (pb_readbyte s) \<noteq> UB \<and> fst (pb_readbyte s) \<noteq> Fuel \<and> advances s (snd (pb_readbyte s))"
  proof (cases "bytes_left s = 0")
    case False
    then have "1 \<le> bytes_left s" by (simp add: word_le_nat_alt unat_gt_0 Suc_leI)
    obtain r s' where r: "icallback 1 s = (r, s')" by (cases "icallback 1 s")
    from icallback_contract[OF b \<open>1 \<le> bytes_left s\<close> r] show ?thesis
      using False r by (cases r) (auto simp: pb_readbyte_def)
  qed (simp add: pb_readbyte_def PB_RETURN_ERROR_i_def)
qed

lemma stream_reader_skip_blocks: "stream_reader (pb_skip_blocks c)"
proof
  fix s assume "in_bounds s"
  then show "fst (pb_skip_blocks c s) \<noteq> UB \<and> fst (pb_skip_blocks c s) \<noteq> Fuel \<and>
             advances s (snd (pb_skip_blocks c s))"
  proof (induction c s rule: pb_skip_blocks.induct)
    case (1 c s)
    obtain r s' where r: "pb_read_buf (if c > 16 then 16 else c) s = (r, s')"
      by (cases "pb_read_buf (if c > 16 then 16 else c) s")
    have c: "r \<noteq> UB" "r \<noteq> Fuel" "advances s s'" "in_bounds s'"
      using pb_read_buf.contract[OF "1.prems"] pb_read_buf.stays_in_bounds[OF "1.prems"] r
      by (metis fst_conv snd_conv)+
    show ?case
    proof (cases r)
      case (Ok a)
      then show ?thesis
        using 1 r c advances_trans by (auto simp: pb_skip_blocks.simps[of c s] split: if_splits)
    qed (use c r in \<open>auto simp: pb_skip_blocks.simps[of c s] split: if_splits\<close>)
  qed
qed

interpretation pb_read_null: stream_reader "pb_read_null c" for c
proof
  fix s assume b: "in_bounds s"
  have "stream_reader (\<lambda>s. checkreturn (pb_read_buf c s) (\<lambda>_ s. (Ok (), s)))"
    by (intro stream_reader_seq stream_reader_Ok pb_read_buf.stream_reader_axioms)
  from stream_reader.contract[OF this b] stream_reader.contract[OF stream_reader_skip_blocks b, of c]
  show "fst (pb_read_null c s) \<noteq> UB \<and> fst (pb_read_null c s) \<noteq> Fuel \<and> advances s (snd (pb_read_null c s))"
    by (auto simp: pb_read_null_def split: istate.splits)
qed

lemma varint32_loop_contract:
  "in_bounds s \<Longrightarrow> fst (varint32_loop bp r s) \<noteq> UB \<and> fst (varint32_loop bp r s) \<noteq> Fuel \<and>
     advances s (snd (varint32_loop bp r s))"
proof (induction bp r s rule: varint32_loop.induct)
  case (1 bp res s)
  obtain r s' where r: "pb_readbyte s = (r, s')" by (cases "pb_readbyte s")
  have c: "r \<noteq> UB" "r \<noteq> Fuel" "advances s s'" "in_bounds s'"
    using pb_readbyte.contract[OF "1.prems"] pb_readbyte.stays_in_bounds[OF "1.prems"] r by auto
  show ?case
  proof (cases r)
    case (Ok b)
    show ?thesis
      using "1.IH"[OF r[unfolded Ok] _ refl refl _ c(4)] r Ok c advances_trans
      by (subst (1 2 3) varint32_loop.simps) (auto simp: Let_def PB_RETURN_ERROR_i_def)
  qed (use c r in \<open>auto simp: varint32_loop.simps[of bp res s]\<close>)
qed

lemma varint32_eof_contract:
  assumes "in_bounds s"
  shows "fst (snd (pb_decode_varint32_eof s)) \<noteq> UB \<and> fst (snd (pb_decode_varint32_eof s)) \<noteq> Fuel \<and>
         advances s (snd (snd (pb_decode_varint32_eof s)))"
proof -
  obtain r s' where r: "pb_readbyte s = (r, s')" by (cases "pb_readbyte s")
  have c: "r \<noteq> UB" "r \<noteq> Fuel" "advances s s'" "in_bounds s'"
    using pb_readbyte.contract[OF assms] pb_readbyte.stays_in_bounds[OF assms] r by auto
  show ?thesis
    using varint32_loop_contract[OF c(4)] c r advances_trans
    by (cases r) (auto simp: pb_decode_varint32_eof_def)
qed

interpretation pb_decode_varint32: stream_reader pb_decode_varint32
  by standard (auto simp: pb_decode_varint32_def varint32_eof_contract)

lemma varint_loop_contract:
  "in_bounds s \<Longrightarrow> fst (varint_loop bp r s) \<noteq> UB \<and> fst (varint_loop bp r s) \<noteq> Fuel \<and>
     advances s (snd (varint_loop bp r s))"
proof (induction bp r s rule: varint_loop.induct)
  case (1 bp res s)
  obtain r s' where r: "pb_readbyte s = (r, s')" by (cases "pb_readbyte s")
  have c: "r \<noteq> UB" "r \<noteq> Fuel" "advances s s'" "in_bounds s'"
    using pb_readbyte.contract[OF "1.prems"] pb_readbyte.stays_in_bounds[OF "1.prems"] r by auto
  show ?case
  proof (cases r)
    case (Ok b)
    show ?thesis
      using "1.IH"[OF _ r[unfolded Ok] refl _ c(4)] r Ok c advances_trans
      by (subst (1 2 3) varint_loop.simps) (auto simp: Let_def PB_RETURN_ERROR_i_def)
  qed (use c r in \<open>auto simp: varint_loop.simps[of bp res s] PB_RETURN_ERROR_i_def\<close>)
qed

interpretation pb_decode_varint: stream_reader pb_decode_varint
  by standard (simp add: pb_decode_varint_def varint_loop_contract)

interpretation pb_decode_svarint: stream_reader pb_decode_svarint
  unfolding pb_decode_svarint_def
  by (intro stream_reader_seq stream_reader_Ok pb_decode_varint.stream_reader_axioms)

interpretation pb_decode_fixed32: stream_reader pb_decode_fixed32
  unfolding pb_decode_fixed32_def
  by (intro stream_reader_seq stream_reader_Ok pb_read_buf.stream_reader_axioms)

interpretation pb_decode_fixed64: stream_reader pb_decode_fixed64
  unfolding pb_decode_fixed64_def
  by (intro stream_reader_seq stream_reader_Ok pb_read_buf.stream_reader_axioms)

lemma stream_reader_skip_varint: "stream_reader pb_skip_varint"
proof
  fix s assume "in_bounds s"
  then show "fst (pb_skip_varint s) \<noteq> UB \<and> fst (pb_skip_varint s) \<noteq> Fuel \<and> advances s (snd (pb_skip_varint s))"
  proof (induction s rule: pb_skip_varint.induct)
    case (1 s)
    obtain r s' where r: "pb_read_buf 1 s = (r, s')" by (cases "pb_read_buf 1 s")
    have c: "r \<noteq> UB" "r \<noteq> Fuel" "advances s s'" "in_bounds s'"
      using pb_read_buf.contract[OF "1.prems"] pb_read_buf.stays_in_bounds[OF "1.prems"] r by (metis fst_conv snd_conv)+
    show ?case
    proof (cases r)
      case (Ok b)
      show ?thesis
        using "1.IH"[OF r[unfolded Ok] _ c(4)] r Ok c advances_trans
        by (subst (1 2 3) pb_skip_varint.simps) auto
    qed (use c r in \<open>auto simp: pb_skip_varint.simps[of s]\<close>)
  qed
qed

interpretation pb_skip_field: stream_reader "pb_skip_field wt" for wt
  unfolding pb_skip_field_def pb_skip_string_def
  by (intro stream_reader_If stream_reader_seq stream_reader_skip_varint stream_reader_error
      pb_read_null.stream_reader_axioms pb_decode_varint32.stream_reader_axioms)

lemma stream_reader_raw_varint: "stream_reader (read_raw_varint n)"
proof (induction n)
  case 0
  then show ?case by (simp add: stream_reader_Err)
next
  case (Suc n)
  then show ?case
    by (simp, intro stream_reader_seq stream_reader_If stream_reader_Ok pb_read_buf.stream_reader_axioms)
qed

interpretation read_raw_value: stream_reader "read_raw_value wt n" for wt n
  unfolding read_raw_value_def
  by (intro stream_reader_If stream_reader_raw_varint stream_reader_error pb_read_buf.stream_reader_axioms)

lemma pb_decode_tag_contract:
  assumes "in_bounds s"
  shows "fst (snd (pb_decode_tag s)) \<noteq> UB \<and> fst (snd (pb_decode_tag s)) \<noteq> Fuel \<and> advances s (snd (snd (pb_decode_tag s)))"
proof -
  obtain e r s' where r: "pb_decode_varint32_eof s = (e, r, s')" by (cases "pb_decode_varint32_eof s")
  then show ?thesis using varint32_eof_contract[OF assms]
    by (cases r) (auto simp: pb_decode_tag_def)
qed

section \<open>Progress\<close>

text \<open>A successful varint, and so a tag, takes at least one byte.\<close>

lemma varint32_eof_progress:
  assumes "in_bounds s" "pb_decode_varint32_eof s = (e, Ok v, s')"
  shows "unat (bytes_left s') < unat (bytes_left s)"
proof -
  obtain b s1 where b: "pb_readbyte s = (Ok b, s1)"
    and s': "s' = s1 \<or> s' = snd (varint32_loop 7 (ucast (b AND 0x7F)) s1)"
    using assms(2) by (auto simp: pb_decode_varint32_eof_def split: prod.splits outcome.splits if_splits)
  have "in_bounds s1" using pb_readbyte.stays_in_bounds[OF assms(1)] b by simp
  then have "advances s1 s'" using s' varint32_loop_contract by auto
  then show ?thesis using advances_bytes_left pb_readbyte_Ok(3)[OF b] by fastforce
qed

lemma pb_decode_tag_progress:
  assumes "in_bounds s" "pb_decode_tag s = (e, Ok v, s')"
  shows "unat (bytes_left s') < unat (bytes_left s)"
  using assms varint32_eof_progress[OF assms(1)]
  by (auto simp: pb_decode_tag_def split: prod.splits outcome.splits if_splits)

lemma varint_progress:
  assumes "in_bounds s" "pb_decode_varint s = (Ok v, s')"
  shows "unat (bytes_left s') < unat (bytes_left s)"
proof -
  obtain b s1 where b: "pb_readbyte s = (Ok b, s1)"
    and s': "s' = s1 \<or> s' = snd (varint_loop 7 (0 OR push_bit 0 (ucast (b AND 0x7F))) s1)"
    using assms(2)
    by (auto simp: pb_decode_varint_def varint_loop.simps[of 0 0] checkreturn_Ok_iff Let_def split: if_splits)
  have "in_bounds s1" using pb_readbyte.stays_in_bounds[OF assms(1)] b by simp
  then have "advances s1 s'" using s' varint_loop_contract by auto
  then show ?thesis using advances_bytes_left pb_readbyte_Ok(3)[OF b] by fastforce
qed

section \<open>Substreams\<close>

text \<open>
  Making a substream splits the parent: both see the same bytes, the substream may read the
  first \<^verbatim>\<open>size\<close> of them, and the parent keeps the rest for after the substream is closed.
\<close>

lemma make_substream_contract:
  assumes "in_bounds s"
  shows "fst (pb_make_string_substream s) \<noteq> UB" "fst (pb_make_string_substream s) \<noteq> Fuel"
    "fst (pb_make_string_substream s) = Err \<Longrightarrow> advances s (snd (pb_make_string_substream s))"
    "pb_make_string_substream s = (Ok sub, s') \<Longrightarrow>
       in_bounds sub \<and> istate sub = istate s' \<and> ierrmsg sub = ierrmsg s' \<and>
       unat (bytes_left sub) + unat (bytes_left s') < unat (bytes_left s) \<and>
       advances s (s'\<lparr>bytes_left := bytes_left s' + bytes_left sub\<rparr>)"
proof -
  obtain r t where r: "pb_decode_varint32 s = (r, t)" by (cases "pb_decode_varint32 s")
  have c: "r \<noteq> UB" "r \<noteq> Fuel" "advances s t" "in_bounds t"
    using pb_decode_varint32.contract[OF assms] pb_decode_varint32.stays_in_bounds[OF assms] r by auto
  show "fst (pb_make_string_substream s) \<noteq> UB" "fst (pb_make_string_substream s) \<noteq> Fuel"
    using c r by (cases r; simp add: pb_make_string_substream_def Let_def PB_RETURN_ERROR_i_def)+
  show "advances s (snd (pb_make_string_substream s))" if "fst (pb_make_string_substream s) = Err"
    using that c r by (cases r) (auto simp: pb_make_string_substream_def Let_def PB_RETURN_ERROR_i_def split: if_splits)
  assume ok: "pb_make_string_substream s = (Ok sub, s')"
  then obtain n where n: "r = Ok n" "\<not> bytes_left t < ucast n"
      "sub = t\<lparr>bytes_left := ucast n\<rparr>" "s' = t\<lparr>bytes_left := bytes_left t - ucast n\<rparr>"
    using r by (cases r) (auto simp: pb_make_string_substream_def Let_def PB_RETURN_ERROR_i_def split: if_splits)
  have le: "unat (ucast n :: size_t) \<le> unat (bytes_left t)" using n(2) unfolding not_less word_le_nat_alt .
  have "unat (bytes_left t) < unat (bytes_left s)"
    using varint32_eof_progress[OF assms] r n(1)
    by (metis pb_decode_varint32_def prod.collapse snd_conv)
  moreover have "t\<lparr>bytes_left := bytes_left t - ucast n + ucast n\<rparr> = t" by simp
  ultimately show "in_bounds sub \<and> istate sub = istate s' \<and> ierrmsg sub = ierrmsg s' \<and>
       unat (bytes_left sub) + unat (bytes_left s') < unat (bytes_left s) \<and>
       advances s (s'\<lparr>bytes_left := bytes_left s' + bytes_left sub\<rparr>)"
    using n c(3,4) le by (auto simp: in_bounds_def unat_diff_le word_le_nat_alt split: istate.splits)
qed

lemma pb_read_buf_drains:
  assumes "pb_read_buf (bytes_left s) s = (Ok bs, s')"
  shows "bytes_left s' = 0"
  using pb_read_buf_Ok(3)[OF assms] by simp

lemma pb_skip_blocks_drains:
  "pb_skip_blocks c s = (Ok u, s') \<Longrightarrow> bytes_left s' = bytes_left s - c"
proof (induction c s arbitrary: s' rule: pb_skip_blocks.induct)
  case (1 c s)
  then show ?case
    by (subst (asm) pb_skip_blocks.simps)
       (fastforce simp: checkreturn_Ok_iff dest: pb_read_buf_Ok(3) split: if_splits)
qed

lemma pb_read_null_consumes:
  "pb_read_null c s = (Ok u, s') \<Longrightarrow> bytes_left s' = bytes_left s - c"
  by (auto simp: pb_read_null_def checkreturn_Ok_iff pb_skip_blocks_drains dest: pb_read_buf_Ok(3) split: istate.splits)

text \<open>
  Closing: the parent resumes exactly where the substream's bytes end, whatever was read of them.
\<close>

lemma close_substream_contract:
  assumes sub: "in_bounds sub" and adv: "advances sub0 sub" and st: "istate sub0 = istate s"
    and fits: "in_bounds (s\<lparr>bytes_left := bytes_left s + bytes_left sub0\<rparr>)"
    and nowrap: "unat (bytes_left s) + unat (bytes_left sub0) < 2 ^ 64"
  shows "fst (pb_close_string_substream sub s) \<noteq> UB" "fst (pb_close_string_substream sub s) \<noteq> Fuel"
    "fst (pb_close_string_substream sub s) = Err \<Longrightarrow> snd (pb_close_string_substream sub s) = s"
    "pb_close_string_substream sub s = (Ok v, s') \<Longrightarrow>
       advances (s\<lparr>bytes_left := bytes_left s + bytes_left sub0\<rparr>) s' \<and> bytes_left s' = bytes_left s"
proof -
  define c where "c = (if bytes_left sub \<noteq> 0 then pb_read_null (bytes_left sub) sub else (Ok (), sub))"
  obtain r t where r: "c = (r, t)" by (cases c)
  have k: "r \<noteq> UB" "r \<noteq> Fuel" "advances sub t"
    using pb_read_null.contract[OF sub, of "bytes_left sub"] r by (auto simp: c_def split: if_splits)
  have eq: "pb_close_string_substream sub s =
      (case (r, t) of (Ok _, sub') \<Rightarrow> (Ok sub', s\<lparr>istate := istate sub', ierrmsg := ierrmsg sub'\<rparr>)
       | (Err, sub') \<Rightarrow> (Err, s) | (UB, sub') \<Rightarrow> (UB, s) | (Fuel, sub') \<Rightarrow> (Fuel, s))"
    using r by (simp add: pb_close_string_substream_def c_def)
  show "fst (pb_close_string_substream sub s) \<noteq> UB" "fst (pb_close_string_substream sub s) \<noteq> Fuel"
    using k by (cases r; simp add: eq)+
  show "snd (pb_close_string_substream sub s) = s" if "fst (pb_close_string_substream sub s) = Err"
    using that k by (cases r) (auto simp: eq)
  assume "pb_close_string_substream sub s = (Ok v, s')"
  then obtain u where u: "r = Ok u" "s' = s\<lparr>istate := istate t, ierrmsg := ierrmsg t\<rparr>"
    using k by (cases r) (auto simp: eq)
  have t0: "bytes_left t = 0"
    using r u(1) pb_read_null_consumes[of "bytes_left sub" sub u t] by (auto simp: c_def split: if_splits)
  have "advances sub0 t" using advances_trans[OF adv k(3)] .
  then have "case istate s of Buffer bs \<Rightarrow> istate t = Buffer (drop (unat (bytes_left sub0)) bs) | User _ \<Rightarrow> \<exists>cb. istate t = User cb"
    using t0 st by (auto simp: advances_def split: istate.splits)
  moreover have "unat (bytes_left s + bytes_left sub0) = unat (bytes_left s) + unat (bytes_left sub0)"
    using nowrap by (simp add: unat_word_ariths)
  ultimately show "advances (s\<lparr>bytes_left := bytes_left s + bytes_left sub0\<rparr>) s' \<and> bytes_left s' = bytes_left s"
    using u(2) by (auto simp: advances_def intro!: exI[of _ "unat (bytes_left sub0)"] split: istate.splits)
qed

end
