(* ===== verification/Leb128.thy ===== *)
theory Leb128
  imports Prelude
begin

text \<open>
  The variable-length format of integers that protocol buffers and LevelDB share: base 128, least
  significant group first, the top bit of a byte marks that more groups follow. The writers of
  both are shown to produce it and the readers to take it back.
\<close>

fun leb128 :: "nat \<Rightarrow> byte list" where
  "leb128 n = (if n < 128 then [word_of_nat n] else word_of_nat (n mod 128 + 128) # leb128 (n div 128))"

declare leb128.simps [simp del]

lemma leb128_not_Nil [simp]: "leb128 n \<noteq> []"
  by (subst leb128.simps) simp

lemma leb128_length: "0 < k \<Longrightarrow> n < 2 ^ (7 * k) \<Longrightarrow> length (leb128 n) \<le> k"
proof (induction n arbitrary: k rule: leb128.induct)
  case (1 n)
  show ?case
  proof (cases "n < 128")
    case True
    then show ?thesis using "1.prems" by (simp add: leb128.simps[of n])
  next
    case False
    obtain j where k: "k = Suc j" using "1.prems"(1) by (cases k) auto
    have j: "0 < j" using False "1.prems"(2) k by (cases j) auto
    have "n div 128 < 2 ^ (7 * j)"
      using "1.prems"(2) by (intro less_mult_imp_div_less) (simp add: k power_add)
    then have "length (leb128 (n div 128)) \<le> j" using "1.IH" False j by blast
    then show ?thesis using False k by (simp add: leb128.simps[of n])
  qed
qed

section \<open>Bits of a group\<close>

lemma and_0x7F: "(w :: 'a::len word) AND 0x7F = take_bit 7 w"
  by (simp add: take_bit_eq_mask mask_eq_exp_minus_1)

lemma low7_byte: "(ucast ((v :: u64) AND 0x7F) :: byte) = word_of_nat (unat v mod 128)"
proof -
  have "unat v mod 128 = take_bit 7 (unat v)" by (simp add: take_bit_eq_mod)
  then show ?thesis
    by (simp only: and_0x7F) (rule bit_word_eqI, simp add: bit_simps)
qed

lemma low7_of_nat: "(word_of_nat k :: byte) AND 0x7F = word_of_nat (k mod 128)"
proof -
  have "k mod 128 = take_bit 7 k" by (simp add: take_bit_eq_mod)
  then show ?thesis
    by (simp only: and_0x7F) (rule bit_word_eqI, simp add: bit_simps)
qed

lemma group_byte: "(ucast (((v :: u64) AND 0x7F) OR 0x80) :: byte) = word_of_nat (unat v mod 128 + 128)"
proof -
  have "(ucast ((v AND 0x7F) OR 0x80) :: byte) = ucast (v AND 0x7F) OR 0x80"
    by (rule bit_word_eqI) (auto simp: bit_simps)
  also have "\<dots> = ucast (v AND 0x7F) + 0x80"
  proof -
    have "\<not> bit (ucast (v AND 0x7F) :: byte) j \<or> \<not> bit (0x80 :: byte) j" for j
    proof -
      have "(0x80 :: byte) = 2 ^ 7" by simp
      then have "bit (0x80 :: byte) j \<Longrightarrow> j = 7" by (simp only: bit_exp_iff)
      then show ?thesis by (auto simp: bit_simps and_0x7F)
    qed
    then show ?thesis by (rule disjunctive_add[symmetric])
  qed
  also have "\<dots> = word_of_nat (unat v mod 128 + 128)" by (simp add: low7_byte)
  finally show ?thesis .
qed

lemma word_of_nat_group_bits:
  assumes "m < 128"
  shows "(word_of_nat (m + 128) :: byte) AND 0x80 \<noteq> 0" "(word_of_nat (m + 128) :: byte) AND 0x7F = word_of_nat m"
    "(word_of_nat m :: byte) AND 0x80 = 0" "(word_of_nat m :: byte) AND 0x7F = word_of_nat m"
proof -
  have b: "bit (word_of_nat (m + 128) :: byte) 7" "\<not> bit (word_of_nat m :: byte) 7"
  proof -
    have "(m + 128) div 2 ^ 7 = 1" "m div 2 ^ 7 = 0" using assms by simp_all
    then have "bit (m + 128) 7" "\<not> bit m 7" by (simp_all only: bit_iff_odd) simp_all
    then show "bit (word_of_nat (m + 128) :: byte) 7" "\<not> bit (word_of_nat m :: byte) 7"
      by (simp_all only: bit_of_nat_iff) simp_all
  qed
  then show "(word_of_nat (m + 128) :: byte) AND 0x80 \<noteq> 0" "(word_of_nat m :: byte) AND 0x80 = 0"
    by (simp_all add: and_0x80_iff)
  have "(m + 128) mod 128 = m" "m mod 128 = m" using assms by simp_all
  then show "(word_of_nat (m + 128) :: byte) AND 0x7F = word_of_nat m"
    "(word_of_nat m :: byte) AND 0x7F = word_of_nat m"
    by (simp_all only: low7_of_nat)
qed

lemma or_push_bit:
  assumes "r < 2 ^ k"
  shows "(word_of_nat r :: 'a::len word) OR push_bit k (word_of_nat m) = word_of_nat (r + m * 2 ^ k)"
proof -
  have "\<not> bit (word_of_nat r :: 'a word) j \<or> \<not> bit (push_bit k (word_of_nat m :: 'a word)) j" for j
  proof (cases "j < k")
    case True
    then show ?thesis by (simp add: bit_push_bit_iff)
  next
    case False
    then have "r < 2 ^ j" using assms by (meson less_le_trans not_less one_le_numeral power_increasing)
    then have "\<not> bit r j" by (simp add: bit_iff_odd)
    then show ?thesis by (simp add: bit_of_nat_iff)
  qed
  then have "(word_of_nat r :: 'a word) OR push_bit k (word_of_nat m) = word_of_nat r + push_bit k (word_of_nat m)"
    by (rule disjunctive_add[symmetric])
  then show ?thesis by (simp add: push_bit_eq_mult)
qed

section \<open>Groups\<close>

lemma group_bound:
  assumes "r < 2 ^ k" "m < 128"
  shows "r + m * 2 ^ k < 128 * (2 :: nat) ^ k"
proof -
  have "r + m * 2 ^ k < (1 + m) * 2 ^ k" using assms(1) by simp
  also have "\<dots> \<le> 128 * 2 ^ k" using assms(2) by (intro mult_right_mono) simp_all
  finally show ?thesis .
qed

lemma group_split: "n * 2 ^ (7 * i) = n mod 128 * 2 ^ (7 * i) + n div 128 * (2 :: nat) ^ (7 * Suc i)"
proof -
  have n: "n = n mod 128 + 128 * (n div 128)" by simp
  have pow: "(2 :: nat) ^ (7 * Suc i) = 128 * 2 ^ (7 * i)" by (simp add: power_add)
  show ?thesis
    using arg_cong[OF n, of "\<lambda>k. k * 2 ^ (7 * i)"] unfolding pow by (simp only: algebra_simps)
qed

end
