(* ===== verification/Pb_Varint.thy ===== *)
theory Pb_Varint
  imports Pb_Istream_Laws Pb_Ostream Leb128
begin

text \<open>
  Varints in nanopb. The encoder writes \<open>leb128\<close> of the value, at most ten bytes; the 64-bit
  decoder reads it back; the 32-bit decoder reads back values below \<open>2 ^ 32\<close> and the
  sign-extended form of negative 32-bit values.
\<close>

section \<open>Writing\<close>

definition clear_last :: "byte list \<Rightarrow> byte list" where
  "clear_last bs = bs[length bs - 1 := bs ! (length bs - 1) AND 0x7F]"

lemma clear_last_Cons: "bs \<noteq> [] \<Longrightarrow> clear_last (b # bs) = b # clear_last bs"
  by (cases bs) (simp_all add: clear_last_def)

lemma varint_buffer_eq_Nil [simp]: "varint_buffer v = [] \<longleftrightarrow> v = 0"
  by (subst varint_buffer.simps) simp

lemma varint_buffer_0 [simp]: "varint_buffer 0 = []"
  by simp

lemma varint_buffer_leb128: "v \<noteq> 0 \<Longrightarrow> clear_last (varint_buffer v) = leb128 (unat v)"
proof (induction v rule: varint_buffer.induct)
  case (1 v)
  have dv: "unat (drop_bit 7 v) = unat v div 128"
    using unat_drop_bit_eq[of 7 v] by (simp only: drop_bit_nat_def drop_bit_eq_div) simp
  show ?case
  proof (cases "unat v < 128")
    case True
    then have "drop_bit 7 v = 0" using dv by (simp add: unat_eq_zero[symmetric])
    then show ?thesis
      using "1.prems" True word_of_nat_group_bits(2)[of "unat v"]
      by (simp add: varint_buffer.simps[of v] leb128.simps[of "unat v"] clear_last_def group_byte)
  next
    case False
    then have nz: "drop_bit 7 v \<noteq> 0" using dv by (auto simp: unat_eq_zero[symmetric])
    then have "clear_last (varint_buffer v) =
        word_of_nat (unat v mod 128 + 128) # clear_last (varint_buffer (drop_bit 7 v))"
      using "1.prems" by (simp add: varint_buffer.simps[of v] clear_last_Cons group_byte)
    then show ?thesis
      using "1.IH"[OF "1.prems" nz] False by (simp add: leb128.simps[of "unat v"] dv)
  qed
qed

lemma length_varint_buffer: "v \<noteq> 0 \<Longrightarrow> length (varint_buffer v) = length (leb128 (unat v))"
  using varint_buffer_leb128[of v] by (metis clear_last_def length_list_update)

lemma leb128_u64_length: "length (leb128 (unat (v :: u64))) \<le> 10"
proof (rule leb128_length)
  show "unat v < 2 ^ (7 * 10)" using unat_less_two_power[of v] by simp
qed simp

lemma pb_encode_varint_eq:
  "pb_encode_varint v s =
     pb_write (Some (leb128 (unat v))) (word_of_nat (length (leb128 (unat v)))) s"
proof (cases "v \<le> 0x7F")
  case True
  then have "unat v < 128" by (simp add: word_le_nat_alt)
  then show ?thesis using True
    by (simp add: pb_encode_varint_def leb128.simps[of "unat v"] unsigned_of_nat)
next
  case False
  then have "v \<noteq> 0" by auto
  then show ?thesis using False varint_buffer_leb128[of v] length_varint_buffer[of v]
    by (simp add: pb_encode_varint_def Let_def clear_last_def)
qed

section \<open>Reading\<close>

lemma pb_readbyte_Buffer:
  assumes "istate s = Buffer (b # bs)" "bytes_left s \<noteq> 0"
  shows "pb_readbyte s = (Ok b, s\<lparr>istate := Buffer bs, bytes_left := bytes_left s - 1\<rparr>)"
  using assms by (simp add: pb_readbyte_def icallback_def buf_read_def)

text \<open>The stream after the first \<open>k\<close> bytes of its buffer, \<open>rest\<close> being left.\<close>

definition consumed :: "nat \<Rightarrow> byte list \<Rightarrow> pb_istream_t \<Rightarrow> pb_istream_t" where
  "consumed k rest s = s\<lparr>istate := Buffer rest, bytes_left := bytes_left s - word_of_nat k\<rparr>"

lemma consumed_simps [simp]:
  "istate (consumed k rest s) = Buffer rest" "ierrmsg (consumed k rest s) = ierrmsg s"
  "bytes_left (consumed k rest s) = bytes_left s - word_of_nat k"
  "consumed k rest (consumed j bs s) = consumed (j + k) rest s"
  by (simp_all add: consumed_def)

lemma unat_bytes_left_consumed:
  assumes "k \<le> unat (bytes_left s)"
  shows "unat (bytes_left (consumed k rest s)) = unat (bytes_left s) - k"
proof -
  have "k < 2 ^ LENGTH(64)" using assms unat_less_two_power[of "bytes_left s"] by linarith
  then have "unat (word_of_nat k :: size_t) = k" by (rule unat_word_of_nat)
  then show ?thesis using assms by (simp add: unat_diff_le word_le_nat_alt)
qed

lemma pb_readbyte_consumed:
  assumes "istate s = Buffer (b # bs)" "0 < unat (bytes_left s)"
  shows "pb_readbyte s = (Ok b, consumed 1 bs s)"
proof -
  have "bytes_left s \<noteq> 0" using assms(2) by (auto simp: unat_gt_0)
  then show ?thesis using pb_readbyte_Buffer[OF assms(1)] by (simp add: consumed_def)
qed

lemma pb_read_buf_consumed:
  assumes "istate s = Buffer (bs @ rest)" "unat c = length bs" "length bs \<le> unat (bytes_left s)"
  shows "pb_read_buf c s = (Ok bs, consumed (length bs) rest s)"
proof -
  have "word_of_nat (length bs) = c" by (simp flip: assms(2))
  moreover have "\<not> bytes_left s < c" using assms(2,3) by (simp add: word_less_nat_alt)
  ultimately show ?thesis
    using assms(1,2) by (simp add: pb_read_buf_def icallback_def buf_read_def consumed_def)
qed

lemma varint_loop_step:
  assumes "i \<le> 9" "r < 2 ^ (7 * i)" "m < 128" "istate s = Buffer (b # bs)" "0 < unat (bytes_left s)"
    "b AND 0x7F = word_of_nat m"
  shows "varint_loop (word_of_nat (7 * i)) (word_of_nat r) s =
    (if b AND 0x80 \<noteq> 0
     then varint_loop (word_of_nat (7 * Suc i)) (word_of_nat (r + m * 2 ^ (7 * i))) (consumed 1 bs s)
     else (Ok (word_of_nat (r + m * 2 ^ (7 * i))), consumed 1 bs s))"
proof -
  have bp: "unat (word_of_nat (7 * i) :: u8) = 7 * i"
    using assms(1) by (intro unat_word_of_nat) simp
  have "(ucast (b AND 0x7F) :: u64) = word_of_nat m"
    using assms(3,6) by (simp add: unsigned_ucast_eq unsigned_of_nat take_bit_nat_eq_self)
  then have or: "(word_of_nat r :: u64) OR push_bit (7 * i) (ucast (b AND 0x7F)) = word_of_nat (r + m * 2 ^ (7 * i))"
    using or_push_bit[OF assms(2), of m] by (simp only:)
  have "\<not> (64 :: u8) \<le> word_of_nat (7 * i)"
    using assms(1) bp by (simp add: word_le_nat_alt)
  then show ?thesis
    using pb_readbyte_consumed[OF assms(4,5)] or
    by (subst varint_loop.simps) (simp add: Let_def bp[simplified] add.commute)
qed

lemma varint_loop_leb128:
  "i \<le> 9 \<Longrightarrow> r < 2 ^ (7 * i) \<Longrightarrow> n * 2 ^ (7 * i) < 2 ^ 64 \<Longrightarrow>
   istate s = Buffer (leb128 n @ rest) \<Longrightarrow> length (leb128 n) \<le> unat (bytes_left s) \<Longrightarrow>
   varint_loop (word_of_nat (7 * i)) (word_of_nat r) s =
     (Ok (word_of_nat (r + n * 2 ^ (7 * i))), consumed (length (leb128 n)) rest s)"
proof (induction n arbitrary: i r s rule: leb128.induct)
  case (1 n)
  have left: "0 < unat (bytes_left s)" using "1.prems"(5) leb128_not_Nil[of n] by (cases "leb128 n") auto
  show ?case
  proof (cases "n < 128")
    case True
    then have b: "istate s = Buffer (word_of_nat n # rest)" "leb128 n = [word_of_nat n]"
      using "1.prems"(4) by (simp_all add: leb128.simps[of n])
    show ?thesis
      using varint_loop_step[OF "1.prems"(1,2) True b(1) left] word_of_nat_group_bits(3,4)[OF True] b(2) by simp
  next
    case False
    let ?m = "n mod 128" and ?r = "r + n mod 128 * 2 ^ (7 * i)"
    have m: "?m < 128" by simp
    have l: "leb128 n = word_of_nat (?m + 128) # leb128 (n div 128)"
      using False by (simp add: leb128.simps[of n])
    then have s: "istate s = Buffer (word_of_nat (?m + 128) # leb128 (n div 128) @ rest)"
      using "1.prems"(4) by simp
    have pow: "(2 :: nat) ^ (7 * Suc i) = 128 * 2 ^ (7 * i)" by (simp add: power_add)
    have "128 * 2 ^ (7 * i) \<le> n * (2 :: nat) ^ (7 * i)" using False by simp
    then have "(2 :: nat) ^ (7 * Suc i) < 2 ^ 64" using "1.prems"(3) pow by linarith
    then have i: "Suc i \<le> 9" using power_less_imp_less_exp[of "2 :: nat" "7 * Suc i" 64] by simp
    have r: "?r < 2 ^ (7 * Suc i)"
      unfolding pow using group_bound[OF "1.prems"(2) m] .
    have split: "n * 2 ^ (7 * i) = ?m * 2 ^ (7 * i) + n div 128 * 2 ^ (7 * Suc i)"
      by (rule group_split)
    have "varint_loop (word_of_nat (7 * i)) (word_of_nat r) s =
        varint_loop (word_of_nat (7 * Suc i)) (word_of_nat ?r) (consumed 1 (leb128 (n div 128) @ rest) s)"
      using varint_loop_step[OF "1.prems"(1,2) m s left] word_of_nat_group_bits(1,2)[OF m] by simp
    also have "\<dots> = (Ok (word_of_nat (?r + n div 128 * 2 ^ (7 * Suc i))),
        consumed (length (leb128 (n div 128))) rest (consumed 1 (leb128 (n div 128) @ rest) s))"
    proof (rule "1.IH"[OF False i r])
      show "n div 128 * 2 ^ (7 * Suc i) < 2 ^ 64" using "1.prems"(3) split by linarith
      show "length (leb128 (n div 128)) \<le> unat (bytes_left (consumed 1 (leb128 (n div 128) @ rest) s))"
        using "1.prems"(5) left l by (simp only: unat_bytes_left_consumed) simp
    qed simp
    also have "?r + n div 128 * 2 ^ (7 * Suc i) = r + n * 2 ^ (7 * i)" using split by simp
    finally show ?thesis by (simp only: consumed_simps) (simp add: l)
  qed
qed

lemma pb_decode_varint_leb128:
  assumes "n < 2 ^ 64" "istate s = Buffer (leb128 n @ rest)" "length (leb128 n) \<le> unat (bytes_left s)"
  shows "pb_decode_varint s = (Ok (word_of_nat n), consumed (length (leb128 n)) rest s)"
  using varint_loop_leb128[of 0 0 n s rest] assms by (simp add: pb_decode_varint_def)

text \<open>
  The 32-bit decoder: a value below \<open>2 ^ 32\<close> has at most five groups, the fifth of at most
  four bits.
\<close>

lemma and_0x70:
  assumes "m < 16"
  shows "(word_of_nat m :: byte) AND 0x70 = 0"
proof -
  have "take_bit 4 m = m" using assms by (simp add: take_bit_nat_eq_self)
  then have "(word_of_nat m :: byte) = take_bit 4 (word_of_nat m)"
    by (simp only: take_bit_of_nat)
  also have "\<dots> AND 0x70 = word_of_nat m AND (mask 4 AND 0x70)"
    by (simp only: take_bit_eq_mask and.assoc)
  also have "(mask 4 AND 0x70 :: byte) = 0" by (simp add: mask_eq_exp_minus_1)
  finally show ?thesis by simp
qed

lemma varint32_loop_step:
  assumes "i \<le> 4" "r < 2 ^ (7 * i)" "m < 128" "istate s = Buffer (b # bs)" "0 < unat (bytes_left s)"
    "b AND 0x7F = word_of_nat m"
  shows "varint32_loop (word_of_nat (7 * i)) (word_of_nat r) s =
    (if b AND 0x80 \<noteq> 0
     then varint32_loop (word_of_nat (7 * Suc i)) (word_of_nat (r + m * 2 ^ (7 * i))) (consumed 1 bs s)
     else if i = 4 \<and> b AND 0x70 \<noteq> 0 then PB_RETURN_ERROR_i ''varint overflow'' (consumed 1 bs s)
     else (Ok (word_of_nat (r + m * 2 ^ (7 * i))), consumed 1 bs s))"
proof -
  have bp: "unat (word_of_nat (7 * i) :: u8) = 7 * i" "unat (word_of_nat (7 * i) + 7 :: u8) = 7 * i + 7"
    using assms(1) unat_word_of_nat[where 'a = 8, of "7 * i"] unat_word_of_nat[where 'a = 8, of "7 * i + 7"]
    by (simp_all add: add.commute)
  have "(ucast (b AND 0x7F) :: u32) = word_of_nat m"
    using assms(3,6) by (simp add: unsigned_ucast_eq unsigned_of_nat take_bit_nat_eq_self)
  then have or: "(word_of_nat r :: u32) OR push_bit (7 * i) (ucast (b AND 0x7F)) = word_of_nat (r + m * 2 ^ (7 * i))"
    using or_push_bit[OF assms(2), of m] by (simp only:)
  have "\<not> (32 :: u8) \<le> word_of_nat (7 * i)" "word_of_nat (7 * i) + 7 = (35 :: u8) \<longleftrightarrow> i = 4"
    using assms(1) bp by (simp_all only: word_le_nat_alt word_unat_eq_iff) auto
  then show ?thesis
    using pb_readbyte_consumed[OF assms(4,5)] or
    by (subst varint32_loop.simps) (simp add: Let_def bp[simplified] add.commute)
qed

lemma varint32_loop_leb128:
  "i \<le> 4 \<Longrightarrow> r < 2 ^ (7 * i) \<Longrightarrow> n * 2 ^ (7 * i) < 2 ^ 32 \<Longrightarrow>
   istate s = Buffer (leb128 n @ rest) \<Longrightarrow> length (leb128 n) \<le> unat (bytes_left s) \<Longrightarrow>
   varint32_loop (word_of_nat (7 * i)) (word_of_nat r) s =
     (Ok (word_of_nat (r + n * 2 ^ (7 * i))), consumed (length (leb128 n)) rest s)"
proof (induction n arbitrary: i r s rule: leb128.induct)
  case (1 n)
  have left: "0 < unat (bytes_left s)" using "1.prems"(5) leb128_not_Nil[of n] by (cases "leb128 n") auto
  show ?case
  proof (cases "n < 128")
    case True
    then have b: "istate s = Buffer (word_of_nat n # rest)" "leb128 n = [word_of_nat n]"
      using "1.prems"(4) by (simp_all add: leb128.simps[of n])
    have "i = 4 \<Longrightarrow> n < 16" using "1.prems"(3) by simp
    then show ?thesis
      using varint32_loop_step[OF "1.prems"(1,2) True b(1) left] word_of_nat_group_bits(3,4)[OF True] b(2)
        and_0x70[of n] by auto
  next
    case False
    let ?m = "n mod 128" and ?r = "r + n mod 128 * 2 ^ (7 * i)"
    have m: "?m < 128" by simp
    have l: "leb128 n = word_of_nat (?m + 128) # leb128 (n div 128)"
      using False by (simp add: leb128.simps[of n])
    then have s: "istate s = Buffer (word_of_nat (?m + 128) # leb128 (n div 128) @ rest)"
      using "1.prems"(4) by simp
    have pow: "(2 :: nat) ^ (7 * Suc i) = 128 * 2 ^ (7 * i)" by (simp add: power_add)
    have "128 * 2 ^ (7 * i) \<le> n * (2 :: nat) ^ (7 * i)" using False by simp
    then have "(2 :: nat) ^ (7 * Suc i) < 2 ^ 32" using "1.prems"(3) pow by linarith
    then have i: "Suc i \<le> 4" using power_less_imp_less_exp[of "2 :: nat" "7 * Suc i" 32] by simp
    have r: "?r < 2 ^ (7 * Suc i)"
      unfolding pow using group_bound[OF "1.prems"(2) m] .
    have split: "n * 2 ^ (7 * i) = ?m * 2 ^ (7 * i) + n div 128 * 2 ^ (7 * Suc i)"
      by (rule group_split)
    have "varint32_loop (word_of_nat (7 * i)) (word_of_nat r) s =
        varint32_loop (word_of_nat (7 * Suc i)) (word_of_nat ?r) (consumed 1 (leb128 (n div 128) @ rest) s)"
      using varint32_loop_step[OF "1.prems"(1,2) m s left] word_of_nat_group_bits(1,2)[OF m] by simp
    also have "\<dots> = (Ok (word_of_nat (?r + n div 128 * 2 ^ (7 * Suc i))),
        consumed (length (leb128 (n div 128))) rest (consumed 1 (leb128 (n div 128) @ rest) s))"
    proof (rule "1.IH"[OF False i r])
      show "n div 128 * 2 ^ (7 * Suc i) < 2 ^ 32" using "1.prems"(3) split by linarith
      show "length (leb128 (n div 128)) \<le> unat (bytes_left (consumed 1 (leb128 (n div 128) @ rest) s))"
        using "1.prems"(5) left l by (simp only: unat_bytes_left_consumed) simp
    qed simp
    also have "?r + n div 128 * 2 ^ (7 * Suc i) = r + n * 2 ^ (7 * i)" using split by simp
    finally show ?thesis by (simp only: consumed_simps) (simp add: l)
  qed
qed

lemma pb_decode_varint32_leb128:
  assumes "n < 2 ^ 32" "istate s = Buffer (leb128 n @ rest)" "length (leb128 n) \<le> unat (bytes_left s)"
  shows "pb_decode_varint32_eof s = (False, (Ok (word_of_nat n), consumed (length (leb128 n)) rest s))"
proof -
  have left: "0 < unat (bytes_left s)" using assms(3) leb128_not_Nil[of n] by (cases "leb128 n") auto
  show ?thesis
  proof (cases "n < 128")
    case True
    then have "istate s = Buffer (word_of_nat n # rest)" "leb128 n = [word_of_nat n]"
      using assms(2) by (simp_all add: leb128.simps[of n])
    moreover have "ucast (word_of_nat n :: byte) = (word_of_nat n :: u32)"
      using True by (simp add: unsigned_ucast_eq unsigned_of_nat take_bit_nat_eq_self)
    ultimately show ?thesis
      using pb_readbyte_consumed[OF _ left] word_of_nat_group_bits(3)[OF True]
      by (simp add: pb_decode_varint32_eof_def)
  next
    case False
    let ?m = "n mod 128"
    have m: "?m < 128" by simp
    have l: "leb128 n = word_of_nat (?m + 128) # leb128 (n div 128)"
      using False by (simp add: leb128.simps[of n])
    let ?t = "consumed 1 (leb128 (n div 128) @ rest) s"
    have rb: "pb_readbyte s = (Ok (word_of_nat (?m + 128)), ?t)"
      using pb_readbyte_consumed[OF _ left] assms(2) l by simp
    have "(ucast ((word_of_nat (?m + 128) :: byte) AND 0x7F) :: u32) = word_of_nat ?m"
      using m unfolding word_of_nat_group_bits(2)[OF m]
      by (simp add: unsigned_ucast_eq unsigned_of_nat take_bit_nat_eq_self)
    then have "pb_decode_varint32_eof s = (False, varint32_loop (word_of_nat (7 * 1)) (word_of_nat ?m) ?t)"
      using rb word_of_nat_group_bits(1)[OF m] by (simp add: pb_decode_varint32_eof_def)
    also have "varint32_loop (word_of_nat (7 * 1)) (word_of_nat ?m) ?t =
        (Ok (word_of_nat (?m + n div 128 * 2 ^ (7 * 1))), consumed (length (leb128 (n div 128))) rest ?t)"
    proof (rule varint32_loop_leb128)
      show "n div 128 * 2 ^ (7 * 1) < 2 ^ 32" using assms(1) by simp
      show "length (leb128 (n div 128)) \<le> unat (bytes_left ?t)"
        using assms(3) left l by (simp only: unat_bytes_left_consumed) simp
    qed simp_all
    also have "?m + n div 128 * 2 ^ (7 * 1) = n" by simp
    finally show ?thesis by (simp only: consumed_simps) (simp add: l)
  qed
qed

end
