(* ===== verification/Pb_Codec.thy ===== *)
theory Pb_Codec
  imports Pb_Varint
begin

text \<open>
  Round trips between the writers of \<open>Pb_Ostream\<close> and the readers of \<open>Pb_Istream\<close>. The locale
  \<open>codec\<close> says what makes a pair of them inverse to each other: the writer hands the
  representation of the value to \<^verbatim>\<open>pb_write\<close> in one piece, and the reader, on a buffer that
  starts with the representation, returns the value and stops right behind it. The round
  trip through a buffer is proved once from that; varints, zigzag varints, fixed-width
  integers and tags are instances.
\<close>

section \<open>The contract\<close>

locale codec =
  fixes valid :: "'v \<Rightarrow> bool" and repr :: "'v \<Rightarrow> byte list"
    and enc :: "'v \<Rightarrow> pb_ostream_t \<Rightarrow> (unit, pb_ostream_t) res"
    and dec :: "pb_istream_t \<Rightarrow> ('v, pb_istream_t) res"
  assumes enc_repr: "valid v \<Longrightarrow> enc v s = pb_write (Some (repr v)) (word_of_nat (length (repr v))) s"
    and repr_short: "valid v \<Longrightarrow> length (repr v) \<le> 10"
    and dec_repr: "valid v \<Longrightarrow> istate t = Buffer (repr v @ rest) \<Longrightarrow> length (repr v) \<le> unat (bytes_left t)
      \<Longrightarrow> dec t = (Ok v, consumed (length (repr v)) rest t)"
begin

lemma write_to_buffer:
  assumes "valid v" "10 \<le> n"
  shows "enc v (pb_ostream_from_buffer n) =
    (Ok (), \<lparr>ostate = Into (unat n) (repr v), max_size = n,
             bytes_written = word_of_nat (length (repr v)), oerrmsg = None\<rparr>)"
proof -
  have l: "unat (word_of_nat (length (repr v)) :: size_t) = length (repr v)"
    using repr_short[OF assms(1)] by (intro unat_word_of_nat) simp
  have "10 \<le> unat n" using assms(2) by (simp add: word_le_nat_alt)
  then have "length (repr v) \<le> unat n" using repr_short[OF assms(1)] by linarith
  then show ?thesis
    using l by (auto simp: enc_repr[OF assms(1)] pb_write_def pb_ostream_from_buffer_def buf_write_def
        word_less_nat_alt)
qed

lemma read_from_buffer:
  assumes "valid v" "length (repr v) + length rest < 2 ^ 64"
  shows "dec (pb_istream_from_buffer (repr v @ rest) (word_of_nat (length (repr v @ rest)))) =
    (Ok v, pb_istream_from_buffer rest (word_of_nat (length rest)))"
proof -
  have "unat (word_of_nat (length (repr v @ rest)) :: size_t) = length (repr v) + length rest"
    using assms(2) by (subst unat_word_of_nat) simp_all
  then show ?thesis
    using dec_repr[OF assms(1), of "pb_istream_from_buffer (repr v @ rest) (word_of_nat (length (repr v @ rest)))" rest]
    by (simp add: pb_istream_from_buffer_def consumed_def)
qed

lemma round_trip:
  assumes "valid v" "10 \<le> n" "length rest + 10 < 2 ^ 64"
  shows "\<exists>out s. enc v (pb_ostream_from_buffer n) = (Ok (), s) \<and> ostate s = Into (unat n) out \<and>
    bytes_written s = word_of_nat (length out) \<and> length out \<le> 10 \<and>
    dec (pb_istream_from_buffer (out @ rest) (word_of_nat (length (out @ rest)))) =
      (Ok v, pb_istream_from_buffer rest (word_of_nat (length rest)))"
  using write_to_buffer[OF assms(1,2)] read_from_buffer[OF assms(1), of rest] repr_short[OF assms(1)] assms(3)
  by auto

lemma injective: "valid v \<Longrightarrow> valid w \<Longrightarrow> repr v = repr w \<Longrightarrow> v = w"
  using read_from_buffer[of v "[]"] read_from_buffer[of w "[]"] repr_short[of v] by force

end

section \<open>Varints\<close>

interpretation varint: codec "\<lambda>_. True" "\<lambda>v :: u64. leb128 (unat v)" pb_encode_varint pb_decode_varint
proof
  fix v :: u64 and t :: pb_istream_t and rest
  assume "istate t = Buffer (leb128 (unat v) @ rest)" "length (leb128 (unat v)) \<le> unat (bytes_left t)"
  then show "pb_decode_varint t = (Ok v, consumed (length (leb128 (unat v))) rest t)"
    using pb_decode_varint_leb128[of "unat v" t rest] unat_less_two_power[of v] by simp
qed (simp_all add: pb_encode_varint_eq leb128_u64_length)

text \<open>The 32-bit reader, as used for lengths: the writer is given the value widened.\<close>

interpretation varint32: codec "\<lambda>_. True" "\<lambda>v :: u32. leb128 (unat v)"
  "\<lambda>v. pb_encode_varint (ucast v)" pb_decode_varint32
proof
  fix v :: u32 and t :: pb_istream_t and rest
  have u: "unat (ucast v :: u64) = unat v" by (simp add: unsigned_ucast_eq take_bit_nat_eq_self unat_less_two_power[of v, THEN order_less_le_trans])
  show "pb_encode_varint (ucast v) s = pb_write (Some (leb128 (unat v))) (word_of_nat (length (leb128 (unat v)))) s" for s
    by (simp add: pb_encode_varint_eq u)
  show "length (leb128 (unat v)) \<le> 10" using leb128_u64_length[of "ucast v"] u by simp
  assume "istate t = Buffer (leb128 (unat v) @ rest)" "length (leb128 (unat v)) \<le> unat (bytes_left t)"
  then show "pb_decode_varint32 t = (Ok v, consumed (length (leb128 (unat v))) rest t)"
    using pb_decode_varint32_leb128[of "unat v" t rest] unat_less_two_power[of v]
    by (simp add: pb_decode_varint32_def)
qed

section \<open>Zigzag\<close>

definition zigzag :: "u64 \<Rightarrow> u64" where
  "zigzag v = (if sint v < 0 then NOT (push_bit 1 v) else push_bit 1 v)"

definition unzigzag :: "u64 \<Rightarrow> u64" where
  "unzigzag v = (if v AND 1 \<noteq> 0 then NOT (drop_bit 1 v) else drop_bit 1 v)"

lemma unzigzag_zigzag: "unzigzag (zigzag v) = v"
proof (cases "sint v < 0")
  case True
  then have top: "bit v 63" using bit_last_iff[of v] by simp
  have "bit (zigzag v) 0" using True by (simp add: zigzag_def bit_simps del: One_nat_def)
  then have "zigzag v AND 1 \<noteq> 0" by (simp add: and_one_eq odd_iff_mod_2_eq_one bit_0)
  then have "unzigzag (zigzag v) = NOT (drop_bit 1 (NOT (push_bit 1 v)))"
    using True by (simp only: unzigzag_def zigzag_def if_True) simp
  also have "\<dots> = v"
  proof (rule bit_word_eqI)
    fix k assume "k < LENGTH(64)"
    then show "bit (NOT (drop_bit 1 (NOT (push_bit 1 v)))) k \<longleftrightarrow> bit v k"
      using top by (cases "k = 63") (auto simp: bit_simps simp del: One_nat_def)
  qed
  finally show ?thesis .
next
  case False
  then have top: "\<not> bit v 63" using bit_last_iff[of v] by simp
  have "\<not> bit (zigzag v) 0" using False by (simp add: zigzag_def bit_simps del: One_nat_def)
  then have "zigzag v AND 1 = 0" by (simp add: and_one_eq odd_iff_mod_2_eq_one bit_0)
  then have "unzigzag (zigzag v) = drop_bit 1 (push_bit 1 v)"
    using False by (simp only: unzigzag_def zigzag_def if_False) simp
  also have "\<dots> = v"
  proof (rule bit_word_eqI)
    fix k assume "k < LENGTH(64)"
    then show "bit (drop_bit 1 (push_bit 1 v)) k \<longleftrightarrow> bit v k"
      using top by (cases "k = 63") (auto simp: bit_simps simp del: One_nat_def)
  qed
  finally show ?thesis .
qed

lemma pb_decode_svarint_unzigzag:
  "pb_decode_svarint s = checkreturn (pb_decode_varint s) (\<lambda>v s. (Ok (unzigzag v), s))"
  by (simp add: pb_decode_svarint_def unzigzag_def)

lemma pb_encode_svarint_zigzag: "pb_encode_svarint v = pb_encode_varint (zigzag v)"
  by (rule ext) (simp add: pb_encode_svarint_def zigzag_def)

interpretation svarint: codec "\<lambda>_. True" "\<lambda>v. leb128 (unat (zigzag v))" pb_encode_svarint pb_decode_svarint
proof
  fix v :: u64 and t :: pb_istream_t and rest
  assume "istate t = Buffer (leb128 (unat (zigzag v)) @ rest)"
    "length (leb128 (unat (zigzag v))) \<le> unat (bytes_left t)"
  then show "pb_decode_svarint t = (Ok v, consumed (length (leb128 (unat (zigzag v)))) rest t)"
    using varint.dec_repr[of t "zigzag v" rest] by (simp add: pb_decode_svarint_unzigzag unzigzag_zigzag)
qed (simp_all add: pb_encode_svarint_zigzag pb_encode_varint_eq leb128_u64_length)

section \<open>Fixed-width integers\<close>

lemma low_byte: "(ucast ((w :: 'a::len word) AND 0xFF) :: byte) = ucast w"
proof -
  have "w AND 0xFF = take_bit 8 w" by (simp add: take_bit_eq_mask mask_eq_exp_minus_1)
  then show ?thesis by (simp only:) (rule bit_word_eqI, simp add: bit_simps)
qed

lemma pb_encode_fixed32_le: "pb_encode_fixed32 v s = pb_write (Some (le_of_word 4 v)) 4 s"
  by (simp add: pb_encode_fixed32_def low_byte le_of_word_def upt_rec numeral_eq_Suc)

lemma pb_encode_fixed64_le: "pb_encode_fixed64 v s = pb_write (Some (le_of_word 8 v)) 8 s"
  by (simp add: pb_encode_fixed64_def low_byte le_of_word_def upt_rec numeral_eq_Suc)

lemma pb_decode_fixed32_le:
  "pb_decode_fixed32 s = checkreturn (pb_read_buf 4 s) (\<lambda>bs s. (Ok (word_of_le bs), s))"
proof -
  have "(push_bit 0 (ucast (bs ! 0)) OR push_bit 8 (ucast (bs ! 1)) OR push_bit 16 (ucast (bs ! 2))
         OR push_bit 24 (ucast (bs ! 3)) :: u32) = word_of_le bs" if "length bs = 4" for bs :: "byte list"
    using that
    by (auto simp: numeral_eq_Suc length_Suc_conv push_bit_or push_bit_push_bit or.assoc simp del: push_bit_Suc)
  then show ?thesis
    by (auto simp: pb_decode_fixed32_def dest: pb_read_buf_Ok(1) intro!: checkreturn_cong)
qed

lemma pb_decode_fixed64_le:
  "pb_decode_fixed64 s = checkreturn (pb_read_buf 8 s) (\<lambda>bs s. (Ok (word_of_le bs), s))"
proof -
  have "(push_bit 0 (ucast (bs ! 0)) OR push_bit 8 (ucast (bs ! 1)) OR push_bit 16 (ucast (bs ! 2))
         OR push_bit 24 (ucast (bs ! 3)) OR push_bit 32 (ucast (bs ! 4)) OR push_bit 40 (ucast (bs ! 5))
         OR push_bit 48 (ucast (bs ! 6)) OR push_bit 56 (ucast (bs ! 7)) :: u64) = word_of_le bs"
    if "length bs = 8" for bs :: "byte list"
    using that
    by (auto simp: numeral_eq_Suc length_Suc_conv push_bit_or push_bit_push_bit or.assoc simp del: push_bit_Suc)
  then show ?thesis
    by (auto simp: pb_decode_fixed64_def dest: pb_read_buf_Ok(1) intro!: checkreturn_cong)
qed

interpretation fixed32: codec "\<lambda>_. True" "le_of_word 4" pb_encode_fixed32 pb_decode_fixed32
proof
  fix v :: u32 and t :: pb_istream_t and rest
  assume "istate t = Buffer (le_of_word 4 v @ rest)" "length (le_of_word 4 v) \<le> unat (bytes_left t)"
  then show "pb_decode_fixed32 t = (Ok v, consumed (length (le_of_word 4 v)) rest t)"
    using pb_read_buf_consumed[of t "le_of_word 4 v" rest 4]
    by (simp add: pb_decode_fixed32_le word_of_le_of_word)
qed (simp_all add: pb_encode_fixed32_le)

interpretation fixed64: codec "\<lambda>_. True" "le_of_word 8" pb_encode_fixed64 pb_decode_fixed64
proof
  fix v :: u64 and t :: pb_istream_t and rest
  assume "istate t = Buffer (le_of_word 8 v @ rest)" "length (le_of_word 8 v) \<le> unat (bytes_left t)"
  then show "pb_decode_fixed64 t = (Ok v, consumed (length (le_of_word 8 v)) rest t)"
    using pb_read_buf_consumed[of t "le_of_word 8 v" rest 8]
    by (simp add: pb_decode_fixed64_le word_of_le_of_word)
qed (simp_all add: pb_encode_fixed64_le)

section \<open>Tags\<close>

text \<open>The key of a field on the wire.\<close>

definition key :: "pb_wire_type_t \<times> u32 \<Rightarrow> nat" where
  "key = (\<lambda>(wt, t). unat t * 8 + unat wt)"

definition valid_key :: "pb_wire_type_t \<times> u32 \<Rightarrow> bool" where
  "valid_key = (\<lambda>(wt, t). wt < 8 \<and> 0 < t \<and> t < 2 ^ 29)"

lemma valid_key_bounds:
  assumes "valid_key (wt, t)"
  shows "unat wt < 8" "0 < unat t" "unat t < 2 ^ 29" "key (wt, t) < 2 ^ 32" "0 < key (wt, t)"
proof -
  show "unat wt < 8" "0 < unat t" "unat t < 2 ^ 29"
    using assms by (auto simp: valid_key_def word_less_nat_alt)
  then show "key (wt, t) < 2 ^ 32" "0 < key (wt, t)" by (auto simp: key_def)
qed

lemma or_low3:
  assumes "unat (wt :: 'a::len word) < 8" "3 \<le> LENGTH('a)"
  shows "push_bit 3 t OR wt = t * 8 + wt"
proof -
  have "\<not> bit (push_bit 3 t) k \<or> \<not> bit wt k" for k
  proof (cases "k < 3")
    case False
    then have "unat wt < 2 ^ k" using assms(1) power_increasing[of 3 k "2 :: nat"] by simp
    then have "\<not> bit (unat wt) k" by (simp add: bit_iff_odd)
    then show ?thesis by (simp add: bit_unsigned_iff)
  qed (simp add: bit_push_bit_iff)
  then have "push_bit 3 t OR wt = push_bit 3 t + wt" by (rule disjunctive_add[symmetric])
  then show ?thesis by (simp add: push_bit_eq_mult)
qed

lemma pb_encode_tag_key:
  assumes "unat wt < 8"
  shows "pb_encode_tag wt t s = pb_write (Some (leb128 (key (wt, t)))) (word_of_nat (length (leb128 (key (wt, t))))) s"
proof -
  have u: "unat (ucast wt :: u64) = unat wt" "unat (ucast t :: u64) = unat t" "unat t < 2 ^ 32"
    using assms unat_less_two_power[of t] by (simp_all add: unsigned_ucast_eq take_bit_nat_eq_self)
  have "unat (push_bit 3 (ucast t) OR ucast wt :: u64) = key (wt, t)"
    using assms u by (subst or_low3) (simp_all add: key_def unat_word_ariths)
  then show ?thesis by (simp add: pb_encode_tag_def pb_encode_varint_eq)
qed

lemma leb128_key_length: "unat wt < 8 \<Longrightarrow> length (leb128 (key (wt, t))) \<le> 5"
  using unat_less_two_power[of t] by (intro leb128_length) (simp_all add: key_def)

lemma key_parts:
  assumes "valid_key (wt, t)"
  shows "(word_of_nat (key (wt, t)) :: u32) AND 7 = wt" "drop_bit 3 (word_of_nat (key (wt, t)) :: u32) = t"
    "(word_of_nat (key (wt, t)) :: u32) \<noteq> 0"
proof -
  let ?k = "word_of_nat (key (wt, t)) :: u32"
  have k: "unat ?k = key (wt, t)" using valid_key_bounds(4)[OF assms] by (intro unat_word_of_nat) simp
  have "?k AND 7 = take_bit 3 ?k" by (simp add: take_bit_eq_mask mask_eq_exp_minus_1)
  then have "unat (?k AND 7) = key (wt, t) mod 8"
    using k by (simp only: unsigned_take_bit_eq) (simp add: take_bit_eq_mod)
  then show "?k AND 7 = wt" using valid_key_bounds(1)[OF assms] by (simp add: word_unat_eq_iff key_def)
  have "unat (drop_bit 3 ?k) = key (wt, t) div 8"
    using k by (simp only: unat_drop_bit_eq) (simp add: drop_bit_eq_div)
  then show "drop_bit 3 ?k = t" using valid_key_bounds(1)[OF assms] by (simp add: word_unat_eq_iff key_def)
  show "?k \<noteq> 0" using k valid_key_bounds(5)[OF assms] by (metis unat_0 less_irrefl)
qed

lemma pb_decode_tag_key:
  assumes "valid_key (wt, t)" "istate s = Buffer (leb128 (key (wt, t)) @ rest)"
    "length (leb128 (key (wt, t))) \<le> unat (bytes_left s)"
  shows "pb_decode_tag s = (False, (Ok (wt, t), consumed (length (leb128 (key (wt, t)))) rest s))"
  using pb_decode_varint32_leb128[OF valid_key_bounds(4)[OF assms(1)] assms(2,3)] key_parts[OF assms(1)]
  by (simp add: pb_decode_tag_def)

interpretation tag_key: codec valid_key "\<lambda>k. leb128 (key k)" "\<lambda>(wt, t). pb_encode_tag wt t" "\<lambda>s. snd (pb_decode_tag s)"
proof
  fix k assume v: "valid_key k"
  obtain wt t where k: "k = (wt, t)" by (cases k)
  show "(case k of (wt, t) \<Rightarrow> pb_encode_tag wt t) s =
      pb_write (Some (leb128 (key k))) (word_of_nat (length (leb128 (key k)))) s" for s
    using pb_encode_tag_key[OF valid_key_bounds(1)] v k by simp
  show "length (leb128 (key k)) \<le> 10"
    using valid_key_bounds(4)[of wt t] v k by (intro leb128_length) simp_all
  show "snd (pb_decode_tag s) = (Ok k, consumed (length (leb128 (key k))) rest s)"
    if "istate s = Buffer (leb128 (key k) @ rest)" "length (leb128 (key k)) \<le> unat (bytes_left s)" for s rest
    using pb_decode_tag_key that v k by simp
qed

section \<open>Properties\<close>

text \<open>C25: \<^verbatim>\<open>pb_encode_varint\<close> into a buffer of at least ten bytes succeeds for every 64-bit value,
  writes at most ten bytes, and \<^verbatim>\<open>pb_decode_varint\<close> on what it wrote, followed by anything,
  returns the value and leaves the stream at the first byte behind it.\<close>

theorem varint_round_trip:
  assumes "10 \<le> n" "length rest + 10 < 2 ^ 64"
  shows "\<exists>out s. pb_encode_varint v (pb_ostream_from_buffer n) = (Ok (), s) \<and> ostate s = Into (unat n) out \<and>
    bytes_written s = word_of_nat (length out) \<and> length out \<le> 10 \<and>
    pb_decode_varint (pb_istream_from_buffer (out @ rest) (word_of_nat (length (out @ rest)))) =
      (Ok v, pb_istream_from_buffer rest (word_of_nat (length rest)))"
  by (rule varint.round_trip[OF TrueI assms])

theorem varint_round_trip_witness:
  "\<exists>out s. pb_encode_varint 300 (pb_ostream_from_buffer 16) = (Ok (), s) \<and> ostate s = Into 16 out \<and>
    pb_decode_varint (pb_istream_from_buffer (out @ [7]) (word_of_nat (length (out @ [7])))) =
      (Ok 300, pb_istream_from_buffer [7] 1)"
  using varint_round_trip[of 16 "[7]" 300] by auto

text \<open>The same for the signed (zigzag) varints \<^verbatim>\<open>pb_encode_svarint\<close> and
  \<^verbatim>\<open>pb_decode_svarint\<close>, for every 64-bit value, negative ones included.\<close>

theorem svarint_round_trip:
  assumes "10 \<le> n" "length rest + 10 < 2 ^ 64"
  shows "\<exists>out s. pb_encode_svarint v (pb_ostream_from_buffer n) = (Ok (), s) \<and> ostate s = Into (unat n) out \<and>
    bytes_written s = word_of_nat (length out) \<and> length out \<le> 10 \<and>
    pb_decode_svarint (pb_istream_from_buffer (out @ rest) (word_of_nat (length (out @ rest)))) =
      (Ok v, pb_istream_from_buffer rest (word_of_nat (length rest)))"
  by (rule svarint.round_trip[OF TrueI assms])

theorem svarint_round_trip_witness:
  "\<exists>out s. pb_encode_svarint (- 2) (pb_ostream_from_buffer 16) = (Ok (), s) \<and> ostate s = Into 16 out \<and>
    pb_decode_svarint (pb_istream_from_buffer (out @ [7]) (word_of_nat (length (out @ [7])))) =
      (Ok (- 2), pb_istream_from_buffer [7] 1)"
  using svarint_round_trip[of 16 "[7]" "- 2"] by auto

text \<open>Fixed-width integers: what \<^verbatim>\<open>pb_encode_fixed32\<close> and \<^verbatim>\<open>pb_encode_fixed64\<close> write is the
  little-endian form of the value, four and eight bytes, and the readers return the value.\<close>

theorem fixed_round_trip:
  assumes "10 \<le> n" "length rest + 10 < 2 ^ 64"
  shows "pb_encode_fixed32 v (pb_ostream_from_buffer n) =
      (Ok (), \<lparr>ostate = Into (unat n) (le_of_word 4 v), max_size = n, bytes_written = 4, oerrmsg = None\<rparr>) \<and>
    pb_decode_fixed32 (pb_istream_from_buffer (le_of_word 4 v @ rest) (word_of_nat (4 + length rest))) =
      (Ok v, pb_istream_from_buffer rest (word_of_nat (length rest))) \<and>
    pb_encode_fixed64 w (pb_ostream_from_buffer n) =
      (Ok (), \<lparr>ostate = Into (unat n) (le_of_word 8 w), max_size = n, bytes_written = 8, oerrmsg = None\<rparr>) \<and>
    pb_decode_fixed64 (pb_istream_from_buffer (le_of_word 8 w @ rest) (word_of_nat (8 + length rest))) =
      (Ok w, pb_istream_from_buffer rest (word_of_nat (length rest)))"
  using fixed32.write_to_buffer[OF TrueI assms(1), of v] fixed32.read_from_buffer[OF TrueI, of v rest]
    fixed64.write_to_buffer[OF TrueI assms(1), of w] fixed64.read_from_buffer[OF TrueI, of w rest] assms(2)
  by simp

theorem fixed_round_trip_witness:
  "pb_encode_fixed32 7 (pb_ostream_from_buffer 12) =
      (Ok (), \<lparr>ostate = Into 12 (le_of_word 4 (7 :: u32)), max_size = 12, bytes_written = 4, oerrmsg = None\<rparr>) \<and>
   pb_decode_fixed64 (pb_istream_from_buffer (le_of_word 8 (- 1 :: u64) @ [5]) 9) = (Ok (- 1), pb_istream_from_buffer [5] 1)"
  using fixed_round_trip[of 12 "[5]" 7 "- 1"] by simp

text \<open>C26: for every field number of the protocol buffers format (1 to \<open>2 ^ 29 - 1\<close>) and every wire
  type code, \<^verbatim>\<open>pb_decode_tag\<close> on what \<^verbatim>\<open>pb_encode_tag\<close> wrote returns that number and that wire
  type, and does not report the end of the stream.\<close>

theorem tag_round_trip:
  assumes "wt < 8" "0 < t" "t < 2 ^ 29" "10 \<le> n" "length rest + 10 < 2 ^ 64"
  shows "\<exists>out s. pb_encode_tag wt t (pb_ostream_from_buffer n) = (Ok (), s) \<and> ostate s = Into (unat n) out \<and>
    bytes_written s = word_of_nat (length out) \<and> length out \<le> 5 \<and>
    pb_decode_tag (pb_istream_from_buffer (out @ rest) (word_of_nat (length (out @ rest)))) =
      (False, (Ok (wt, t), pb_istream_from_buffer rest (word_of_nat (length rest))))"
proof -
  have v: "valid_key (wt, t)" using assms by (simp add: valid_key_def)
  let ?out = "leb128 (key (wt, t))"
  let ?i = "pb_istream_from_buffer (?out @ rest) (word_of_nat (length (?out @ rest)))"
  have l: "length ?out \<le> 5" using valid_key_bounds(4)[OF v] by (intro leb128_length) simp_all
  have "unat (word_of_nat (length (?out @ rest)) :: size_t) = length ?out + length rest"
    using l assms(5) by (subst unat_word_of_nat) simp_all
  then have "pb_decode_tag ?i = (False, (Ok (wt, t), consumed (length ?out) rest ?i))"
    by (intro pb_decode_tag_key[OF v]) (simp_all add: pb_istream_from_buffer_def)
  also have "consumed (length ?out) rest ?i = pb_istream_from_buffer rest (word_of_nat (length rest))"
    by (simp add: consumed_def pb_istream_from_buffer_def)
  finally show ?thesis using tag_key.write_to_buffer[OF v assms(4)] l by auto
qed

theorem tag_round_trip_witness:
  "\<exists>out s. pb_encode_tag 2 1000 (pb_ostream_from_buffer 10) = (Ok (), s) \<and> ostate s = Into 10 out \<and>
    pb_decode_tag (pb_istream_from_buffer (out @ [0]) (word_of_nat (length (out @ [0])))) =
      (False, (Ok (2, 1000), pb_istream_from_buffer [0] 1))"
  using tag_round_trip[of 2 1000 10 "[0]"] by auto

end
