(* ===== verification/Pb_Wire.thy ===== *)
theory Pb_Wire
  imports Pb_Codec
begin

text \<open>
  The wire format as data: a record on the wire is a key and one value, and a message is a
  list of records. \<open>wire_bytes\<close> is its byte form. What the readers do on that byte form is
  stated here; the encoder is shown to produce it in \<open>Pb_Encode_Laws\<close>.
\<close>

datatype wire_value = Varint u64 | I64 u64 | I32 u32 | Len "byte list"

type_synonym wire_field = "u32 \<times> wire_value"

fun wire_type :: "wire_value \<Rightarrow> pb_wire_type_t" where
  "wire_type (Varint _) = PB_WT_VARINT"
| "wire_type (I64 _) = PB_WT_64BIT"
| "wire_type (Len _) = PB_WT_STRING"
| "wire_type (I32 _) = PB_WT_32BIT"

fun value_bytes :: "wire_value \<Rightarrow> byte list" where
  "value_bytes (Varint v) = leb128 (unat v)"
| "value_bytes (I64 v) = le_of_word 8 v"
| "value_bytes (Len bs) = leb128 (length bs) @ bs"
| "value_bytes (I32 v) = le_of_word 4 v"

definition field_bytes :: "wire_field \<Rightarrow> byte list" where
  "field_bytes = (\<lambda>(t, v). leb128 (key (wire_type v, t)) @ value_bytes v)"

definition wire_bytes :: "wire_field list \<Rightarrow> byte list" where
  "wire_bytes fs = concat (map field_bytes fs)"

text \<open>A length has to fit the 32 bits that the reader of lengths takes.\<close>

fun wf_value :: "wire_value \<Rightarrow> bool" where
  "wf_value (Len bs) \<longleftrightarrow> length bs < 2 ^ 32"
| "wf_value _ \<longleftrightarrow> True"

lemma wire_bytes_simps [simp]:
  "wire_bytes [] = []" "wire_bytes (f # fs) = field_bytes f @ wire_bytes fs"
  "wire_bytes (fs @ gs) = wire_bytes fs @ wire_bytes gs"
  by (simp_all add: wire_bytes_def)

lemma wire_type_less: "wire_type v < 8"
  by (cases v) simp_all

lemma valid_key_wire_type: "0 < t \<Longrightarrow> t < 2 ^ 29 \<Longrightarrow> valid_key (wire_type v, t)"
  by (simp add: valid_key_def wire_type_less)

section \<open>Skipping\<close>

lemma pb_skip_varint_leb128:
  "istate s = Buffer (leb128 n @ rest) \<Longrightarrow> length (leb128 n) \<le> unat (bytes_left s) \<Longrightarrow>
   pb_skip_varint s = (Ok (), consumed (length (leb128 n)) rest s)"
proof (induction n arbitrary: s rule: leb128.induct)
  case (1 n)
  show ?case
  proof (cases "n < 128")
    case True
    then have "pb_read_buf 1 s = (Ok [word_of_nat n], consumed 1 rest s)"
      using "1.prems" pb_read_buf_consumed[of s "[word_of_nat n]" rest 1] by (simp add: leb128.simps[of n])
    then show ?thesis
      using True word_of_nat_group_bits(3)[OF True] by (simp add: pb_skip_varint.simps[of s] leb128.simps[of n])
  next
    case False
    let ?b = "word_of_nat (n mod 128 + 128) :: byte" and ?t = "consumed 1 (leb128 (n div 128) @ rest) s"
    have l: "leb128 n = ?b # leb128 (n div 128)" using False by (simp add: leb128.simps[of n])
    have "pb_read_buf 1 s = (Ok [?b], ?t)"
      using "1.prems" l pb_read_buf_consumed[of s "[?b]" "leb128 (n div 128) @ rest" 1] by simp
    then have "pb_skip_varint s = pb_skip_varint ?t"
      using word_of_nat_group_bits(1)[of "n mod 128"] by (simp add: pb_skip_varint.simps[of s])
    also have "\<dots> = (Ok (), consumed (length (leb128 (n div 128))) rest ?t)"
      using "1.prems" l unat_bytes_left_consumed[of 1 s "leb128 (n div 128) @ rest"]
      by (intro "1.IH"[OF False]) auto
    finally show ?thesis by (simp only: consumed_simps) (simp add: l)
  qed
qed

lemma pb_read_null_consumed:
  assumes "istate s = Buffer (bs @ rest)" "unat c = length bs" "length bs \<le> unat (bytes_left s)"
  shows "pb_read_null c s = (Ok (), consumed (length bs) rest s)"
  using pb_read_buf_consumed[OF assms] assms(1) by (simp add: pb_read_null_def)

lemma pb_skip_field_value:
  assumes "wf_value v" "istate s = Buffer (value_bytes v @ rest)" "length (value_bytes v) \<le> unat (bytes_left s)"
  shows "pb_skip_field (wire_type v) s = (Ok (), consumed (length (value_bytes v)) rest s)"
proof (cases v)
  case (Len bs)
  let ?n = "word_of_nat (length bs) :: u32" and ?l = "length (leb128 (length bs))"
  have u: "unat ?n = length bs" using assms(1) Len by (intro unat_word_of_nat) simp
  let ?t = "consumed ?l (bs @ rest) s"
  have left: "?l + length bs \<le> unat (bytes_left s)" using assms(3) Len by simp
  then have "pb_decode_varint32 s = (Ok ?n, ?t)"
    using varint32.dec_repr[of s ?n "bs @ rest"] assms(2) Len by (simp add: u)
  moreover have "pb_read_null (ucast ?n) ?t = (Ok (), consumed (length bs) rest ?t)"
  proof (rule pb_read_null_consumed)
    show "length bs \<le> unat (bytes_left ?t)"
      using left unat_bytes_left_consumed[of ?l s "bs @ rest"] by linarith
    show "unat (ucast ?n :: size_t) = length bs" using u assms(1) Len
      by (simp add: unsigned_ucast_eq take_bit_nat_eq_self)
  qed simp
  ultimately show ?thesis using Len by (simp add: pb_skip_field_def pb_skip_string_def)
next
  case (Varint v)
  then show ?thesis using assms pb_skip_varint_leb128 by (simp add: pb_skip_field_def)
next
  case (I64 v)
  then show ?thesis using assms pb_read_null_consumed[of s "le_of_word 8 v" rest 8] by (simp add: pb_skip_field_def)
next
  case (I32 v)
  then show ?thesis using assms pb_read_null_consumed[of s "le_of_word 4 v" rest 4] by (simp add: pb_skip_field_def)
qed

section \<open>Framing\<close>

lemma make_substream_framed:
  assumes "istate s = Buffer (leb128 (length bs) @ bs @ rest)" "length bs < 2 ^ 32"
    "length (leb128 (length bs)) + length bs \<le> unat (bytes_left s)"
  obtains sub parent where "pb_make_string_substream s = (Ok sub, parent)"
    "istate sub = Buffer (bs @ rest)" "unat (bytes_left sub) = length bs" "istate parent = Buffer (bs @ rest)"
    "unat (bytes_left parent) = unat (bytes_left s) - (length (leb128 (length bs)) + length bs)"
proof -
  let ?n = "word_of_nat (length bs) :: u32" and ?l = "length (leb128 (length bs))"
  have n: "unat ?n = length bs" using assms(2) by (intro unat_word_of_nat) simp
  then have nu: "unat (ucast ?n :: size_t) = length bs" using ucast_u32(1)[of ?n] by (simp only:)
  define t where "t = consumed ?l (bs @ rest) s"
  have dec: "pb_decode_varint32 s = (Ok ?n, t)"
    using varint32.dec_repr[of s ?n "bs @ rest"] assms unfolding t_def n by simp
  have tl: "unat (bytes_left t) = unat (bytes_left s) - ?l"
    unfolding t_def using assms(3) by (intro unat_bytes_left_consumed) simp
  have le: "ucast ?n \<le> bytes_left t" unfolding word_le_nat_alt nu tl using assms(3) by simp
  then have "pb_make_string_substream s =
      (Ok (t\<lparr>bytes_left := ucast ?n\<rparr>), t\<lparr>bytes_left := bytes_left t - ucast ?n\<rparr>)"
    by (auto simp: pb_make_string_substream_def dec Let_def)
  then show ?thesis
    using nu tl unat_diff_le[OF le] by (intro that) (auto simp: t_def)
qed

end
