(* ===== verification/Pb_Encode_Laws.thy ===== *)
theory Pb_Encode_Laws
  imports Pb_Encode Pb_Wire
begin

text \<open>
  What the encoder writes. \<open>emits h e bs\<close> says that the encoder \<open>e\<close>, run on the memory \<open>h\<close>,
  produces exactly the bytes \<open>bs\<close>: a sizing stream counts them, a stream into a buffer with
  room receives them, and a stream without room makes \<open>e\<close> fail with part of them written
  and nothing behind the buffer touched. \<open>wire_message\<close> is the abstract encoder: it reads a
  message from memory into wire records in one pass. The streaming, two-pass encoder of
  \<^verbatim>\<open>pb_encode.c\<close> emits the byte form of those records.
\<close>

section \<open>Streams\<close>

definition ostream_ok :: "pb_ostream_t \<Rightarrow> bool" where
  "ostream_ok s =
     (case ostate s of
        Sizing \<Rightarrow> True
      | Into cap out \<Rightarrow> bytes_written s \<le> max_size s
          \<and> length out + (unat (max_size s) - unat (bytes_written s)) \<le> cap
      | UserOut _ \<Rightarrow> False)"

definition fits :: "pb_ostream_t \<Rightarrow> byte list \<Rightarrow> bool" where
  "fits s bs \<longleftrightarrow> is_sizing s \<or> unat (bytes_written s) + length bs \<le> unat (max_size s)"

definition after :: "pb_ostream_t \<Rightarrow> byte list \<Rightarrow> pb_ostream_t" where
  "after s bs = s\<lparr>ostate := (case ostate s of Into cap out \<Rightarrow> Into cap (out @ bs) | st \<Rightarrow> st),
                  bytes_written := bytes_written s + word_of_nat (length bs)\<rparr>"

definition room :: "pb_ostream_t \<Rightarrow> nat \<Rightarrow> bool" where
  "room s n \<longleftrightarrow> unat (bytes_written s) + n < 2 ^ 64"

definition emits :: "heap \<Rightarrow> encoder \<Rightarrow> byte list \<Rightarrow> bool" where
  "emits h e bs \<longleftrightarrow>
     (\<forall>s. ostream_ok s \<longrightarrow> room s (length bs) \<longrightarrow>
        (if fits s bs then \<exists>msg. e (s, h) = (Ok (), (after s bs)\<lparr>oerrmsg := msg\<rparr>, h)
         else \<exists>msg p q. bs = p @ q \<and> fits s p \<and> e (s, h) = (Err, (after s p)\<lparr>oerrmsg := msg\<rparr>, h)))"

lemma after_simps [simp]:
  "after s [] = s" "max_size (after s bs) = max_size s" "is_sizing (after s bs) = is_sizing s"
  "after (after s bs) cs = after s (bs @ cs)" "oerrmsg (after s bs) = oerrmsg s"
  "after (s\<lparr>oerrmsg := m\<rparr>) bs = (after s bs)\<lparr>oerrmsg := m\<rparr>"
  by (simp_all add: after_def is_sizing_def split: ostate.splits)

lemma errmsg_irrelevant [simp]:
  "ostream_ok (s\<lparr>oerrmsg := m\<rparr>) = ostream_ok s" "fits (s\<lparr>oerrmsg := m\<rparr>) bs = fits s bs"
  "room (s\<lparr>oerrmsg := m\<rparr>) n = room s n" "is_sizing (s\<lparr>oerrmsg := m\<rparr>) = is_sizing s"
  by (simp_all add: ostream_ok_def fits_def room_def is_sizing_def split: ostate.splits)

lemma bytes_written_after:
  "room s (length bs) \<Longrightarrow> unat (bytes_written (after s bs)) = unat (bytes_written s) + length bs"
  unfolding room_def after_def by (simp add: unat_word_ariths unsigned_of_nat take_bit_nat_eq_self)

lemma room_after: "room s (length bs + n) \<Longrightarrow> room (after s bs) n"
  using bytes_written_after[of s bs] by (simp add: room_def)

lemma room_mono: "room s m \<Longrightarrow> n \<le> m \<Longrightarrow> room s n"
  by (simp add: room_def)

lemma fits_after:
  "room s (length bs) \<Longrightarrow> fits s bs \<Longrightarrow> fits (after s bs) cs = fits s (bs @ cs)"
  using bytes_written_after[of s bs] by (auto simp: fits_def)

lemma fits_prefix: "fits s (bs @ cs) \<Longrightarrow> fits s bs"
  by (auto simp: fits_def)

lemma ostream_ok_after:
  "ostream_ok s \<Longrightarrow> fits s bs \<Longrightarrow> room s (length bs) \<Longrightarrow> ostream_ok (after s bs)"
  using bytes_written_after[of s bs]
  by (auto simp: ostream_ok_def fits_def is_sizing_def word_le_nat_alt after_def split: ostate.splits)

section \<open>Composition\<close>

lemma emitsI:
  assumes "\<And>s. ostream_ok s \<Longrightarrow> room s (length bs) \<Longrightarrow> fits s bs \<Longrightarrow>
             \<exists>msg. e (s, h) = (Ok (), (after s bs)\<lparr>oerrmsg := msg\<rparr>, h)"
    and "\<And>s. ostream_ok s \<Longrightarrow> room s (length bs) \<Longrightarrow> \<not> fits s bs \<Longrightarrow>
             \<exists>msg p q. bs = p @ q \<and> fits s p \<and> e (s, h) = (Err, (after s p)\<lparr>oerrmsg := msg\<rparr>, h)"
  shows "emits h e bs"
  using assms by (simp add: emits_def)

lemma emits_fits:
  assumes "emits h e bs" "ostream_ok s" "room s (length bs)" "fits s bs"
  obtains msg where "e (s, h) = (Ok (), (after s bs)\<lparr>oerrmsg := msg\<rparr>, h)"
  using assms(1)[unfolded emits_def, rule_format, OF assms(2,3)] assms(4) that by auto

lemma emits_full:
  assumes "emits h e bs" "ostream_ok s" "room s (length bs)" "\<not> fits s bs"
  obtains msg p q where "bs = p @ q" "fits s p" "e (s, h) = (Err, (after s p)\<lparr>oerrmsg := msg\<rparr>, h)"
  using assms(1)[unfolded emits_def, rule_format, OF assms(2,3)] assms(4) that by auto

lemma emits_nothing: "emits h (\<lambda>st. (Ok (), st)) []"
proof (rule emitsI)
  fix s assume "ostream_ok s" "\<not> fits s []"
  then show "\<exists>msg p q. [] = p @ q \<and> fits s p \<and> (Ok (), s, h) = (Err, (after s p)\<lparr>oerrmsg := msg\<rparr>, h)"
    by (auto simp: fits_def ostream_ok_def is_sizing_def word_le_nat_alt split: ostate.splits)
next
  fix s
  show "\<exists>msg. (Ok (), s, h) = (Ok (), (after s [])\<lparr>oerrmsg := msg\<rparr>, h)" by (intro exI[of _ "oerrmsg s"]) simp
qed

lemma emits_seq:
  assumes 1: "emits h e bs" and 2: "emits h e' cs"
  shows "emits h (\<lambda>st. checkreturn (e st) (\<lambda>_. e')) (bs @ cs)"
proof (rule emitsI)
  fix s assume s: "ostream_ok s" "room s (length (bs @ cs))"
  have rb: "room s (length bs)" using s(2) by (rule room_mono) simp
  have t: "ostream_ok ((after s bs)\<lparr>oerrmsg := m\<rparr>)" "room ((after s bs)\<lparr>oerrmsg := m\<rparr>) (length cs)"
    "fits ((after s bs)\<lparr>oerrmsg := m\<rparr>) xs = fits s (bs @ xs)" if "fits s bs" for m xs
    using s rb that room_after[of s bs "length cs"] by (simp_all add: fits_after ostream_ok_after)
  show "\<exists>msg. checkreturn (e (s, h)) (\<lambda>_. e') = (Ok (), (after s (bs @ cs))\<lparr>oerrmsg := msg\<rparr>, h)"
    if ok: "fits s (bs @ cs)"
  proof -
    have fb: "fits s bs" using ok by (rule fits_prefix)
    obtain m where m: "e (s, h) = (Ok (), (after s bs)\<lparr>oerrmsg := m\<rparr>, h)"
      using emits_fits[OF 1 s(1) rb fb] .
    obtain m' where "e' ((after s bs)\<lparr>oerrmsg := m\<rparr>, h) =
        (Ok (), (after ((after s bs)\<lparr>oerrmsg := m\<rparr>) cs)\<lparr>oerrmsg := m'\<rparr>, h)"
      using emits_fits[OF 2 t(1,2)[OF fb, of m]] t(3)[OF fb] ok by blast
    then show ?thesis using m by auto
  qed
  show "\<exists>msg p q. bs @ cs = p @ q \<and> fits s p \<and>
          checkreturn (e (s, h)) (\<lambda>_. e') = (Err, (after s p)\<lparr>oerrmsg := msg\<rparr>, h)"
    if full: "\<not> fits s (bs @ cs)"
  proof (cases "fits s bs")
    case True
    obtain m where m: "e (s, h) = (Ok (), (after s bs)\<lparr>oerrmsg := m\<rparr>, h)"
      using emits_fits[OF 1 s(1) rb True] .
    obtain m' p q where "cs = p @ q" "fits ((after s bs)\<lparr>oerrmsg := m\<rparr>) p" "e' ((after s bs)\<lparr>oerrmsg := m\<rparr>, h) =
        (Err, (after ((after s bs)\<lparr>oerrmsg := m\<rparr>) p)\<lparr>oerrmsg := m'\<rparr>, h)"
      using emits_full[OF 2 t(1,2)[OF True, of m]] t(3)[OF True] full by blast
    then show ?thesis using m t(3)[OF True]
      by (intro exI[of _ m'] exI[of _ "bs @ p"] exI[of _ q]) auto
  next
    case False
    obtain m p q where "bs = p @ q" "fits s p" "e (s, h) = (Err, (after s p)\<lparr>oerrmsg := m\<rparr>, h)"
      using emits_full[OF 1 s(1) rb False] .
    then show ?thesis by (intro exI[of _ m] exI[of _ p] exI[of _ "q @ cs"]) auto
  qed
qed

lemma emits_seq_all: "(\<And>e. e \<in> set es \<Longrightarrow> emits h e (f e)) \<Longrightarrow> emits h (seq_all es) (concat (map f es))"
proof (induction es)
  case Nil
  then show ?case using emits_nothing[of h] by (simp add: fun_eq_iff[symmetric])
next
  case (Cons e es)
  then have "emits h (\<lambda>st. checkreturn (e st) (\<lambda>_. seq_all es)) (f e @ concat (map f es))"
    by (intro emits_seq) auto
  moreover have "seq_all (e # es) = (\<lambda>st. checkreturn (e st) (\<lambda>_. seq_all es))" by auto
  ultimately show ?case by simp
qed

section \<open>Primitive writers\<close>

lemma emits_pb_write:
  assumes "length bs \<le> length buf" "unat c = length bs" "take (length bs) buf = bs"
  shows "emits h (on_fst (pb_write (Some buf) c)) bs"
proof (rule emitsI)
  fix s assume s: "ostream_ok s" "room s (length bs)"
  have c: "word_of_nat (length bs) = c" by (simp flip: assms(2))
  have u: "unat (bytes_written s + c) = unat (bytes_written s) + length bs"
    using bytes_written_after[OF s(2)] by (simp add: after_def c)
  note defs = pb_write_def buf_write_def after_def is_sizing_def ostream_ok_def fits_def word_less_nat_alt
    word_le_nat_alt PB_RETURN_ERROR_o_def PB_SET_ERROR_o_def
  show "\<exists>msg. on_fst (pb_write (Some buf) c) (s, h) = (Ok (), (after s bs)\<lparr>oerrmsg := msg\<rparr>, h)" if "fits s bs"
    using that s(1) u c assms by (intro exI[of _ "oerrmsg s"]) (auto simp: defs split: ostate.splits)
  show "\<exists>msg p q. bs = p @ q \<and> fits s p \<and> on_fst (pb_write (Some buf) c) (s, h) = (Err, (after s p)\<lparr>oerrmsg := msg\<rparr>, h)"
    if "\<not> fits s bs"
    using that s(1) u c assms
    by (intro exI[of _ "oerrmsg (PB_SET_ERROR_o ''stream full'' s)"] exI[of _ "[]"] exI[of _ bs])
       (auto simp: defs split: ostate.splits option.splits)
qed

lemma emits_cong:
  assumes "\<And>s. ostream_ok s \<Longrightarrow> e (s, h) = e' (s, h)" "emits h e' bs"
  shows "emits h e bs"
  by (rule emitsI) (use assms(1) emits_fits[OF assms(2)] emits_full[OF assms(2)] in metis)+

lemma emits_write_codec:
  assumes "\<And>s. w s = pb_write (Some bs) (word_of_nat (length bs)) s" "length bs \<le> 10"
  shows "emits h (on_fst w) bs"
proof -
  have "unat (word_of_nat (length bs) :: size_t) = length bs" using assms(2) by (intro unat_word_of_nat) simp
  then show ?thesis by (intro emits_cong[OF _ emits_pb_write[of bs bs]]) (simp_all add: assms(1))
qed

lemma emits_varint [emits_intros]: "emits h (on_fst (pb_encode_varint v)) (leb128 (unat v))"
  by (rule emits_write_codec) (simp_all add: varint.enc_repr leb128_u64_length)

lemma emits_svarint [emits_intros]: "emits h (on_fst (pb_encode_svarint v)) (leb128 (unat (zigzag v)))"
  by (rule emits_write_codec) (simp_all add: svarint.enc_repr leb128_u64_length)

lemma emits_fixed32 [emits_intros]: "emits h (on_fst (pb_encode_fixed32 v)) (le_of_word 4 v)"
  by (rule emits_write_codec) (simp_all add: fixed32.enc_repr)

lemma emits_fixed64 [emits_intros]: "emits h (on_fst (pb_encode_fixed64 v)) (le_of_word 8 v)"
  by (rule emits_write_codec) (simp_all add: fixed64.enc_repr)

lemma emits_tag [emits_intros]: "unat wt < 8 \<Longrightarrow> emits h (on_fst (pb_encode_tag wt t)) (leb128 (key (wt, t)))"
  using leb128_key_length[of wt t] by (intro emits_write_codec) (simp_all add: pb_encode_tag_key)

lemma emits_write_null: "emits h (on_fst (pb_write None 0)) []"
  by (rule emits_cong[OF _ emits_nothing]) (auto simp: pb_write_def buf_write_def ostream_ok_def Let_def split: ostate.splits)

lemma emits_string:
  assumes "unat n = length bs" "bs \<noteq> [] \<Longrightarrow> buf = Some bs" "buf = None \<or> buf = Some bs"
  shows "emits h (on_fst (pb_encode_string buf n)) (leb128 (length bs) @ bs)"
proof -
  have "emits h (on_fst (pb_write buf n)) bs"
  proof (cases buf)
    case None
    then have "bs = []" using assms(2) by auto
    moreover from this have "n = 0" using assms(1) by (simp add: unat_eq_zero)
    ultimately show ?thesis using emits_write_null None by simp
  next
    case (Some b)
    then show ?thesis using emits_pb_write[of bs bs n] assms by simp
  qed
  then have "emits h (\<lambda>st. checkreturn (on_fst (pb_encode_varint n) st) (\<lambda>_. on_fst (pb_write buf n))) (leb128 (unat n) @ bs)"
    by (intro emits_seq emits_varint)
  then show ?thesis unfolding assms(1)
    by (rule emits_cong[rotated]) (simp add: pb_encode_string_def checkreturn_def split: prod.splits outcome.splits)
qed

section \<open>Submessages\<close>

lemma sizing_count:
  assumes "emits h e bs" "length bs < 2 ^ 64"
  obtains s where "e (PB_OSTREAM_SIZING, h) = (Ok (), s, h)" "bytes_written s = word_of_nat (length bs)"
proof -
  have "ostream_ok PB_OSTREAM_SIZING" "room PB_OSTREAM_SIZING (length bs)" "fits PB_OSTREAM_SIZING bs"
    using assms(2) by (simp_all add: PB_OSTREAM_SIZING_def ostream_ok_def room_def fits_def is_sizing_def)
  from emits_fits[OF assms(1) this]
  obtain msg where "e (PB_OSTREAM_SIZING, h) = (Ok (), (after PB_OSTREAM_SIZING bs)\<lparr>oerrmsg := msg\<rparr>, h)" .
  then show ?thesis by (rule that) (simp add: PB_OSTREAM_SIZING_def after_def)
qed

lemma emits_submessage:
  assumes body: "emits h (rec fs src) bs"
  shows "emits h (pb_encode_submessage rec fs src) (leb128 (length bs) @ bs)"
proof -
  let ?n = "word_of_nat (length bs) :: size_t"
  let ?rest = "\<lambda>(s, h1). if is_sizing s then on_fst (pb_write None ?n) (s, h1)
           else if bytes_written s + ?n > max_size s then enc_error ''stream full'' (s, h1)
           else case rec fs src (\<lparr>ostate = ostate s, max_size = ?n, bytes_written = 0, oerrmsg = None\<rparr>, h1) of
               (status, (sub, h2)) \<Rightarrow>
                 let s' = s\<lparr>bytes_written := bytes_written s + bytes_written sub,
                            ostate := ostate sub, oerrmsg := oerrmsg sub\<rparr>
                 in if status = UB \<or> status = Fuel then (status, (s', h2))
                    else if bytes_written sub \<noteq> ?n then enc_error ''submsg size changed'' (s', h2)
                    else (status, (s', h2))"
  have rest: "emits h ?rest bs"
  proof (rule emitsI)
    fix s assume s: "ostream_ok s" "room s (length bs)"
    have n: "unat ?n = length bs" using s(2) by (intro unat_word_of_nat) (simp add: room_def)
    have u: "unat (bytes_written s + ?n) = unat (bytes_written s) + length bs"
      using bytes_written_after[OF s(2)] by (simp add: after_def)
    show "\<exists>msg. ?rest (s, h) = (Ok (), (after s bs)\<lparr>oerrmsg := msg\<rparr>, h)" if fit: "fits s bs"
    proof (cases "is_sizing s")
      case True
      then show ?thesis
        by (intro exI[of _ "oerrmsg s"]) (auto simp: is_sizing_def pb_write_def after_def split: ostate.splits)
    next
      case False
      then obtain cap out where st: "ostate s = Into cap out"
        using s(1) by (auto simp: ostream_ok_def is_sizing_def split: ostate.splits)
      let ?sub = "\<lparr>ostate = ostate s, max_size = ?n, bytes_written = 0, oerrmsg = None\<rparr>"
      have "ostream_ok ?sub" "room ?sub (length bs)" "fits ?sub bs"
        using s fit st n False by (auto simp: ostream_ok_def room_def fits_def)
      then obtain m where "rec fs src (?sub, h) = (Ok (), (after ?sub bs)\<lparr>oerrmsg := m\<rparr>, h)"
        using emits_fits[OF body] by blast
      then show ?thesis using False fit u st
        by (intro exI[of _ m]) (auto simp: after_def fits_def word_less_nat_alt Let_def)
    qed
    show "\<exists>msg p q. bs = p @ q \<and> fits s p \<and> ?rest (s, h) = (Err, (after s p)\<lparr>oerrmsg := msg\<rparr>, h)" if "\<not> fits s bs"
      using that s(1) u
      by (intro exI[of _ "oerrmsg (PB_SET_ERROR_o ''stream full'' s)"] exI[of _ "[]"] exI[of _ bs])
         (auto simp: fits_def word_less_nat_alt word_le_nat_alt PB_RETURN_ERROR_o_def PB_SET_ERROR_o_def ostream_ok_def
           is_sizing_def split: ostate.splits)
  qed
  show ?thesis
  proof (cases "length bs < 2 ^ 64")
    case True
    then have n: "unat ?n = length bs" by (intro unat_word_of_nat) simp
    have e: "emits h (\<lambda>st. checkreturn (on_fst (pb_encode_varint ?n) st) (\<lambda>_. ?rest)) (leb128 (unat ?n) @ bs)"
      by (intro emits_seq emits_varint rest)
    obtain t where t: "rec fs src (PB_OSTREAM_SIZING, h) = (Ok (), t, h)" "bytes_written t = ?n"
      using sizing_count[OF body True] .
    have eq: "pb_encode_submessage rec fs src (s, h) =
        checkreturn (on_fst (pb_encode_varint ?n) (s, h)) (\<lambda>_. ?rest)" for s
      by (simp only: pb_encode_submessage_def t prod.case outcome.case Let_def)
    show ?thesis by (rule emits_cong[OF eq e[unfolded n]])
  next
    case False
    then show ?thesis by (intro emitsI) (simp_all add: room_def)
  qed
qed

section \<open>Values\<close>

text \<open>The string at an address: what precedes the first zero, \<open>n\<close> bytes at most.\<close>

fun c_string :: "heap \<Rightarrow> addr \<Rightarrow> nat \<Rightarrow> byte list" where
  "c_string h p 0 = []"
| "c_string h p (Suc n) = (if hbytes h p = 0 then [] else hbytes h p # c_string h (p + 1) n)"

lemma c_string_length: "length (c_string h p n) \<le> n"
  by (induction h p n rule: c_string.induct) simp_all

lemma load_Suc: "load h a (Suc n) = hbytes h a # load h (a + 1) n"
  using load_add[of h a 1 n] by (simp add: load_def)

lemma load_c_string: "load h p (length (c_string h p n)) = c_string h p n"
proof (induction h p n rule: c_string.induct)
  case (1 h p)
  then show ?case by (simp add: load_def)
next
  case (2 h p n)
  then show ?case by (simp add: load_Suc) (simp add: load_def)
qed

lemma strnlen_loop_c_string:
  "n \<le> m \<Longrightarrow> unat (strnlen_loop h p n m) = unat n + length (c_string h p (unat m - unat n))"
proof (induction h p n m rule: strnlen_loop.induct)
  case (1 h p n m)
  show ?case
  proof (cases "n < m")
    case True
    have inc: "unat (n + 1) = Suc (unat n)" using unat_inc_less[OF True] .
    have le: "n + 1 \<le> m" using True inc by (simp add: word_le_nat_alt word_less_nat_alt)
    obtain k where k: "unat m - unat n = Suc k" "unat m - unat (n + 1) = k"
      using True inc by (cases "unat m - unat n") (auto simp: word_less_nat_alt)
    show ?thesis
      using "1.IH" True le inc k by (cases "hbytes h p = 0") (simp_all add: strnlen_loop.simps[of h p n m])
  next
    case False
    then have "n = m" using "1.prems" by simp
    then show ?thesis by (simp add: strnlen_loop.simps)
  qed
qed

text \<open>
  The value of a field (or of one array item) as a wire value. \<open>rec\<close> gives the records of a
  submessage. \<open>None\<close> where the encoder reports an error.
\<close>

definition string_limit :: "pb_field_t \<Rightarrow> size_t" where
  "string_limit f = (if PB_ATYPE (ftype f) = PB_ATYPE_POINTER then - 1 else ucast (data_size f))"

definition field_value ::
    "(pb_field_t list \<Rightarrow> addr \<Rightarrow> wire_field list option) \<Rightarrow> heap \<Rightarrow> pb_field_t \<Rightarrow> addr \<Rightarrow> wire_value option" where
  "field_value rec h f src =
     (let lt = PB_LTYPE (ftype f) in
      if lt = PB_LTYPE_VARINT then map_option Varint (load_signed h src (data_size f))
      else if lt = PB_LTYPE_UVARINT then map_option Varint (load_unsigned h src (data_size f))
      else if lt = PB_LTYPE_SVARINT then map_option (\<lambda>v. Varint (zigzag v)) (load_signed h src (data_size f))
      else if lt = PB_LTYPE_FIXED32 then Some (I32 (word_of_le (load h src 4)))
      else if lt = PB_LTYPE_FIXED64 then Some (I64 (word_of_le (load h src 8)))
      else if lt = PB_LTYPE_BYTES then
        (if src = 0 then Some (Len [])
         else if PB_ATYPE (ftype f) = PB_ATYPE_STATIC \<and> uint (data_size f) < uint (bytes_size h src) + 4 then None
         else Some (Len (load h (bytes_bytes src) (unat (bytes_size h src)))))
      else if lt = PB_LTYPE_STRING then
        Some (Len (if src = 0 then [] else c_string h src (unat (string_limit f))))
      else if lt = PB_LTYPE_SUBMESSAGE then
        (case ptr f of Submsg fs \<Rightarrow> map_option (\<lambda>ws. Len (wire_bytes ws)) (rec fs src) | _ \<Rightarrow> None)
      else if lt = PB_LTYPE_FIXED_LENGTH_BYTES then Some (Len (load h src (unat (data_size f))))
      else None)"

lemma alloc_size_exceeds:
  "PB_BYTES_ARRAY_T_ALLOCSIZE n > ucast (m :: u32) \<longleftrightarrow> uint m < uint n + 4"
proof -
  have "unat (PB_BYTES_ARRAY_T_ALLOCSIZE n) = unat n + 4"
    using unat_less_two_power[of n]
    by (simp add: PB_BYTES_ARRAY_T_ALLOCSIZE_def unat_word_ariths unsigned_ucast_eq take_bit_nat_eq_self)
  moreover have "unat (ucast m :: size_t) = unat m"
    using unat_less_two_power[of m] by (simp add: unsigned_ucast_eq take_bit_nat_eq_self)
  ultimately show ?thesis by (simp add: word_less_nat_alt) (simp flip: uint_nat add: of_nat_less_iff[symmetric, where 'a = int])
qed

section \<open>Fields and messages, abstractly\<close>

definition item_source :: "heap \<Rightarrow> pb_field_t \<Rightarrow> addr \<Rightarrow> addr" where
  "item_source h f p =
     (if PB_ATYPE (ftype f) = PB_ATYPE_POINTER
         \<and> (PB_LTYPE (ftype f) = PB_LTYPE_STRING \<or> PB_LTYPE (ftype f) = PB_LTYPE_BYTES)
      then load_ptr h p else p)"

definition array_values ::
    "(pb_field_t list \<Rightarrow> addr \<Rightarrow> wire_field list option) \<Rightarrow> heap \<Rightarrow> pb_field_t \<Rightarrow> addr \<Rightarrow> nat
      \<Rightarrow> wire_value list option" where
  "array_values rec h f base cnt =
     those (map (\<lambda>i. field_value rec h f (item_source h f (base + int i * uint (data_size f)))) [0..<cnt])"

definition present :: "nat \<Rightarrow> heap \<Rightarrow> pb_field_t \<Rightarrow> addr \<Rightarrow> bool option" where
  "present n h f pd =
     (if size_offset f \<noteq> 0 then Some (load_bool h (pd + sint (size_offset f)))
      else case pb_check_proto3_default_value n h f pd of
             Ok b \<Rightarrow> Some (if PB_ATYPE (ftype f) = PB_ATYPE_POINTER then load_ptr h pd \<noteq> 0 else \<not> b)
           | _ \<Rightarrow> None)"

definition field_records ::
    "nat \<Rightarrow> (pb_field_t list \<Rightarrow> addr \<Rightarrow> wire_field list option) \<Rightarrow> heap \<Rightarrow> pb_field_t \<Rightarrow> addr
      \<Rightarrow> wire_field list option" where
  "field_records n rec h f pd =
     (let ty = ftype f; ps = pd + sint (size_offset f);
          src = (if PB_ATYPE ty = PB_ATYPE_POINTER then load_ptr h pd else pd);
          single = map_option (\<lambda>v. [(tag f, v)]) (field_value rec h f src);
          cnt = (if size_offset f \<noteq> 0 then load_u32 h ps else array_size f)
      in if PB_HTYPE ty = PB_HTYPE_REQUIRED then (if src = 0 then None else single)
         else if PB_HTYPE ty = PB_HTYPE_OPTIONAL then
           (case present n h f pd of None \<Rightarrow> None | Some True \<Rightarrow> single | Some False \<Rightarrow> Some [])
         else if PB_HTYPE ty = PB_HTYPE_REPEATED then
           (if cnt = 0 then Some []
            else if PB_ATYPE ty \<noteq> PB_ATYPE_POINTER \<and> cnt > array_size f then None
            else map_option (\<lambda>vs. if PB_LTYPE ty \<le> PB_LTYPE_LAST_PACKABLE
                                  then [(tag f, Len (concat (map value_bytes vs)))]
                                  else map (Pair (tag f)) vs) (array_values rec h f src (unat cnt)))
         else if size_offset f = 0 then None
         else if load_u32 h ps = tag f then single else Some [])"

definition entry_records ::
    "nat \<Rightarrow> (pb_field_t list \<Rightarrow> addr \<Rightarrow> wire_field list option) \<Rightarrow> heap \<Rightarrow> pb_field_t \<Rightarrow> addr
      \<Rightarrow> wire_field list option" where
  "entry_records n rec h f pd =
     (if PB_LTYPE (ftype f) = PB_LTYPE_EXTENSION then (if n \<noteq> 0 \<and> load_ptr h pd = 0 then Some [] else None)
      else if PB_ATYPE (ftype f) = PB_ATYPE_CALLBACK then (if callback_func h pd = 0 then Some [] else None)
      else if PB_ATYPE (ftype f) = PB_ATYPE_STATIC \<or> PB_ATYPE (ftype f) = PB_ATYPE_POINTER
      then field_records n rec h f pd else None)"

primrec wire_message :: "nat \<Rightarrow> heap \<Rightarrow> pb_field_t list \<Rightarrow> addr \<Rightarrow> wire_field list option" where
  "wire_message 0 h = (\<lambda>fs src. None)"
| "wire_message (Suc n) h = (\<lambda>fs src.
     if table_ok fs
     then map_option concat (those (map (\<lambda>k. entry_records n (wire_message n h) h (field_at fs k) (pData (iter_at fs src k)))
            [0..<n_fields fs]))
     else None)"

section \<open>The contract of the nested call\<close>

lemma those_Some: "those xs = Some ys \<Longrightarrow> xs = map Some ys"
  by (induction xs arbitrary: ys) (auto split: option.splits)

lemma those_map_nth:
  assumes "those (map f [0..<n]) = Some ys"
  shows "length ys = n" "\<And>i. i < n \<Longrightarrow> f i = Some (ys ! i)"
proof -
  have eq: "map f [0..<n] = map Some ys" using those_Some[OF assms] .
  then show "length ys = n" by (metis length_map length_upt minus_nat.diff_0)
  then show "f i = Some (ys ! i)" if "i < n" for i
    using arg_cong[OF eq, of "\<lambda>l. l ! i"] that by simp
qed

lemma emits_items:
  assumes "length bss = n" "\<And>i. i < n \<Longrightarrow> emits h (body (p + int i * stride)) (bss ! i)"
  shows "emits h (enc_items n body stride p) (concat bss)"
  using assms
proof (induction n arbitrary: p bss)
  case 0
  then show ?case using emits_nothing[of h] by simp
next
  case (Suc n)
  obtain b cs where b: "bss = b # cs" using Suc.prems(1) by (cases bss) auto
  have "emits h (enc_items n body stride (p + stride)) (concat cs)"
  proof (rule Suc.IH)
    show "length cs = n" using Suc.prems(1) b by simp
    show "emits h (body (p + stride + int i * stride)) (cs ! i)" if "i < n" for i
      using Suc.prems(2)[of "Suc i"] that b by (simp add: algebra_simps)
  qed
  moreover have "emits h (body p) b" using Suc.prems(2)[of 0] b by simp
  ultimately have "emits h (\<lambda>st. checkreturn (body p st) (\<lambda>_. enc_items n body stride (p + stride))) (b @ concat cs)"
    by (intro emits_seq)
  then show ?case using b by (simp add: emits_def)
qed

lemma emits_enc_bytes:
  assumes "src \<noteq> 0" "\<not> (PB_ATYPE (ftype f) = PB_ATYPE_STATIC \<and> uint (data_size f) < uint (bytes_size h src) + 4)"
  shows "emits h (pb_enc_bytes f src)
    (leb128 (unat (bytes_size h src)) @ load h (bytes_bytes src) (unat (bytes_size h src)))"
proof -
  have u: "unat (ucast (bytes_size h src) :: size_t) = unat (bytes_size h src)"
    using unat_less_two_power[of "bytes_size h src"] by (simp add: unsigned_ucast_eq take_bit_nat_eq_self)
  show ?thesis
    by (rule emits_cong[OF _ emits_string[of "ucast (bytes_size h src)" "load h (bytes_bytes src) (unat (bytes_size h src))",
          simplified]])
       (use assms u in \<open>auto simp: pb_enc_bytes_def alloc_size_exceeds\<close>)
qed

lemma emits_enc_null:
  "emits h (pb_enc_bytes f 0) (leb128 0)" "emits h (pb_enc_string f 0) (leb128 0)"
proof -
  have e: "emits h (on_fst (pb_encode_string None 0)) (leb128 0)" using emits_string[of 0 "[]" None h] by simp
  show "emits h (pb_enc_bytes f 0) (leb128 0)" by (rule emits_cong[OF _ e]) (simp add: pb_enc_bytes_def)
  show "emits h (pb_enc_string f 0) (leb128 0)" by (rule emits_cong[OF _ e]) (simp add: pb_enc_string_def)
qed

lemma emits_enc_string:
  assumes "src \<noteq> 0"
  shows "emits h (pb_enc_string f src) (value_bytes (Len (c_string h src (unat (string_limit f)))))"
proof -
  let ?n = "strnlen_loop h src 0 (string_limit f)" and ?c = "c_string h src (unat (string_limit f))"
  have n: "unat ?n = length ?c" using strnlen_loop_c_string[of 0 "string_limit f" h src] by simp
  then have "load h src (unat ?n) = ?c" by (simp add: load_c_string)
  then have eq: "pb_enc_string f src (s, h) = on_fst (pb_encode_string (Some ?c) ?n) (s, h)" for s
    using assms by (simp add: pb_enc_string_def string_limit_def Let_def)
  show ?thesis
    unfolding value_bytes.simps by (rule emits_cong[OF eq emits_string[OF n]]) simp_all
qed

lemma emits_enc_fixed_length_bytes:
  "emits h (pb_enc_fixed_length_bytes f src) (value_bytes (Len (load h src (unat (data_size f)))))"
proof -
  have "unat (ucast (data_size f) :: size_t) = unat (data_size f)"
    using unat_less_two_power[of "data_size f"] by (simp add: unsigned_ucast_eq take_bit_nat_eq_self)
  then show ?thesis
    unfolding value_bytes.simps
    by (intro emits_cong[OF _ emits_string[of "ucast (data_size f)" _ "Some (load h src (unat (data_size f)))"]])
       (simp_all add: pb_enc_fixed_length_bytes_def)
qed

lemma emits_enc_scalar:
  "load_signed h src (data_size f) = Some v \<Longrightarrow> emits h (pb_enc_varint f src) (leb128 (unat v))"
  "load_unsigned h src (data_size f) = Some v \<Longrightarrow> emits h (pb_enc_uvarint f src) (leb128 (unat v))"
  "load_signed h src (data_size f) = Some v \<Longrightarrow> emits h (pb_enc_svarint f src) (leb128 (unat (zigzag v)))"
  "emits h (pb_enc_fixed32 f src) (le_of_word 4 (word_of_le (load h src 4) :: u32))"
  "emits h (pb_enc_fixed64 f src) (le_of_word 8 (word_of_le (load h src 8) :: u64))"
  by (rule emits_cong[OF _ emits_varint] emits_cong[OF _ emits_svarint] emits_cong[OF _ emits_fixed32]
        emits_cong[OF _ emits_fixed64],
      simp add: pb_enc_varint_def pb_enc_uvarint_def pb_enc_svarint_def pb_enc_fixed32_def pb_enc_fixed64_def)+

locale message_writer =
  fixes h :: heap
    and wrec :: "pb_field_t list \<Rightarrow> addr \<Rightarrow> wire_field list option"
    and rec :: "pb_field_t list \<Rightarrow> addr \<Rightarrow> encoder"
  assumes writes: "wrec fs src = Some ws \<Longrightarrow> emits h (rec fs src) (wire_bytes ws)"
begin

lemma emits_value:
  assumes "field_value wrec h f src = Some v"
  shows "emits h (PB_ENCODERS rec (PB_LTYPE (ftype f)) f src) (value_bytes v)"
proof -
  consider "PB_LTYPE (ftype f) \<le> PB_LTYPE_LAST_PACKABLE" | "PB_LTYPE (ftype f) = PB_LTYPE_BYTES"
    | "PB_LTYPE (ftype f) = PB_LTYPE_STRING" | "PB_LTYPE (ftype f) = PB_LTYPE_SUBMESSAGE"
    | "PB_LTYPE (ftype f) = PB_LTYPE_FIXED_LENGTH_BYTES"
    using assms by (auto simp: field_value_def Let_def split: if_splits)
  then show ?thesis
  proof cases
    case 1
    then show ?thesis
      using assms
      by (auto simp: field_value_def PB_ENCODERS_def Let_def split: if_splits intro!: emits_enc_scalar)
  next
    case 2
    then show ?thesis
      using assms emits_enc_null(1) emits_enc_bytes[of src f h]
      by (auto simp: field_value_def PB_ENCODERS_def Let_def split: if_splits)
  next
    case 3
    then show ?thesis
      using assms emits_enc_null(2) emits_enc_string[of src h f]
      by (auto simp: field_value_def PB_ENCODERS_def Let_def split: if_splits)
  next
    case 4
    then obtain fs ws where "ptr f = Submsg fs" "wrec fs src = Some ws" "v = Len (wire_bytes ws)"
      using assms by (auto simp: field_value_def Let_def split: pb_ptr.splits)
    then show ?thesis
      using 4 emits_submessage[OF writes] by (simp add: PB_ENCODERS_def pb_enc_submessage_def)
  next
    case 5
    then show ?thesis
      using assms emits_enc_fixed_length_bytes by (auto simp: field_value_def PB_ENCODERS_def)
  qed
qed

end

lemma emits_tag_for_field:
  assumes "field_value wrec h f src = Some v"
  shows "emits h (on_fst (pb_encode_tag_for_field f)) (leb128 (key (wire_type v, tag f)))"
  by (rule emits_cong[OF _ emits_tag[of "wire_type v" _ "tag f"]])
     (use assms in \<open>auto simp: field_value_def pb_encode_tag_for_field_def Let_def split: if_splits pb_ptr.splits\<close>)

lemma concat_field_bytes: "wire_bytes (map (Pair t) vs) = concat (map (\<lambda>v. field_bytes (t, v)) vs)"
  by (simp add: wire_bytes_def comp_def)

lemma field_value_packed_length:
  assumes "field_value wrec h f src = Some v"
  shows "PB_LTYPE (ftype f) = PB_LTYPE_FIXED32 \<Longrightarrow> length (value_bytes v) = 4"
    "PB_LTYPE (ftype f) = PB_LTYPE_FIXED64 \<Longrightarrow> length (value_bytes v) = 8"
  using assms by (auto simp: field_value_def)

lemma length_concat_const: "(\<And>x. x \<in> set xs \<Longrightarrow> length x = k) \<Longrightarrow> length (concat xs) = k * length xs"
  by (induction xs) auto

text \<open>The payload of a packed array: counted or computed, announced, then written.\<close>

lemma emits_packed:
  assumes payload: "emits h w bs"
    and sized: "length bs < 2 ^ 64 \<Longrightarrow> (\<And>s. sized (s, h) = (Ok (word_of_nat (length bs)), (s, h)))"
  shows "emits h (\<lambda>st. checkreturn (sized st) (\<lambda>n (s, h).
              checkreturn (on_fst (pb_encode_varint n) (s, h)) (\<lambda>_ (s, h).
                if is_sizing s then on_fst (pb_write None n) (s, h) else w (s, h)))) (leb128 (length bs) @ bs)"
proof (cases "length bs < 2 ^ 64")
  case True
  let ?n = "word_of_nat (length bs) :: size_t"
  have n: "unat ?n = length bs" using True by (intro unat_word_of_nat) simp
  have "emits h (\<lambda>(s, h). if is_sizing s then on_fst (pb_write None ?n) (s, h) else w (s, h)) bs"
  proof (rule emitsI)
    fix s assume s: "ostream_ok s" "room s (length bs)"
    show "\<exists>msg. (case (s, h) of (s, h) \<Rightarrow> if is_sizing s then on_fst (pb_write None ?n) (s, h) else w (s, h)) =
        (Ok (), (after s bs)\<lparr>oerrmsg := msg\<rparr>, h)" if "fits s bs"
    proof (cases "is_sizing s")
      case True
      then show ?thesis
        by (intro exI[of _ "oerrmsg s"]) (auto simp: is_sizing_def pb_write_def after_def split: ostate.splits)
    next
      case False
      then show ?thesis using emits_fits[OF payload s that] by auto
    qed
    show "\<exists>msg p q. bs = p @ q \<and> fits s p \<and>
        (case (s, h) of (s, h) \<Rightarrow> if is_sizing s then on_fst (pb_write None ?n) (s, h) else w (s, h)) =
        (Err, (after s p)\<lparr>oerrmsg := msg\<rparr>, h)" if "\<not> fits s bs"
    proof -
      have "\<not> is_sizing s" using that by (simp add: fits_def)
      then show ?thesis using emits_full[OF payload s that] by (simp only: prod.case if_False) metis
    qed
  qed
  from emits_seq[OF emits_varint[of h ?n] this]
  have e: "emits h (\<lambda>st. checkreturn (on_fst (pb_encode_varint ?n) st) (\<lambda>_ (s, h).
      if is_sizing s then on_fst (pb_write None ?n) (s, h) else w (s, h))) (leb128 (length bs) @ bs)"
    unfolding n .
  show ?thesis by (rule emits_cong[OF _ e]) (simp add: sized[OF True])
next
  case False
  then show ?thesis by (intro emitsI) (simp_all add: room_def)
qed

context message_writer
begin

lemma emits_array:
  assumes vals: "array_values wrec h f base (unat cnt) = Some vs" and nz: "cnt \<noteq> (0 :: u32)"
    and fit: "\<not> (PB_ATYPE (ftype f) \<noteq> PB_ATYPE_POINTER \<and> cnt > array_size f)"
  shows "emits h (encode_array f base (ucast cnt) (PB_ENCODERS rec (PB_LTYPE (ftype f))))
    (wire_bytes (if PB_LTYPE (ftype f) \<le> PB_LTYPE_LAST_PACKABLE
                 then [(tag f, Len (concat (map value_bytes vs)))] else map (Pair (tag f)) vs))"
proof -
  let ?lt = "PB_LTYPE (ftype f)" and ?n = "unat cnt" and ?stride = "uint (data_size f)"
  let ?func = "PB_ENCODERS rec ?lt" and ?bs = "concat (map value_bytes vs)"
  have len: "length vs = ?n"
    and val: "\<And>i. i < ?n \<Longrightarrow> field_value wrec h f (item_source h f (base + int i * ?stride)) = Some (vs ! i)"
    using those_map_nth[OF vals[unfolded array_values_def]] by auto
  show ?thesis
  proof (cases "?lt \<le> PB_LTYPE_LAST_PACKABLE")
    case True
    then have src: "item_source h f p = p" for p by (auto simp: item_source_def)
    have items: "emits h (enc_items ?n (?func f) ?stride base) ?bs"
      using val len by (intro emits_items) (simp_all add: src emits_value)
    have mem: "\<exists>src. field_value wrec h f src = Some v" if "v \<in> set vs" for v
      using that val len by (auto simp: in_set_conv_nth)
    have fixed: "length ?bs = 4 * ?n" if "?lt = PB_LTYPE_FIXED32"
      using length_concat_const[of "map value_bytes vs" 4] mem field_value_packed_length(1)[OF _ that] len by fastforce
    have fixed': "length ?bs = 8 * ?n" if "?lt = PB_LTYPE_FIXED64"
      using length_concat_const[of "map value_bytes vs" 8] mem field_value_packed_length(2)[OF _ that] len by fastforce
    define sized where "sized = (\<lambda>(s :: pb_ostream_t, h).
        if ?lt = PB_LTYPE_FIXED32 then (Ok (4 * ucast cnt :: size_t), (s, h))
        else if ?lt = PB_LTYPE_FIXED64 then (Ok (8 * ucast cnt), (s, h))
        else case enc_items ?n (?func f) ?stride base (PB_OSTREAM_SIZING, h) of
               (Ok _, (sz, h)) \<Rightarrow> (Ok (bytes_written sz), (s, h))
             | (Err, (sz, h)) \<Rightarrow> (Err, (s, h)) | (UB, (sz, h)) \<Rightarrow> (UB, (s, h)) | (Fuel, (sz, h)) \<Rightarrow> (Fuel, (s, h)))"
    have "sized (s, h) = (Ok (word_of_nat (length ?bs)), (s, h))" if short: "length ?bs < 2 ^ 64" for s
    proof -
      have "word_of_nat ?n = (ucast cnt :: size_t)" by simp
      then have "4 * ucast cnt = (word_of_nat (4 * ?n) :: size_t)" "8 * ucast cnt = (word_of_nat (8 * ?n) :: size_t)"
        by simp_all
      moreover obtain sz where "enc_items ?n (?func f) ?stride base (PB_OSTREAM_SIZING, h) = (Ok (), sz, h)"
          "bytes_written sz = word_of_nat (length ?bs)"
        using sizing_count[OF items short] .
      ultimately show ?thesis using fixed fixed' by (simp add: sized_def)
    qed
    from emits_seq[OF emits_tag[of PB_WT_STRING h "tag f"] emits_packed[OF items this]]
    have e: "emits h (\<lambda>st. checkreturn (on_fst (pb_encode_tag PB_WT_STRING (tag f)) st) (\<lambda>_ st. checkreturn (sized st)
        (\<lambda>n (s, h). checkreturn (on_fst (pb_encode_varint n) (s, h)) (\<lambda>_ (s, h).
           if is_sizing s then on_fst (pb_write None n) (s, h) else enc_items ?n (?func f) ?stride base (s, h)))))
        (wire_bytes [(tag f, Len ?bs)])"
      by (simp add: field_bytes_def)
    have "encode_array f base (ucast cnt) ?func (s, h) =
        checkreturn (on_fst (pb_encode_tag PB_WT_STRING (tag f)) (s, h)) (\<lambda>_ st. checkreturn (sized st)
        (\<lambda>n (s, h). checkreturn (on_fst (pb_encode_varint n) (s, h)) (\<lambda>_ (s, h).
           if is_sizing s then on_fst (pb_write None n) (s, h) else enc_items ?n (?func f) ?stride base (s, h))))" for s
      using True nz fit by (auto simp: encode_array_def ucast_u32 Let_def sized_def intro!: checkreturn_cong)
    from emits_cong[OF this e] show ?thesis using True by simp
  next
    case False
    let ?item = "\<lambda>p (s, h). checkreturn (on_fst (pb_encode_tag_for_field f) (s, h)) (\<lambda>_ (s, h).
           if PB_ATYPE (ftype f) = PB_ATYPE_POINTER \<and> (?lt = PB_LTYPE_STRING \<or> ?lt = PB_LTYPE_BYTES)
           then ?func f (load_ptr h p) (s, h) else ?func f p (s, h))"
    have "emits h (?item p) (field_bytes (tag f, v))" if "field_value wrec h f (item_source h f p) = Some v" for p v
    proof -
      have "emits h (\<lambda>(s, h). if PB_ATYPE (ftype f) = PB_ATYPE_POINTER \<and> (?lt = PB_LTYPE_STRING \<or> ?lt = PB_LTYPE_BYTES)
           then ?func f (load_ptr h p) (s, h) else ?func f p (s, h)) (value_bytes v)"
        by (rule emits_cong[OF _ emits_value[OF that]]) (auto simp: item_source_def)
      from emits_seq[OF emits_tag_for_field[OF that] this] show ?thesis
        unfolding field_bytes_def prod.case by (rule emits_cong[rotated]) simp
    qed
    then have e: "emits h (enc_items ?n ?item ?stride base) (wire_bytes (map (Pair (tag f)) vs))"
      unfolding concat_field_bytes using val len by (intro emits_items) simp_all
    have "encode_array f base (ucast cnt) ?func (s, h) = enc_items ?n ?item ?stride base (s, h)" for s
      using False nz fit by (simp only: encode_array_def ucast_u32 Let_def prod.case if_False)
    from emits_cong[OF this e] show ?thesis using False by simp
  qed
qed

lemma emits_single:
  assumes "field_value wrec h f src = Some v"
  shows "emits h (\<lambda>st. checkreturn (on_fst (pb_encode_tag_for_field f) st) (\<lambda>_. PB_ENCODERS rec (PB_LTYPE (ftype f)) f src))
           (wire_bytes [(tag f, v)])"
  using emits_seq[OF emits_tag_for_field[OF assms] emits_value[OF assms]] by (simp add: field_bytes_def)

lemma emits_basic_field:
  assumes "field_records n wrec h f pd = Some ws"
  shows "emits h (encode_basic_field n rec f pd) (wire_bytes ws)"
proof -
  let ?ty = "ftype f" and ?src = "if PB_ATYPE (ftype f) = PB_ATYPE_POINTER then load_ptr h pd else pd"
  let ?put = "\<lambda>st. checkreturn (on_fst (pb_encode_tag_for_field f) st) (\<lambda>_. PB_ENCODERS rec (PB_LTYPE ?ty) f ?src)"
  let ?cnt = "if size_offset f \<noteq> 0 then load_u32 h (pd + sint (size_offset f)) else array_size f"
  have H: "PB_HTYPE ?ty \<noteq> PB_HTYPE_OPTIONAL \<Longrightarrow> encode_basic_field n rec f pd (s, h) =
     (if PB_HTYPE ?ty = PB_HTYPE_REQUIRED then
        (if ?src = 0 then enc_error ''missing required field'' (s, h) else ?put (s, h))
      else if PB_HTYPE ?ty = PB_HTYPE_REPEATED
      then encode_array f ?src (ucast ?cnt) (PB_ENCODERS rec (PB_LTYPE ?ty)) (s, h)
      else if size_offset f = 0 then (UB, (s, h))
      else if load_u32 h (pd + sint (size_offset f)) = tag f then ?put (s, h) else (Ok (), (s, h)))" for s
    by (simp add: encode_basic_field_def Let_def)
  consider (req) "PB_HTYPE ?ty = PB_HTYPE_REQUIRED" | (opt) "PB_HTYPE ?ty = PB_HTYPE_OPTIONAL"
    | (rep) "PB_HTYPE ?ty = PB_HTYPE_REPEATED"
    | (oneof) "PB_HTYPE ?ty \<noteq> PB_HTYPE_REQUIRED" "PB_HTYPE ?ty \<noteq> PB_HTYPE_OPTIONAL" "PB_HTYPE ?ty \<noteq> PB_HTYPE_REPEATED"
    by blast
  then show ?thesis
  proof cases
    case req
    then obtain v where v: "?src \<noteq> 0" "field_value wrec h f ?src = Some v" "ws = [(tag f, v)]"
      using assms by (auto simp: field_records_def Let_def split: if_splits)
    have "encode_basic_field n rec f pd (s, h) = ?put (s, h)" for s using H req v(1) by simp
    from emits_cong[OF this emits_single[OF v(2)]] show ?thesis using v(3) by simp
  next
    case opt
    then obtain b where b: "present n h f pd = Some b"
      using assms by (auto simp: field_records_def split: option.splits)
    have eq: "encode_basic_field n rec f pd (s, h) = (if b then ?put (s, h) else (Ok (), (s, h)))" for s
    proof (cases "size_offset f = 0")
      case True
      then obtain c where "pb_check_proto3_default_value n h f pd = Ok c"
          "b = (if PB_ATYPE ?ty = PB_ATYPE_POINTER then load_ptr h pd \<noteq> 0 else \<not> c)"
        using b by (auto simp: present_def split: outcome.splits)
      then show ?thesis using True opt by (simp add: encode_basic_field_def Let_def)
    next
      case False
      then show ?thesis using b opt by (simp add: encode_basic_field_def present_def Let_def)
    qed
    show ?thesis
    proof (cases b)
      case True
      then obtain v where v: "field_value wrec h f ?src = Some v" "ws = [(tag f, v)]"
        using assms b opt by (auto simp: field_records_def Let_def split: if_splits)
      have "encode_basic_field n rec f pd (s, h) = ?put (s, h)" for s using eq True by simp
      from emits_cong[OF this emits_single[OF v(1)]] show ?thesis using v(2) by simp
    next
      case False
      then have "ws = []" using assms b opt by (simp add: field_records_def Let_def split: if_splits)
      moreover have "encode_basic_field n rec f pd (s, h) = (Ok (), (s, h))" for s using eq False by simp
      ultimately show ?thesis using emits_cong[OF _ emits_nothing] by simp
    qed
  next
    case rep
    have eq: "encode_basic_field n rec f pd (s, h) =
        encode_array f ?src (ucast ?cnt) (PB_ENCODERS rec (PB_LTYPE ?ty)) (s, h)" for s
      using rep H by simp
    show ?thesis
    proof (cases "?cnt = 0")
      case True
      then have "ws = []" using assms rep by (simp add: field_records_def Let_def split: if_splits)
      moreover have "encode_basic_field n rec f pd (s, h) = (Ok (), (s, h))" for s
        unfolding eq True by (simp add: encode_array_def)
      ultimately show ?thesis using emits_cong[OF _ emits_nothing] by simp
    next
      case nz: False
      have fit: "\<not> (PB_ATYPE ?ty \<noteq> PB_ATYPE_POINTER \<and> ?cnt > array_size f)"
        using assms rep nz by (auto simp: field_records_def Let_def split: if_splits)
      obtain vs where vs: "array_values wrec h f ?src (unat ?cnt) = Some vs"
          "ws = (if PB_LTYPE ?ty \<le> PB_LTYPE_LAST_PACKABLE
                 then [(tag f, Len (concat (map value_bytes vs)))] else map (Pair (tag f)) vs)"
        using assms rep nz fit by (auto simp: field_records_def Let_def split: if_splits)
      show ?thesis unfolding vs(2) by (rule emits_cong[OF eq emits_array[OF vs(1) nz fit]])
    qed
  next
    case oneof
    have eq: "encode_basic_field n rec f pd (s, h) =
        (if load_u32 h (pd + sint (size_offset f)) = tag f then ?put (s, h) else (Ok (), (s, h)))" for s
      using oneof H assms by (auto simp: field_records_def Let_def split: if_splits)
    show ?thesis
    proof (cases "load_u32 h (pd + sint (size_offset f)) = tag f")
      case True
      then obtain v where v: "field_value wrec h f ?src = Some v" "ws = [(tag f, v)]"
        using assms oneof by (auto simp: field_records_def Let_def split: if_splits)
      have "encode_basic_field n rec f pd (s, h) = ?put (s, h)" for s using eq True by simp
      from emits_cong[OF this emits_single[OF v(1)]] show ?thesis using v(2) by simp
    next
      case False
      then have "ws = []" using assms oneof by (simp add: field_records_def Let_def split: if_splits)
      moreover have "encode_basic_field n rec f pd (s, h) = (Ok (), (s, h))" for s using eq False by simp
      ultimately show ?thesis using emits_cong[OF _ emits_nothing] by simp
    qed
  qed
qed

lemma emits_entry:
  assumes "entry_records n wrec h (cur it) (pData it) = Some ws"
  shows "emits h (encode_one n env rec it) (wire_bytes ws)"
proof -
  let ?f = "cur it" and ?pd = "pData it"
  consider (ext) "PB_LTYPE (ftype ?f) = PB_LTYPE_EXTENSION" "n \<noteq> 0" "load_ptr h ?pd = 0" "ws = []"
    | (cb) "PB_LTYPE (ftype ?f) \<noteq> PB_LTYPE_EXTENSION" "PB_ATYPE (ftype ?f) = PB_ATYPE_CALLBACK"
        "callback_func h ?pd = 0" "ws = []"
    | (basic) "PB_LTYPE (ftype ?f) \<noteq> PB_LTYPE_EXTENSION"
        "PB_ATYPE (ftype ?f) = PB_ATYPE_STATIC \<or> PB_ATYPE (ftype ?f) = PB_ATYPE_POINTER"
        "field_records n wrec h ?f ?pd = Some ws"
    using assms unfolding entry_records_def by (metis option.distinct(1) option.inject)
  then show ?thesis
  proof cases
    case ext
    then obtain m where "n = Suc m" by (cases n) auto
    then have "encode_one n env rec it (s, h) = (Ok (), (s, h))" for s
      using ext by (simp add: encode_one_def encode_extension_field_def)
    then show ?thesis using ext(4) emits_cong[OF _ emits_nothing] by simp
  next
    case cb
    then have "encode_one n env rec it (s, h) = (Ok (), (s, h))" for s
      by (simp add: encode_one_def encode_field_def encode_callback_field_def)
    then show ?thesis using cb(4) emits_cong[OF _ emits_nothing] by simp
  next
    case basic
    then have "encode_one n env rec it = encode_basic_field n rec ?f ?pd"
      by (simp add: encode_one_def encode_field_def)
    then show ?thesis using emits_basic_field[OF basic(3)] by simp
  qed
qed

end

section \<open>The encoder fulfils the contract\<close>

lemma emits_seq_map:
  assumes "length bss = n" "\<And>i. i < n \<Longrightarrow> emits h (g i) (bss ! i)"
  shows "emits h (seq_all (map g [0..<n])) (concat bss)"
  using assms
proof (induction n arbitrary: g bss)
  case 0
  then show ?case using emits_nothing[of h] by simp
next
  case (Suc n)
  obtain b cs where b: "bss = b # cs" using Suc.prems(1) by (cases bss) auto
  have "emits h (seq_all (map (\<lambda>i. g (Suc i)) [0..<n])) (concat cs)"
  proof (rule Suc.IH)
    show "length cs = n" using Suc.prems(1) b by simp
    show "emits h (g (Suc i)) (cs ! i)" if "i < n" for i using Suc.prems(2)[of "Suc i"] that b by simp
  qed
  moreover have "emits h (g 0) b" using Suc.prems(2)[of 0] b by simp
  ultimately have "emits h (\<lambda>st. checkreturn (g 0 st) (\<lambda>_. seq_all (map (\<lambda>i. g (Suc i)) [0..<n]))) (b @ concat cs)"
    by (intro emits_seq)
  moreover have "map g [0..<Suc n] = g 0 # map (\<lambda>i. g (Suc i)) [0..<n]"
    by (simp add: upt_conv_Cons map_Suc_upt[symmetric] del: upt_Suc)
  ultimately show ?case using b by (simp add: emits_def del: upt_Suc)
qed

lemma message_writer_step:
  assumes "message_writer h (wire_message n h) (pb_encode n env)"
  shows "message_writer h (wire_message (Suc n) h) (pb_encode (Suc n) env)"
proof
  fix fs src ws assume ws: "wire_message (Suc n) h fs src = Some ws"
  let ?g = "\<lambda>k. entry_records n (wire_message n h) h (field_at fs k) (pData (iter_at fs src k))"
  have ok: "table_ok fs" using ws by (simp split: if_splits)
  then obtain wss where wss: "those (map ?g [0..<n_fields fs]) = Some wss" "ws = concat wss"
    using ws by auto
  note nth = those_map_nth[OF wss(1)]
  have "emits h (encode_one n env (pb_encode n env) (iter_at fs src i)) (wire_bytes (wss ! i))" if "i < n_fields fs" for i
    using message_writer.emits_entry[OF assms] nth(2)[OF that] iter_at_inv[OF ok, of i src] that by simp
  then have e: "emits h (seq_all (map (\<lambda>i. encode_one n env (pb_encode n env) (iter_at fs src i)) [0..<n_fields fs]))
      (concat (map wire_bytes wss))"
    using nth(1) by (intro emits_seq_map) simp_all
  have cw: "concat (map wire_bytes wss) = wire_bytes ws" unfolding wss(2) by (induction wss) simp_all
  show "emits h (pb_encode (Suc n) env fs src) (wire_bytes ws)"
  proof (cases "0 < n_fields fs")
    case True
    have "pb_encode (Suc n) env fs src (s, h) =
        seq_all (map (\<lambda>i. encode_one n env (pb_encode n env) (iter_at fs src i)) [0..<n_fields fs]) (s, h)" for s
      using True iter_loop_steps[OF ok True] by (simp add: iter_begin_at[OF ok])
    from emits_cong[OF this e] show ?thesis unfolding cw .
  next
    case False
    then have "ws = []" using wss nth(1) by simp
    then show ?thesis using False emits_nothing[of h] by (simp add: iter_begin_at[OF ok])
  qed
qed

interpretation pb_encode: message_writer h "wire_message n h" "pb_encode n env" for h n env
proof (induction n)
  case 0
  show ?case by unfold_locales simp
next
  case (Suc n)
  then show ?case by (rule message_writer_step)
qed

section \<open>Properties\<close>

lemma encode_fits:
  assumes "emits h e bs" "length bs \<le> unat cap"
  obtains s where "e (pb_ostream_from_buffer cap, h) = (Ok (), s, h)" "ostate s = Into (unat cap) bs"
    "bytes_written s = word_of_nat (length bs)"
proof -
  let ?s = "pb_ostream_from_buffer cap"
  have "ostream_ok ?s" "room ?s (length bs)" "fits ?s bs"
    using assms(2) unat_less_two_power[of cap]
    by (simp_all add: pb_ostream_from_buffer_def ostream_ok_def room_def fits_def)
  from emits_fits[OF assms(1) this] obtain msg
    where "e (?s, h) = (Ok (), (after ?s bs)\<lparr>oerrmsg := msg\<rparr>, h)" .
  then show ?thesis by (rule that) (simp_all add: pb_ostream_from_buffer_def after_def)
qed

lemma encode_full:
  assumes "emits h e bs" "unat cap < length bs" "length bs < 2 ^ 64"
  obtains s p q where "e (pb_ostream_from_buffer cap, h) = (Err, s, h)" "ostate s = Into (unat cap) p"
    "bs = p @ q" "length p \<le> unat cap"
proof -
  let ?s = "pb_ostream_from_buffer cap"
  have ok: "ostream_ok ?s" "room ?s (length bs)" "\<not> fits ?s bs"
    using assms(2,3) by (simp_all add: pb_ostream_from_buffer_def ostream_ok_def room_def fits_def is_sizing_def)
  from emits_full[OF assms(1) ok] obtain msg p q
    where r: "bs = p @ q" "fits ?s p" "e (?s, h) = (Err, (after ?s p)\<lparr>oerrmsg := msg\<rparr>, h)" .
  show ?thesis
    by (rule that[OF r(3) _ r(1)]) (use r(2) in \<open>simp_all add: pb_ostream_from_buffer_def after_def fits_def is_sizing_def\<close>)
qed

text \<open>
  A message to evaluate on: an unsigned integer, a submessage of one signed integer, up to
  three packed zigzag integers, and an optional string.
\<close>

definition point_fields :: "pb_field_t list" where
  "point_fields = [Pb_field 1 0x10 4 (- 4) 4 0 Null, PB_LAST_FIELD]"

definition demo_fields :: "pb_field_t list" where
  "demo_fields = [Pb_field 1 0x01 0 0 4 0 Null, Pb_field 2 0x07 0 0 8 0 (Submsg point_fields),
                  Pb_field 3 0x22 4 (- 4) 4 3 Null, Pb_field 4 0x16 4 (- 4) 4 0 Null, PB_LAST_FIELD]"

definition demo_heap :: heap where
  "demo_heap = \<lparr>hbytes = (\<lambda>_. 0)(64 := 0x2C, 65 := 1, 68 := 1, 72 := 5, 76 := 2, 80 := 1, 84 := 0xFE, 85 := 0xFF,
                 86 := 0xFF, 87 := 0xFF, 92 := 1, 96 := 0x41, 97 := 0x42), live = []\<rparr>"

definition demo_records :: "wire_field list" where
  "demo_records = [(1, Varint 300), (2, Len [8, 5]), (3, Len [2, 3]), (4, Len [0x41, 0x42])]"

lemma demo_message: "wire_message 2 demo_heap demo_fields 64 = Some demo_records"
  by code_simp

lemma demo_length: "length (wire_bytes demo_records) = 15"
  by code_simp

text \<open>C4: \<^verbatim>\<open>pb_encode\<close> into a buffer that is large enough succeeds, leaves the message unchanged, and
  writes exactly the wire form of the message: one record per field that is present, in the
  order of the table, submessages and packed arrays as length-delimited records.\<close>

theorem encode_to_buffer:
  assumes "wire_message n h fs src = Some ws" "length (wire_bytes ws) \<le> unat cap"
  shows "\<exists>s. pb_encode n env fs src (pb_ostream_from_buffer cap, h) = (Ok (), s, h) \<and>
    ostate s = Into (unat cap) (wire_bytes ws) \<and> bytes_written s = word_of_nat (length (wire_bytes ws))"
  using encode_fits[OF pb_encode.writes[OF assms(1)] assms(2)] by metis

theorem encode_to_buffer_witness:
  "\<exists>s. pb_encode 2 no_env demo_fields 64 (pb_ostream_from_buffer 20, demo_heap) = (Ok (), s, demo_heap) \<and>
    ostate s = Into 20 (wire_bytes demo_records) \<and> bytes_written s = 15"
  using encode_to_buffer[OF demo_message, of 20 no_env] by (simp add: demo_length)

text \<open>C9: into a buffer that is too small, \<^verbatim>\<open>pb_encode\<close> returns false; what it has written is a
  beginning of the wire form and lies inside the buffer.\<close>

theorem encode_to_small_buffer:
  assumes "wire_message n h fs src = Some ws" "unat cap < length (wire_bytes ws)" "length (wire_bytes ws) < 2 ^ 64"
  shows "\<exists>s p q. pb_encode n env fs src (pb_ostream_from_buffer cap, h) = (Err, s, h) \<and>
    ostate s = Into (unat cap) p \<and> wire_bytes ws = p @ q \<and> length p \<le> unat cap"
  using encode_full[OF pb_encode.writes[OF assms(1)] assms(2,3)] by metis

theorem encode_to_small_buffer_witness:
  "\<exists>s p q. pb_encode 2 no_env demo_fields 64 (pb_ostream_from_buffer 8, demo_heap) = (Err, s, demo_heap) \<and>
    ostate s = Into 8 p \<and> wire_bytes demo_records = p @ q \<and> length p \<le> 8"
  using encode_to_small_buffer[OF demo_message, of 8 no_env] by (simp add: demo_length)

text \<open>C21: the size that \<^verbatim>\<open>pb_get_encoded_size\<close> reports is the size \<^verbatim>\<open>pb_encode\<close> needs: encoding into a
  buffer of that size succeeds and fills it.\<close>

theorem encoded_size_is_enough:
  assumes "wire_message n h fs src = Some ws" "length (wire_bytes ws) < 2 ^ 64"
  shows "\<exists>size s out. pb_get_encoded_size n env fs src h = (Ok size, h) \<and>
    pb_encode n env fs src (pb_ostream_from_buffer size, h) = (Ok (), s, h) \<and>
    ostate s = Into (unat size) out \<and> length out = unat size"
proof -
  note w = pb_encode.writes[OF assms(1), of env]
  let ?size = "word_of_nat (length (wire_bytes ws)) :: size_t"
  have u: "unat ?size = length (wire_bytes ws)" using assms(2) by (intro unat_word_of_nat) simp
  obtain t where "pb_encode n env fs src (PB_OSTREAM_SIZING, h) = (Ok (), t, h)" "bytes_written t = ?size"
    using sizing_count[OF w assms(2)] .
  then have "pb_get_encoded_size n env fs src h = (Ok ?size, h)" by (simp add: pb_get_encoded_size_def)
  then show ?thesis using encode_fits[OF w, of ?size] u by (metis order_refl)
qed

theorem encoded_size_is_enough_witness:
  "\<exists>size s out. pb_get_encoded_size 2 no_env demo_fields 64 demo_heap = (Ok size, demo_heap) \<and>
    pb_encode 2 no_env demo_fields 64 (pb_ostream_from_buffer size, demo_heap) = (Ok (), s, demo_heap) \<and>
    ostate s = Into (unat size) out \<and> length out = unat size"
  using encoded_size_is_enough[OF demo_message, of no_env] by (simp add: demo_length)

text \<open>C22: \<^verbatim>\<open>pb_encode_delimited\<close> frames the message so that \<^verbatim>\<open>pb_make_string_substream\<close> on the output
  yields a substream over exactly the message, and leaves the parent exactly what follows it.\<close>

theorem delimited_framing:
  assumes "wire_message n h fs src = Some ws" "length (wire_bytes ws) < 2 ^ 32"
    "length (wire_bytes ws) + 10 \<le> unat cap" "length rest + length (wire_bytes ws) + 10 < 2 ^ 64"
  shows "\<exists>s out sub parent. pb_encode_delimited n env fs src (pb_ostream_from_buffer cap, h) = (Ok (), s, h) \<and>
    ostate s = Into (unat cap) out \<and>
    pb_make_string_substream (pb_istream_from_buffer (out @ rest) (word_of_nat (length (out @ rest)))) = (Ok sub, parent) \<and>
    istate sub = Buffer (wire_bytes ws @ rest) \<and> unat (bytes_left sub) = length (wire_bytes ws) \<and>
    istate parent = Buffer (wire_bytes ws @ rest) \<and> unat (bytes_left parent) = length rest"
proof -
  let ?b = "wire_bytes ws" and ?l = "leb128 (length (wire_bytes ws))"
  have l: "length ?l \<le> 10" using assms(2) by (intro leb128_length) simp_all
  obtain s where s: "pb_encode_delimited n env fs src (pb_ostream_from_buffer cap, h) = (Ok (), s, h)"
      "ostate s = Into (unat cap) (?l @ ?b)"
    using encode_fits[OF emits_submessage[where rec = "pb_encode n env", OF pb_encode.writes[OF assms(1)]], of cap] l assms(3)
    unfolding pb_encode_delimited_def by auto
  let ?i = "pb_istream_from_buffer ((?l @ ?b) @ rest) (word_of_nat (length ((?l @ ?b) @ rest)))"
  have i: "istate ?i = Buffer (?l @ ?b @ rest)" by (simp add: pb_istream_from_buffer_def)
  have left: "unat (bytes_left ?i) = length ?l + length ?b + length rest"
    unfolding pb_istream_from_buffer_def using l assms(4)
    by (simp only: pb_istream_t.simps, subst unat_word_of_nat) simp_all
  obtain sub parent where "pb_make_string_substream ?i = (Ok sub, parent)" "istate sub = Buffer (?b @ rest)"
      "unat (bytes_left sub) = length ?b" "istate parent = Buffer (?b @ rest)"
      "unat (bytes_left parent) = unat (bytes_left ?i) - (length ?l + length ?b)"
    using make_substream_framed[OF i assms(2)] left by auto
  then show ?thesis using s left
    by (intro exI[of _ s] exI[of _ "?l @ ?b"] exI[of _ sub] exI[of _ parent]) simp
qed

theorem delimited_framing_witness:
  "\<exists>s out sub parent. pb_encode_delimited 2 no_env demo_fields 64 (pb_ostream_from_buffer 32, demo_heap) = (Ok (), s, demo_heap) \<and>
    ostate s = Into 32 out \<and>
    pb_make_string_substream (pb_istream_from_buffer (out @ [9]) (word_of_nat (length (out @ [9])))) = (Ok sub, parent) \<and>
    istate sub = Buffer (wire_bytes demo_records @ [9]) \<and> unat (bytes_left sub) = 15"
  using delimited_framing[OF demo_message, of 32 "[9]" no_env] by (simp add: demo_length) blast

end
