(* ===== verification/Pb_Release.thy ===== *)
theory Pb_Release
  imports Pb_Env
begin

text \<open>
  The parts of \<^verbatim>\<open>nanopb/pb_decode.c\<close> that prepare and dispose of a message structure without
  reading input: default values, allocation of pointer fields, and release. They work on the
  memory alone. Fuel bounds the nesting of messages and the walk along an extension list.
\<close>

type_synonym heap_op = "heap \<Rightarrow> (unit, heap) res"

section \<open>Extensions as fields\<close>

definition iter_from_extension :: "pb_env \<Rightarrow> heap \<Rightarrow> addr \<Rightarrow> pb_field_iter_t" where
  "iter_from_extension env h ext =
     (let it = (snd (pb_field_iter_begin (ext_fields env h ext) (ext_dest h ext)))
                 \<lparr>pData := ext_dest h ext, pSize := At (ext_found_field ext)\<rparr>
      in if PB_ATYPE (ftype (ext_field env h ext)) = PB_ATYPE_POINTER
         then it\<lparr>pData := ext_dest_field ext\<rparr> else it)"

fun ext_walk :: "nat \<Rightarrow> (addr \<Rightarrow> heap_op) \<Rightarrow> addr \<Rightarrow> heap_op" where
  "ext_walk 0 body ext h = (Fuel, h)"
| "ext_walk (Suc k) body ext h =
     (if ext = 0 then (Ok (), h)
      else checkreturn (body ext h) (\<lambda>_ h. ext_walk k body (ext_next h ext) h))"

section \<open>Default values\<close>

text \<open>The body of \<^verbatim>\<open>pb_field_set_to_default\<close>; the iterator it is given points into a structure.\<close>

definition field_default ::
    "nat \<Rightarrow> (pb_field_t list \<Rightarrow> addr \<Rightarrow> heap_op) \<Rightarrow> (pb_field_iter_t \<Rightarrow> heap_op)
      \<Rightarrow> pb_env \<Rightarrow> pb_field_iter_t \<Rightarrow> heap_op" where
  "field_default n rec_message rec_field env it h =
     (case pSize it of Local \<Rightarrow> (UB, h) | At ps \<Rightarrow>
      let ty = ftype (cur it) in
      if PB_LTYPE ty = PB_LTYPE_EXTENSION then
        ext_walk n (\<lambda>ext h.
          let h = store_bool (ext_found_field ext) False h
          in rec_field (iter_from_extension env h ext) h) (load_ptr h (pData it)) h
      else if PB_ATYPE ty = PB_ATYPE_STATIC then
        (let init_data = (PB_HTYPE ty \<noteq> PB_HTYPE_REPEATED \<and> PB_HTYPE ty \<noteq> PB_HTYPE_ONEOF);
             h = (if PB_HTYPE ty = PB_HTYPE_OPTIONAL \<and> ps \<noteq> pData it then store_bool ps False h
                  else if PB_HTYPE ty = PB_HTYPE_REPEATED \<or> PB_HTYPE ty = PB_HTYPE_ONEOF
                  then store_u32 ps 0 h
                  else h)
         in if init_data then
              (if PB_LTYPE ty = PB_LTYPE_SUBMESSAGE then
                 (case ptr (cur it) of Submsg fs \<Rightarrow> rec_message fs (pData it) h | _ \<Rightarrow> (UB, h))
               else
                 (case ptr (cur it) of
                    Null \<Rightarrow> (Ok (), memset0 (pData it) (unat (data_size (cur it))) h)
                  | Default bs \<Rightarrow>
                      if unat (data_size (cur it)) \<le> length bs
                      then (Ok (), store (pData it) (take (unat (data_size (cur it))) bs) h)
                      else (UB, h)
                  | Submsg _ \<Rightarrow> (UB, h)))
            else (Ok (), h))
      else if PB_ATYPE ty = PB_ATYPE_POINTER then
        (let h = store_ptr (pData it) 0 h
         in (Ok (), if PB_HTYPE ty = PB_HTYPE_REPEATED \<or> PB_HTYPE ty = PB_HTYPE_ONEOF
                    then store_u32 ps 0 h else h))
      else (Ok (), h))"

fun pb_field_set_to_default :: "nat \<Rightarrow> pb_env \<Rightarrow> pb_field_iter_t \<Rightarrow> heap_op"
and pb_message_set_to_defaults :: "nat \<Rightarrow> pb_env \<Rightarrow> pb_field_t list \<Rightarrow> addr \<Rightarrow> heap_op" where
  "pb_field_set_to_default 0 env = (\<lambda>it h. (Fuel, h))"
| "pb_field_set_to_default (Suc n) env =
     field_default n (pb_message_set_to_defaults n env) (pb_field_set_to_default n env) env"
| "pb_message_set_to_defaults n env = (\<lambda>fs dest.
     case pb_field_iter_begin fs dest of
       (False, _) \<Rightarrow> (\<lambda>h. (Ok (), h))
     | (True, it) \<Rightarrow> iter_loop (pb_field_set_to_default n env) it)"

section \<open>Release\<close>

text \<open>\<^verbatim>\<open>while (count--) { pb_release(fields, pItem); pItem += data_size; }\<close>\<close>

fun release_items :: "nat \<Rightarrow> (addr \<Rightarrow> heap_op) \<Rightarrow> int \<Rightarrow> addr \<Rightarrow> heap_op" where
  "release_items 0 rel stride p h = (Ok (), h)"
| "release_items (Suc n) rel stride p h =
     checkreturn (rel p h) (\<lambda>_. release_items n rel stride (p + stride))"

text \<open>\<^verbatim>\<open>while (count--) { pb_free( *pItem); *pItem++ = NULL; }\<close>\<close>

definition free_ptr :: "addr \<Rightarrow> heap_op" where
  "free_ptr p h = checkreturn (c_free (load_ptr h p) h) (\<lambda>_ h. (Ok (), store_ptr p 0 h))"

text \<open>The body of \<^verbatim>\<open>pb_release_single_field\<close>.\<close>

definition release_field ::
    "nat \<Rightarrow> (pb_field_t list \<Rightarrow> addr \<Rightarrow> heap_op) \<Rightarrow> (pb_field_iter_t \<Rightarrow> heap_op)
      \<Rightarrow> pb_env \<Rightarrow> pb_field_iter_t \<Rightarrow> heap_op" where
  "release_field n rec_message rec_field env it h =
     (case pSize it of Local \<Rightarrow> (UB, h) | At ps \<Rightarrow>
      let f = cur it; ty = ftype f; is_ptr = (PB_ATYPE ty = PB_ATYPE_POINTER);
          repeated = (PB_HTYPE ty = PB_HTYPE_REPEATED) in
      if PB_HTYPE ty = PB_HTYPE_ONEOF \<and> load_u32 h ps \<noteq> tag f then (Ok (), h)
      else
        checkreturn
          (if PB_LTYPE ty = PB_LTYPE_EXTENSION then
             ext_walk n (\<lambda>ext h. rec_field (iter_from_extension env h ext) h) (load_ptr h (pData it)) h
           else if PB_LTYPE ty = PB_LTYPE_SUBMESSAGE then
             (let item = (if is_ptr then load_ptr h (pData it) else pData it);
                  count = (if repeated
                           then let c = (if PB_ATYPE ty = PB_ATYPE_STATIC \<and> ps = pData it
                                         then array_size f else load_u32 h ps)
                                in if PB_ATYPE ty = PB_ATYPE_STATIC \<and> c > array_size f
                                   then array_size f else c
                           else 1)
              in if item = 0 then (Ok (), h)
                 else (case ptr f of
                         Submsg fs \<Rightarrow> release_items (unat count) (rec_message fs) (uint (data_size f)) item h
                       | _ \<Rightarrow> if count = 0 then (Ok (), h) else (UB, h)))
           else (Ok (), h))
          (\<lambda>_ h.
            if \<not> is_ptr then (Ok (), h)
            else
              checkreturn
                (if repeated \<and> (PB_LTYPE ty = PB_LTYPE_STRING \<or> PB_LTYPE ty = PB_LTYPE_BYTES)
                 then release_items (unat (load_u32 h ps)) free_ptr 8 (load_ptr h (pData it)) h
                 else (Ok (), h))
                (\<lambda>_ h. free_ptr (pData it) (if repeated then store_u32 ps 0 h else h))))"

fun pb_release_single_field :: "nat \<Rightarrow> pb_env \<Rightarrow> pb_field_iter_t \<Rightarrow> heap_op"
and pb_release :: "nat \<Rightarrow> pb_env \<Rightarrow> pb_field_t list \<Rightarrow> addr \<Rightarrow> heap_op" where
  "pb_release_single_field 0 env = (\<lambda>it h. (Fuel, h))"
| "pb_release_single_field (Suc n) env =
     release_field n (pb_release n env) (pb_release_single_field n env) env"
| "pb_release n env = (\<lambda>fs dest.
     if dest = 0 then (\<lambda>h. (Ok (), h))
     else case pb_field_iter_begin fs dest of
            (False, _) \<Rightarrow> (\<lambda>h. (Ok (), h))
          | (True, it) \<Rightarrow> iter_loop (pb_release_single_field n env) it)"

end
