(* ===== verification/Pb_Decode.thy ===== *)
theory Pb_Decode
  imports Pb_Release
begin

text \<open>
  \<^verbatim>\<open>nanopb/pb_decode.c\<close>: the field decoders and the loop that decodes a message. The state of a
  decoder is the input stream and the memory. As in the encoder, the call made for a
  submessage is an argument: \<open>rec True\<close> is \<^verbatim>\<open>pb_decode\<close>, \<open>rec False\<close> is \<^verbatim>\<open>pb_decode_noinit\<close>.
\<close>

type_synonym dec_state = "pb_istream_t \<times> heap"
type_synonym decoder = "dec_state \<Rightarrow> (unit, dec_state) res"
type_synonym submsg_decoder = "bool \<Rightarrow> pb_field_t list \<Rightarrow> addr \<Rightarrow> decoder"

abbreviation dec_error :: "string \<Rightarrow> dec_state \<Rightarrow> ('a, dec_state) res" where
  "dec_error msg \<equiv> on_fst (PB_RETURN_ERROR_i msg)"

text \<open>A memory operation run beside a stream.\<close>

definition on_heap :: "(heap \<Rightarrow> ('a, heap) res) \<Rightarrow> dec_state \<Rightarrow> ('a, dec_state) res" where
  "on_heap f = (\<lambda>(s, h). case f h of (r, h') \<Rightarrow> (r, (s, h')))"

section \<open>Scalars\<close>

text \<open>
  The cascade of assignments \<^verbatim>\<open>clamped = *(int32_t* )dest = (int32_t)svalue\<close>: what is read back,
  and the memory afterwards; \<open>None\<close> for a size that no branch handles.
\<close>

definition store_signed :: "pb_size_t \<Rightarrow> addr \<Rightarrow> u64 \<Rightarrow> heap \<Rightarrow> (u64 \<times> heap) option" where
  "store_signed n dest v h =
     (if n = 8 then Some (v, store dest (le_of_word 8 v) h)
      else if n = 4 then Some (scast (ucast v :: u32), store dest (le_of_word 4 (ucast v :: u32)) h)
      else if n = 2 then Some (scast (ucast v :: u16), store dest (le_of_word 2 (ucast v :: u16)) h)
      else if n = 1 then Some (scast (ucast v :: u8), store dest (le_of_word 1 (ucast v :: u8)) h)
      else None)"

definition store_unsigned :: "pb_size_t \<Rightarrow> addr \<Rightarrow> u64 \<Rightarrow> heap \<Rightarrow> (u64 \<times> heap) option" where
  "store_unsigned n dest v h =
     (if n = 8 then Some (v, store dest (le_of_word 8 v) h)
      else if n = 4 then Some (ucast (ucast v :: u32), store dest (le_of_word 4 (ucast v :: u32)) h)
      else if n = 2 then Some (ucast (ucast v :: u16), store dest (le_of_word 2 (ucast v :: u16)) h)
      else if n = 1 then Some (ucast (ucast v :: u8), store dest (le_of_word 1 (ucast v :: u8)) h)
      else None)"

text \<open>The check that follows the cascade; the memory has been written either way.\<close>

definition finish_store :: "(u64 \<times> heap) option \<Rightarrow> u64 \<Rightarrow> decoder" where
  "finish_store st v = (\<lambda>(s, h).
     case st of
       None \<Rightarrow> dec_error ''invalid data_size'' (s, h)
     | Some (clamped, h') \<Rightarrow>
         if clamped \<noteq> v then dec_error ''integer too large'' (s, h') else (Ok (), (s, h')))"

definition pb_dec_varint :: "pb_field_t \<Rightarrow> addr \<Rightarrow> decoder" where
  "pb_dec_varint field dest st =
     checkreturn (on_fst pb_decode_varint st) (\<lambda>value (s, h).
       let svalue = (if data_size field = 8 then value else scast (ucast value :: u32))
       in finish_store (store_signed (data_size field) dest svalue h) svalue (s, h))"

definition pb_dec_uvarint :: "pb_field_t \<Rightarrow> addr \<Rightarrow> decoder" where
  "pb_dec_uvarint field dest st =
     checkreturn (on_fst pb_decode_varint st) (\<lambda>value (s, h).
       finish_store (store_unsigned (data_size field) dest value h) value (s, h))"

definition pb_dec_svarint :: "pb_field_t \<Rightarrow> addr \<Rightarrow> decoder" where
  "pb_dec_svarint field dest st =
     checkreturn (on_fst pb_decode_svarint st) (\<lambda>value (s, h).
       finish_store (store_signed (data_size field) dest value h) value (s, h))"

definition pb_dec_fixed32 :: "pb_field_t \<Rightarrow> addr \<Rightarrow> decoder" where
  "pb_dec_fixed32 field dest st =
     checkreturn (on_fst pb_decode_fixed32 st) (\<lambda>v (s, h). (Ok (), (s, store dest (le_of_word 4 v) h)))"

definition pb_dec_fixed64 :: "pb_field_t \<Rightarrow> addr \<Rightarrow> decoder" where
  "pb_dec_fixed64 field dest st =
     checkreturn (on_fst pb_decode_fixed64 st) (\<lambda>v (s, h). (Ok (), (s, store dest (le_of_word 8 v) h)))"

section \<open>Bytes, strings and submessages\<close>

definition allocate_field :: "pb_env \<Rightarrow> addr \<Rightarrow> size_t \<Rightarrow> size_t \<Rightarrow> decoder" where
  "allocate_field env pd dsize asize = (\<lambda>(s, h).
     if dsize = 0 \<or> asize = 0 then dec_error ''invalid size'' (s, h)
     else if (dsize \<ge> 2 ^ 32 \<or> asize \<ge> 2 ^ 32) \<and> (- 1) div asize < dsize
     then dec_error ''size too large'' (s, h)
     else
       checkreturn (on_heap (c_realloc (env_alloc env) (load_ptr h pd) (unat (asize * dsize))) (s, h))
         (\<lambda>p (s, h). if p = 0 then dec_error ''realloc failed'' (s, h)
                      else (Ok (), (s, store_ptr pd p h))))"

text \<open>\<^verbatim>\<open>pb_read(stream, dest, count)\<close> into the message.\<close>

definition read_into :: "addr \<Rightarrow> size_t \<Rightarrow> decoder" where
  "read_into dest count st =
     checkreturn (on_fst (pb_read_buf count) st) (\<lambda>bs (s, h). (Ok (), (s, store dest bs h)))"

definition pb_dec_bytes :: "pb_env \<Rightarrow> pb_field_t \<Rightarrow> addr \<Rightarrow> decoder" where
  "pb_dec_bytes env field dest st =
     checkreturn (on_fst pb_decode_varint32 st) (\<lambda>n (s, h).
       let alloc_size = PB_BYTES_ARRAY_T_ALLOCSIZE n;
           fill = (\<lambda>bdest (s, h). read_into (bytes_bytes bdest) (ucast n) (s, store_u32 bdest n h))
       in if n > PB_SIZE_MAX then dec_error ''bytes overflow'' (s, h)
          else if ucast n > alloc_size then dec_error ''size too large'' (s, h)
          else if PB_ATYPE (ftype field) = PB_ATYPE_POINTER then
            checkreturn (allocate_field env dest alloc_size 1 (s, h)) (\<lambda>_ (s, h). fill (load_ptr h dest) (s, h))
          else if alloc_size > ucast (data_size field) then dec_error ''bytes overflow'' (s, h)
          else fill dest (s, h))"

text \<open>The terminating zero is stored even when the read fails.\<close>

definition fill_string :: "addr \<Rightarrow> u32 \<Rightarrow> decoder" where
  "fill_string dest n st =
     (case read_into dest (ucast n) st of (status, (s, h)) \<Rightarrow> (status, (s, store (dest + uint n) [0] h)))"

definition pb_dec_string :: "pb_env \<Rightarrow> pb_field_t \<Rightarrow> addr \<Rightarrow> decoder" where
  "pb_dec_string env field dest st =
     checkreturn (on_fst pb_decode_varint32 st) (\<lambda>n (s, h).
       let alloc_size = ucast (n + 1) :: size_t in
       if alloc_size < ucast n then dec_error ''size too large'' (s, h)
       else if PB_ATYPE (ftype field) = PB_ATYPE_POINTER then
         checkreturn (allocate_field env dest alloc_size 1 (s, h)) (\<lambda>_ (s, h). fill_string (load_ptr h dest) n (s, h))
       else if alloc_size > ucast (data_size field) then dec_error ''string overflow'' (s, h)
       else fill_string dest n (s, h))"

definition pb_dec_fixed_length_bytes :: "pb_field_t \<Rightarrow> addr \<Rightarrow> decoder" where
  "pb_dec_fixed_length_bytes field dest st =
     checkreturn (on_fst pb_decode_varint32 st) (\<lambda>n (s, h).
       if n > PB_SIZE_MAX then dec_error ''bytes overflow'' (s, h)
       else if n = 0 then (Ok (), (s, memset0 dest (unat (data_size field)) h))
       else if n \<noteq> data_size field then dec_error ''incorrect fixed length bytes size'' (s, h)
       else read_into dest (ucast (data_size field)) (s, h))"

text \<open>
  \<^verbatim>\<open>if (!pb_close_string_substream(stream, &substream)) return false; return status;\<close>
\<close>

definition close_substream :: "unit outcome \<Rightarrow> pb_istream_t \<Rightarrow> decoder" where
  "close_substream status sub = (\<lambda>(s, h).
     if status = UB \<or> status = Fuel then (status, (s, h))
     else case pb_close_string_substream sub s of
            (Ok _, s') \<Rightarrow> (status, (s', h))
          | (Err, s') \<Rightarrow> (Err, (s', h))
          | (UB, s') \<Rightarrow> (UB, (s', h))
          | (Fuel, s') \<Rightarrow> (Fuel, (s', h)))"

definition pb_dec_submessage :: "submsg_decoder \<Rightarrow> pb_field_t \<Rightarrow> addr \<Rightarrow> decoder" where
  "pb_dec_submessage rec field dest st =
     checkreturn (on_fst pb_make_string_substream st) (\<lambda>sub (s, h).
       case ptr field of
         Null \<Rightarrow> dec_error ''invalid field descriptor'' (s, h)
       | Default _ \<Rightarrow> (UB, (s, h))
       | Submsg fs \<Rightarrow>
           (case rec (PB_HTYPE (ftype field) = PB_HTYPE_REPEATED) fs dest (sub, h) of
              (status, (sub', h')) \<Rightarrow> close_substream status sub' (s, h')))"

definition PB_DECODERS :: "pb_env \<Rightarrow> submsg_decoder \<Rightarrow> u8 \<Rightarrow> pb_field_t \<Rightarrow> addr \<Rightarrow> decoder" where
  "PB_DECODERS env rec lt =
     (if lt = PB_LTYPE_VARINT then pb_dec_varint
      else if lt = PB_LTYPE_UVARINT then pb_dec_uvarint
      else if lt = PB_LTYPE_SVARINT then pb_dec_svarint
      else if lt = PB_LTYPE_FIXED32 then pb_dec_fixed32
      else if lt = PB_LTYPE_FIXED64 then pb_dec_fixed64
      else if lt = PB_LTYPE_BYTES then pb_dec_bytes env
      else if lt = PB_LTYPE_STRING then pb_dec_string env
      else if lt = PB_LTYPE_SUBMESSAGE then pb_dec_submessage rec
      else if lt = PB_LTYPE_FIXED_LENGTH_BYTES then pb_dec_fixed_length_bytes
      else (\<lambda>_ _ st. (UB, st)))"

section \<open>Fields in the structure\<close>

text \<open>
  The decoder of one field also sees the local counter \<^verbatim>\<open>fixed_count_size\<close> of the message being
  decoded, which \<^verbatim>\<open>pSize\<close> may point at.
\<close>

type_synonym fld_state = "dec_state \<times> pb_size_t"
type_synonym fld_decoder = "fld_state \<Rightarrow> (unit, fld_state) res"

abbreviation fld_error :: "string \<Rightarrow> fld_decoder" where
  "fld_error msg \<equiv> on_fst (dec_error msg)"

definition get_size :: "size_ptr \<Rightarrow> fld_state \<Rightarrow> pb_size_t" where
  "get_size p = (\<lambda>((s, h), fc). case p of At a \<Rightarrow> load_u32 h a | Local \<Rightarrow> fc)"

definition put_size :: "size_ptr \<Rightarrow> pb_size_t \<Rightarrow> fld_state \<Rightarrow> fld_state" where
  "put_size p v = (\<lambda>((s, h), fc). case p of At a \<Rightarrow> ((s, store_u32 a v h), fc) | Local \<Rightarrow> ((s, h), v))"

text \<open>\<^verbatim>\<open>iter->pData + iter->pos->data_size * ( *size)\<close>, a product of two 32-bit values.\<close>

definition item_addr :: "addr \<Rightarrow> pb_field_t \<Rightarrow> pb_size_t \<Rightarrow> addr" where
  "item_addr base f i = base + uint (data_size f * i)"

text \<open>
  The loop over a packed array. The state holds the substream; the result is \<^verbatim>\<open>status\<close>. Every
  item takes at least one byte, so the bytes of the substream bound the iterations.
\<close>

fun packed_loop :: "nat \<Rightarrow> (pb_field_t \<Rightarrow> addr \<Rightarrow> decoder) \<Rightarrow> pb_field_iter_t \<Rightarrow> fld_decoder" where
  "packed_loop 0 func it st = (Fuel, st)"
| "packed_loop (Suc k) func it ((sub, h), fc) =
     (let st = ((sub, h), fc); n = get_size (pSize it) st in
      if bytes_left sub > 0 \<and> n < array_size (cur it) then
        checkreturn (on_fst (func (cur it) (item_addr (pData it) (cur it) n)) st)
          (\<lambda>_ st. packed_loop k func it (put_size (pSize it) (get_size (pSize it) st + 1) st))
      else (Ok (), st))"

definition decode_static_field ::
    "nat \<Rightarrow> pb_env \<Rightarrow> submsg_decoder \<Rightarrow> pb_wire_type_t \<Rightarrow> pb_field_iter_t \<Rightarrow> fld_decoder" where
  "decode_static_field n env rec wire_type it = (\<lambda>((s, h), fc).
     let f = cur it; ty = ftype f; func = PB_DECODERS env rec (PB_LTYPE ty); st = ((s, h), fc) in
     if PB_HTYPE ty = PB_HTYPE_REQUIRED then on_fst (func f (pData it)) st
     else if PB_HTYPE ty = PB_HTYPE_OPTIONAL then
       (case pSize it of
          Local \<Rightarrow> (UB, st)
        | At a \<Rightarrow> on_fst (func f (pData it)) ((s, if a \<noteq> pData it then store_bool a True h else h), fc))
     else if PB_HTYPE ty = PB_HTYPE_REPEATED then
       (if wire_type = PB_WT_STRING \<and> PB_LTYPE ty \<le> PB_LTYPE_LAST_PACKABLE then
          checkreturn (on_fst (on_fst pb_make_string_substream) st) (\<lambda>sub ((s, h), fc).
            case packed_loop (Suc (unat (bytes_left sub))) func it ((sub, h), fc) of
              (status, ((sub, h), fc)) \<Rightarrow>
                if status = UB \<or> status = Fuel then (status, ((s, h), fc))
                else if bytes_left sub \<noteq> 0 then fld_error ''array overflow'' ((s, h), fc)
                else on_fst (close_substream status sub) ((s, h), fc))
        else
          (let k = get_size (pSize it) st;
               st' = put_size (pSize it) (k + 1) st
           in if k \<ge> array_size f then fld_error ''array overflow'' st'
              else on_fst (func f (item_addr (pData it) f k)) st'))
     else
       (case put_size (pSize it) (tag f) st of ((s, h), fc) \<Rightarrow>
          checkreturn
            (if PB_LTYPE ty = PB_LTYPE_SUBMESSAGE then
               (case ptr f of
                  Submsg fs \<Rightarrow>
                    on_fst (on_heap (pb_message_set_to_defaults n env fs (pData it)))
                      ((s, memset0 (pData it) (unat (data_size f)) h), fc)
                | _ \<Rightarrow> (UB, ((s, h), fc)))
             else (Ok (), ((s, h), fc)))
            (\<lambda>_. on_fst (func f (pData it)))))"

section \<open>Pointer fields\<close>

definition initialize_pointer_field :: "nat \<Rightarrow> pb_env \<Rightarrow> addr \<Rightarrow> pb_field_iter_t \<Rightarrow> heap_op" where
  "initialize_pointer_field n env item it h =
     (let ty = ftype (cur it) in
      if PB_LTYPE ty = PB_LTYPE_STRING \<or> PB_LTYPE ty = PB_LTYPE_BYTES then (Ok (), store_ptr item 0 h)
      else if PB_LTYPE ty = PB_LTYPE_SUBMESSAGE then
        (case ptr (cur it) of
           Submsg fs \<Rightarrow> pb_message_set_to_defaults n env fs item (memset0 item (unat (data_size (cur it))) h)
         | _ \<Rightarrow> (UB, h))
      else (Ok (), h))"

text \<open>
  The loop over a packed array with growing storage. \<open>Ok msg\<close>: the loop ended, with \<^verbatim>\<open>status\<close>
  true, or false and the message stored in the parent's \<^verbatim>\<open>errmsg\<close>; \<open>Err\<close>: \<^verbatim>\<open>status\<close> false.
\<close>

fun packed_ptr_loop ::
    "nat \<Rightarrow> nat \<Rightarrow> pb_env \<Rightarrow> (pb_field_t \<Rightarrow> addr \<Rightarrow> decoder) \<Rightarrow> pb_field_iter_t \<Rightarrow> size_t
      \<Rightarrow> fld_state \<Rightarrow> (string option, fld_state) res" where
  "packed_ptr_loop 0 n env func it allocated st = (Fuel, st)"
| "packed_ptr_loop (Suc k) n env func it allocated ((sub, h), fc) =
     (let st = ((sub, h), fc); f = cur it; cnt = get_size (pSize it) st in
      if bytes_left sub = 0 then (Ok None, st)
      else
        let grow = (ucast cnt + 1 > allocated);
            allocated' = (if grow then allocated + ((bytes_left sub - 1) div ucast (data_size f) + 1) else allocated)
        in if grow \<and> data_size f = 0 then (UB, st)
           else
             checkreturn
               (if grow then on_fst (allocate_field env (pData it) (ucast (data_size f)) allocated') st else (Ok (), st))
               (\<lambda>_ ((sub, h), fc).
                 let item = item_addr (load_ptr h (pData it)) f (get_size (pSize it) ((sub, h), fc)) in
                 checkreturn (on_fst (on_heap (initialize_pointer_field n env item it)) ((sub, h), fc)) (\<lambda>_ st.
                   checkreturn (on_fst (func f item) st) (\<lambda>_ st.
                     if get_size (pSize it) st = PB_SIZE_MAX then (Ok (Some ''too many array entries''), st)
                     else packed_ptr_loop k n env func it allocated'
                            (put_size (pSize it) (get_size (pSize it) st + 1) st)))))"

definition decode_pointer_field ::
    "nat \<Rightarrow> pb_env \<Rightarrow> submsg_decoder \<Rightarrow> pb_wire_type_t \<Rightarrow> pb_field_iter_t \<Rightarrow> fld_decoder" where
  "decode_pointer_field n env rec wire_type it = (\<lambda>((s, h), fc).
     let f = cur it; ty = ftype f; lt = PB_LTYPE ty; func = PB_DECODERS env rec lt; st = ((s, h), fc) in
     if PB_HTYPE ty \<noteq> PB_HTYPE_REPEATED then
       checkreturn
         (if lt = PB_LTYPE_SUBMESSAGE \<and> load_ptr h (pData it) \<noteq> 0
          then on_fst (on_heap (pb_release_single_field n env it)) st else (Ok (), st))
         (\<lambda>_ st.
           let st = (if PB_HTYPE ty = PB_HTYPE_ONEOF then put_size (pSize it) (tag f) st else st) in
           if lt = PB_LTYPE_STRING \<or> lt = PB_LTYPE_BYTES then on_fst (func f (pData it)) st
           else
             checkreturn (on_fst (allocate_field env (pData it) (ucast (data_size f)) 1) st)
               (\<lambda>_ ((s, h), fc).
                 checkreturn (on_fst (on_heap (initialize_pointer_field n env (load_ptr h (pData it)) it)) ((s, h), fc))
                   (\<lambda>_ ((s, h), fc). on_fst (func f (load_ptr h (pData it))) ((s, h), fc))))
     else if wire_type = PB_WT_STRING \<and> lt \<le> PB_LTYPE_LAST_PACKABLE then
       checkreturn (on_fst (on_fst pb_make_string_substream) st) (\<lambda>sub ((s, h), fc).
         case packed_ptr_loop (Suc (unat (bytes_left sub))) n env func it
                (ucast (get_size (pSize it) ((s, h), fc))) ((sub, h), fc) of
           (Ok None, ((sub, h), fc)) \<Rightarrow> on_fst (close_substream (Ok ()) sub) ((s, h), fc)
         | (Ok (Some msg), ((sub, h), fc)) \<Rightarrow>
             on_fst (close_substream Err sub) ((s\<lparr>ierrmsg := Some msg\<rparr>, h), fc)
         | (Err, ((sub, h), fc)) \<Rightarrow> on_fst (close_substream Err sub) ((s, h), fc)
         | (UB, ((sub, h), fc)) \<Rightarrow> (UB, ((s, h), fc))
         | (Fuel, ((sub, h), fc)) \<Rightarrow> (Fuel, ((s, h), fc)))
     else
       (let k = get_size (pSize it) st in
        if k = PB_SIZE_MAX then fld_error ''too many array entries'' st
        else
          let st = put_size (pSize it) (k + 1) st in
          checkreturn (on_fst (allocate_field env (pData it) (ucast (data_size f)) (ucast (get_size (pSize it) st))) st)
            (\<lambda>_ ((s, h), fc).
              let item = item_addr (load_ptr h (pData it)) f (get_size (pSize it) ((s, h), fc) - 1) in
              checkreturn (on_fst (on_heap (initialize_pointer_field n env item it)) ((s, h), fc))
                (\<lambda>_. on_fst (func f item)))))"

section \<open>Callback fields\<close>

text \<open>\<^verbatim>\<open>do { if (!decode(&substream, pos, arg)) fail; } while (substream.bytes_left);\<close>\<close>

fun callback_loop :: "nat \<Rightarrow> decoder \<Rightarrow> decoder" where
  "callback_loop 0 cb st = (Fuel, st)"
| "callback_loop (Suc k) cb st =
     checkreturn (cb st) (\<lambda>_ (sub, h). if bytes_left sub \<noteq> 0 then callback_loop k cb (sub, h) else (Ok (), (sub, h)))"

definition decode_callback_field ::
    "nat \<Rightarrow> pb_env \<Rightarrow> pb_wire_type_t \<Rightarrow> pb_field_iter_t \<Rightarrow> decoder" where
  "decode_callback_field n env wire_type it = (\<lambda>(s, h).
     if pData it = 0 \<or> callback_func h (pData it) = 0 then on_fst (pb_skip_field wire_type) (s, h)
     else
       let cb = env_decode env (callback_func h (pData it)) (cur it) (callback_arg (pData it)) in
       if wire_type = PB_WT_STRING then
         checkreturn (on_fst pb_make_string_substream (s, h)) (\<lambda>sub (s, h).
           case callback_loop n cb (sub, h) of
             (Ok _, (sub, h)) \<Rightarrow> close_substream (Ok ()) sub (s, h)
           | (Err, (sub, h)) \<Rightarrow> dec_error ''callback failed'' (s, h)
           | (UB, (sub, h)) \<Rightarrow> (UB, (s, h))
           | (Fuel, (sub, h)) \<Rightarrow> (Fuel, (s, h)))
       else
         checkreturn (on_fst (read_raw_value wire_type 10) (s, h)) (\<lambda>buffer (s, h).
           case cb (pb_istream_from_buffer buffer (word_of_nat (length buffer)), h) of
             (r, (sub, h)) \<Rightarrow> (r, (s, h))))"

section \<open>One field\<close>

text \<open>The result is the iterator, which the search moves away and back.\<close>

definition pb_release_union_field ::
    "nat \<Rightarrow> pb_env \<Rightarrow> pb_field_iter_t \<Rightarrow> fld_state \<Rightarrow> (pb_field_iter_t, fld_state) res" where
  "pb_release_union_field n env it st =
     (let old_tag = get_size (pSize it) st; new_tag = tag (cur it) in
      if old_tag = 0 \<or> old_tag = new_tag then (Ok it, st)
      else case pb_field_iter_find it old_tag of
             None \<Rightarrow> (Fuel, st)
           | Some (False, _) \<Rightarrow> on_fst (dec_error ''invalid union tag'') st
           | Some (True, it1) \<Rightarrow>
               checkreturn (on_fst (on_heap (pb_release_single_field n env it1)) st) (\<lambda>_ st.
                 case pb_field_iter_find it1 new_tag of
                   None \<Rightarrow> (Fuel, st)
                 | Some (False, _) \<Rightarrow> on_fst (dec_error ''iterator error'') st
                 | Some (True, it2) \<Rightarrow> (Ok it2, st)))"

definition decode_field ::
    "nat \<Rightarrow> pb_env \<Rightarrow> submsg_decoder \<Rightarrow> pb_wire_type_t \<Rightarrow> pb_field_iter_t
      \<Rightarrow> fld_state \<Rightarrow> (pb_field_iter_t, fld_state) res" where
  "decode_field n env rec wire_type it st =
     checkreturn (if PB_HTYPE (ftype (cur it)) = PB_HTYPE_ONEOF then pb_release_union_field n env it st
                  else (Ok it, st)) (\<lambda>it st.
       let ty = ftype (cur it) in
       checkreturn
         (if PB_ATYPE ty = PB_ATYPE_STATIC then decode_static_field n env rec wire_type it st
          else if PB_ATYPE ty = PB_ATYPE_POINTER then decode_pointer_field n env rec wire_type it st
          else if PB_ATYPE ty = PB_ATYPE_CALLBACK then on_fst (decode_callback_field n env wire_type it) st
          else fld_error ''invalid field type'' st) (\<lambda>_ st. (Ok it, st)))"

definition default_extension_decoder ::
    "nat \<Rightarrow> pb_env \<Rightarrow> submsg_decoder \<Rightarrow> addr \<Rightarrow> u32 \<Rightarrow> pb_wire_type_t \<Rightarrow> fld_decoder" where
  "default_extension_decoder n env rec ext t wire_type = (\<lambda>((s, h), fc).
     if tag (ext_field env h ext) \<noteq> t then (Ok (), ((s, h), fc))
     else
       let it = iter_from_extension env h ext in
       checkreturn (decode_field n env rec wire_type it ((s, store_bool (ext_found_field ext) True h), fc))
         (\<lambda>_ st. (Ok (), st)))"

text \<open>\<open>left\<close> is \<^verbatim>\<open>stream->bytes_left\<close> before the first handler: the walk stops when one has read.\<close>

fun decode_extensions ::
    "nat \<Rightarrow> nat \<Rightarrow> pb_env \<Rightarrow> submsg_decoder \<Rightarrow> u32 \<Rightarrow> pb_wire_type_t \<Rightarrow> size_t \<Rightarrow> addr \<Rightarrow> fld_decoder" where
  "decode_extensions 0 n env rec t wire_type left ext st = (Fuel, st)"
| "decode_extensions (Suc k) n env rec t wire_type left ext ((s, h), fc) =
     (if ext \<noteq> 0 \<and> left = bytes_left s then
        let dec = exttype_decode h (ext_type h ext) in
        checkreturn
          (if dec \<noteq> 0 then on_fst (env_ext_decode env dec ext t wire_type) ((s, h), fc)
           else default_extension_decoder n env rec ext t wire_type ((s, h), fc))
          (\<lambda>_ ((s, h), fc). decode_extensions k n env rec t wire_type left (ext_next h ext) ((s, h), fc))
      else (Ok (), ((s, h), fc)))"

definition decode_extension ::
    "nat \<Rightarrow> pb_env \<Rightarrow> submsg_decoder \<Rightarrow> u32 \<Rightarrow> pb_wire_type_t \<Rightarrow> pb_field_iter_t \<Rightarrow> fld_decoder" where
  "decode_extension n env rec t wire_type it = (\<lambda>((s, h), fc).
     decode_extensions n n env rec t wire_type (bytes_left s) (load_ptr h (pData it)) ((s, h), fc))"

definition find_extension_field :: "pb_field_iter_t \<Rightarrow> (bool \<times> pb_field_iter_t) option" where
  "find_extension_field it =
     iter_search (Suc (length (start it))) (\<lambda>f. PB_LTYPE (ftype f) = PB_LTYPE_EXTENSION) (pos it) it"

section \<open>A message\<close>

text \<open>The locals of \<^verbatim>\<open>pb_decode_noinit\<close>; \<open>fc_field\<close> is \<^verbatim>\<open>fixed_count_field\<close>, as an index.\<close>

record noinit_vars =
  v_iter :: pb_field_iter_t
  v_seen :: "u32 list"
  v_ext_start :: u32
  v_fc_field :: "nat option"

definition PB_MAX_REQUIRED_FIELDS :: u32 where [simp]: "PB_MAX_REQUIRED_FIELDS = 64"

text \<open>Whether the fixed count field being decoded is complete (or there is none).\<close>

definition fixed_count_done :: "noinit_vars \<Rightarrow> fld_state \<Rightarrow> bool" where
  "fixed_count_done v st =
     (case v_fc_field v of None \<Rightarrow> True | Some p \<Rightarrow> snd st = array_size (field_at (start (v_iter v)) p))"

text \<open>The part of the loop that runs when no field matches the tag.\<close>

definition unknown_field ::
    "nat \<Rightarrow> pb_env \<Rightarrow> submsg_decoder \<Rightarrow> u32 \<Rightarrow> pb_wire_type_t \<Rightarrow> noinit_vars
      \<Rightarrow> fld_state \<Rightarrow> (noinit_vars, fld_state) res" where
  "unknown_field n env rec t wire_type v st =
     (let skip = (\<lambda>v st. checkreturn (on_fst (on_fst (pb_skip_field wire_type)) st) (\<lambda>_ st. (Ok v, st))) in
      if t \<ge> v_ext_start v then
        (case find_extension_field (v_iter v) of
           None \<Rightarrow> (Fuel, st)
         | Some (found, it) \<Rightarrow>
             let v = v\<lparr>v_iter := it, v_ext_start := (if found then tag (cur it) else - 1)\<rparr> in
             if t \<ge> v_ext_start v then
               (case st of ((s, h), fc) \<Rightarrow>
                  checkreturn (decode_extension n env rec t wire_type it st) (\<lambda>_ ((s', h'), fc').
                    if bytes_left s \<noteq> bytes_left s' then (Ok v, ((s', h'), fc')) else skip v ((s', h'), fc')))
             else skip v st)
      else skip v st)"

text \<open>\<^verbatim>\<open>fields_seen[i >> 5] |= 1 << (i & 31)\<close> for a required field.\<close>

definition mark_seen :: "u8 \<Rightarrow> noinit_vars \<Rightarrow> noinit_vars" where
  "mark_seen ty v =
     (let i = required_field_index (v_iter v) in
      if PB_HTYPE ty = PB_HTYPE_REQUIRED \<and> i < PB_MAX_REQUIRED_FIELDS
      then let w = unat (drop_bit 5 i)
           in v\<lparr>v_seen := (v_seen v)[w := v_seen v ! w OR push_bit (unat (i AND 31)) 1]\<rparr>
      else v)"

lemma v_iter_mark_seen [simp]: "v_iter (mark_seen ty v) = v_iter v"
  by (simp add: mark_seen_def Let_def)

text \<open>The part of the loop that runs when the iterator points at the field of the tag.\<close>

definition known_field ::
    "nat \<Rightarrow> pb_env \<Rightarrow> submsg_decoder \<Rightarrow> pb_wire_type_t \<Rightarrow> noinit_vars
      \<Rightarrow> fld_state \<Rightarrow> (noinit_vars, fld_state) res" where
  "known_field n env rec wire_type v st =
     (let it = v_iter v; ty = ftype (cur it); (io, fc) = st in
      checkreturn
        (if PB_HTYPE ty = PB_HTYPE_REPEATED \<and> pSize it = At (pData it) then
           (if v_fc_field v \<noteq> Some (pos it) then
              (if \<not> fixed_count_done v st
               then on_fst (dec_error ''wrong size for fixed count field'') st
               else (Ok (v\<lparr>v_fc_field := Some (pos it), v_iter := it\<lparr>pSize := Local\<rparr>\<rparr>), (io, 0)))
            else (Ok (v\<lparr>v_iter := it\<lparr>pSize := Local\<rparr>\<rparr>), st))
         else (Ok v, st))
        (\<lambda>v st.
          let v = mark_seen ty v
          in checkreturn (decode_field n env rec wire_type (v_iter v) st) (\<lambda>it st. (Ok (v\<lparr>v_iter := it\<rparr>), st))))"

fun noinit_loop ::
    "nat \<Rightarrow> nat \<Rightarrow> pb_env \<Rightarrow> submsg_decoder \<Rightarrow> noinit_vars \<Rightarrow> fld_state \<Rightarrow> (noinit_vars, fld_state) res" where
  "noinit_loop 0 n env rec v st = (Fuel, st)"
| "noinit_loop (Suc k) n env rec v ((s, h), fc) =
     (if bytes_left s = 0 then (Ok v, ((s, h), fc))
      else case pb_decode_tag s of
             (eof, (Ok (wire_type, t), s)) \<Rightarrow>
               (case pb_field_iter_find (v_iter v) t of
                  None \<Rightarrow> (Fuel, ((s, h), fc))
                | Some (found, it) \<Rightarrow>
                    checkreturn
                      (if found then known_field n env rec wire_type (v\<lparr>v_iter := it\<rparr>) ((s, h), fc)
                       else unknown_field n env rec t wire_type (v\<lparr>v_iter := it\<rparr>) ((s, h), fc))
                      (noinit_loop k n env rec))
           | (eof, (Err, s)) \<Rightarrow> if eof then (Ok v, ((s, h), fc)) else (Err, ((s, h), fc))
           | (eof, (UB, s)) \<Rightarrow> (UB, ((s, h), fc))
           | (eof, (Fuel, s)) \<Rightarrow> (Fuel, ((s, h), fc)))"

text \<open>
  \<^verbatim>\<open>do { count = required_field_index; last_type = type; } while (pb_field_iter_next(&iter));\<close>
\<close>

function count_required :: "pb_field_iter_t \<Rightarrow> u32 \<times> u8 \<times> pb_field_iter_t" where
  "count_required it =
     (case pb_field_iter_next it of
        (True, it') \<Rightarrow> count_required it'
      | (False, it') \<Rightarrow> (required_field_index it, ftype (cur it), it'))"
  by pat_completeness auto
termination
  by (relation "measure (\<lambda>it. length (start it) - pos it)") (auto intro: iter_next_measure)

declare count_required.simps [simp del]

definition req_field_count :: "pb_field_iter_t \<Rightarrow> u32" where
  "req_field_count it =
     (case count_required it of (c, last_type, it') \<Rightarrow>
        let c = (if PB_HTYPE last_type = PB_HTYPE_REQUIRED \<and> tag (cur it') \<noteq> 0 then c + 1 else c)
        in if c > PB_MAX_REQUIRED_FIELDS then PB_MAX_REQUIRED_FIELDS else c)"

definition required_seen :: "u32 \<Rightarrow> u32 list \<Rightarrow> bool" where
  "required_seen c seen \<longleftrightarrow>
     (c > 0 \<longrightarrow>
        (\<forall>i < unat (drop_bit 5 c). seen ! i = - 1) \<and>
        (c AND 31 \<noteq> 0 \<longrightarrow> seen ! unat (drop_bit 5 c) = drop_bit (32 - unat (c AND 31)) (- 1)))"

definition noinit_finish :: "noinit_vars \<Rightarrow> fld_decoder" where
  "noinit_finish v st =
     (if \<not> fixed_count_done v st then fld_error ''wrong size for fixed count field'' st
      else if \<not> required_seen (req_field_count (v_iter v)) (v_seen v)
      then fld_error ''missing required field'' st
      else (Ok (), st))"

definition noinit_body ::
    "nat \<Rightarrow> pb_env \<Rightarrow> submsg_decoder \<Rightarrow> pb_field_t list \<Rightarrow> addr \<Rightarrow> decoder" where
  "noinit_body n env rec fs dest st =
     (let v = \<lparr>v_iter = snd (pb_field_iter_begin fs dest), v_seen = [0, 0], v_ext_start = 0, v_fc_field = None\<rparr>
      in case checkreturn (noinit_loop n n env rec v (st, 0)) noinit_finish of
           (r, (st', fc)) \<Rightarrow> (r, st'))"

text \<open>\<^verbatim>\<open>pb_decode\<close> around a given \<^verbatim>\<open>pb_decode_noinit\<close>.\<close>

definition decode_with ::
    "nat \<Rightarrow> pb_env \<Rightarrow> (pb_field_t list \<Rightarrow> addr \<Rightarrow> decoder) \<Rightarrow> pb_field_t list \<Rightarrow> addr \<Rightarrow> decoder" where
  "decode_with n env noinit fs dest st =
     checkreturn (on_heap (pb_message_set_to_defaults n env fs dest) st) (\<lambda>_ st.
       case noinit fs dest st of
         (Err, st) \<Rightarrow> checkreturn (on_heap (pb_release n env fs dest) st) (\<lambda>_ st. (Err, st))
       | r \<Rightarrow> r)"

primrec pb_decode_noinit :: "nat \<Rightarrow> pb_env \<Rightarrow> pb_field_t list \<Rightarrow> addr \<Rightarrow> decoder" where
  "pb_decode_noinit 0 env = (\<lambda>fs dest st. (Fuel, st))"
| "pb_decode_noinit (Suc n) env =
     noinit_body n env
       (\<lambda>init. if init then decode_with n env (pb_decode_noinit n env) else pb_decode_noinit n env)"

definition pb_decode :: "nat \<Rightarrow> pb_env \<Rightarrow> pb_field_t list \<Rightarrow> addr \<Rightarrow> decoder" where
  "pb_decode n env = decode_with n env (pb_decode_noinit n env)"

definition delimited :: "(pb_field_t list \<Rightarrow> addr \<Rightarrow> decoder) \<Rightarrow> pb_field_t list \<Rightarrow> addr \<Rightarrow> decoder" where
  "delimited dec fs dest st =
     checkreturn (on_fst pb_make_string_substream st) (\<lambda>sub (s, h).
       case dec fs dest (sub, h) of
         (status, (sub', h')) \<Rightarrow> close_substream status sub' (s, h'))"

definition pb_decode_delimited_noinit :: "nat \<Rightarrow> pb_env \<Rightarrow> pb_field_t list \<Rightarrow> addr \<Rightarrow> decoder" where
  "pb_decode_delimited_noinit n env = delimited (pb_decode_noinit n env)"

definition pb_decode_delimited :: "nat \<Rightarrow> pb_env \<Rightarrow> pb_field_t list \<Rightarrow> addr \<Rightarrow> decoder" where
  "pb_decode_delimited n env = delimited (pb_decode n env)"

definition pb_decode_nullterminated :: "nat \<Rightarrow> pb_env \<Rightarrow> pb_field_t list \<Rightarrow> addr \<Rightarrow> decoder" where
  "pb_decode_nullterminated n env = pb_decode n env"

end
