(* ===== verification/Pb_Layout.thy ===== *)
theory Pb_Layout
  imports Pb_Decode
begin

text \<open>
  Which descriptor tables describe a structure of a given size. \<open>layout d sz fs\<close> says that
  the table \<open>fs\<close> is terminated, all its fields are statically allocated and lie inside a
  structure of \<open>sz\<close> bytes together with their presence flags and counts, and submessages are
  nested less than \<open>d\<close> deep and fill their fields. On such a structure, setting defaults stays
  inside the structure, and releasing changes nothing.
\<close>

section \<open>Layouts\<close>

definition in_struct :: "nat \<Rightarrow> int \<Rightarrow> nat \<Rightarrow> bool" where
  "in_struct sz off len \<longleftrightarrow> 0 \<le> off \<and> off + int len \<le> int sz"

text \<open>\<open>off\<close> and \<open>so\<close> are what \<^verbatim>\<open>pData\<close> and \<^verbatim>\<open>pSize\<close> are relative to the structure.\<close>

definition size_off :: "pb_field_iter_t \<Rightarrow> int" where
  "size_off it = (case pSize it of At a \<Rightarrow> a | Local \<Rightarrow> 0)"

definition field_layout :: "(nat \<Rightarrow> pb_field_t list \<Rightarrow> bool) \<Rightarrow> nat \<Rightarrow> pb_field_t \<Rightarrow> int \<Rightarrow> int \<Rightarrow> bool" where
  "field_layout sub sz f off so \<longleftrightarrow>
     (let ht = PB_HTYPE (ftype f); lt = PB_LTYPE (ftype f); ds = unat (data_size f);
          cnt = (if ht = PB_HTYPE_REPEATED then unat (array_size f) else 1)
      in PB_ATYPE (ftype f) = PB_ATYPE_STATIC \<and> in_struct sz off (ds * cnt) \<and> int (ds * cnt) < 2 ^ 32
         \<and> (ht = PB_HTYPE_OPTIONAL \<longrightarrow> so = off \<or> in_struct sz so 1)
         \<and> (ht = PB_HTYPE_REPEATED \<or> ht = PB_HTYPE_ONEOF \<longrightarrow> in_struct sz so 4)
         \<and> lt \<le> PB_LTYPE_FIXED_LENGTH_BYTES \<and> lt \<noteq> PB_LTYPE_EXTENSION
         \<and> (lt = PB_LTYPE_FIXED32 \<longrightarrow> 4 \<le> ds) \<and> (lt = PB_LTYPE_FIXED64 \<longrightarrow> 8 \<le> ds)
         \<and> (case ptr f of
              Null \<Rightarrow> lt \<noteq> PB_LTYPE_SUBMESSAGE
            | Default bs \<Rightarrow> lt \<noteq> PB_LTYPE_SUBMESSAGE \<and> ds \<le> length bs
            | Submsg fs \<Rightarrow> lt = PB_LTYPE_SUBMESSAGE \<and> sub ds fs))"

primrec layout :: "nat \<Rightarrow> nat \<Rightarrow> pb_field_t list \<Rightarrow> bool" where
  "layout 0 = (\<lambda>sz fs. False)"
| "layout (Suc d) = (\<lambda>sz fs. table_ok fs \<and> 0 < n_fields fs \<and>
     (\<forall>k < n_fields fs. field_layout (layout d) sz (field_at fs k) (pData (iter_at fs 0 k)) (size_off (iter_at fs 0 k))))"

lemma layout_code [code]:
  "layout 0 sz fs = False"
  "layout (Suc d) sz fs = (table_ok fs \<and> 0 < n_fields fs \<and>
     list_all (\<lambda>k. field_layout (layout d) sz (field_at fs k) (pData (iter_at fs 0 k)) (size_off (iter_at fs 0 k)))
       [0..<n_fields fs])"
  by (auto simp: list_all_iff)

lemma layoutD:
  assumes "layout d sz fs"
  obtains d' where "d = Suc d'" "table_ok fs" "0 < n_fields fs"
    "\<And>k. k < n_fields fs \<Longrightarrow> field_layout (layout d') sz (field_at fs k) (pData (iter_at fs 0 k)) (size_off (iter_at fs 0 k))"
  using assms by (cases d) auto

lemma pData_iter_at: "pData (iter_at fs d k) = d + pData (iter_at fs 0 k)"
  using iter_at_shift[of fs 0 d k] by (simp add: shift_iter_def)

lemma iter_next_pSize: "pSize it \<noteq> Local \<Longrightarrow> pSize (snd (pb_field_iter_next it)) \<noteq> Local"
  by (simp add: pb_field_iter_next_def Let_def pb_field_iter_begin_def)

lemma pSize_iter_at: "pSize (iter_at fs d k) = At (d + size_off (iter_at fs 0 k))"
proof -
  have "pSize (iter_at fs 0 k) \<noteq> Local"
    by (induction k) (simp_all add: iter_at.simps iter_next_pSize, simp add: pb_field_iter_begin_def Let_def)
  then show ?thesis
    using iter_at_shift[of fs 0 d k] by (auto simp: shift_iter_def size_off_def split: size_ptr.splits)
qed

lemma region_in_struct: "in_struct sz off len \<Longrightarrow> region (d + off) len \<subseteq> region d sz"
  by (auto simp: in_struct_def region_def)

lemma in_struct_le: "in_struct sz off m \<Longrightarrow> n \<le> m \<Longrightarrow> in_struct sz off n"
  by (auto simp: in_struct_def)

lemma field_layoutD:
  assumes "field_layout sub sz f off so"
  shows "PB_ATYPE (ftype f) = PB_ATYPE_STATIC" "PB_LTYPE (ftype f) \<noteq> PB_LTYPE_EXTENSION"
    "PB_LTYPE (ftype f) \<le> PB_LTYPE_FIXED_LENGTH_BYTES"
    "PB_LTYPE (ftype f) = PB_LTYPE_FIXED32 \<Longrightarrow> 4 \<le> unat (data_size f)"
    "PB_LTYPE (ftype f) = PB_LTYPE_FIXED64 \<Longrightarrow> 8 \<le> unat (data_size f)"
    "ptr f = Null \<Longrightarrow> PB_LTYPE (ftype f) \<noteq> PB_LTYPE_SUBMESSAGE"
    "ptr f = Default bs \<Longrightarrow> PB_LTYPE (ftype f) \<noteq> PB_LTYPE_SUBMESSAGE \<and> unat (data_size f) \<le> length bs"
    "ptr f = Submsg fs \<Longrightarrow> PB_LTYPE (ftype f) = PB_LTYPE_SUBMESSAGE \<and> sub (unat (data_size f)) fs"
    "PB_HTYPE (ftype f) = PB_HTYPE_REPEATED \<Longrightarrow> unat (data_size f) * unat (array_size f) < 2 ^ 32"
  using assms by (auto simp: field_layout_def Let_def simp del: of_nat_mult)

lemma field_layout_region:
  assumes "field_layout sub sz f off so"
  shows "PB_HTYPE (ftype f) \<noteq> PB_HTYPE_REPEATED \<Longrightarrow> region (d + off) (unat (data_size f)) \<subseteq> region d sz"
    "PB_HTYPE (ftype f) = PB_HTYPE_REPEATED \<Longrightarrow>
       region (d + off) (unat (data_size f) * unat (array_size f)) \<subseteq> region d sz"
    "PB_HTYPE (ftype f) = PB_HTYPE_OPTIONAL \<Longrightarrow> so \<noteq> off \<Longrightarrow> region (d + so) 1 \<subseteq> region d sz"
    "PB_HTYPE (ftype f) = PB_HTYPE_REPEATED \<or> PB_HTYPE (ftype f) = PB_HTYPE_ONEOF \<Longrightarrow> region (d + so) 4 \<subseteq> region d sz"
proof -
  have i: "PB_HTYPE (ftype f) \<noteq> PB_HTYPE_REPEATED \<Longrightarrow> in_struct sz off (unat (data_size f))"
    "PB_HTYPE (ftype f) = PB_HTYPE_REPEATED \<Longrightarrow> in_struct sz off (unat (data_size f) * unat (array_size f))"
    "PB_HTYPE (ftype f) = PB_HTYPE_OPTIONAL \<Longrightarrow> so \<noteq> off \<Longrightarrow> in_struct sz so 1"
    "PB_HTYPE (ftype f) = PB_HTYPE_REPEATED \<or> PB_HTYPE (ftype f) = PB_HTYPE_ONEOF \<Longrightarrow> in_struct sz so 4"
    using assms by (auto simp: field_layout_def Let_def)
  show "PB_HTYPE (ftype f) \<noteq> PB_HTYPE_REPEATED \<Longrightarrow> region (d + off) (unat (data_size f)) \<subseteq> region d sz"
    "PB_HTYPE (ftype f) = PB_HTYPE_REPEATED \<Longrightarrow>
       region (d + off) (unat (data_size f) * unat (array_size f)) \<subseteq> region d sz"
    "PB_HTYPE (ftype f) = PB_HTYPE_OPTIONAL \<Longrightarrow> so \<noteq> off \<Longrightarrow> region (d + so) 1 \<subseteq> region d sz"
    "PB_HTYPE (ftype f) = PB_HTYPE_REPEATED \<or> PB_HTYPE (ftype f) = PB_HTYPE_ONEOF \<Longrightarrow> region (d + so) 4 \<subseteq> region d sz"
    by (rule region_in_struct, rule i, assumption+)+
qed

section \<open>Defaults\<close>

lemma unchanged_if: "unchanged A h h1 \<Longrightarrow> unchanged A h h2 \<Longrightarrow> unchanged A h (if b then h1 else h2)"
  by simp

lemma field_default_frame:
  assumes lay: "field_layout sub sz (cur it) off so" and pd: "pData it = d + off" and ps: "pSize it = At (d + so)"
    and rec: "\<And>fs a h. sub (unat (data_size (cur it))) fs \<Longrightarrow>
      \<exists>h'. rec_message fs a h = (Ok (), h') \<and> unchanged (region a (unat (data_size (cur it)))) h h'"
  shows "\<exists>h'. field_default n rec_message rec_field env it h = (Ok (), h') \<and> unchanged (region d sz) h h'"
proof -
  let ?f = "cur it" and ?ty = "ftype (cur it)" and ?A = "region d sz"
  define h1 where "h1 = (if PB_HTYPE ?ty = PB_HTYPE_OPTIONAL \<and> d + so \<noteq> pData it then store_bool (d + so) False h
                  else if PB_HTYPE ?ty = PB_HTYPE_REPEATED \<or> PB_HTYPE ?ty = PB_HTYPE_ONEOF
                  then store_u32 (d + so) 0 h else h)"
  have h1: "unchanged ?A h h1"
    using field_layout_region(3,4)[OF lay, of d] pd
    by (simp add: h1_def unchanged_typed_store del: in_region)
  have static: "PB_ATYPE ?ty = PB_ATYPE_STATIC" "PB_LTYPE ?ty \<noteq> PB_LTYPE_EXTENSION"
    using field_layoutD[OF lay] by auto
  show ?thesis
  proof (cases "PB_HTYPE ?ty = PB_HTYPE_REPEATED \<or> PB_HTYPE ?ty = PB_HTYPE_ONEOF")
    case True
    then have "field_default n rec_message rec_field env it h = (Ok (), h1)"
      using static ps by (auto simp: field_default_def Let_def h1_def)
    then show ?thesis using h1 by blast
  next
    case False
    then have data: "region (pData it) (unat (data_size ?f)) \<subseteq> ?A"
      using field_layout_region(1)[OF lay, of d] pd by simp
    have eq: "field_default n rec_message rec_field env it h =
      (if PB_LTYPE ?ty = PB_LTYPE_SUBMESSAGE then
         (case ptr ?f of Submsg fs \<Rightarrow> rec_message fs (pData it) h1 | _ \<Rightarrow> (UB, h1))
       else (case ptr ?f of
               Null \<Rightarrow> (Ok (), memset0 (pData it) (unat (data_size ?f)) h1)
             | Default bs \<Rightarrow> if unat (data_size ?f) \<le> length bs
                 then (Ok (), store (pData it) (take (unat (data_size ?f)) bs) h1) else (UB, h1)
             | Submsg _ \<Rightarrow> (UB, h1)))"
      using static ps False unfolding h1_def by (auto simp: field_default_def Let_def split: pb_ptr.splits)
    have "\<exists>h'. field_default n rec_message rec_field env it h = (Ok (), h') \<and>
        unchanged (region (pData it) (unat (data_size ?f))) h1 h'"
    proof (cases "ptr ?f")
      case Null
      then show ?thesis using field_layoutD(6)[OF lay] unfolding eq by (simp add: unchanged_typed_store)
    next
      case (Default bs)
      then show ?thesis using field_layoutD(7)[OF lay] unfolding eq by (simp add: unchanged_store)
    next
      case (Submsg fs)
      then show ?thesis using field_layoutD(8)[OF lay] rec unfolding eq by simp
    qed
    then show ?thesis using h1 data unchanged_mono unchanged_trans by meson
  qed
qed

lemma seq_all_frame:
  assumes "\<And>f h. f \<in> set fs \<Longrightarrow> \<exists>h'. f h = (Ok (), h') \<and> unchanged A h h'"
  shows "\<exists>h'. seq_all fs h = (Ok (), h') \<and> unchanged A h h'"
  using assms
proof (induction fs arbitrary: h)
  case (Cons f fs)
  obtain h1 where "f h = (Ok (), h1)" "unchanged A h h1" using Cons.prems[of f h] by auto
  moreover obtain h2 where "seq_all fs h1 = (Ok (), h2)" "unchanged A h1 h2" using Cons by (meson list.set_intros(2))
  ultimately show ?case using unchanged_trans by fastforce
qed auto

lemma defaults_frame:
  "layout d sz fs \<Longrightarrow> d \<le> n \<Longrightarrow>
     \<exists>h'. pb_message_set_to_defaults n env fs dest h = (Ok (), h') \<and> unchanged (region dest sz) h h'"
proof (induction d arbitrary: n sz fs dest h)
  case (Suc d)
  obtain m where m: "n = Suc m" "d \<le> m" using Suc.prems(2) by (cases n) auto
  have ok: "table_ok fs" "0 < n_fields fs" using Suc.prems(1) by auto
  have "\<exists>h'. pb_field_set_to_default n env (iter_at fs dest k) h = (Ok (), h') \<and> unchanged (region dest sz) h h'"
    if k: "k < n_fields fs" for k h
  proof -
    have c: "cur (iter_at fs dest k) = field_at fs k" using iter_at_inv[OF ok(1), of k dest] k by auto
    have "field_layout (layout d) sz (cur (iter_at fs dest k)) (pData (iter_at fs 0 k)) (size_off (iter_at fs 0 k))"
      using Suc.prems(1) k c by simp
    then show ?thesis unfolding m(1) pb_field_set_to_default.simps
      by (rule field_default_frame[OF _ pData_iter_at pSize_iter_at]) (use Suc.IH m(2) in blast)
  qed
  then have "\<exists>h'. seq_all (map (\<lambda>k. pb_field_set_to_default n env (iter_at fs dest k)) [0..<n_fields fs]) h = (Ok (), h')
      \<and> unchanged (region dest sz) h h'"
    by (intro seq_all_frame) auto
  then show ?case
    using ok iter_loop_steps[OF ok, of "pb_field_set_to_default n env" dest h] by (simp add: iter_begin_at)
qed simp

section \<open>Release\<close>

lemma release_items_same: "(\<And>p. rel p h = (Ok (), h)) \<Longrightarrow> release_items n rel stride p h = (Ok (), h)"
  by (induction n arbitrary: p) simp_all

lemma release_field_same:
  assumes lay: "field_layout sub sz (cur it) off so" and ps: "pSize it = At a"
    and rec: "\<And>fs p. sub (unat (data_size (cur it))) fs \<Longrightarrow> rec_message fs p h = (Ok (), h)"
  shows "release_field n rec_message rec_field env it h = (Ok (), h)"
proof (cases "ptr (cur it)")
  case (Submsg fs)
  then have "release_items k (rec_message fs) stride p h = (Ok (), h)" for k stride p
    using rec field_layoutD(8)[OF lay Submsg] by (intro release_items_same) blast
  then show ?thesis using field_layoutD(1,2)[OF lay] ps Submsg by (simp add: release_field_def Let_def)
next
  case Null
  then show ?thesis using field_layoutD(1,2,6)[OF lay] ps by (simp add: release_field_def Let_def)
next
  case (Default bs)
  then show ?thesis using field_layoutD(1,2,7)[OF lay] ps by (simp add: release_field_def Let_def)
qed

lemma seq_all_same: "\<forall>f \<in> set fs. f h = (Ok (), h) \<Longrightarrow> seq_all fs h = (Ok (), h)"
  by (induction fs) simp_all

lemma release_same: "layout d sz fs \<Longrightarrow> d \<le> n \<Longrightarrow> pb_release n env fs dest h = (Ok (), h)"
proof (induction d arbitrary: n sz fs dest)
  case (Suc d)
  obtain m where m: "n = Suc m" "d \<le> m" using Suc.prems(2) by (cases n) auto
  have ok: "table_ok fs" "0 < n_fields fs" using Suc.prems(1) by auto
  have "pb_release_single_field n env (iter_at fs dest k) h = (Ok (), h)" if k: "k < n_fields fs" for k
  proof -
    have c: "cur (iter_at fs dest k) = field_at fs k" using iter_at_inv[OF ok(1), of k dest] k by auto
    have "field_layout (layout d) sz (cur (iter_at fs dest k)) (pData (iter_at fs 0 k)) (size_off (iter_at fs 0 k))"
      using Suc.prems(1) k c by simp
    then show ?thesis unfolding m(1) pb_release_single_field.simps
      by (rule release_field_same[OF _ pSize_iter_at]) (use Suc.IH m(2) in blast)
  qed
  then have "seq_all (map (\<lambda>k. pb_release_single_field n env (iter_at fs dest k)) [0..<n_fields fs]) h = (Ok (), h)"
    by (intro seq_all_same) auto
  then show ?case
    using ok iter_loop_steps[OF ok, of "pb_release_single_field n env" dest h] by (simp add: iter_begin_at)
qed simp

lemma release_single_same:
  assumes "layout d sz fs" "d \<le> n" "k < n_fields fs"
  shows "pb_release_single_field n env (iter_at fs dest k) h = (Ok (), h)"
proof -
  obtain d' where d: "d = Suc d'" "table_ok fs"
      "field_layout (layout d') sz (field_at fs k) (pData (iter_at fs 0 k)) (size_off (iter_at fs 0 k))"
    using assms(1,3) by (auto elim!: layoutD)
  obtain m where m: "n = Suc m" "d' \<le> m" using assms(2) d(1) by (cases n) auto
  have c: "cur (iter_at fs dest k) = field_at fs k" using iter_at_inv[OF d(2), of k dest] assms(3) by auto
  from d(3) have "field_layout (layout d') sz (cur (iter_at fs dest k)) (pData (iter_at fs 0 k)) (size_off (iter_at fs 0 k))"
    using c by simp
  then show ?thesis unfolding m(1) pb_release_single_field.simps
    by (rule release_field_same[OF _ pSize_iter_at]) (use release_same m(2) in blast)
qed

end
