(* ===== verification/Pb_Decode_Laws.thy ===== *)
theory Pb_Decode_Laws
  imports Pb_Layout Pb_Istream_Laws
begin

text \<open>
  Memory safety and termination of the decoder on statically allocated messages. \<open>dec_ok\<close> is
  the promise of one decoder: on any input it returns, reads only inside the stream's buffer,
  and writes only inside the given addresses. It is shown for every field decoder, then for the
  loop over a message; the call made for a submessage enters through the locale
  \<open>submessage_decoder\<close>, which \<open>pb_decode_noinit\<close> and \<open>pb_decode\<close> are shown to fulfil.
\<close>

section \<open>Streams that may lag\<close>

text \<open>
  When decoding fails inside a substream, the parent may be left with its position behind what
  \<^verbatim>\<open>bytes_left\<close> says. It is still inside the buffer.
\<close>

definition lags :: "pb_istream_t \<Rightarrow> pb_istream_t \<Rightarrow> bool" where
  "lags s s' \<longleftrightarrow>
     (\<exists>k. k + unat (bytes_left s') \<le> unat (bytes_left s) \<and>
        (case istate s of
           Buffer bs \<Rightarrow> istate s' = Buffer (drop k bs)
         | User _ \<Rightarrow> (\<exists>cb. istate s' = User cb)))"

lemma advances_lags: "advances s s' \<Longrightarrow> lags s s'"
  unfolding advances_def lags_def by (metis order_refl)

lemma lags_refl [simp]: "lags s s"
  by (simp add: advances_lags)

lemma lags_trans: "lags s s' \<Longrightarrow> lags s' s'' \<Longrightarrow> lags s s''"
proof -
  assume "lags s s'" "lags s' s''"
  then obtain k l where "k + unat (bytes_left s') \<le> unat (bytes_left s)"
      "case istate s of Buffer bs \<Rightarrow> istate s' = Buffer (drop k bs) | User _ \<Rightarrow> (\<exists>cb. istate s' = User cb)"
      "l + unat (bytes_left s'') \<le> unat (bytes_left s')"
      "case istate s' of Buffer bs \<Rightarrow> istate s'' = Buffer (drop l bs) | User _ \<Rightarrow> (\<exists>cb. istate s'' = User cb)"
    unfolding lags_def by blast
  then show ?thesis unfolding lags_def
    by (intro exI[of _ "l + k"]) (auto split: istate.splits)
qed

lemma lags_in_bounds: "lags s s' \<Longrightarrow> in_bounds s \<Longrightarrow> in_bounds s'"
  by (auto simp: lags_def in_bounds_def split: istate.splits)

lemma lags_bytes_left: "lags s s' \<Longrightarrow> unat (bytes_left s') \<le> unat (bytes_left s)"
  by (auto simp: lags_def)

lemma lags_set_error [simp]: "lags s (PB_SET_ERROR_i msg t) = lags s t"
  by (auto simp: lags_def split: istate.splits)

lemma close_lags:
  assumes adv: "lags sub0 sub" and sub0: "in_bounds sub0" and st: "istate sub0 = istate s"
    and nowrap: "unat (bytes_left s) + unat (bytes_left sub0) < 2 ^ 64"
    and close: "pb_close_string_substream sub s = (r, s')"
  shows "r \<noteq> UB" "r \<noteq> Fuel" "lags (s\<lparr>bytes_left := bytes_left s + bytes_left sub0\<rparr>) s'"
proof -
  have sub: "in_bounds sub" using lags_in_bounds[OF adv sub0] .
  have sum: "unat (bytes_left s + bytes_left sub0) = unat (bytes_left s) + unat (bytes_left sub0)"
    using nowrap by (simp add: unat_word_ariths)
  define c where "c = (if bytes_left sub \<noteq> 0 then pb_read_null (bytes_left sub) sub else (Ok (), sub))"
  obtain q t where q: "c = (q, t)" by (cases c)
  have k: "q \<noteq> UB" "q \<noteq> Fuel" "advances sub t"
    using pb_read_null.contract[OF sub, of "bytes_left sub"] q by (auto simp: c_def split: if_splits)
  have eq: "(r, s') = (case q of Ok _ \<Rightarrow> (Ok t, s\<lparr>istate := istate t, ierrmsg := ierrmsg t\<rparr>)
       | Err \<Rightarrow> (Err, s) | UB \<Rightarrow> (UB, s) | Fuel \<Rightarrow> (Fuel, s))"
    using close q unfolding pb_close_string_substream_def c_def[symmetric] by (simp split: outcome.splits)
  show "r \<noteq> UB" "r \<noteq> Fuel" using k eq by (cases q; simp)+
  show "lags (s\<lparr>bytes_left := bytes_left s + bytes_left sub0\<rparr>) s'"
  proof (cases q)
    case (Ok u)
    have t0: "bytes_left t = 0"
      using q Ok pb_read_null_consumes[of "bytes_left sub" sub u t] by (auto simp: c_def split: if_splits)
    have "lags sub0 t" using lags_trans[OF adv advances_lags[OF k(3)]] .
    then obtain k where "k \<le> unat (bytes_left sub0)"
        "case istate s of Buffer bs \<Rightarrow> istate t = Buffer (drop k bs) | User _ \<Rightarrow> \<exists>cb. istate t = User cb"
      using t0 st unfolding lags_def by auto
    then show ?thesis using eq Ok sum unfolding lags_def
      by (intro exI[of _ k]) (auto split: istate.splits)
  next
    case Err
    then show ?thesis using eq sum unfolding lags_def by (intro exI[of _ 0]) (auto split: istate.splits)
  qed (use k in auto)
qed

section \<open>The promise of a decoder\<close>

definition dec_post :: "addr set \<Rightarrow> dec_state \<Rightarrow> ('a, dec_state) res \<Rightarrow> bool" where
  "dec_post A st res =
     (case (st, res) of ((s, h), (r, (s', h'))) \<Rightarrow>
        r \<noteq> UB \<and> r \<noteq> Fuel \<and> unchanged A h h' \<and> lags s s' \<and> (r = Err \<or> advances s s'))"

definition dec_ok :: "nat \<Rightarrow> addr set \<Rightarrow> (dec_state \<Rightarrow> ('a, dec_state) res) \<Rightarrow> bool" where
  "dec_ok N A dec \<longleftrightarrow>
     (\<forall>s h. in_bounds s \<longrightarrow> unat (bytes_left s) < N \<longrightarrow> dec_post A (s, h) (dec (s, h)))"

lemma dec_okI: "(\<And>s h. in_bounds s \<Longrightarrow> unat (bytes_left s) < N \<Longrightarrow> dec_post A (s, h) (dec (s, h))) \<Longrightarrow> dec_ok N A dec"
  by (simp add: dec_ok_def)

lemma dec_okD: "dec_ok N A dec \<Longrightarrow> in_bounds s \<Longrightarrow> unat (bytes_left s) < N \<Longrightarrow> dec_post A (s, h) (dec (s, h))"
  by (simp add: dec_ok_def)

lemma dec_post_trans:
  assumes "advances s s'" "unchanged A h h'" "dec_post A (s', h') res"
  shows "dec_post A (s, h) res"
proof -
  have "lags s s'" using assms(1) by (rule advances_lags)
  then show ?thesis
    using assms lags_trans advances_trans unchanged_trans by (fastforce simp: dec_post_def split: prod.splits)
qed

lemma dec_ok_seq:
  assumes "dec_ok N A f" "\<And>a. dec_ok N A (k a)"
  shows "dec_ok N A (\<lambda>st. checkreturn (f st) k)"
proof (rule dec_okI)
  fix s h assume s: "in_bounds s" "unat (bytes_left s) < N"
  obtain r s' h' where r: "f (s, h) = (r, (s', h'))" by (metis prod.collapse)
  have p: "dec_post A (s, h) (r, (s', h'))" using dec_okD[OF assms(1) s] r by metis
  show "dec_post A (s, h) (checkreturn (f (s, h)) k)"
  proof (cases r)
    case (Ok a)
    then have adv: "advances s s'" "unchanged A h h'" using p by (auto simp: dec_post_def)
    have "in_bounds s'" "unat (bytes_left s') < N"
      using advances_in_bounds[OF adv(1) s(1)] advances_bytes_left[OF adv(1)] s(2) by auto
    from dec_post_trans[OF adv dec_okD[OF assms(2)[of a] this]] show ?thesis using r Ok by simp
  qed (use p r in \<open>auto simp: dec_post_def\<close>)
qed

lemma dec_ok_Ok: "dec_ok N A (\<lambda>st. (Ok v, st))"
  by (auto intro!: dec_okI simp: dec_post_def)

lemma dec_ok_error: "dec_ok N A (dec_error msg)"
  by (auto intro!: dec_okI simp: dec_post_def PB_RETURN_ERROR_i_def)

lemma dec_ok_If: "(b \<Longrightarrow> dec_ok N A f) \<Longrightarrow> (\<not> b \<Longrightarrow> dec_ok N A g) \<Longrightarrow> dec_ok N A (\<lambda>st. if b then f st else g st)"
  by (cases b) simp_all

lemma dec_ok_pair: "dec_ok N A f \<Longrightarrow> dec_ok N A (\<lambda>(s, h). f (s, h))"
  by simp

lemma dec_ok_if:
  "(b \<Longrightarrow> dec_ok N A (\<lambda>(s, h). f s h)) \<Longrightarrow> (\<not> b \<Longrightarrow> dec_ok N A (\<lambda>(s, h). g s h)) \<Longrightarrow>
   dec_ok N A (\<lambda>(s, h). if b then f s h else g s h)"
  by (cases b) simp_all

lemma dec_ok_mono: "dec_ok N A f \<Longrightarrow> A \<subseteq> B \<Longrightarrow> M \<le> N \<Longrightarrow> dec_ok M B f"
  by (fastforce simp: dec_ok_def dec_post_def intro: unchanged_mono split: prod.splits)

lemma dec_ok_reader: "stream_reader f \<Longrightarrow> dec_ok N A (on_fst f)"
  by (rule dec_okI) (auto simp: dec_post_def advances_lags dest: stream_reader.contract)

lemma dec_ok_update: "(\<And>h. unchanged A h (g h)) \<Longrightarrow> dec_ok N A (\<lambda>(s, h). (Ok (), (s, g h)))"
  by (auto intro!: dec_okI simp: dec_post_def)

section \<open>Scalars\<close>

lemma length_store_signed:
  assumes "store_signed n dest v h = Some (c, h')" "region dest (unat n) \<subseteq> A"
  shows "unchanged A h h'"
  using assms by (auto simp: store_signed_def intro!: unchanged_store split: if_splits)

lemma length_store_unsigned:
  assumes "store_unsigned n dest v h = Some (c, h')" "region dest (unat n) \<subseteq> A"
  shows "unchanged A h h'"
  using assms by (auto simp: store_unsigned_def intro!: unchanged_store split: if_splits)

lemma dec_ok_finish_store:
  assumes "\<And>h c h'. st h = Some (c, h') \<Longrightarrow> unchanged A h h'"
  shows "dec_ok N A (\<lambda>(s, h). finish_store (st h) v (s, h))"
  using assms
  by (auto intro!: dec_okI simp: dec_post_def finish_store_def PB_RETURN_ERROR_i_def split: option.splits)

lemma dec_ok_scalars:
  assumes "region dest (unat (data_size f)) \<subseteq> A"
  shows "dec_ok N A (pb_dec_varint f dest)" "dec_ok N A (pb_dec_uvarint f dest)" "dec_ok N A (pb_dec_svarint f dest)"
proof -
  show "dec_ok N A (pb_dec_varint f dest)"
    unfolding pb_dec_varint_def Let_def
    by (intro dec_ok_seq dec_ok_reader pb_decode_varint.stream_reader_axioms dec_ok_finish_store)
       (rule length_store_signed[OF _ assms])
  show "dec_ok N A (pb_dec_uvarint f dest)"
    unfolding pb_dec_uvarint_def
    by (intro dec_ok_seq dec_ok_reader pb_decode_varint.stream_reader_axioms dec_ok_finish_store)
       (rule length_store_unsigned[OF _ assms])
  show "dec_ok N A (pb_dec_svarint f dest)"
    unfolding pb_dec_svarint_def
    by (intro dec_ok_seq dec_ok_reader pb_decode_svarint.stream_reader_axioms dec_ok_finish_store)
       (rule length_store_signed[OF _ assms])
qed

lemma dec_ok_fixed:
  "region dest 4 \<subseteq> A \<Longrightarrow> dec_ok N A (pb_dec_fixed32 f dest)"
  "region dest 8 \<subseteq> A \<Longrightarrow> dec_ok N A (pb_dec_fixed64 f dest)"
  unfolding pb_dec_fixed32_def pb_dec_fixed64_def
  by (intro dec_ok_seq dec_ok_reader pb_decode_fixed32.stream_reader_axioms pb_decode_fixed64.stream_reader_axioms
      dec_ok_update unchanged_store, simp)+

section \<open>Bytes and strings\<close>

lemma dec_ok_read_into:
  assumes "region dest (unat c) \<subseteq> A"
  shows "dec_ok N A (read_into dest c)"
proof (rule dec_okI)
  fix s h assume s: "in_bounds s"
  obtain r s' where r: "pb_read_buf c s = (r, s')" by (cases "pb_read_buf c s")
  have "r \<noteq> UB" "r \<noteq> Fuel" "advances s s'" using pb_read_buf.contract[OF s, of c] r by auto
  then show "dec_post A (s, h) (read_into dest c (s, h))"
    using r pb_read_buf_Ok(1)[of c s _ s'] assms
    by (cases r) (auto simp: read_into_def dec_post_def advances_lags intro!: unchanged_store)
qed

lemma unchanged_then:
  assumes "dec_ok N A f" "\<And>h. unchanged A h (g h)"
  shows "dec_ok N A (\<lambda>(s, h). f (s, g h))"
  using assms dec_post_trans[OF advances_refl] by (fastforce intro!: dec_okI dest: dec_okD)

lemma dec_ok_bytes:
  assumes "PB_ATYPE (ftype f) = PB_ATYPE_STATIC" "region dest (unat (data_size f)) \<subseteq> A"
  shows "dec_ok N A (pb_dec_bytes env f dest)"
proof -
  have "dec_ok N A (\<lambda>(s, h). read_into (bytes_bytes dest) (ucast n) (s, store_u32 dest n h))"
    if "\<not> PB_BYTES_ARRAY_T_ALLOCSIZE n > ucast (data_size f)" for n
  proof -
    have fit: "unat n + 4 \<le> unat (data_size f)"
      using that unat_less_two_power[of n] by (simp add: PB_BYTES_ARRAY_T_ALLOCSIZE_def word_less_nat_alt
          unat_word_ariths ucast_u32)
    have "region dest 4 \<subseteq> A" "region (bytes_bytes dest) (unat (ucast n :: size_t)) \<subseteq> A"
      using fit region_prefix[OF assms(2), of 4] region_part[OF assms(2), of 4 "unat n"]
      by (simp_all add: bytes_bytes_def ucast_u32(1) del: in_region)
    then show ?thesis by (intro unchanged_then dec_ok_read_into unchanged_typed_store)
  qed
  then show ?thesis
    unfolding pb_dec_bytes_def Let_def using assms(1)
    by (intro dec_ok_seq dec_ok_reader pb_decode_varint32.stream_reader_axioms dec_ok_if
        dec_ok_pair[OF dec_ok_error]) simp_all
qed

lemma dec_ok_string:
  assumes "PB_ATYPE (ftype f) = PB_ATYPE_STATIC" "region dest (unat (data_size f)) \<subseteq> A"
  shows "dec_ok N A (pb_dec_string env f dest)"
proof -
  have "dec_ok N A (\<lambda>(s, h). fill_string dest n (s, h))"
    if "\<not> (ucast (n + 1) :: size_t) < ucast n" "\<not> (ucast (n + 1) :: size_t) > ucast (data_size f)" for n
  proof -
    have "unat n \<le> unat (n + 1)" "unat (n + 1) \<le> unat (data_size f)"
      using that by (simp_all only: ucast_u32(3)) (simp_all add: word_less_nat_alt)
    moreover have "unat (n + 1) \<noteq> unat n" by (simp add: word_unat_eq_iff[symmetric])
    ultimately have fit: "unat n + 1 \<le> unat (data_size f)" by linarith
    have r: "region dest (unat (ucast n :: size_t)) \<subseteq> A" "region (dest + uint n) 1 \<subseteq> A"
      using fit region_prefix[OF assms(2), of "unat n"] region_part[OF assms(2), of "unat n" 1]
      by (simp_all add: ucast_u32(1) del: in_region)
    have z: "unchanged A h (store (dest + uint n) [0] h)" for h using r(2) by (intro unchanged_store) simp
    have "dec_ok N A (fill_string dest n)"
    proof (rule dec_okI)
      fix s h assume s: "in_bounds s" "unat (bytes_left s) < N"
      obtain q s' h' where q: "read_into dest (ucast n) (s, h) = (q, (s', h'))" by (metis prod.collapse)
      then have "dec_post A (s, h) (q, (s', h'))" using dec_okD[OF dec_ok_read_into[OF r(1)] s] by metis
      then show "dec_post A (s, h) (fill_string dest n (s, h))"
        using q unchanged_trans[OF _ z] by (simp add: fill_string_def dec_post_def)
    qed
    then show ?thesis by (rule dec_ok_pair)
  qed
  then show ?thesis
    unfolding pb_dec_string_def Let_def using assms(1)
    by (intro dec_ok_seq dec_ok_reader pb_decode_varint32.stream_reader_axioms dec_ok_if
        dec_ok_pair[OF dec_ok_error]) simp_all
qed

lemma dec_ok_fixed_length_bytes:
  assumes "region dest (unat (data_size f)) \<subseteq> A"
  shows "dec_ok N A (pb_dec_fixed_length_bytes f dest)"
proof -
  have "dec_ok N A (\<lambda>(s, h). read_into dest (ucast (data_size f)) (s, h))"
    using assms by (intro dec_ok_pair dec_ok_read_into) (simp add: ucast_u32(1))
  moreover have "dec_ok N A (\<lambda>(s, h). (Ok (), (s, memset0 dest (unat (data_size f)) h)))"
    using assms by (intro dec_ok_update unchanged_typed_store)
  ultimately show ?thesis
    unfolding pb_dec_fixed_length_bytes_def
    by (intro dec_ok_seq dec_ok_reader pb_decode_varint32.stream_reader_axioms dec_ok_if
        dec_ok_pair[OF dec_ok_error]) simp_all
qed

section \<open>Substreams\<close>

text \<open>
  A decoder run on a substream that is closed afterwards. The substream is shorter than its
  parent by at least the byte of the length.
\<close>

lemma close_substream_post:
  assumes mk: "pb_make_string_substream s = (Ok sub, s1)" and s: "in_bounds s"
    and post: "dec_post A (sub, h) (status, (sub', h'))"
  shows "dec_post A (s, h) (close_substream status sub' (s1, h'))"
proof -
  have m: "in_bounds sub" "istate sub = istate s1" "unat (bytes_left sub) + unat (bytes_left s1) < unat (bytes_left s)"
      "advances s (s1\<lparr>bytes_left := bytes_left s1 + bytes_left sub\<rparr>)"
    using make_substream_contract(4)[OF s mk] by auto
  have p: "status \<noteq> UB" "status \<noteq> Fuel" "unchanged A h h'" "lags sub sub'" "status = Err \<or> advances sub sub'"
    using post by (auto simp: dec_post_def)
  have nowrap: "unat (bytes_left s1) + unat (bytes_left sub) < 2 ^ 64"
    using m(3) unat_less_two_power[of "bytes_left s"] by simp
  obtain r s2 where r: "pb_close_string_substream sub' s1 = (r, s2)" by (metis prod.collapse)
  have c: "r \<noteq> UB" "r \<noteq> Fuel" "lags s s2"
    using close_lags[OF p(4) m(1,2) nowrap r] lags_trans[OF advances_lags[OF m(4)]] by auto
  have adv: "advances s s2" if ok: "r = Ok v" "status \<noteq> Err" for v
  proof -
    have "advances sub sub'" using p(5) ok by auto
    moreover have "in_bounds (s1\<lparr>bytes_left := bytes_left s1 + bytes_left sub\<rparr>)"
      using advances_in_bounds[OF m(4) s] .
    ultimately have "advances (s1\<lparr>bytes_left := bytes_left s1 + bytes_left sub\<rparr>) s2"
      using close_substream_contract(4)[OF advances_in_bounds[OF _ m(1)] _ m(2) _ nowrap, of sub' v s2] r ok(1) by blast
    then show ?thesis by (rule advances_trans[OF m(4)])
  qed
  show ?thesis
    using c p adv r by (cases r) (auto simp: close_substream_def dec_post_def)
qed

lemma make_substream_fails:
  assumes "in_bounds s" "pb_make_string_substream s = (Err, s1)"
  shows "dec_post A (s, h) (Err, (s1, h))"
  using make_substream_contract(3)[OF assms(1)] assms(2) by (simp add: dec_post_def advances_lags)

section \<open>The contract of the nested call\<close>

locale submessage_decoder =
  fixes rec :: submsg_decoder and N :: nat and d :: nat
  assumes safe: "layout d sz fs \<Longrightarrow> dec_ok N (region dest sz) (rec init fs dest)"
begin

lemma dec_ok_submessage:
  assumes ptr: "ptr f = Submsg fs" "layout d sz fs" and A: "region dest sz \<subseteq> A"
  shows "dec_ok (Suc N) A (pb_dec_submessage rec f dest)"
proof (rule dec_okI)
  fix s h assume s: "in_bounds s" "unat (bytes_left s) < Suc N"
  obtain r s1 where r: "pb_make_string_substream s = (r, s1)" by (metis prod.collapse)
  show "dec_post A (s, h) (pb_dec_submessage rec f dest (s, h))"
  proof (cases r)
    case (Ok sub)
    have m: "in_bounds sub" "unat (bytes_left sub) < N"
      using make_substream_contract(4)[OF s(1), of sub s1] r Ok s(2) by auto
    obtain status sub' h' where q: "rec (PB_HTYPE (ftype f) = PB_HTYPE_REPEATED) fs dest (sub, h) = (status, (sub', h'))"
      by (metis prod.collapse)
    have "dec_post A (sub, h) (status, (sub', h'))"
      using dec_okD[OF dec_ok_mono[OF safe[OF ptr(2)] A order_refl] m] q by metis
    from close_substream_post[OF _ s(1) this] show ?thesis
      using r Ok q by (simp add: pb_dec_submessage_def ptr(1))
  qed (use make_substream_contract(1,2)[OF s(1)] make_substream_fails[OF s(1)] r in \<open>auto simp: pb_dec_submessage_def\<close>)
qed

lemma dec_ok_field:
  assumes lay: "field_layout (layout d) sz f off so" and A: "region dest (unat (data_size f)) \<subseteq> A"
  shows "dec_ok (Suc N) A (PB_DECODERS env rec (PB_LTYPE (ftype f)) f dest)"
proof -
  consider "PB_LTYPE (ftype f) \<in> {0, 1, 2, 3, 4, 5, 6, 9}" | "PB_LTYPE (ftype f) = PB_LTYPE_SUBMESSAGE"
  proof -
    have "unat (PB_LTYPE (ftype f)) \<le> 9" "unat (PB_LTYPE (ftype f)) \<noteq> 8"
      using field_layoutD(2,3)[OF lay] by (simp_all add: word_le_nat_alt word_unat_eq_iff)
    then have "unat (PB_LTYPE (ftype f)) \<in> {0, 1, 2, 3, 4, 5, 6, 7, 9}" by auto
    then have "PB_LTYPE (ftype f) \<in> {0, 1, 2, 3, 4, 5, 6, 7, 9}" by (auto simp: word_unat_eq_iff)
    then show ?thesis using that by auto
  qed
  then show ?thesis
  proof cases
    case 1
    then show ?thesis
      using A dec_ok_scalars[OF A] dec_ok_bytes[OF field_layoutD(1)[OF lay] A] dec_ok_string[OF field_layoutD(1)[OF lay] A]
        dec_ok_fixed_length_bytes[OF A] dec_ok_fixed(1)[OF region_prefix[OF A field_layoutD(4)[OF lay]]]
        dec_ok_fixed(2)[OF region_prefix[OF A field_layoutD(5)[OF lay]]]
      by (auto simp: PB_DECODERS_def)
  next
    case 2
    then obtain fs where "ptr f = Submsg fs" "layout d (unat (data_size f)) fs"
      using field_layoutD(6-8)[OF lay] by (cases "ptr f") auto
    then show ?thesis using 2 dec_ok_submessage[OF _ _ A] by (simp add: PB_DECODERS_def)
  qed
qed

end

section \<open>Static fields\<close>

definition fld_post :: "addr set \<Rightarrow> dec_state \<Rightarrow> ('a, fld_state) res \<Rightarrow> bool" where
  "fld_post A st res = (case res of (r, (st', fc')) \<Rightarrow> dec_post A st (r, st'))"

lemma fld_post_on_fst: "dec_ok N A f \<Longrightarrow> in_bounds s \<Longrightarrow> unat (bytes_left s) < N \<Longrightarrow> fld_post A (s, h) (on_fst f ((s, h), fc))"
  by (simp add: fld_post_def dec_okD)

lemma fld_post_trans:
  "advances s s' \<Longrightarrow> unchanged A h h' \<Longrightarrow> fld_post A (s', h') res \<Longrightarrow> fld_post A (s, h) res"
  by (auto simp: fld_post_def intro: dec_post_trans split: prod.splits)

text \<open>Where a count is kept: in the structure, or in the decoder's local counter.\<close>

definition size_in :: "addr set \<Rightarrow> size_ptr \<Rightarrow> bool" where
  "size_in A p = (case p of At a \<Rightarrow> region a 4 \<subseteq> A | Local \<Rightarrow> True)"

lemma put_size_frame:
  assumes "size_in A p"
  obtains h' fc' where "put_size p v ((s, h), fc) = ((s, h'), fc')" "unchanged A h h'"
  using assms that by (cases p) (auto simp: put_size_def size_in_def unchanged_typed_store)

lemma item_region:
  assumes "region base (unat (data_size f) * unat (array_size f)) \<subseteq> A" "n < array_size f"
    "unat (data_size f) * unat (array_size f) < 2 ^ 32"
  shows "region (item_addr base f n) (unat (data_size f)) \<subseteq> A"
proof -
  have n: "Suc (unat n) \<le> unat (array_size f)" using assms(2) by (simp add: word_less_nat_alt)
  have le: "unat (data_size f) * unat n + unat (data_size f) \<le> unat (data_size f) * unat (array_size f)"
    using mult_le_mono2[OF n, of "unat (data_size f)"] by simp
  have "unat (data_size f * n) = unat (data_size f) * unat n"
    using le assms(3) by (simp add: unat_word_ariths)
  then have "uint (data_size f * n) = int (unat (data_size f) * unat n)" by (metis uint_nat)
  then show ?thesis using region_part[OF assms(1) le] by (simp only: item_addr_def)
qed

lemma checkreturn_on_fst_Ok:
  "checkreturn (on_fst f (s, h)) k = (Ok b, t) \<longleftrightarrow> (\<exists>v s1. f s = (Ok v, s1) \<and> k v (s1, h) = (Ok b, t))"
  by (cases "f s") (auto simp: checkreturn_Ok_iff)

lemma packed_progress:
  assumes "PB_LTYPE (ftype f) \<le> PB_LTYPE_LAST_PACKABLE" "in_bounds s"
    "PB_DECODERS env rec (PB_LTYPE (ftype f)) f a (s, h) = (Ok (), (s', h'))"
  shows "unat (bytes_left s') < unat (bytes_left s)"
proof -
  have fin: "finish_store st v (t, h1) = (Ok (), (s', h')) \<Longrightarrow> t = s'" for st v t h1
    by (auto simp: finish_store_def PB_RETURN_ERROR_i_def split: option.splits if_splits)
  have "unat (PB_LTYPE (ftype f)) \<le> 4" using assms(1) by (simp add: word_le_nat_alt)
  then have "unat (PB_LTYPE (ftype f)) \<in> {0, 1, 2, 3, 4}" by auto
  then have "PB_LTYPE (ftype f) \<in> {0, 1, 2, 3, 4}" by (auto simp: word_unat_eq_iff)
  then consider v where "pb_decode_varint s = (Ok v, s')" | v where "pb_decode_svarint s = (Ok v, s')"
    | v where "pb_decode_fixed32 s = (Ok v, s')" | v where "pb_decode_fixed64 s = (Ok v, s')"
    using assms(3)
    by (auto simp: PB_DECODERS_def pb_dec_varint_def pb_dec_uvarint_def pb_dec_svarint_def pb_dec_fixed32_def
        pb_dec_fixed64_def checkreturn_on_fst_Ok Let_def simp del: on_fst_eq dest!: fin)
  then show ?thesis
  proof cases
    case (2 v)
    then show ?thesis using varint_progress[OF assms(2)] by (auto simp: pb_decode_svarint_def checkreturn_Ok_iff)
  qed (use varint_progress[OF assms(2)] in
        \<open>auto simp: pb_decode_fixed32_def pb_decode_fixed64_def checkreturn_Ok_iff dest: pb_read_buf_Ok(4)\<close>)
qed

lemma packed_loop_post:
  assumes item: "\<And>n. n < array_size (cur it) \<Longrightarrow> dec_ok N A (func (cur it) (item_addr (pData it) (cur it) n))"
    and prog: "\<And>a s h s' h'. in_bounds s \<Longrightarrow> func (cur it) a (s, h) = (Ok (), (s', h')) \<Longrightarrow>
                 unat (bytes_left s') < unat (bytes_left s)"
    and size: "size_in A (pSize it)"
  shows "unat (bytes_left sub) < k \<Longrightarrow> unat (bytes_left sub) < N \<Longrightarrow> in_bounds sub \<Longrightarrow>
    fld_post A (sub, h) (packed_loop k func it ((sub, h), fc))"
proof (induction k arbitrary: sub h fc)
  case (Suc k)
  let ?n = "get_size (pSize it) ((sub, h), fc)"
  show ?case
  proof (cases "bytes_left sub > 0 \<and> ?n < array_size (cur it)")
    case True
    obtain r sub1 h1 where r: "func (cur it) (item_addr (pData it) (cur it) ?n) (sub, h) = (r, (sub1, h1))"
      by (metis prod.collapse)
    have p: "dec_post A (sub, h) (r, (sub1, h1))"
      using dec_okD[OF item Suc.prems(3,2), of ?n] r True by metis
    show ?thesis
    proof (cases r)
      case (Ok u)
      have a: "advances sub sub1" "unchanged A h h1" using p Ok by (auto simp: dec_post_def)
      have less: "unat (bytes_left sub1) < unat (bytes_left sub)" using prog[OF Suc.prems(3)] r Ok by simp
      obtain h2 fc2 where w: "put_size (pSize it) (get_size (pSize it) ((sub1, h1), fc) + 1) ((sub1, h1), fc) = ((sub1, h2), fc2)"
          "unchanged A h1 h2"
        using put_size_frame[OF size] .
      have "fld_post A (sub1, h2) (packed_loop k func it ((sub1, h2), fc2))"
        using less Suc.prems advances_in_bounds[OF a(1)] by (intro Suc.IH) auto
      from fld_post_trans[OF a(1) unchanged_trans[OF a(2) w(2)] this] show ?thesis
        using True r Ok w(1) by (simp add: Let_def)
    qed (use p r True in \<open>auto simp: dec_post_def fld_post_def Let_def\<close>)
  qed (auto simp: fld_post_def dec_post_def Let_def)
qed simp

lemma make_substream_lags:
  assumes "in_bounds s" "pb_make_string_substream s = (Ok sub, s1)"
  shows "lags s s1"
proof -
  have m: "unat (bytes_left sub) + unat (bytes_left s1) < unat (bytes_left s)"
      "advances s (s1\<lparr>bytes_left := bytes_left s1 + bytes_left sub\<rparr>)"
    using make_substream_contract(4)[OF assms] by auto
  have "unat (bytes_left s1 + bytes_left sub) = unat (bytes_left s1) + unat (bytes_left sub)"
    using m(1) unat_less_two_power[of "bytes_left s"] by (simp add: unat_word_ariths)
  moreover obtain k where "k + unat (bytes_left s1 + bytes_left sub) = unat (bytes_left s)"
      "case istate s of Buffer bs \<Rightarrow> istate s1 = Buffer (drop k bs) | User _ \<Rightarrow> \<exists>cb. istate s1 = User cb"
    using m(2) by (cases "istate s") (auto simp: advances_def)
  ultimately show ?thesis unfolding lags_def by (intro exI[of _ k]) simp
qed

lemma dec_post_Err: "unchanged A h h' \<Longrightarrow> lags s s' \<Longrightarrow> dec_post A (s, h) (Err, (s', h'))"
  by (simp add: dec_post_def)

lemma packed_field_post:
  assumes item: "\<And>n. n < array_size (cur it) \<Longrightarrow> dec_ok N A (func (cur it) (item_addr (pData it) (cur it) n))"
    and prog: "\<And>a s h s' h'. in_bounds s \<Longrightarrow> func (cur it) a (s, h) = (Ok (), (s', h')) \<Longrightarrow>
                 unat (bytes_left s') < unat (bytes_left s)"
    and size: "size_in A (pSize it)" and s: "in_bounds s" "unat (bytes_left s) < N"
  shows "fld_post A (s, h)
    (checkreturn (on_fst (on_fst pb_make_string_substream) ((s, h), fc)) (\<lambda>sub ((s, h), fc).
       case packed_loop (Suc (unat (bytes_left sub))) func it ((sub, h), fc) of
         (status, ((sub, h), fc)) \<Rightarrow>
           if status = UB \<or> status = Fuel then (status, ((s, h), fc))
           else if bytes_left sub \<noteq> 0 then fld_error ''array overflow'' ((s, h), fc)
           else on_fst (close_substream status sub) ((s, h), fc)))"
proof -
  obtain r s1 where r: "pb_make_string_substream s = (r, s1)" by (metis prod.collapse)
  show ?thesis
  proof (cases r)
    case (Ok sub)
    have m: "in_bounds sub" "unat (bytes_left sub) < N"
      using make_substream_contract(4)[OF s(1), of sub s1] r Ok s(2) by auto
    obtain st sub' h' fc' where q: "packed_loop (Suc (unat (bytes_left sub))) func it ((sub, h), fc) = (st, ((sub', h'), fc'))"
      by (metis prod.collapse)
    have "fld_post A (sub, h) (packed_loop (Suc (unat (bytes_left sub))) func it ((sub, h), fc))"
      by (rule packed_loop_post[where N = N]) (use item prog size m in auto)
    then have p: "dec_post A (sub, h) (st, (sub', h'))" using q by (simp add: fld_post_def)
    then have "st \<noteq> UB" "st \<noteq> Fuel" "unchanged A h h'" by (auto simp: dec_post_def)
    then show ?thesis
      using r Ok q close_substream_post[OF _ s(1) p, of s1] make_substream_lags[OF s(1), of sub s1]
      by (auto simp: fld_post_def PB_RETURN_ERROR_i_def intro!: dec_post_Err)
  qed (use make_substream_contract(1,2)[OF s(1)] make_substream_fails[OF s(1)] r in \<open>auto simp: fld_post_def\<close>)
qed

text \<open>Any HTYPE is one of the four codes.\<close>

lemma PB_HTYPE_cases:
  "PB_HTYPE x = PB_HTYPE_REQUIRED \<or> PB_HTYPE x = PB_HTYPE_OPTIONAL \<or> PB_HTYPE x = PB_HTYPE_REPEATED \<or> PB_HTYPE x = PB_HTYPE_ONEOF"
proof -
  have "PB_HTYPE x = push_bit 4 (take_bit 2 (drop_bit 4 x))"
    unfolding PB_HTYPE_def
  proof (rule bit_word_eqI)
    fix k assume "k < LENGTH(8)"
    moreover have "(0x30 :: u8) = push_bit 4 (mask 2)" by (simp add: mask_eq_exp_minus_1 push_bit_eq_mult)
    ultimately show "bit (x AND 0x30) k \<longleftrightarrow> bit (push_bit 4 (take_bit 2 (drop_bit 4 x))) k"
      by (auto simp only: bit_simps) auto
  qed
  moreover have "unat (take_bit 2 (drop_bit 4 x)) < 4"
    by (simp only: unsigned_take_bit_eq) (simp add: take_bit_eq_mod)
  then have "unat (take_bit 2 (drop_bit 4 x)) \<in> {0, 1, 2, 3}" by auto
  then have "take_bit 2 (drop_bit 4 x) \<in> {0, 1, 2, 3}" by (auto simp only: word_unat_eq_iff insert_iff) simp_all
  ultimately show ?thesis by (auto simp: push_bit_eq_mult)
qed

context submessage_decoder
begin

lemma oneof_field_post:
  assumes lay: "field_layout (layout d) sz (cur it) off so" and pd: "pData it = dst + off" and ps: "pSize it = At (dst + so)"
    and n: "d \<le> n" and s: "in_bounds s" "unat (bytes_left s) < Suc N"
    and ty: "PB_HTYPE (ftype (cur it)) = PB_HTYPE_ONEOF"
  shows "fld_post (region dst sz) (s, h) (decode_static_field n env rec wt it ((s, h), fc))"
proof -
  let ?f = "cur it" and ?A = "region dst sz"
  let ?h1 = "store_u32 (dst + so) (tag ?f) h"
  have reg: "region (pData it) (unat (data_size ?f)) \<subseteq> ?A" using field_layout_region(1)[OF lay, of dst] ty pd by simp
  have h1: "unchanged ?A h ?h1"
    using field_layout_region(4)[OF lay, of dst] ty by (intro unchanged_typed_store) simp
  have func: "fld_post ?A (s, h2) (on_fst (PB_DECODERS env rec (PB_LTYPE (ftype ?f)) ?f (pData it)) ((s, h2), fc))" for h2
    by (rule fld_post_on_fst[OF dec_ok_field[OF lay reg] s])
  show ?thesis
  proof (cases "ptr ?f")
    case (Submsg fs)
    have sub: "PB_LTYPE (ftype ?f) = PB_LTYPE_SUBMESSAGE" "layout d (unat (data_size ?f)) fs"
      using field_layoutD(8)[OF lay Submsg] by auto
    let ?h2 = "memset0 (pData it) (unat (data_size ?f)) ?h1"
    obtain h3 where h3: "pb_message_set_to_defaults n env fs (pData it) ?h2 = (Ok (), h3)"
        "unchanged (region (pData it) (unat (data_size ?f))) ?h2 h3"
      using defaults_frame[OF sub(2) n] by blast
    have "unchanged ?A ?h1 ?h2" using reg by (intro unchanged_typed_store)
    then have "unchanged ?A h h3" using h1 unchanged_mono[OF h3(2) reg] unchanged_trans by meson
    from fld_post_trans[OF advances_refl this func] show ?thesis
      using ty sub(1) Submsg h3(1) ps
      by (simp add: decode_static_field_def Let_def put_size_def on_heap_def del: pb_message_set_to_defaults.simps)
  next
    case Null
    then show ?thesis
      using ty field_layoutD(6)[OF lay] ps fld_post_trans[OF advances_refl h1 func]
      by (simp add: decode_static_field_def Let_def put_size_def)
  next
    case (Default bs)
    then show ?thesis
      using ty field_layoutD(7)[OF lay] ps fld_post_trans[OF advances_refl h1 func]
      by (simp add: decode_static_field_def Let_def put_size_def)
  qed
qed

lemma repeated_field_post:
  assumes lay: "field_layout (layout d) sz (cur it) off so" and pd: "pData it = dst + off"
    and ps: "pSize it = At (dst + so) \<or> pSize it = Local"
    and s: "in_bounds s" "unat (bytes_left s) < Suc N" and ty: "PB_HTYPE (ftype (cur it)) = PB_HTYPE_REPEATED"
  shows "fld_post (region dst sz) (s, h) (decode_static_field n env rec wt it ((s, h), fc))"
proof -
  let ?f = "cur it" and ?A = "region dst sz" and ?func = "PB_DECODERS env rec (PB_LTYPE (ftype (cur it)))"
  have size: "size_in ?A (pSize it)"
    using ps field_layout_region(4)[OF lay disjI1[OF ty], of dst] by (auto simp: size_in_def simp del: in_region)
  have item: "dec_ok (Suc N) ?A (?func ?f (item_addr (pData it) ?f k))" if "k < array_size ?f" for k
    using item_region[OF _ that field_layoutD(9)[OF lay ty]] field_layout_region(2)[OF lay ty, of dst] pd
    by (intro dec_ok_field[OF lay]) simp
  show ?thesis
  proof (cases "wt = PB_WT_STRING \<and> PB_LTYPE (ftype ?f) \<le> PB_LTYPE_LAST_PACKABLE")
    case True
    have "fld_post ?A (s, h)
      (checkreturn (on_fst (on_fst pb_make_string_substream) ((s, h), fc)) (\<lambda>sub ((s, h), fc).
       case packed_loop (Suc (unat (bytes_left sub))) ?func it ((sub, h), fc) of
         (status, ((sub, h), fc)) \<Rightarrow>
           if status = UB \<or> status = Fuel then (status, ((s, h), fc))
           else if bytes_left sub \<noteq> 0 then fld_error ''array overflow'' ((s, h), fc)
           else on_fst (close_substream status sub) ((s, h), fc)))"
      by (rule packed_field_post[where N = "Suc N"]) (use item size s packed_progress True in blast)+
    then show ?thesis using ty True by (simp add: decode_static_field_def Let_def del: on_fst_eq)
  next
    case False
    let ?k = "get_size (pSize it) ((s, h), fc)"
    obtain h1 fc1 where w: "put_size (pSize it) (?k + 1) ((s, h), fc) = ((s, h1), fc1)" "unchanged ?A h h1"
      using put_size_frame[OF size] .
    have eq: "decode_static_field n env rec wt it ((s, h), fc) =
        (if ?k \<ge> array_size ?f then fld_error ''array overflow'' ((s, h1), fc1)
         else on_fst (?func ?f (item_addr (pData it) ?f ?k)) ((s, h1), fc1))"
      using ty False w(1) by (auto simp: decode_static_field_def Let_def simp del: packed_loop.simps on_fst_eq)
    show ?thesis
    proof (cases "?k \<ge> array_size ?f")
      case True
      then show ?thesis unfolding eq using w(2) by (simp add: fld_post_def PB_RETURN_ERROR_i_def dec_post_Err)
    next
      case False
      then show ?thesis unfolding eq
        using fld_post_trans[OF advances_refl w(2) fld_post_on_fst[OF item s]] by simp
    qed
  qed
qed

lemma static_field_post:
  assumes lay: "field_layout (layout d) sz (cur it) off so" and pd: "pData it = dst + off"
    and ps: "pSize it = At (dst + so) \<or> pSize it = Local \<and> PB_HTYPE (ftype (cur it)) = PB_HTYPE_REPEATED"
    and n: "d \<le> n" and s: "in_bounds s" "unat (bytes_left s) < Suc N"
  shows "fld_post (region dst sz) (s, h) (decode_static_field n env rec wt it ((s, h), fc))"
proof -
  let ?f = "cur it" and ?A = "region dst sz"
  have func: "fld_post ?A (s, h2) (on_fst (PB_DECODERS env rec (PB_LTYPE (ftype ?f)) ?f (pData it)) ((s, h2), fc))"
    if "PB_HTYPE (ftype ?f) \<noteq> PB_HTYPE_REPEATED" for h2
    using field_layout_region(1)[OF lay that, of dst] pd by (intro fld_post_on_fst[OF dec_ok_field[OF lay] s]) simp
  consider (req) "PB_HTYPE (ftype ?f) = PB_HTYPE_REQUIRED" | (opt) "PB_HTYPE (ftype ?f) = PB_HTYPE_OPTIONAL"
    | (rep) "PB_HTYPE (ftype ?f) = PB_HTYPE_REPEATED" | (oneof) "PB_HTYPE (ftype ?f) = PB_HTYPE_ONEOF"
    using PB_HTYPE_cases by blast
  then show ?thesis
  proof cases
    case req
    then show ?thesis using func[of h] by (simp add: decode_static_field_def Let_def)
  next
    case opt
    let ?h1 = "if dst + so \<noteq> pData it then store_bool (dst + so) True h else h"
    have "unchanged ?A h ?h1"
      using field_layout_region(3)[OF lay opt, of dst] pd by (simp add: unchanged_typed_store del: in_region)
    from fld_post_trans[OF advances_refl this func] show ?thesis
      using opt ps by (simp add: decode_static_field_def Let_def)
  next
    case rep
    then show ?thesis using repeated_field_post[OF lay pd _ s rep] ps by blast
  next
    case oneof
    then show ?thesis using oneof_field_post[OF lay pd _ n s oneof] ps by auto
  qed
qed

end

section \<open>Iterators of a running decoder\<close>

definition iter_ok :: "pb_field_t list \<Rightarrow> addr \<Rightarrow> pb_field_iter_t \<Rightarrow> bool" where
  "iter_ok fs dst it \<longleftrightarrow>
     (\<exists>k < n_fields fs. it = iter_at fs dst k \<or>
        it = (iter_at fs dst k)\<lparr>pSize := Local\<rparr> \<and> PB_HTYPE (ftype (field_at fs k)) = PB_HTYPE_REPEATED)"

lemma iter_next_Local:
  assumes "PB_HTYPE (ftype (cur it)) = PB_HTYPE_REPEATED" "tag (cur it) \<noteq> 0"
  shows "pb_field_iter_next (it\<lparr>pSize := x\<rparr>) = pb_field_iter_next it"
  using assms by (simp add: pb_field_iter_next_def Let_def)

lemma iter_search_Local:
  assumes "PB_HTYPE (ftype (cur it)) = PB_HTYPE_REPEATED" "tag (cur it) \<noteq> 0"
  shows "iter_search (Suc m) P st (it\<lparr>pSize := x\<rparr>) =
    (if P (cur it) then Some (True, it\<lparr>pSize := x\<rparr>) else iter_search (Suc m) P st it)"
  by (simp add: iter_next_Local[OF assms])

lemma iter_ok_props:
  assumes "table_ok fs" "iter_ok fs dst it"
  obtains k where "k < n_fields fs" "start it = fs" "pos it = k" "pData it = dst + pData (iter_at fs 0 k)"
    "pSize it = At (dst + size_off (iter_at fs 0 k)) \<or>
       pSize it = Local \<and> PB_HTYPE (ftype (field_at fs k)) = PB_HTYPE_REPEATED"
    "it = iter_at fs dst k \<or> it = (iter_at fs dst k)\<lparr>pSize := Local\<rparr>"
proof -
  obtain k where k: "k < n_fields fs" "it = iter_at fs dst k \<or>
      it = (iter_at fs dst k)\<lparr>pSize := Local\<rparr> \<and> PB_HTYPE (ftype (field_at fs k)) = PB_HTYPE_REPEATED"
    using assms(2) by (auto simp: iter_ok_def)
  then show ?thesis
    using that[of k] iter_at_inv[OF assms(1), of k dst] pData_iter_at[of fs dst k] pSize_iter_at[of fs dst k] by auto
qed

lemma iter_ok_search:
  assumes ok: "table_ok fs" and it: "iter_ok fs dst it"
  obtains b it' where "iter_search (Suc (length (start it))) P (pos it) it = Some (b, it')" "iter_ok fs dst it'"
    "b \<Longrightarrow> P (cur it')" "b \<longleftrightarrow> (\<exists>f \<in> set (butlast fs). P f)"
proof -
  obtain k where k: "k < n_fields fs" "it = iter_at fs dst k \<or>
      it = (iter_at fs dst k)\<lparr>pSize := Local\<rparr> \<and> PB_HTYPE (ftype (field_at fs k)) = PB_HTYPE_REPEATED"
    using it by (auto simp: iter_ok_def)
  have inv: "start (iter_at fs dst k) = fs" "pos (iter_at fs dst k) = k"
    using iter_at_inv[OF ok, of k dst] k(1) by auto
  have st: "start it = fs" "pos it = k" using k(2) inv by auto
  obtain b j where r: "iter_search (Suc (length fs)) P k (iter_at fs dst k) = Some (b, iter_at fs dst j)"
      "j < n_fields fs" "b \<longleftrightarrow> (\<exists>f \<in> set (butlast fs). P f)" "b \<Longrightarrow> P (field_at fs j)"
    using iter_search_correct[OF ok k(1), of P dst] by blast
  have j: "iter_ok fs dst (iter_at fs dst j)" "cur (iter_at fs dst j) = field_at fs j"
    using r(2) iter_at_inv[OF ok, of j dst] by (auto simp: iter_ok_def)
  show ?thesis
  proof (cases "it = iter_at fs dst k \<or> \<not> P (field_at fs k)")
    case True
    moreover have "tag (field_at fs k) \<noteq> 0" using table_ok_tag[OF ok] k(1) by simp
    ultimately have "iter_search (Suc (length fs)) P k it = Some (b, iter_at fs dst j)"
      using k(2) r(1) inv iter_search_Local[of "iter_at fs dst k" "length fs" P k Local] by (auto simp del: iter_search.simps)
    then show ?thesis using r j st that[of b "iter_at fs dst j"] by simp
  next
    case False
    then have "cur it = field_at fs k" "P (field_at fs k)" using st by simp_all
    moreover have "field_at fs k \<in> set (butlast fs)" using k(1) by (auto simp: set_butlast_field_at)
    ultimately show ?thesis using it st that[of True it] by auto
  qed
qed

lemma pb_decode_tag_bound:
  assumes "pb_decode_tag s = (eof, (Ok (wt, t), s'))"
  shows "t < 2 ^ 29"
proof -
  obtain temp :: u32 where "t = drop_bit 3 temp"
    using assms by (auto simp: pb_decode_tag_def split: prod.splits outcome.splits if_splits)
  then have "unat t = unat temp div 8"
    by (simp only: unat_drop_bit_eq) (simp add: drop_bit_eq_div)
  then show ?thesis using unat_less_two_power[of temp] by (simp add: word_less_nat_alt)
qed

section \<open>One field\<close>

text \<open>What a step of the loop promises when it returns an iterator or the loop's variables.\<close>

definition step_post :: "addr set \<Rightarrow> ('a \<Rightarrow> bool) \<Rightarrow> dec_state \<Rightarrow> ('a, fld_state) res \<Rightarrow> bool" where
  "step_post A Q st res \<longleftrightarrow> fld_post A st res \<and> (\<forall>v. fst res = Ok v \<longrightarrow> Q v)"

lemma step_post_trans:
  "advances s s' \<Longrightarrow> unchanged A h h' \<Longrightarrow> step_post A Q (s', h') res \<Longrightarrow> step_post A Q (s, h) res"
  by (auto simp: step_post_def intro: fld_post_trans)

lemma step_post_seq:
  assumes f: "step_post A Q (s, h) res"
    and k: "\<And>v s' h' fc'. Q v \<Longrightarrow> advances s s' \<Longrightarrow> step_post A R (s', h') (k v ((s', h'), fc'))"
  shows "step_post A R (s, h) (checkreturn res k)"
proof -
  obtain r s' h' fc' where r: "res = (r, ((s', h'), fc'))" by (metis prod.collapse)
  show ?thesis
  proof (cases r)
    case (Ok v)
    then have "advances s s'" "unchanged A h h'" "Q v"
      using f r by (auto simp: step_post_def fld_post_def dec_post_def)
    then show ?thesis using step_post_trans k r Ok by fastforce
  qed (use f r in \<open>auto simp: step_post_def fld_post_def dec_post_def\<close>)
qed

lemma step_post_fld: "fld_post A st res \<Longrightarrow> step_post A (\<lambda>_. True) st res"
  by (simp add: step_post_def)

lemma step_post_Ok: "Q v \<Longrightarrow> step_post A Q (s, h) (Ok v, ((s, h), fc))"
  by (simp add: step_post_def fld_post_def dec_post_def)

lemma step_post_error: "step_post A Q (s, h) (on_fst (dec_error msg) ((s, h), fc))"
  by (simp add: step_post_def fld_post_def dec_post_def PB_RETURN_ERROR_i_def)

context submessage_decoder
begin

lemma union_post:
  assumes lay: "layout (Suc d) sz fs" and n: "Suc d \<le> n" and k: "k < n_fields fs"
    and ty: "PB_LTYPE (ftype (field_at fs k)) \<noteq> PB_LTYPE_EXTENSION"
  shows "step_post A (iter_ok fs dst) (s, h) (pb_release_union_field n env (iter_at fs dst k) ((s, h), fc))"
proof -
  have ok: "table_ok fs" using lay by simp
  let ?it = "iter_at fs dst k" and ?st = "((s, h), fc)"
  let ?old = "get_size (pSize ?it) ?st" and ?new = "tag (cur ?it)"
  have c: "cur ?it = field_at fs k" using iter_at_inv[OF ok, of k dst] k by auto
  have it: "iter_ok fs dst ?it" using k by (auto simp: iter_ok_def)
  obtain b j where f1: "pb_field_iter_find ?it ?old = Some (b, iter_at fs dst j)" "j < n_fields fs"
    using iter_find_on_cycle[OF ok k] by blast
  obtain b2 j2 where f2: "pb_field_iter_find (iter_at fs dst j) ?new = Some (b2, iter_at fs dst j2)" "j2 < n_fields fs"
    using iter_find_on_cycle[OF ok f1(2)] by blast
  have rel: "pb_release_single_field n env (iter_at fs dst j) h = (Ok (), h)"
    using release_single_same[OF lay n f1(2)] .
  have j2: "iter_ok fs dst (iter_at fs dst j2)" using f2(2) by (auto simp: iter_ok_def)
  show ?thesis
    using it f1(1) f2(1) rel j2 step_post_Ok[of "iter_ok fs dst"] step_post_error[of A "iter_ok fs dst"]
    by (cases b; cases b2) (auto simp: pb_release_union_field_def Let_def on_heap_def)
qed

lemma decode_field_post:
  assumes lay: "layout (Suc d) sz fs" and n: "Suc d \<le> n" and it: "iter_ok fs dst it"
    and s: "in_bounds s" "unat (bytes_left s) < Suc N"
  shows "step_post (region dst sz) (iter_ok fs dst) (s, h) (decode_field n env rec wt it ((s, h), fc))"
proof -
  let ?A = "region dst sz"
  have ok: "table_ok fs" using lay by simp
  have union: "step_post ?A (iter_ok fs dst) (s, h)
      (if PB_HTYPE (ftype (cur it)) = PB_HTYPE_ONEOF then pb_release_union_field n env it ((s, h), fc) else (Ok it, ((s, h), fc)))"
  proof (cases "PB_HTYPE (ftype (cur it)) = PB_HTYPE_ONEOF")
    case True
    obtain k where k: "k < n_fields fs" "start it = fs" "pos it = k"
        "it = iter_at fs dst k \<or> it = (iter_at fs dst k)\<lparr>pSize := Local\<rparr>"
        "pSize it = At (dst + size_off (iter_at fs 0 k)) \<or>
         pSize it = Local \<and> PB_HTYPE (ftype (field_at fs k)) = PB_HTYPE_REPEATED"
      using iter_ok_props[OF ok it] by metis
    have "pSize it \<noteq> Local" using k(2,3,5) True by auto
    moreover have "pSize ((iter_at fs dst k)\<lparr>pSize := Local\<rparr>) = Local" by simp
    ultimately have "it = iter_at fs dst k" using k(4) by metis
    moreover have "PB_LTYPE (ftype (field_at fs k)) \<noteq> PB_LTYPE_EXTENSION"
      using lay k(1) field_layoutD(2) by auto
    ultimately show ?thesis using union_post[OF lay n k(1)] True by simp
  qed (simp add: step_post_Ok it)
  have field: "step_post ?A (iter_ok fs dst) (t, h1)
      (checkreturn (if PB_ATYPE (ftype (cur i)) = PB_ATYPE_STATIC then decode_static_field n env rec wt i ((t, h1), fc1)
          else if PB_ATYPE (ftype (cur i)) = PB_ATYPE_POINTER then decode_pointer_field n env rec wt i ((t, h1), fc1)
          else if PB_ATYPE (ftype (cur i)) = PB_ATYPE_CALLBACK then on_fst (decode_callback_field n env wt i) ((t, h1), fc1)
          else fld_error ''invalid field type'' ((t, h1), fc1)) (\<lambda>_ st. (Ok i, st)))"
    if i: "iter_ok fs dst i" and t: "advances s t" for i t h1 fc1
  proof -
    obtain k where k: "k < n_fields fs" "start i = fs" "pos i = k" "pData i = dst + pData (iter_at fs 0 k)"
        "pSize i = At (dst + size_off (iter_at fs 0 k)) \<or>
         pSize i = Local \<and> PB_HTYPE (ftype (field_at fs k)) = PB_HTYPE_REPEATED"
      using iter_ok_props[OF ok i] by metis
    have l: "field_layout (layout d) sz (cur i) (pData (iter_at fs 0 k)) (size_off (iter_at fs 0 k))"
      using lay k by simp
    have "fld_post ?A (t, h1) (decode_static_field n env rec wt i ((t, h1), fc1))"
      using k n s(2) advances_in_bounds[OF t s(1)] advances_bytes_left[OF t]
      by (intro static_field_post[OF l]) auto
    then show ?thesis
      using field_layoutD(1)[OF l] i by (simp, intro step_post_seq[OF step_post_fld] step_post_Ok) simp
  qed
  show ?thesis unfolding decode_field_def Let_def by (rule step_post_seq[OF union field])
qed

lemma known_field_post:
  assumes lay: "layout (Suc d) sz fs" and n: "Suc d \<le> n" and it: "iter_ok fs dst (v_iter v)"
    and s: "in_bounds s" "unat (bytes_left s) < Suc N"
  shows "step_post (region dst sz) (\<lambda>v. iter_ok fs dst (v_iter v)) (s, h) (known_field n env rec wt v ((s, h), fc))"
proof -
  let ?A = "region dst sz" and ?it = "v_iter v" and ?ty = "ftype (cur (v_iter v))"
  let ?Q = "\<lambda>v::noinit_vars. iter_ok fs dst (v_iter v)"
  have ok: "table_ok fs" using lay by simp
  have local: "iter_ok fs dst (?it\<lparr>pSize := Local\<rparr>)" if "PB_HTYPE ?ty = PB_HTYPE_REPEATED"
  proof -
    obtain k where k: "k < n_fields fs" "start ?it = fs" "pos ?it = k"
        "?it = iter_at fs dst k \<or> ?it = (iter_at fs dst k)\<lparr>pSize := Local\<rparr>"
      using iter_ok_props[OF ok it] by metis
    have "?it\<lparr>pSize := Local\<rparr> = (iter_at fs dst k)\<lparr>pSize := Local\<rparr>"
      using k(4) by (rule disjE) (erule ssubst, simp)+
    moreover have "PB_HTYPE (ftype (field_at fs k)) = PB_HTYPE_REPEATED" using that k(2,3) by simp
    ultimately show ?thesis unfolding iter_ok_def using k(1) by blast
  qed
  have fixed: "step_post ?A ?Q (s, h)
      (if PB_HTYPE ?ty = PB_HTYPE_REPEATED \<and> pSize ?it = At (pData ?it) then
           (if v_fc_field v \<noteq> Some (pos ?it) then
              (if \<not> fixed_count_done v ((s, h), fc)
               then on_fst (dec_error ''wrong size for fixed count field'') ((s, h), fc)
               else (Ok (v\<lparr>v_fc_field := Some (pos ?it), v_iter := ?it\<lparr>pSize := Local\<rparr>\<rparr>), ((s, h), 0)))
            else (Ok (v\<lparr>v_iter := ?it\<lparr>pSize := Local\<rparr>\<rparr>), ((s, h), fc)))
         else (Ok v, ((s, h), fc)))"
    using it local by (auto simp: step_post_Ok step_post_error simp del: on_fst_eq)
  show ?thesis
    unfolding known_field_def Let_def prod.case
  proof (rule step_post_seq[OF fixed])
    fix w s' h' fc'
    assume w: "?Q w" and adv: "advances s s'"
    show "step_post ?A ?Q (s', h')
        (checkreturn (decode_field n env rec wt (v_iter (mark_seen ?ty w)) ((s', h'), fc'))
          (\<lambda>it st. (Ok ((mark_seen ?ty w)\<lparr>v_iter := it\<rparr>), st)))"
      using w s advances_in_bounds[OF adv s(1)] advances_bytes_left[OF adv]
      by (intro step_post_seq[OF decode_field_post[OF lay n]]) (auto simp: step_post_Ok)
  qed
qed

lemma unknown_field_post:
  assumes lay: "layout (Suc d) sz fs" and it: "iter_ok fs dst (v_iter v)" and t: "t < 2 ^ 29" and s: "in_bounds s"
  shows "step_post (region dst sz) (\<lambda>v. iter_ok fs dst (v_iter v)) (s, h) (unknown_field n env rec t wt v ((s, h), fc))"
proof -
  let ?A = "region dst sz" and ?Q = "\<lambda>v::noinit_vars. iter_ok fs dst (v_iter v)"
  have ok: "table_ok fs" using lay by simp
  have skip: "step_post ?A ?Q (s, h)
      (checkreturn (on_fst (on_fst (pb_skip_field wt)) ((s, h), fc)) (\<lambda>_ st. (Ok v', st)))" if "?Q v'" for v'
  proof (rule step_post_seq[OF step_post_fld])
    show "fld_post ?A (s, h) (on_fst (on_fst (pb_skip_field wt)) ((s, h), fc))"
      by (rule fld_post_on_fst[OF dec_ok_reader[OF pb_skip_field.stream_reader_axioms] s]) (rule lessI)
  qed (use that in \<open>auto simp: step_post_Ok\<close>)
  have none: "\<not> (\<exists>f \<in> set (butlast fs). PB_LTYPE (ftype f) = PB_LTYPE_EXTENSION)"
    using lay field_layoutD(2) by (auto simp: set_butlast_field_at)
  obtain it' where find: "find_extension_field (v_iter v) = Some (False, it')" "iter_ok fs dst it'"
    using iter_ok_search[OF ok it, of "\<lambda>f. PB_LTYPE (ftype f) = PB_LTYPE_EXTENSION"] none
    unfolding find_extension_field_def by metis
  have "\<not> t \<ge> - 1"
    using t order.strict_trans2[of t "2 ^ 29" "- 1"] by (simp add: not_le)
  then show ?thesis
    using find skip it by (simp add: unknown_field_def Let_def del: on_fst_eq)
qed

lemma noinit_loop_post:
  assumes lay: "layout (Suc d) sz fs" and n: "Suc d \<le> n"
  shows "iter_ok fs dst (v_iter v) \<Longrightarrow> in_bounds s \<Longrightarrow> unat (bytes_left s) < Suc N \<Longrightarrow> unat (bytes_left s) < k \<Longrightarrow>
    step_post (region dst sz) (\<lambda>v. iter_ok fs dst (v_iter v)) (s, h) (noinit_loop k n env rec v ((s, h), fc))"
proof (induction k arbitrary: v s h fc)
  case (Suc k)
  let ?A = "region dst sz" and ?Q = "\<lambda>v::noinit_vars. iter_ok fs dst (v_iter v)"
  have ok: "table_ok fs" using lay by simp
  obtain eof r s1 where tg: "pb_decode_tag s = (eof, (r, s1))" by (metis prod.collapse)
  have c: "r \<noteq> UB" "r \<noteq> Fuel" "advances s s1" using pb_decode_tag_contract[OF Suc.prems(2)] tg by auto
  show ?case
  proof (cases "bytes_left s = 0")
    case True
    then show ?thesis using Suc.prems(1) by (simp add: step_post_Ok)
  next
    case left: False
    show ?thesis
    proof (cases r)
      case (Ok w)
      obtain wt t where w: "w = (wt, t)" by (cases w)
      have t: "t < 2 ^ 29" using pb_decode_tag_bound tg Ok w by blast
      have less: "unat (bytes_left s1) < unat (bytes_left s)"
        using pb_decode_tag_progress[OF Suc.prems(2)] tg Ok by blast
      have s1: "in_bounds s1" "unat (bytes_left s1) < Suc N"
        using advances_in_bounds[OF c(3) Suc.prems(2)] less Suc.prems(3) by auto
      obtain b it' where f: "pb_field_iter_find (v_iter v) t = Some (b, it')" "iter_ok fs dst it'"
        using iter_ok_search[OF ok Suc.prems(1), of "\<lambda>f. tag f = t \<and> PB_LTYPE (ftype f) \<noteq> PB_LTYPE_EXTENSION"]
        unfolding pb_field_iter_find_def by blast
      have one: "step_post ?A ?Q (s1, h)
          (if b then known_field n env rec wt (v\<lparr>v_iter := it'\<rparr>) ((s1, h), fc)
           else unknown_field n env rec t wt (v\<lparr>v_iter := it'\<rparr>) ((s1, h), fc))"
        using known_field_post[OF lay n _ s1] unknown_field_post[OF lay _ t s1(1)] f(2) by simp
      have "step_post ?A ?Q (s1, h) (checkreturn
          (if b then known_field n env rec wt (v\<lparr>v_iter := it'\<rparr>) ((s1, h), fc)
           else unknown_field n env rec t wt (v\<lparr>v_iter := it'\<rparr>) ((s1, h), fc)) (noinit_loop k n env rec))"
      proof (rule step_post_seq[OF one])
        fix v' :: noinit_vars and s2 h2 fc2 assume "iter_ok fs dst (v_iter v')" "advances s1 s2"
        then show "step_post ?A ?Q (s2, h2) (noinit_loop k n env rec v' ((s2, h2), fc2))"
          using advances_in_bounds[OF _ s1(1)] advances_bytes_left[of s1 s2] s1(2) less Suc.prems(4)
          by (intro Suc.IH) auto
      qed
      from step_post_trans[OF c(3) unchanged_refl this] show ?thesis
        using left tg Ok w f(1) by simp
    next
      case Err
      then show ?thesis
        using left tg c(3) Suc.prems(1)
        by (auto simp: step_post_def fld_post_def dec_post_def advances_lags)
    qed (use c in auto)
  qed
qed simp

lemma noinit_body_ok:
  assumes lay: "layout (Suc d) sz fs" and n: "Suc d \<le> n" "N < n"
  shows "dec_ok (Suc N) (region dst sz) (noinit_body n env rec fs dst)"
proof (rule dec_okI)
  fix s h assume s: "in_bounds s" "unat (bytes_left s) < Suc N"
  have ok: "table_ok fs" "0 < n_fields fs" using lay by auto
  let ?v = "\<lparr>v_iter = snd (pb_field_iter_begin fs dst), v_seen = [0, 0], v_ext_start = 0, v_fc_field = None\<rparr>"
  have it: "iter_ok fs dst (v_iter ?v)"
    using ok by (auto simp: iter_begin_at[OF ok(1)] iter_ok_def simp del: pb_field_iter_begin_def)
  have loop: "step_post (region dst sz) (\<lambda>v. iter_ok fs dst (v_iter v)) (s, h) (noinit_loop n n env rec ?v ((s, h), 0))"
    using s n by (intro noinit_loop_post[OF lay n(1) it]) auto
  have "step_post (region dst sz) (\<lambda>_. True) (s, h) (checkreturn (noinit_loop n n env rec ?v ((s, h), 0)) noinit_finish)"
    by (rule step_post_seq[OF loop]) (auto simp: noinit_finish_def step_post_Ok step_post_error simp del: on_fst_eq)
  then show "dec_post (region dst sz) (s, h) (noinit_body n env rec fs dst (s, h))"
    unfolding noinit_body_def Let_def by (auto simp: step_post_def fld_post_def split: prod.splits)
qed

end

lemma decode_with_ok:
  assumes lay: "layout d sz fs" and n: "d \<le> n" and dec: "dec_ok N (region dst sz) (noinit fs dst)"
  shows "dec_ok N (region dst sz) (decode_with n env noinit fs dst)"
proof (rule dec_okI)
  fix s h assume s: "in_bounds s" "unat (bytes_left s) < N"
  obtain h1 where h1: "pb_message_set_to_defaults n env fs dst h = (Ok (), h1)" "unchanged (region dst sz) h h1"
    using defaults_frame[OF lay n] by blast
  obtain r s' h' where r: "noinit fs dst (s, h1) = (r, (s', h'))" by (metis prod.collapse)
  have "dec_post (region dst sz) (s, h) (r, (s', h'))"
    using dec_post_trans[OF advances_refl h1(2)] dec_okD[OF dec s] r by metis
  moreover have "decode_with n env noinit fs dst (s, h) = (r, (s', h'))" if "r \<noteq> UB" "r \<noteq> Fuel"
    using h1(1) r release_same[OF lay n] that by (cases r) (auto simp: decode_with_def on_heap_def)
  ultimately show "dec_post (region dst sz) (s, h) (decode_with n env noinit fs dst (s, h))"
    by (auto simp: dec_post_def)
qed

text \<open>The decoders that \<^verbatim>\<open>pb_decode_noinit\<close> hands to the fields of its message.\<close>

abbreviation submsg_rec :: "nat \<Rightarrow> pb_env \<Rightarrow> submsg_decoder" where
  "submsg_rec n env \<equiv> \<lambda>init. if init then decode_with n env (pb_decode_noinit n env) else pb_decode_noinit n env"

lemma submessage_decoder_pb_decode: "d < n \<Longrightarrow> N < n \<Longrightarrow> submessage_decoder (submsg_rec n env) N d"
proof (induction n arbitrary: d N)
  case (Suc m)
  show ?case
  proof
    fix sz fs dst init assume lay: "layout d sz fs"
    have noinit: "dec_ok N (region dst sz) (pb_decode_noinit (Suc m) env fs dst)"
    proof (cases N)
      case (Suc N')
      obtain d' where d: "d = Suc d'" using lay by (cases d) auto
      then have "submessage_decoder (submsg_rec m env) N' d'" using Suc.IH Suc.prems \<open>N = Suc N'\<close> by simp
      from submessage_decoder.noinit_body_ok[OF this] show ?thesis
        using lay d Suc.prems \<open>N = Suc N'\<close> by simp
    qed (simp add: dec_ok_def)
    then show "dec_ok N (region dst sz) (submsg_rec (Suc m) env init fs dst)"
      using decode_with_ok[where noinit = "pb_decode_noinit (Suc m) env", OF lay _ noinit] Suc.prems(1) by simp
  qed
qed simp

interpretation pb_decode_rec: submessage_decoder "submsg_rec (Suc n) env" n n for n env
  by (rule submessage_decoder_pb_decode) simp_all

lemma dec_ok_pb_decode:
  assumes "layout d sz fs" "d < n" "N < n"
  shows "dec_ok N (region dst sz) (pb_decode n env fs dst)" "dec_ok N (region dst sz) (pb_decode_noinit n env fs dst)"
proof -
  have rec: "submessage_decoder (submsg_rec n env) N d" using submessage_decoder_pb_decode assms(2,3) .
  show "dec_ok N (region dst sz) (pb_decode n env fs dst)"
    using submessage_decoder.safe[OF rec assms(1), where init = True] by (simp add: pb_decode_def)
  show "dec_ok N (region dst sz) (pb_decode_noinit n env fs dst)"
    using submessage_decoder.safe[OF rec assms(1), where init = False] by simp
qed

section \<open>Properties\<close>

definition qos_fields :: "pb_field_t list" where
  "qos_fields = [Pb_field 2 0x11 4 (- 4) 4 0 Null, Pb_field 3 0x10 4 (- 4) 4 0 Null, PB_LAST_FIELD]"

definition zero_heap :: heap where
  "zero_heap = \<lparr>hbytes = \<lambda>_. 0, live = []\<rparr>"

lemma qos_layout: "layout 1 16 qos_fields"
  by code_simp

text \<open>C1: whatever bytes arrive, \<^verbatim>\<open>pb_decode\<close> into a statically allocated message returns true or
  false after a bounded number of steps: it never reads outside the input, never writes outside
  the structure it was given, and leaves the stream usable.\<close>

theorem decode_memory_safe:
  assumes "layout d sz fs" "d < n" "in_bounds s" "Suc (unat (bytes_left s)) < n"
  shows "\<exists>r s' h'. pb_decode n env fs dst (s, h) = (r, (s', h')) \<and> (r = Ok () \<or> r = Err) \<and>
    unchanged (region dst sz) h h' \<and> in_bounds s' \<and> bytes_left s' \<le> bytes_left s"
proof -
  obtain r s' h' where r: "pb_decode n env fs dst (s, h) = (r, (s', h'))" by (metis prod.collapse)
  have "dec_post (region dst sz) (s, h) (r, (s', h'))"
    using dec_okD[OF dec_ok_pb_decode(1)[OF assms(1,2,4)] assms(3), of dst h env] r by simp
  then have "r \<noteq> UB" "r \<noteq> Fuel" "unchanged (region dst sz) h h'" "lags s s'" by (auto simp: dec_post_def)
  then show ?thesis
    using r lags_in_bounds[OF _ assms(3)] lags_bytes_left[of s s'] by (cases r) (auto simp: word_le_nat_alt)
qed

theorem decode_memory_safe_witness:
  "\<exists>r s' h'. pb_decode 9 no_env qos_fields 64 (pb_istream_from_buffer [0x10, 3, 0x18, 7] 4, zero_heap) = (r, (s', h')) \<and>
    (r = Ok () \<or> r = Err) \<and> unchanged (region 64 16) zero_heap h' \<and> in_bounds s' \<and> bytes_left s' \<le> 4"
  using decode_memory_safe[OF qos_layout, of 9 "pb_istream_from_buffer [0x10, 3, 0x18, 7] 4" no_env 64 zero_heap]
  by (simp add: pb_istream_from_buffer_def in_bounds_def)

end
