(* ===== verification/Pb_Tables.thy ===== *)
theory Pb_Tables
  imports Pb_Layout
begin

text \<open>
  What the tables generated from the proto files rely on: the C structures the generator declares,
  as lists of members, and the statement that a table describes a structure, i.e. that the
  iterator reaches every member of it, with its presence flag or its count.
\<close>

section \<open>Members of generated structures\<close>

text \<open>Sizes and alignments of the C types the generator uses, on LP64; enums are 32 bits wide.\<close>

definition c_bool :: "string \<Rightarrow> member" where
  "c_bool m = \<lparr>m_name = m, m_size = 1, m_align = 1, m_elem = 1, m_type = C_integer\<rparr>"

definition c_int32 :: "string \<Rightarrow> member" where
  "c_int32 m = \<lparr>m_name = m, m_size = 4, m_align = 4, m_elem = 4, m_type = C_integer\<rparr>"

definition c_int64 :: "string \<Rightarrow> member" where
  "c_int64 m = \<lparr>m_name = m, m_size = 8, m_align = 8, m_elem = 8, m_type = C_integer\<rparr>"

text \<open>A pointer to items of the type \<open>ty\<close>, of \<open>n\<close> bytes each.\<close>

definition c_pointer :: "string \<Rightarrow> c_type \<Rightarrow> nat \<Rightarrow> member" where
  "c_pointer m ty n = \<lparr>m_name = m, m_size = 8, m_align = 8, m_elem = n, m_type = ty\<rparr>"

text \<open>A member of the structure type \<open>T\<close>, whose members are \<open>st\<close>.\<close>

definition c_struct :: "string \<Rightarrow> string \<Rightarrow> member list \<Rightarrow> member" where
  "c_struct m T st =
     \<lparr>m_name = m, m_size = sizeof_struct st, m_align = struct_align st, m_elem = sizeof_struct st, m_type = C_message T\<rparr>"

text \<open>\<^verbatim>\<open>pb_bytes_array_t\<close> is a \<^verbatim>\<open>pb_size_t\<close> followed by one byte, padded.\<close>

definition sizeof_pb_bytes_array_t :: nat where
  "sizeof_pb_bytes_array_t = 8"

definition c_bytes :: "string \<Rightarrow> member" where
  "c_bytes m = c_pointer m C_bytes sizeof_pb_bytes_array_t"

section \<open>A table that describes a structure\<close>

text \<open>
  \<open>points_at offs m a\<close>: the structure with the offsets \<open>offs\<close> has a member \<open>m\<close>, and it lies at \<open>a\<close>.
  \<open>field_describes\<close>: the iterator \<open>it\<close>, over a structure at address 0, points at the member
  \<open>m\<close>; its size pointer points at the member that tells whether, or how often, \<open>m\<close> is present.
\<close>

definition points_at :: "(string \<times> nat) list \<Rightarrow> string \<Rightarrow> int \<Rightarrow> bool" where
  "points_at offs m a \<longleftrightarrow> (case map_of offs m of None \<Rightarrow> False | Some n \<Rightarrow> a = int n)"

definition field_describes :: "(string \<times> nat) list \<Rightarrow> member list \<Rightarrow> string \<Rightarrow> pb_field_iter_t \<Rightarrow> bool" where
  "field_describes offs st m it \<longleftrightarrow>
     (let f = cur it; ht = PB_HTYPE (ftype f); static = (PB_ATYPE (ftype f) = PB_ATYPE_STATIC) in
      points_at offs m (pData it)
      \<and> (ht = PB_HTYPE_OPTIONAL \<and> static \<longrightarrow>
           (case pSize it of At a \<Rightarrow> points_at offs (has_name m) a | Local \<Rightarrow> False))
      \<and> (ht = PB_HTYPE_REPEATED \<longrightarrow>
           (case pSize it of At a \<Rightarrow> points_at offs (count_name m) a | Local \<Rightarrow> False))
      \<and> uint (data_size f) = int (if static then pb_membersize st m else pb_elemsize st m))"

definition table_reaches :: "member list \<Rightarrow> string list \<Rightarrow> pb_field_t list \<Rightarrow> bool" where
  "table_reaches st ms fs \<longleftrightarrow>
     table_ok fs \<and> n_fields fs = length ms \<and> distinct (map tag fs) \<and>
     (let offs = offsets 0 st in
      list_all (\<lambda>k. field_describes offs st (ms ! k) (iter_at fs 0 k)) [0..<length ms])"

text \<open>
  The type of a field agrees with the type of the member: integers have one of the packable types and a default
  value of their size or none, byte strings are \<^verbatim>\<open>PB_LTYPE_BYTES\<close>, and a message of the type \<open>T\<close> refers to the table of \<open>T\<close>
  among the tables \<open>tabs\<close>, and has the size of the structure \<open>T\<close>.
\<close>

type_synonym message_tables = "(string \<times> member list \<times> pb_field_t list) list"

definition type_describes :: "message_tables \<Rightarrow> c_type \<Rightarrow> pb_field_t \<Rightarrow> bool" where
  "type_describes tabs ty f \<longleftrightarrow>
     (case ty of
        C_integer \<Rightarrow> PB_LTYPE (ftype f) \<le> PB_LTYPE_LAST_PACKABLE \<and>
          (case ptr f of Null \<Rightarrow> True | Default bs \<Rightarrow> length bs = unat (data_size f) | Submsg _ \<Rightarrow> False)
      | C_bytes \<Rightarrow> PB_LTYPE (ftype f) = PB_LTYPE_BYTES \<and> ptr f = Null
      | C_message T \<Rightarrow> PB_LTYPE (ftype f) = PB_LTYPE_SUBMESSAGE \<and>
          (case map_of tabs T of
             None \<Rightarrow> False
           | Some (st, fs) \<Rightarrow> ptr f = Submsg fs \<and> unat (data_size f) = sizeof_struct st))"

definition table_types :: "message_tables \<Rightarrow> member list \<Rightarrow> string list \<Rightarrow> pb_field_t list \<Rightarrow> bool" where
  "table_types tabs st ms fs \<longleftrightarrow> list_all2 (\<lambda>m f. type_describes tabs (m_type (find_member st m)) f) ms (butlast fs)"

definition table_describes :: "message_tables \<Rightarrow> member list \<Rightarrow> string list \<Rightarrow> pb_field_t list \<Rightarrow> bool" where
  "table_describes tabs st ms fs \<longleftrightarrow> table_reaches st ms fs \<and> table_types tabs st ms fs"

text \<open>The members of a generated structure that hold field values, in order.\<close>

definition value_members :: "member list \<Rightarrow> string list" where
  "value_members st =
     (let ms = map m_name st; aux = map has_name ms @ map count_name ms
      in filter (\<lambda>m. \<not> List.member aux m) ms)"

text \<open>What a table that describes a structure gives a caller: where the fields of a structure at any address lie, and
  which table a submessage refers to.\<close>

lemma table_describes_field:
  assumes "table_describes tabs st ms fs" "k < length ms"
  shows "pData (iter_at fs d k) = d + int (offsetof st (ms ! k))"
proof -
  have "points_at (offsets 0 st) (ms ! k) (pData (iter_at fs 0 k))"
    using assms by (auto simp: table_describes_def table_reaches_def list_all_iff field_describes_def Let_def)
  then show ?thesis
    by (simp add: points_at_def offsetof_def pData_iter_at[of fs d] split: option.splits)
qed

lemma table_describes_message:
  assumes "table_describes tabs st ms fs" "k < length ms" "m_type (find_member st (ms ! k)) = C_message T"
  obtains st' fs' where "(T, st', fs') \<in> set tabs" "ptr (field_at fs k) = Submsg fs'"
    "unat (data_size (field_at fs k)) = sizeof_struct st'"
proof -
  have t: "list_all2 (\<lambda>m f. type_describes tabs (m_type (find_member st m)) f) ms (butlast fs)"
    using assms(1) by (simp add: table_describes_def table_types_def)
  have k: "k < length (butlast fs)" using assms(2) list_all2_lengthD[OF t] by simp
  then have "field_at fs k = butlast fs ! k" by (auto simp: field_at_def nth_butlast)
  then have "type_describes tabs (C_message T) (field_at fs k)" using list_all2_nthD[OF t assms(2)] assms(3) by simp
  then show ?thesis using that by (auto simp: type_describes_def split: option.splits dest: map_of_SomeD)
qed

text \<open>The parts of an entry that the types depend on.\<close>

lemma PB_FIELD_parts:
  "ptr (PB_FIELD t ty r al pl st m prev p) = p"
  "PB_LTYPE (ftype (PB_FIELD t ty r al pl st m prev p)) = PB_LTYPE_MAP ty"
  "data_size (PB_FIELD t ty r al pl st m prev p) =
     word_of_nat (if al = POINTER \<or> al = STATIC \<and> r = REPEATED then pb_elemsize st m else pb_membersize st m)"
proof -
  show "ptr (PB_FIELD t ty r al pl st m prev p) = p" "data_size (PB_FIELD t ty r al pl st m prev p) =
     word_of_nat (if al = POINTER \<or> al = STATIC \<and> r = REPEATED then pb_elemsize st m else pb_membersize st m)"
    by (cases r; cases al; simp add: PB_FIELD_def)+
  show "PB_LTYPE (ftype (PB_FIELD t ty r al pl st m prev p)) = PB_LTYPE_MAP ty"
    by (cases r; cases al; cases ty; simp add: PB_FIELD_def PB_LTYPE_def)
qed

section \<open>One pass over the table\<close>

text \<open>
  That a table reaches the members of a structure, checked by one pass over the table. \<open>pd\<close> and \<open>ps\<close> are the pointers of the iterator at the
  field \<open>f\<close>, and \<open>fs\<close> are the entries that follow.
\<close>

definition member_size :: "pb_field_t \<Rightarrow> int" where
  "member_size f =
     (if PB_ATYPE (ftype f) = PB_ATYPE_STATIC \<and> PB_HTYPE (ftype f) = PB_HTYPE_REPEATED
      then uint (data_size f) * uint (array_size f)
      else if PB_ATYPE (ftype f) = PB_ATYPE_POINTER then 8 else uint (data_size f))"

definition describes_at :: "(string \<times> nat) list \<Rightarrow> member list \<Rightarrow> string \<Rightarrow> pb_field_t \<Rightarrow> int \<Rightarrow> size_ptr \<Rightarrow> bool" where
  "describes_at offs st m f pd ps \<longleftrightarrow>
     (let ht = PB_HTYPE (ftype f); static = (PB_ATYPE (ftype f) = PB_ATYPE_STATIC) in
      points_at offs m pd
      \<and> (ht = PB_HTYPE_OPTIONAL \<and> static \<longrightarrow> (case ps of At a \<Rightarrow> points_at offs (has_name m) a | Local \<Rightarrow> False))
      \<and> (ht = PB_HTYPE_REPEATED \<longrightarrow> (case ps of At a \<Rightarrow> points_at offs (count_name m) a | Local \<Rightarrow> False))
      \<and> uint (data_size f) = int (if static then pb_membersize st m else pb_elemsize st m))"

fun scan_describes ::
    "(string \<times> nat) list \<Rightarrow> member list \<Rightarrow> pb_field_t \<Rightarrow> int \<Rightarrow> size_ptr \<Rightarrow> pb_field_t list \<Rightarrow> string list \<Rightarrow> bool" where
  "scan_describes offs st f pd ps (f' # fs) (m # ms) \<longleftrightarrow>
     describes_at offs st m f pd ps \<and> PB_HTYPE (ftype f') \<noteq> PB_HTYPE_ONEOF \<and>
     (let pd' = pd + member_size f + uint (data_offset f') in
      scan_describes offs st f' pd' (At (pd' + sint (size_offset f'))) fs ms)"
| "scan_describes _ _ _ _ _ _ ms \<longleftrightarrow> ms = []"

lemma scan_describes_fields:
  assumes ok: "table_ok fs" and n: "n_fields fs = length ms"
    and "scan_describes offs st (field_at fs k) (pData (iter_at fs 0 k)) (pSize (iter_at fs 0 k)) (drop (Suc k) fs) (drop k ms)"
    and "k \<le> j" "j < length ms"
  shows "field_describes offs st (ms ! j) (iter_at fs 0 j)"
  using assms(3-5)
proof (induction "length ms - k" arbitrary: k)
  case (Suc x)
  then have k: "k < length ms" "Suc k < length fs" using n by (auto simp: n_fields_def)
  let ?f = "field_at fs k" and ?f' = "field_at fs (Suc k)" and ?it = "iter_at fs 0 k"
  have it: "start ?it = fs" "pos ?it = k" using iter_at_inv[OF ok, of k 0] k(1) n by auto
  have drop: "drop (Suc k) fs = ?f' # drop (Suc (Suc k)) fs" "drop k ms = ms ! k # drop (Suc k) ms"
    using k by (simp_all add: field_at_def Cons_nth_drop_Suc)
  note scan = Suc.prems(1)[unfolded drop scan_describes.simps Let_def]
  have cur: "field_describes offs st (ms ! k) ?it"
    using scan it by (simp add: field_describes_def describes_at_def Let_def)
  show ?case
  proof (cases "j = k")
    case False
    then have "Suc k < length ms" using Suc.prems by simp
    then have tags: "tag ?f \<noteq> 0" "tag ?f' \<noteq> 0" using table_ok_tag[OF ok] n by auto
    have "pData (iter_at fs 0 (Suc k)) = pData ?it + member_size ?f + uint (data_offset ?f')"
      "pSize (iter_at fs 0 (Suc k)) = At (pData (iter_at fs 0 (Suc k)) + sint (size_offset ?f'))"
      using tags conjunct1[OF conjunct2[OF scan]] it by (simp_all add: iter_at.simps(2) pb_field_iter_next_def Let_def member_size_def)
    then show ?thesis using Suc.hyps(1)[of "Suc k"] Suc.hyps(2) Suc.prems False scan by simp
  qed (use cur in simp)
qed simp

lemma table_reachesI:
  assumes "table_ok fs" "n_fields fs = length ms" "distinct (map tag fs)"
    and "scan_describes (offsets 0 st) st (field_at fs 0) (pData (iter_at fs 0 0)) (pSize (iter_at fs 0 0)) (tl fs) ms"
  shows "table_reaches st ms fs"
  using assms scan_describes_fields[OF assms(1,2), of "offsets 0 st" st 0]
  by (auto simp: table_reaches_def list_all_iff Let_def drop_Suc)

end
