(* ===== verification/Cct_Nanopb.thy ===== *)
theory Cct_Nanopb
  imports Pb_Tables
begin

text \<open>
  \<^verbatim>\<open>cct.nanopb.h\<close> and \<^verbatim>\<open>cct.nanopb.c\<close> of GoogleDataTransportCCTSupport: the messages of the logging
  back end. Every enum is a datatype with its numbering, every structure the list of its members,
  every descriptor table the list of its \<^verbatim>\<open>PB_FIELD\<close> entries.
\<close>

section \<open>Enums\<close>

datatype gdt_cct_NetworkConnectionInfo_NetworkType =
    gdt_cct_NetworkConnectionInfo_NetworkType_NONE
  | gdt_cct_NetworkConnectionInfo_NetworkType_MOBILE
  | gdt_cct_NetworkConnectionInfo_NetworkType_WIFI
  | gdt_cct_NetworkConnectionInfo_NetworkType_MOBILE_MMS
  | gdt_cct_NetworkConnectionInfo_NetworkType_MOBILE_SUPL
  | gdt_cct_NetworkConnectionInfo_NetworkType_MOBILE_DUN
  | gdt_cct_NetworkConnectionInfo_NetworkType_MOBILE_HIPRI
  | gdt_cct_NetworkConnectionInfo_NetworkType_WIMAX
  | gdt_cct_NetworkConnectionInfo_NetworkType_BLUETOOTH
  | gdt_cct_NetworkConnectionInfo_NetworkType_DUMMY
  | gdt_cct_NetworkConnectionInfo_NetworkType_ETHERNET
  | gdt_cct_NetworkConnectionInfo_NetworkType_MOBILE_FOTA
  | gdt_cct_NetworkConnectionInfo_NetworkType_MOBILE_IMS
  | gdt_cct_NetworkConnectionInfo_NetworkType_MOBILE_CBS
  | gdt_cct_NetworkConnectionInfo_NetworkType_WIFI_P2P
  | gdt_cct_NetworkConnectionInfo_NetworkType_MOBILE_IA
  | gdt_cct_NetworkConnectionInfo_NetworkType_MOBILE_EMERGENCY
  | gdt_cct_NetworkConnectionInfo_NetworkType_PROXY
  | gdt_cct_NetworkConnectionInfo_NetworkType_VPN

fun gdt_cct_NetworkConnectionInfo_NetworkType_value :: "gdt_cct_NetworkConnectionInfo_NetworkType \<Rightarrow> 32 word" where
  "gdt_cct_NetworkConnectionInfo_NetworkType_value gdt_cct_NetworkConnectionInfo_NetworkType_NONE = - 1"
| "gdt_cct_NetworkConnectionInfo_NetworkType_value gdt_cct_NetworkConnectionInfo_NetworkType_MOBILE = 0"
| "gdt_cct_NetworkConnectionInfo_NetworkType_value gdt_cct_NetworkConnectionInfo_NetworkType_WIFI = 1"
| "gdt_cct_NetworkConnectionInfo_NetworkType_value gdt_cct_NetworkConnectionInfo_NetworkType_MOBILE_MMS = 2"
| "gdt_cct_NetworkConnectionInfo_NetworkType_value gdt_cct_NetworkConnectionInfo_NetworkType_MOBILE_SUPL = 3"
| "gdt_cct_NetworkConnectionInfo_NetworkType_value gdt_cct_NetworkConnectionInfo_NetworkType_MOBILE_DUN = 4"
| "gdt_cct_NetworkConnectionInfo_NetworkType_value gdt_cct_NetworkConnectionInfo_NetworkType_MOBILE_HIPRI = 5"
| "gdt_cct_NetworkConnectionInfo_NetworkType_value gdt_cct_NetworkConnectionInfo_NetworkType_WIMAX = 6"
| "gdt_cct_NetworkConnectionInfo_NetworkType_value gdt_cct_NetworkConnectionInfo_NetworkType_BLUETOOTH = 7"
| "gdt_cct_NetworkConnectionInfo_NetworkType_value gdt_cct_NetworkConnectionInfo_NetworkType_DUMMY = 8"
| "gdt_cct_NetworkConnectionInfo_NetworkType_value gdt_cct_NetworkConnectionInfo_NetworkType_ETHERNET = 9"
| "gdt_cct_NetworkConnectionInfo_NetworkType_value gdt_cct_NetworkConnectionInfo_NetworkType_MOBILE_FOTA = 10"
| "gdt_cct_NetworkConnectionInfo_NetworkType_value gdt_cct_NetworkConnectionInfo_NetworkType_MOBILE_IMS = 11"
| "gdt_cct_NetworkConnectionInfo_NetworkType_value gdt_cct_NetworkConnectionInfo_NetworkType_MOBILE_CBS = 12"
| "gdt_cct_NetworkConnectionInfo_NetworkType_value gdt_cct_NetworkConnectionInfo_NetworkType_WIFI_P2P = 13"
| "gdt_cct_NetworkConnectionInfo_NetworkType_value gdt_cct_NetworkConnectionInfo_NetworkType_MOBILE_IA = 14"
| "gdt_cct_NetworkConnectionInfo_NetworkType_value gdt_cct_NetworkConnectionInfo_NetworkType_MOBILE_EMERGENCY = 15"
| "gdt_cct_NetworkConnectionInfo_NetworkType_value gdt_cct_NetworkConnectionInfo_NetworkType_PROXY = 16"
| "gdt_cct_NetworkConnectionInfo_NetworkType_value gdt_cct_NetworkConnectionInfo_NetworkType_VPN = 17"

datatype gdt_cct_NetworkConnectionInfo_MobileSubtype =
    gdt_cct_NetworkConnectionInfo_MobileSubtype_UNKNOWN_MOBILE_SUBTYPE
  | gdt_cct_NetworkConnectionInfo_MobileSubtype_GPRS
  | gdt_cct_NetworkConnectionInfo_MobileSubtype_EDGE
  | gdt_cct_NetworkConnectionInfo_MobileSubtype_UMTS
  | gdt_cct_NetworkConnectionInfo_MobileSubtype_CDMA
  | gdt_cct_NetworkConnectionInfo_MobileSubtype_EVDO_0
  | gdt_cct_NetworkConnectionInfo_MobileSubtype_EVDO_A
  | gdt_cct_NetworkConnectionInfo_MobileSubtype_RTT
  | gdt_cct_NetworkConnectionInfo_MobileSubtype_HSDPA
  | gdt_cct_NetworkConnectionInfo_MobileSubtype_HSUPA
  | gdt_cct_NetworkConnectionInfo_MobileSubtype_HSPA
  | gdt_cct_NetworkConnectionInfo_MobileSubtype_IDEN
  | gdt_cct_NetworkConnectionInfo_MobileSubtype_EVDO_B
  | gdt_cct_NetworkConnectionInfo_MobileSubtype_LTE
  | gdt_cct_NetworkConnectionInfo_MobileSubtype_EHRPD
  | gdt_cct_NetworkConnectionInfo_MobileSubtype_HSPAP
  | gdt_cct_NetworkConnectionInfo_MobileSubtype_GSM
  | gdt_cct_NetworkConnectionInfo_MobileSubtype_TD_SCDMA
  | gdt_cct_NetworkConnectionInfo_MobileSubtype_IWLAN
  | gdt_cct_NetworkConnectionInfo_MobileSubtype_LTE_CA
  | gdt_cct_NetworkConnectionInfo_MobileSubtype_COMBINED

fun gdt_cct_NetworkConnectionInfo_MobileSubtype_value :: "gdt_cct_NetworkConnectionInfo_MobileSubtype \<Rightarrow> 32 word" where
  "gdt_cct_NetworkConnectionInfo_MobileSubtype_value gdt_cct_NetworkConnectionInfo_MobileSubtype_UNKNOWN_MOBILE_SUBTYPE = 0"
| "gdt_cct_NetworkConnectionInfo_MobileSubtype_value gdt_cct_NetworkConnectionInfo_MobileSubtype_GPRS = 1"
| "gdt_cct_NetworkConnectionInfo_MobileSubtype_value gdt_cct_NetworkConnectionInfo_MobileSubtype_EDGE = 2"
| "gdt_cct_NetworkConnectionInfo_MobileSubtype_value gdt_cct_NetworkConnectionInfo_MobileSubtype_UMTS = 3"
| "gdt_cct_NetworkConnectionInfo_MobileSubtype_value gdt_cct_NetworkConnectionInfo_MobileSubtype_CDMA = 4"
| "gdt_cct_NetworkConnectionInfo_MobileSubtype_value gdt_cct_NetworkConnectionInfo_MobileSubtype_EVDO_0 = 5"
| "gdt_cct_NetworkConnectionInfo_MobileSubtype_value gdt_cct_NetworkConnectionInfo_MobileSubtype_EVDO_A = 6"
| "gdt_cct_NetworkConnectionInfo_MobileSubtype_value gdt_cct_NetworkConnectionInfo_MobileSubtype_RTT = 7"
| "gdt_cct_NetworkConnectionInfo_MobileSubtype_value gdt_cct_NetworkConnectionInfo_MobileSubtype_HSDPA = 8"
| "gdt_cct_NetworkConnectionInfo_MobileSubtype_value gdt_cct_NetworkConnectionInfo_MobileSubtype_HSUPA = 9"
| "gdt_cct_NetworkConnectionInfo_MobileSubtype_value gdt_cct_NetworkConnectionInfo_MobileSubtype_HSPA = 10"
| "gdt_cct_NetworkConnectionInfo_MobileSubtype_value gdt_cct_NetworkConnectionInfo_MobileSubtype_IDEN = 11"
| "gdt_cct_NetworkConnectionInfo_MobileSubtype_value gdt_cct_NetworkConnectionInfo_MobileSubtype_EVDO_B = 12"
| "gdt_cct_NetworkConnectionInfo_MobileSubtype_value gdt_cct_NetworkConnectionInfo_MobileSubtype_LTE = 13"
| "gdt_cct_NetworkConnectionInfo_MobileSubtype_value gdt_cct_NetworkConnectionInfo_MobileSubtype_EHRPD = 14"
| "gdt_cct_NetworkConnectionInfo_MobileSubtype_value gdt_cct_NetworkConnectionInfo_MobileSubtype_HSPAP = 15"
| "gdt_cct_NetworkConnectionInfo_MobileSubtype_value gdt_cct_NetworkConnectionInfo_MobileSubtype_GSM = 16"
| "gdt_cct_NetworkConnectionInfo_MobileSubtype_value gdt_cct_NetworkConnectionInfo_MobileSubtype_TD_SCDMA = 17"
| "gdt_cct_NetworkConnectionInfo_MobileSubtype_value gdt_cct_NetworkConnectionInfo_MobileSubtype_IWLAN = 18"
| "gdt_cct_NetworkConnectionInfo_MobileSubtype_value gdt_cct_NetworkConnectionInfo_MobileSubtype_LTE_CA = 19"
| "gdt_cct_NetworkConnectionInfo_MobileSubtype_value gdt_cct_NetworkConnectionInfo_MobileSubtype_COMBINED = 100"

datatype gdt_cct_ClientInfo_ClientType =
    gdt_cct_ClientInfo_ClientType_CLIENT_UNKNOWN
  | gdt_cct_ClientInfo_ClientType_IOS_FIREBASE

fun gdt_cct_ClientInfo_ClientType_value :: "gdt_cct_ClientInfo_ClientType \<Rightarrow> 32 word" where
  "gdt_cct_ClientInfo_ClientType_value gdt_cct_ClientInfo_ClientType_CLIENT_UNKNOWN = 0"
| "gdt_cct_ClientInfo_ClientType_value gdt_cct_ClientInfo_ClientType_IOS_FIREBASE = 15"

datatype gdt_cct_QosTierConfiguration_QosTier =
    gdt_cct_QosTierConfiguration_QosTier_DEFAULT
  | gdt_cct_QosTierConfiguration_QosTier_UNMETERED_ONLY
  | gdt_cct_QosTierConfiguration_QosTier_UNMETERED_OR_DAILY
  | gdt_cct_QosTierConfiguration_QosTier_FAST_IF_RADIO_AWAKE
  | gdt_cct_QosTierConfiguration_QosTier_NEVER

fun gdt_cct_QosTierConfiguration_QosTier_value :: "gdt_cct_QosTierConfiguration_QosTier \<Rightarrow> 32 word" where
  "gdt_cct_QosTierConfiguration_QosTier_value gdt_cct_QosTierConfiguration_QosTier_DEFAULT = 0"
| "gdt_cct_QosTierConfiguration_QosTier_value gdt_cct_QosTierConfiguration_QosTier_UNMETERED_ONLY = 1"
| "gdt_cct_QosTierConfiguration_QosTier_value gdt_cct_QosTierConfiguration_QosTier_UNMETERED_OR_DAILY = 2"
| "gdt_cct_QosTierConfiguration_QosTier_value gdt_cct_QosTierConfiguration_QosTier_FAST_IF_RADIO_AWAKE = 3"
| "gdt_cct_QosTierConfiguration_QosTier_value gdt_cct_QosTierConfiguration_QosTier_NEVER = 4"

section \<open>Structures\<close>

definition gdt_cct_IosClientInfo_struct :: "member list" where
  "gdt_cct_IosClientInfo_struct =
    [c_bytes ''os_major_version'',
     c_bytes ''os_full_version'',
     c_bytes ''application_build'',
     c_bytes ''country'',
     c_bytes ''model'',
     c_bytes ''language_code'',
     c_bytes ''application_bundle_id'']"

definition gdt_cct_ClientInfo_struct :: "member list" where
  "gdt_cct_ClientInfo_struct =
    [c_bool ''has_client_type'',
     c_int32 ''client_type'',
     c_bool ''has_ios_client_info'',
     c_struct ''ios_client_info'' ''gdt_cct_IosClientInfo'' gdt_cct_IosClientInfo_struct]"

definition gdt_cct_NetworkConnectionInfo_struct :: "member list" where
  "gdt_cct_NetworkConnectionInfo_struct =
    [c_bool ''has_network_type'',
     c_int32 ''network_type'',
     c_bool ''has_mobile_subtype'',
     c_int32 ''mobile_subtype'']"

definition gdt_cct_LogEvent_struct :: "member list" where
  "gdt_cct_LogEvent_struct =
    [c_bool ''has_event_time_ms'',
     c_int64 ''event_time_ms'',
     c_bytes ''source_extension'',
     c_bool ''has_event_code'',
     c_int32 ''event_code'',
     c_bool ''has_timezone_offset_seconds'',
     c_int64 ''timezone_offset_seconds'',
     c_bool ''has_event_uptime_ms'',
     c_int64 ''event_uptime_ms'',
     c_bool ''has_network_connection_info'',
     c_struct ''network_connection_info'' ''gdt_cct_NetworkConnectionInfo'' gdt_cct_NetworkConnectionInfo_struct]"

definition gdt_cct_LogRequest_struct :: "member list" where
  "gdt_cct_LogRequest_struct =
    [c_bool ''has_client_info'',
     c_struct ''client_info'' ''gdt_cct_ClientInfo'' gdt_cct_ClientInfo_struct,
     c_bool ''has_log_source'',
     c_int32 ''log_source'',
     c_int32 ''log_event_count'',
     c_pointer ''log_event'' (C_message ''gdt_cct_LogEvent'') (sizeof_struct gdt_cct_LogEvent_struct),
     c_bool ''has_request_time_ms'',
     c_int64 ''request_time_ms'',
     c_bool ''has_request_uptime_ms'',
     c_int64 ''request_uptime_ms'',
     c_bool ''has_qos_tier'',
     c_int32 ''qos_tier'']"

definition gdt_cct_BatchedLogRequest_struct :: "member list" where
  "gdt_cct_BatchedLogRequest_struct =
    [c_int32 ''log_request_count'',
     c_pointer ''log_request'' (C_message ''gdt_cct_LogRequest'') (sizeof_struct gdt_cct_LogRequest_struct)]"

definition gdt_cct_QosTierConfiguration_struct :: "member list" where
  "gdt_cct_QosTierConfiguration_struct =
    [c_bool ''has_qos_tier'',
     c_int32 ''qos_tier'',
     c_bool ''has_log_source'',
     c_int32 ''log_source'']"

definition gdt_cct_QosTiersOverride_struct :: "member list" where
  "gdt_cct_QosTiersOverride_struct =
    [c_int32 ''qos_tier_configuration_count'',
     c_pointer ''qos_tier_configuration'' (C_message ''gdt_cct_QosTierConfiguration'') (sizeof_struct gdt_cct_QosTierConfiguration_struct),
     c_bool ''has_qos_tier_fingerprint'',
     c_int64 ''qos_tier_fingerprint'']"

definition gdt_cct_LogResponse_struct :: "member list" where
  "gdt_cct_LogResponse_struct =
    [c_bool ''has_next_request_wait_millis'',
     c_int64 ''next_request_wait_millis'',
     c_bool ''has_qos_tier'',
     c_struct ''qos_tier'' ''gdt_cct_QosTiersOverride'' gdt_cct_QosTiersOverride_struct]"

section \<open>Default values\<close>

definition gdt_cct_NetworkConnectionInfo_network_type_default :: pb_ptr where
  "gdt_cct_NetworkConnectionInfo_network_type_default = Default (le_of_word 4 (gdt_cct_NetworkConnectionInfo_NetworkType_value gdt_cct_NetworkConnectionInfo_NetworkType_NONE))"

definition gdt_cct_NetworkConnectionInfo_mobile_subtype_default :: pb_ptr where
  "gdt_cct_NetworkConnectionInfo_mobile_subtype_default = Default (le_of_word 4 (gdt_cct_NetworkConnectionInfo_MobileSubtype_value gdt_cct_NetworkConnectionInfo_MobileSubtype_UNKNOWN_MOBILE_SUBTYPE))"

definition gdt_cct_LogRequest_qos_tier_default :: pb_ptr where
  "gdt_cct_LogRequest_qos_tier_default = Default (le_of_word 4 (gdt_cct_QosTierConfiguration_QosTier_value gdt_cct_QosTierConfiguration_QosTier_DEFAULT))"

definition gdt_cct_QosTierConfiguration_log_source_default :: pb_ptr where
  "gdt_cct_QosTierConfiguration_log_source_default = Default (le_of_word 4 ((0 :: 32 word)))"

section \<open>Descriptor tables\<close>

definition gdt_cct_NetworkConnectionInfo_fields :: "pb_field_t list" where
  "gdt_cct_NetworkConnectionInfo_fields =
    [PB_FIELD 1 ENUM OPTIONAL STATIC FIRST gdt_cct_NetworkConnectionInfo_struct ''network_type'' ''network_type'' gdt_cct_NetworkConnectionInfo_network_type_default,
     PB_FIELD 2 UENUM OPTIONAL STATIC OTHER gdt_cct_NetworkConnectionInfo_struct ''mobile_subtype'' ''network_type'' gdt_cct_NetworkConnectionInfo_mobile_subtype_default,
     PB_LAST_FIELD]"

definition gdt_cct_LogEvent_fields :: "pb_field_t list" where
  "gdt_cct_LogEvent_fields =
    [PB_FIELD 1 INT64 OPTIONAL STATIC FIRST gdt_cct_LogEvent_struct ''event_time_ms'' ''event_time_ms'' Null,
     PB_FIELD 6 BYTES OPTIONAL POINTER OTHER gdt_cct_LogEvent_struct ''source_extension'' ''event_time_ms'' Null,
     PB_FIELD 11 INT32 OPTIONAL STATIC OTHER gdt_cct_LogEvent_struct ''event_code'' ''source_extension'' Null,
     PB_FIELD 15 SINT64 OPTIONAL STATIC OTHER gdt_cct_LogEvent_struct ''timezone_offset_seconds'' ''event_code'' Null,
     PB_FIELD 17 INT64 OPTIONAL STATIC OTHER gdt_cct_LogEvent_struct ''event_uptime_ms'' ''timezone_offset_seconds'' Null,
     PB_FIELD 23 MESSAGE OPTIONAL STATIC OTHER gdt_cct_LogEvent_struct ''network_connection_info'' ''event_uptime_ms'' (Submsg gdt_cct_NetworkConnectionInfo_fields),
     PB_LAST_FIELD]"

definition gdt_cct_IosClientInfo_fields :: "pb_field_t list" where
  "gdt_cct_IosClientInfo_fields =
    [PB_FIELD 3 BYTES OPTIONAL POINTER FIRST gdt_cct_IosClientInfo_struct ''os_major_version'' ''os_major_version'' Null,
     PB_FIELD 4 BYTES OPTIONAL POINTER OTHER gdt_cct_IosClientInfo_struct ''os_full_version'' ''os_major_version'' Null,
     PB_FIELD 5 BYTES OPTIONAL POINTER OTHER gdt_cct_IosClientInfo_struct ''application_build'' ''os_full_version'' Null,
     PB_FIELD 6 BYTES OPTIONAL POINTER OTHER gdt_cct_IosClientInfo_struct ''country'' ''application_build'' Null,
     PB_FIELD 7 BYTES OPTIONAL POINTER OTHER gdt_cct_IosClientInfo_struct ''model'' ''country'' Null,
     PB_FIELD 8 BYTES OPTIONAL POINTER OTHER gdt_cct_IosClientInfo_struct ''language_code'' ''model'' Null,
     PB_FIELD 11 BYTES OPTIONAL POINTER OTHER gdt_cct_IosClientInfo_struct ''application_bundle_id'' ''language_code'' Null,
     PB_LAST_FIELD]"

definition gdt_cct_ClientInfo_fields :: "pb_field_t list" where
  "gdt_cct_ClientInfo_fields =
    [PB_FIELD 1 UENUM OPTIONAL STATIC FIRST gdt_cct_ClientInfo_struct ''client_type'' ''client_type'' Null,
     PB_FIELD 4 MESSAGE OPTIONAL STATIC OTHER gdt_cct_ClientInfo_struct ''ios_client_info'' ''client_type'' (Submsg gdt_cct_IosClientInfo_fields),
     PB_LAST_FIELD]"

definition gdt_cct_LogRequest_fields :: "pb_field_t list" where
  "gdt_cct_LogRequest_fields =
    [PB_FIELD 1 MESSAGE OPTIONAL STATIC FIRST gdt_cct_LogRequest_struct ''client_info'' ''client_info'' (Submsg gdt_cct_ClientInfo_fields),
     PB_FIELD 2 INT32 OPTIONAL STATIC OTHER gdt_cct_LogRequest_struct ''log_source'' ''client_info'' Null,
     PB_FIELD 3 MESSAGE REPEATED POINTER OTHER gdt_cct_LogRequest_struct ''log_event'' ''log_source'' (Submsg gdt_cct_LogEvent_fields),
     PB_FIELD 4 INT64 OPTIONAL STATIC OTHER gdt_cct_LogRequest_struct ''request_time_ms'' ''log_event'' Null,
     PB_FIELD 8 INT64 OPTIONAL STATIC OTHER gdt_cct_LogRequest_struct ''request_uptime_ms'' ''request_time_ms'' Null,
     PB_FIELD 9 UENUM OPTIONAL STATIC OTHER gdt_cct_LogRequest_struct ''qos_tier'' ''request_uptime_ms'' gdt_cct_LogRequest_qos_tier_default,
     PB_LAST_FIELD]"

definition gdt_cct_BatchedLogRequest_fields :: "pb_field_t list" where
  "gdt_cct_BatchedLogRequest_fields =
    [PB_FIELD 1 MESSAGE REPEATED POINTER FIRST gdt_cct_BatchedLogRequest_struct ''log_request'' ''log_request'' (Submsg gdt_cct_LogRequest_fields),
     PB_LAST_FIELD]"

definition gdt_cct_QosTierConfiguration_fields :: "pb_field_t list" where
  "gdt_cct_QosTierConfiguration_fields =
    [PB_FIELD 2 UENUM OPTIONAL STATIC FIRST gdt_cct_QosTierConfiguration_struct ''qos_tier'' ''qos_tier'' Null,
     PB_FIELD 3 INT32 OPTIONAL STATIC OTHER gdt_cct_QosTierConfiguration_struct ''log_source'' ''qos_tier'' gdt_cct_QosTierConfiguration_log_source_default,
     PB_LAST_FIELD]"

definition gdt_cct_QosTiersOverride_fields :: "pb_field_t list" where
  "gdt_cct_QosTiersOverride_fields =
    [PB_FIELD 1 MESSAGE REPEATED POINTER FIRST gdt_cct_QosTiersOverride_struct ''qos_tier_configuration'' ''qos_tier_configuration'' (Submsg gdt_cct_QosTierConfiguration_fields),
     PB_FIELD 2 INT64 OPTIONAL STATIC OTHER gdt_cct_QosTiersOverride_struct ''qos_tier_fingerprint'' ''qos_tier_configuration'' Null,
     PB_LAST_FIELD]"

definition gdt_cct_LogResponse_fields :: "pb_field_t list" where
  "gdt_cct_LogResponse_fields =
    [PB_FIELD 1 INT64 OPTIONAL STATIC FIRST gdt_cct_LogResponse_struct ''next_request_wait_millis'' ''next_request_wait_millis'' Null,
     PB_FIELD 3 MESSAGE OPTIONAL STATIC OTHER gdt_cct_LogResponse_struct ''qos_tier'' ''next_request_wait_millis'' (Submsg gdt_cct_QosTiersOverride_fields),
     PB_LAST_FIELD]"

text \<open>The message types of the file, with the members of their structures and their descriptor tables.\<close>

definition gdt_cct_tables :: message_tables where
  "gdt_cct_tables =
    [(''gdt_cct_LogEvent'', gdt_cct_LogEvent_struct, gdt_cct_LogEvent_fields),
     (''gdt_cct_NetworkConnectionInfo'', gdt_cct_NetworkConnectionInfo_struct, gdt_cct_NetworkConnectionInfo_fields),
     (''gdt_cct_IosClientInfo'', gdt_cct_IosClientInfo_struct, gdt_cct_IosClientInfo_fields),
     (''gdt_cct_ClientInfo'', gdt_cct_ClientInfo_struct, gdt_cct_ClientInfo_fields),
     (''gdt_cct_BatchedLogRequest'', gdt_cct_BatchedLogRequest_struct, gdt_cct_BatchedLogRequest_fields),
     (''gdt_cct_LogRequest'', gdt_cct_LogRequest_struct, gdt_cct_LogRequest_fields),
     (''gdt_cct_QosTierConfiguration'', gdt_cct_QosTierConfiguration_struct, gdt_cct_QosTierConfiguration_fields),
     (''gdt_cct_QosTiersOverride'', gdt_cct_QosTiersOverride_struct, gdt_cct_QosTiersOverride_fields),
     (''gdt_cct_LogResponse'', gdt_cct_LogResponse_struct, gdt_cct_LogResponse_fields)]"

section \<open>The tables describe the structures\<close>

lemma LogEvent_reaches: "table_reaches gdt_cct_LogEvent_struct (value_members gdt_cct_LogEvent_struct) gdt_cct_LogEvent_fields"
  by code_simp

lemma NetworkConnectionInfo_reaches: "table_reaches gdt_cct_NetworkConnectionInfo_struct (value_members gdt_cct_NetworkConnectionInfo_struct) gdt_cct_NetworkConnectionInfo_fields"
  by code_simp

lemma IosClientInfo_reaches: "table_reaches gdt_cct_IosClientInfo_struct (value_members gdt_cct_IosClientInfo_struct) gdt_cct_IosClientInfo_fields"
  by code_simp

lemma ClientInfo_reaches: "table_reaches gdt_cct_ClientInfo_struct (value_members gdt_cct_ClientInfo_struct) gdt_cct_ClientInfo_fields"
  by code_simp

lemma BatchedLogRequest_reaches: "table_reaches gdt_cct_BatchedLogRequest_struct (value_members gdt_cct_BatchedLogRequest_struct) gdt_cct_BatchedLogRequest_fields"
  by code_simp

lemma LogRequest_reaches: "table_reaches gdt_cct_LogRequest_struct (value_members gdt_cct_LogRequest_struct) gdt_cct_LogRequest_fields"
  by code_simp

lemma QosTierConfiguration_reaches: "table_reaches gdt_cct_QosTierConfiguration_struct (value_members gdt_cct_QosTierConfiguration_struct) gdt_cct_QosTierConfiguration_fields"
  by code_simp

lemma QosTiersOverride_reaches: "table_reaches gdt_cct_QosTiersOverride_struct (value_members gdt_cct_QosTiersOverride_struct) gdt_cct_QosTiersOverride_fields"
  by code_simp

lemma LogResponse_reaches: "table_reaches gdt_cct_LogResponse_struct (value_members gdt_cct_LogResponse_struct) gdt_cct_LogResponse_fields"
  by code_simp

lemmas gdt_cct_reaches = LogEvent_reaches
  NetworkConnectionInfo_reaches
  IosClientInfo_reaches
  ClientInfo_reaches
  BatchedLogRequest_reaches
  LogRequest_reaches
  QosTierConfiguration_reaches
  QosTiersOverride_reaches
  LogResponse_reaches

text \<open>Which table stands for which message type. The tables themselves need not be unfolded for that.\<close>

lemma gdt_cct_table_of:
  "map_of gdt_cct_tables ''gdt_cct_LogEvent'' = Some (gdt_cct_LogEvent_struct, gdt_cct_LogEvent_fields)"
  "map_of gdt_cct_tables ''gdt_cct_NetworkConnectionInfo'' = Some (gdt_cct_NetworkConnectionInfo_struct, gdt_cct_NetworkConnectionInfo_fields)"
  "map_of gdt_cct_tables ''gdt_cct_IosClientInfo'' = Some (gdt_cct_IosClientInfo_struct, gdt_cct_IosClientInfo_fields)"
  "map_of gdt_cct_tables ''gdt_cct_ClientInfo'' = Some (gdt_cct_ClientInfo_struct, gdt_cct_ClientInfo_fields)"
  "map_of gdt_cct_tables ''gdt_cct_BatchedLogRequest'' = Some (gdt_cct_BatchedLogRequest_struct, gdt_cct_BatchedLogRequest_fields)"
  "map_of gdt_cct_tables ''gdt_cct_LogRequest'' = Some (gdt_cct_LogRequest_struct, gdt_cct_LogRequest_fields)"
  "map_of gdt_cct_tables ''gdt_cct_QosTierConfiguration'' = Some (gdt_cct_QosTierConfiguration_struct, gdt_cct_QosTierConfiguration_fields)"
  "map_of gdt_cct_tables ''gdt_cct_QosTiersOverride'' = Some (gdt_cct_QosTiersOverride_struct, gdt_cct_QosTiersOverride_fields)"
  "map_of gdt_cct_tables ''gdt_cct_LogResponse'' = Some (gdt_cct_LogResponse_struct, gdt_cct_LogResponse_fields)"
  by (simp_all add: gdt_cct_tables_def)

lemma gdt_cct_sizes:
  "sizeof_struct gdt_cct_LogEvent_struct = 88"
  "sizeof_struct gdt_cct_NetworkConnectionInfo_struct = 16"
  "sizeof_struct gdt_cct_IosClientInfo_struct = 56"
  "sizeof_struct gdt_cct_ClientInfo_struct = 72"
  "sizeof_struct gdt_cct_BatchedLogRequest_struct = 16"
  "sizeof_struct gdt_cct_LogRequest_struct = 144"
  "sizeof_struct gdt_cct_QosTierConfiguration_struct = 16"
  "sizeof_struct gdt_cct_QosTiersOverride_struct = 32"
  "sizeof_struct gdt_cct_LogResponse_struct = 56"
  by code_simp+

lemma gdt_cct_members:
  "value_members gdt_cct_LogEvent_struct = [''event_time_ms'', ''source_extension'', ''event_code'', ''timezone_offset_seconds'', ''event_uptime_ms'', ''network_connection_info'']"
  "value_members gdt_cct_NetworkConnectionInfo_struct = [''network_type'', ''mobile_subtype'']"
  "value_members gdt_cct_IosClientInfo_struct = [''os_major_version'', ''os_full_version'', ''application_build'', ''country'', ''model'', ''language_code'', ''application_bundle_id'']"
  "value_members gdt_cct_ClientInfo_struct = [''client_type'', ''ios_client_info'']"
  "value_members gdt_cct_BatchedLogRequest_struct = [''log_request'']"
  "value_members gdt_cct_LogRequest_struct = [''client_info'', ''log_source'', ''log_event'', ''request_time_ms'', ''request_uptime_ms'', ''qos_tier'']"
  "value_members gdt_cct_QosTierConfiguration_struct = [''qos_tier'', ''log_source'']"
  "value_members gdt_cct_QosTiersOverride_struct = [''qos_tier_configuration'', ''qos_tier_fingerprint'']"
  "value_members gdt_cct_LogResponse_struct = [''next_request_wait_millis'', ''qos_tier'']"
  by code_simp+

lemmas gdt_cct_type_defs = table_types_def type_describes_def PB_FIELD_parts gdt_cct_table_of gdt_cct_sizes gdt_cct_members
  find_member_def pb_membersize_def pb_elemsize_def c_bool_def c_int32_def c_int64_def c_pointer_def c_struct_def c_bytes_def
  gdt_cct_NetworkConnectionInfo_network_type_default_def gdt_cct_NetworkConnectionInfo_mobile_subtype_default_def
  gdt_cct_LogRequest_qos_tier_default_def gdt_cct_QosTierConfiguration_log_source_default_def

lemma LogEvent_types: "table_types gdt_cct_tables gdt_cct_LogEvent_struct (value_members gdt_cct_LogEvent_struct) gdt_cct_LogEvent_fields"
  unfolding gdt_cct_members gdt_cct_LogEvent_fields_def by (simp add: gdt_cct_type_defs gdt_cct_LogEvent_struct_def)

lemma NetworkConnectionInfo_types: "table_types gdt_cct_tables gdt_cct_NetworkConnectionInfo_struct (value_members gdt_cct_NetworkConnectionInfo_struct) gdt_cct_NetworkConnectionInfo_fields"
  unfolding gdt_cct_members gdt_cct_NetworkConnectionInfo_fields_def by (simp add: gdt_cct_type_defs gdt_cct_NetworkConnectionInfo_struct_def)

lemma IosClientInfo_types: "table_types gdt_cct_tables gdt_cct_IosClientInfo_struct (value_members gdt_cct_IosClientInfo_struct) gdt_cct_IosClientInfo_fields"
  unfolding gdt_cct_members gdt_cct_IosClientInfo_fields_def by (simp add: gdt_cct_type_defs gdt_cct_IosClientInfo_struct_def)

lemma ClientInfo_types: "table_types gdt_cct_tables gdt_cct_ClientInfo_struct (value_members gdt_cct_ClientInfo_struct) gdt_cct_ClientInfo_fields"
  unfolding gdt_cct_members gdt_cct_ClientInfo_fields_def by (simp add: gdt_cct_type_defs gdt_cct_ClientInfo_struct_def)

lemma BatchedLogRequest_types: "table_types gdt_cct_tables gdt_cct_BatchedLogRequest_struct (value_members gdt_cct_BatchedLogRequest_struct) gdt_cct_BatchedLogRequest_fields"
  unfolding gdt_cct_members gdt_cct_BatchedLogRequest_fields_def by (simp add: gdt_cct_type_defs gdt_cct_BatchedLogRequest_struct_def)

lemma LogRequest_types: "table_types gdt_cct_tables gdt_cct_LogRequest_struct (value_members gdt_cct_LogRequest_struct) gdt_cct_LogRequest_fields"
  unfolding gdt_cct_members gdt_cct_LogRequest_fields_def by (simp add: gdt_cct_type_defs gdt_cct_LogRequest_struct_def)

lemma QosTierConfiguration_types: "table_types gdt_cct_tables gdt_cct_QosTierConfiguration_struct (value_members gdt_cct_QosTierConfiguration_struct) gdt_cct_QosTierConfiguration_fields"
  unfolding gdt_cct_members gdt_cct_QosTierConfiguration_fields_def by (simp add: gdt_cct_type_defs gdt_cct_QosTierConfiguration_struct_def)

lemma QosTiersOverride_types: "table_types gdt_cct_tables gdt_cct_QosTiersOverride_struct (value_members gdt_cct_QosTiersOverride_struct) gdt_cct_QosTiersOverride_fields"
  unfolding gdt_cct_members gdt_cct_QosTiersOverride_fields_def by (simp add: gdt_cct_type_defs gdt_cct_QosTiersOverride_struct_def)

lemma LogResponse_types: "table_types gdt_cct_tables gdt_cct_LogResponse_struct (value_members gdt_cct_LogResponse_struct) gdt_cct_LogResponse_fields"
  unfolding gdt_cct_members gdt_cct_LogResponse_fields_def by (simp add: gdt_cct_type_defs gdt_cct_LogResponse_struct_def)

lemmas gdt_cct_types = LogEvent_types
  NetworkConnectionInfo_types
  IosClientInfo_types
  ClientInfo_types
  BatchedLogRequest_types
  LogRequest_types
  QosTierConfiguration_types
  QosTiersOverride_types
  LogResponse_types

lemma gdt_cct_describes: "(T, st, fs) \<in> set gdt_cct_tables \<Longrightarrow> table_describes gdt_cct_tables st (value_members st) fs"
  unfolding table_describes_def by (auto simp: gdt_cct_tables_def gdt_cct_reaches gdt_cct_types[unfolded gdt_cct_tables_def])

text \<open>C27: every descriptor table of \<^verbatim>\<open>cct.nanopb.c\<close> describes its structure: in a structure at any address \<open>d\<close> the iterator reaches
  each value member in turn, at its offset, with its \<^verbatim>\<open>has_\<close> flag or its \<^verbatim>\<open>_count\<close>; the type of each field agrees with the C type of
  the member; a field whose member is a message, or points to messages, refers to the descriptor table of just that
  message type and has the size of its structure; and no tag occurs twice.\<close>

theorem gdt_cct_tables_describe:
  assumes "(T, st, fs) \<in> set gdt_cct_tables"
  shows "table_describes gdt_cct_tables st (value_members st) fs \<and>
    (\<forall>d k. k < length (value_members st) \<longrightarrow>
       pData (iter_at fs d k) = d + int (offsetof st (value_members st ! k)) \<and>
       (\<forall>T'. m_type (find_member st (value_members st ! k)) = C_message T' \<longrightarrow>
          (\<exists>st' fs'. (T', st', fs') \<in> set gdt_cct_tables \<and> ptr (field_at fs k) = Submsg fs' \<and>
             unat (data_size (field_at fs k)) = sizeof_struct st')))"
  using gdt_cct_describes[OF assms] table_describes_field table_describes_message by metis

theorem gdt_cct_tables_describe_witness:
  "pData (iter_at gdt_cct_LogRequest_fields 4096 2) = 4096 + 96 \<and>
    ptr (field_at gdt_cct_LogRequest_fields 2) = Submsg gdt_cct_LogEvent_fields"
proof -
  let ?st = gdt_cct_LogRequest_struct
  have "(''gdt_cct_LogRequest'', ?st, gdt_cct_LogRequest_fields) \<in> set gdt_cct_tables"
    using gdt_cct_table_of by (blast dest: map_of_SomeD)
  note d = gdt_cct_tables_describe[OF this, THEN conjunct2, rule_format, of 2]
  have m: "value_members ?st ! 2 = ''log_event''" "2 < length (value_members ?st)"
    "m_type (find_member ?st (value_members ?st ! 2)) = C_message ''gdt_cct_LogEvent''"
    unfolding gdt_cct_members by (simp_all add: find_member_def gdt_cct_LogRequest_struct_def c_struct_def c_bool_def c_int32_def c_pointer_def)
  moreover have "offsetof ?st ''log_event'' = 96" by code_simp
  ultimately show ?thesis using d[of 4096] unfolding gdt_cct_tables_def by auto
qed

end
