(* ===== verification/Cct_Sizes.thy ===== *)
theory Cct_Sizes
  imports Cct_Nanopb Pb_Encode_Laws
begin

text \<open>
  The maximum encoded sizes that \<^verbatim>\<open>cct.nanopb.h\<close> states, and what the library does with the messages
  they are stated for.
\<close>

section \<open>Maximum encoded sizes\<close>

definition gdt_cct_NetworkConnectionInfo_size :: nat where
  "gdt_cct_NetworkConnectionInfo_size = 13"

definition gdt_cct_QosTierConfiguration_size :: nat where
  "gdt_cct_QosTierConfiguration_size = 13"

lemma NetworkConnectionInfo_table:
  "gdt_cct_NetworkConnectionInfo_fields =
     [Pb_field 1 0x10 4 (- 4) 4 0 (Default [0xff, 0xff, 0xff, 0xff]), Pb_field 2 0x11 4 (- 4) 4 0 (Default [0, 0, 0, 0]), PB_LAST_FIELD]"
  by code_simp

lemma QosTierConfiguration_table:
  "gdt_cct_QosTierConfiguration_fields =
     [Pb_field 2 0x11 4 (- 4) 4 0 Null, Pb_field 3 0x10 4 (- 4) 4 0 (Default [0, 0, 0, 0]), PB_LAST_FIELD]"
  by code_simp

section \<open>Messages of two optional 32-bit fields\<close>

lemma optional_records:
  assumes ty: "PB_HTYPE ty = PB_HTYPE_OPTIONAL" "PB_ATYPE ty = PB_ATYPE_STATIC"
    "PB_LTYPE ty = PB_LTYPE_VARINT \<or> PB_LTYPE ty = PB_LTYPE_UVARINT"
  shows "entry_records n rec h (Pb_field t ty off (- 4) 4 0 p) pd =
    Some (if \<not> load_bool h (pd - 4) then []
      else [(t, Varint (if PB_LTYPE ty = PB_LTYPE_VARINT then scast (load_u32 h pd) else ucast (load_u32 h pd)))])"
proof -
  let ?f = "Pb_field t ty off (- 4) 4 0 p"
  have "present n h ?f pd = Some (load_bool h (pd - 4))" by (simp add: present_def)
  moreover have "field_value rec h ?f pd =
      Some (Varint (if PB_LTYPE ty = PB_LTYPE_VARINT then scast (load_u32 h pd) else ucast (load_u32 h pd)))"
    using ty(3) by (auto simp: field_value_def load_signed_def load_unsigned_def load_u32_def)
  ultimately show ?thesis
    using ty by (auto simp: entry_records_def field_records_def Let_def)
qed

lemma two_optional_records:
  assumes ok: "table_ok fs" "n_fields fs = 2" and pd: "pData (iter_at fs 0 0) = 4" "pData (iter_at fs 0 1) = 12"
    and e: "entry_records 0 (\<lambda>_ _. None) h (field_at fs 0) (src + 4) = Some w1"
      "entry_records 0 (\<lambda>_ _. None) h (field_at fs 1) (src + 12) = Some w2"
  shows "wire_message 1 h fs src = Some (w1 @ w2)"
proof -
  have "pData (iter_at fs src 0) = src + 4" "pData (iter_at fs src 1) = src + 12"
    using pd pData_iter_at[of fs src] by simp_all
  moreover have "[0..<n_fields fs] = [0, 1]" using ok(2) by (simp add: upt_rec)
  moreover have "wire_message 0 h = (\<lambda>_ _. None)" by simp
  moreover have "wire_message (Suc 0) h fs src =
      map_option concat (those (map (\<lambda>k. entry_records 0 (wire_message 0 h) h (field_at fs k) (pData (iter_at fs src k)))
        [0..<n_fields fs]))"
    using ok(1) by simp
  ultimately show ?thesis
    unfolding One_nat_def using e by (simp only: list.map those.simps) (simp del: iter_at.simps)
qed

lemma varint_record_length:
  assumes "unat v < 2 ^ (7 * Suc k)" "unat t < 16"
  shows "length (field_bytes (t, Varint v)) \<le> Suc (Suc k)"
proof -
  have "length (leb128 (key (PB_WT_VARINT, t))) \<le> 1"
    by (rule leb128_length) (use assms(2) in \<open>simp_all add: key_def\<close>)
  moreover have "length (leb128 (unat v)) \<le> Suc k"
    using leb128_length[of "Suc k" "unat v"] assms(1) by simp
  ultimately show ?thesis by (simp add: field_bytes_def)
qed

lemma small_record_length: "unat (v :: u32) < 128 \<Longrightarrow> unat t < 16 \<Longrightarrow> length (field_bytes (t, Varint (ucast v))) \<le> 2"
  using varint_record_length[of "ucast v" 0 t] by (simp add: ucast_u32)

lemma signed_record_length: "unat t < 16 \<Longrightarrow> length (field_bytes (t, Varint v)) \<le> 11"
  using varint_record_length[of v 9 t] unat_less_two_power[of v] by simp

lemma NetworkConnectionInfo_records:
  "wire_message 1 h gdt_cct_NetworkConnectionInfo_fields src = Some
     ((if \<not> load_bool h src then [] else [(1, Varint (scast (load_u32 h (src + 4))))]) @
      (if \<not> load_bool h (src + 8) then [] else [(2, Varint (ucast (load_u32 h (src + 12))))]))"
proof (rule two_optional_records)
  show "table_ok gdt_cct_NetworkConnectionInfo_fields" "n_fields gdt_cct_NetworkConnectionInfo_fields = 2"
    "pData (iter_at gdt_cct_NetworkConnectionInfo_fields 0 0) = 4" "pData (iter_at gdt_cct_NetworkConnectionInfo_fields 0 1) = 12"
    unfolding NetworkConnectionInfo_table by code_simp+
qed (simp_all add: NetworkConnectionInfo_table field_at_def optional_records PB_HTYPE_def PB_ATYPE_def PB_LTYPE_def add.commute)

lemma QosTierConfiguration_records:
  "wire_message 1 h gdt_cct_QosTierConfiguration_fields src = Some
     ((if \<not> load_bool h src then [] else [(2, Varint (ucast (load_u32 h (src + 4))))]) @
      (if \<not> load_bool h (src + 8) then [] else [(3, Varint (scast (load_u32 h (src + 12))))]))"
proof (rule two_optional_records)
  show "table_ok gdt_cct_QosTierConfiguration_fields" "n_fields gdt_cct_QosTierConfiguration_fields = 2"
    "pData (iter_at gdt_cct_QosTierConfiguration_fields 0 0) = 4" "pData (iter_at gdt_cct_QosTierConfiguration_fields 0 1) = 12"
    unfolding QosTierConfiguration_table by code_simp+
qed (simp_all add: QosTierConfiguration_table field_at_def optional_records PB_HTYPE_def PB_ATYPE_def PB_LTYPE_def add.commute)

lemma encode_within:
  assumes "wire_message n h fs src = Some ws" "length (wire_bytes ws) \<le> m" "m < 2 ^ 64"
  shows "\<exists>s. pb_encode n env fs src (pb_ostream_from_buffer (word_of_nat m), h) = (Ok (), s, h) \<and> unat (bytes_written s) \<le> m"
proof -
  have "length (wire_bytes ws) \<le> unat (word_of_nat m :: size_t)" using assms(2,3) by (simp add: unat_word_of_nat)
  from encode_fits[OF pb_encode.writes[OF assms(1)] this] obtain s where
      "pb_encode n env fs src (pb_ostream_from_buffer (word_of_nat m), h) = (Ok (), s, h)"
      "bytes_written s = word_of_nat (length (wire_bytes ws))"
    by metis
  then show ?thesis using assms(2,3) by (auto simp: unat_word_of_nat)
qed

section \<open>Properties\<close>

text \<open>C28: a \<^verbatim>\<open>NetworkConnectionInfo\<close> whose mobile subtype is one of the enumerators always fits a buffer of
  \<^verbatim>\<open>gdt_cct_NetworkConnectionInfo_size\<close> bytes: encoding it there succeeds.\<close>

theorem NetworkConnectionInfo_fits:
  assumes "load_u32 h (src + 12) = gdt_cct_NetworkConnectionInfo_MobileSubtype_value m"
  shows "\<exists>s. pb_encode 1 env gdt_cct_NetworkConnectionInfo_fields src
      (pb_ostream_from_buffer (word_of_nat gdt_cct_NetworkConnectionInfo_size), h) = (Ok (), s, h) \<and>
    unat (bytes_written s) \<le> gdt_cct_NetworkConnectionInfo_size"
proof (rule encode_within[OF NetworkConnectionInfo_records])
  have "unat (gdt_cct_NetworkConnectionInfo_MobileSubtype_value m) < 128" by (cases m) simp_all
  then have "length (field_bytes (2, Varint (ucast (load_u32 h (src + 12))))) \<le> 2"
    using small_record_length[of _ 2] assms by simp
  then show "length (wire_bytes ((if \<not> load_bool h src then [] else [(1, Varint (scast (load_u32 h (src + 4))))]) @
      (if \<not> load_bool h (src + 8) then [] else [(2, Varint (ucast (load_u32 h (src + 12))))])))
      \<le> gdt_cct_NetworkConnectionInfo_size"
    using signed_record_length[of 1 "scast (load_u32 h (src + 4))"] by (simp add: gdt_cct_NetworkConnectionInfo_size_def)
qed (simp add: gdt_cct_NetworkConnectionInfo_size_def)

definition connection_heap :: heap where
  "connection_heap = \<lparr>hbytes = (\<lambda>_. 0)(64 := 1, 68 := 0xff, 69 := 0xff, 70 := 0xff, 71 := 0xff, 72 := 1, 76 := 100), live = []\<rparr>"

theorem NetworkConnectionInfo_fits_witness:
  "\<exists>s. pb_encode 1 no_env gdt_cct_NetworkConnectionInfo_fields 64
      (pb_ostream_from_buffer (word_of_nat gdt_cct_NetworkConnectionInfo_size), connection_heap) = (Ok (), s, connection_heap) \<and>
    unat (bytes_written s) \<le> gdt_cct_NetworkConnectionInfo_size"
proof (rule NetworkConnectionInfo_fits)
  show "load_u32 connection_heap (64 + 12) =
      gdt_cct_NetworkConnectionInfo_MobileSubtype_value gdt_cct_NetworkConnectionInfo_MobileSubtype_COMBINED"
    by code_simp
qed

text \<open>The same for \<^verbatim>\<open>QosTierConfiguration\<close>, whatever its log source.\<close>

theorem QosTierConfiguration_fits:
  assumes "load_u32 h (src + 4) = gdt_cct_QosTierConfiguration_QosTier_value q"
  shows "\<exists>s. pb_encode 1 env gdt_cct_QosTierConfiguration_fields src
      (pb_ostream_from_buffer (word_of_nat gdt_cct_QosTierConfiguration_size), h) = (Ok (), s, h) \<and>
    unat (bytes_written s) \<le> gdt_cct_QosTierConfiguration_size"
proof (rule encode_within[OF QosTierConfiguration_records])
  have "unat (gdt_cct_QosTierConfiguration_QosTier_value q) < 128" by (cases q) simp_all
  then have "length (field_bytes (2, Varint (ucast (load_u32 h (src + 4))))) \<le> 2"
    using small_record_length[of _ 2] assms by simp
  then show "length (wire_bytes ((if \<not> load_bool h src then [] else [(2, Varint (ucast (load_u32 h (src + 4))))]) @
      (if \<not> load_bool h (src + 8) then [] else [(3, Varint (scast (load_u32 h (src + 12))))])))
      \<le> gdt_cct_QosTierConfiguration_size"
    using signed_record_length[of 3 "scast (load_u32 h (src + 12))"] by (simp add: gdt_cct_QosTierConfiguration_size_def)
qed (simp add: gdt_cct_QosTierConfiguration_size_def)

theorem QosTierConfiguration_fits_witness:
  "\<exists>s. pb_encode 1 no_env gdt_cct_QosTierConfiguration_fields 64
      (pb_ostream_from_buffer (word_of_nat gdt_cct_QosTierConfiguration_size), connection_heap\<lparr>hbytes := (\<lambda>_. 1)(68 := 4, 69 := 0, 70 := 0, 71 := 0)\<rparr>)
      = (Ok (), s, connection_heap\<lparr>hbytes := (\<lambda>_. 1)(68 := 4, 69 := 0, 70 := 0, 71 := 0)\<rparr>) \<and>
    unat (bytes_written s) \<le> gdt_cct_QosTierConfiguration_size"
proof (rule QosTierConfiguration_fits)
  show "load_u32 (connection_heap\<lparr>hbytes := (\<lambda>_. 1)(68 := 4, 69 := 0, 70 := 0, 71 := 0)\<rparr>) (64 + 4) =
      gdt_cct_QosTierConfiguration_QosTier_value gdt_cct_QosTierConfiguration_QosTier_NEVER"
    by code_simp
qed

end
