(* ===== verification/Firebasecore_Nanopb.thy ===== *)
theory Firebasecore_Nanopb
  imports Pb_Tables
begin

text \<open>
  \<^verbatim>\<open>firebasecore.nanopb.h\<close> and \<^verbatim>\<open>firebasecore.nanopb.c\<close> of FirebaseCoreDiagnostics: the message that
  reports the configuration of the SDK.
\<close>

section \<open>Enums\<close>

datatype logs_proto_mobilesdk_ios_ICoreConfiguration_ConfigurationType =
    logs_proto_mobilesdk_ios_ICoreConfiguration_ConfigurationType_UNKNOWN_CONFIGURATION_TYPE
  | logs_proto_mobilesdk_ios_ICoreConfiguration_ConfigurationType_CORE
  | logs_proto_mobilesdk_ios_ICoreConfiguration_ConfigurationType_SDK

fun logs_proto_mobilesdk_ios_ICoreConfiguration_ConfigurationType_value :: "logs_proto_mobilesdk_ios_ICoreConfiguration_ConfigurationType \<Rightarrow> 32 word" where
  "logs_proto_mobilesdk_ios_ICoreConfiguration_ConfigurationType_value logs_proto_mobilesdk_ios_ICoreConfiguration_ConfigurationType_UNKNOWN_CONFIGURATION_TYPE = 0"
| "logs_proto_mobilesdk_ios_ICoreConfiguration_ConfigurationType_value logs_proto_mobilesdk_ios_ICoreConfiguration_ConfigurationType_CORE = 1"
| "logs_proto_mobilesdk_ios_ICoreConfiguration_ConfigurationType_value logs_proto_mobilesdk_ios_ICoreConfiguration_ConfigurationType_SDK = 2"

datatype logs_proto_mobilesdk_ios_ICoreConfiguration_BuildType =
    logs_proto_mobilesdk_ios_ICoreConfiguration_BuildType_UNKNOWN_BUILD_TYPE
  | logs_proto_mobilesdk_ios_ICoreConfiguration_BuildType_INTERNAL
  | logs_proto_mobilesdk_ios_ICoreConfiguration_BuildType_EAP
  | logs_proto_mobilesdk_ios_ICoreConfiguration_BuildType_PROD

fun logs_proto_mobilesdk_ios_ICoreConfiguration_BuildType_value :: "logs_proto_mobilesdk_ios_ICoreConfiguration_BuildType \<Rightarrow> 32 word" where
  "logs_proto_mobilesdk_ios_ICoreConfiguration_BuildType_value logs_proto_mobilesdk_ios_ICoreConfiguration_BuildType_UNKNOWN_BUILD_TYPE = 0"
| "logs_proto_mobilesdk_ios_ICoreConfiguration_BuildType_value logs_proto_mobilesdk_ios_ICoreConfiguration_BuildType_INTERNAL = 1"
| "logs_proto_mobilesdk_ios_ICoreConfiguration_BuildType_value logs_proto_mobilesdk_ios_ICoreConfiguration_BuildType_EAP = 2"
| "logs_proto_mobilesdk_ios_ICoreConfiguration_BuildType_value logs_proto_mobilesdk_ios_ICoreConfiguration_BuildType_PROD = 3"

datatype logs_proto_mobilesdk_ios_ICoreConfiguration_ServiceType =
    logs_proto_mobilesdk_ios_ICoreConfiguration_ServiceType_UNKNOWN_SDK_SERVICE
  | logs_proto_mobilesdk_ios_ICoreConfiguration_ServiceType_ICORE
  | logs_proto_mobilesdk_ios_ICoreConfiguration_ServiceType_ADMOB
  | logs_proto_mobilesdk_ios_ICoreConfiguration_ServiceType_APP_INVITE
  | logs_proto_mobilesdk_ios_ICoreConfiguration_ServiceType_SIGN_IN
  | logs_proto_mobilesdk_ios_ICoreConfiguration_ServiceType_GCM
  | logs_proto_mobilesdk_ios_ICoreConfiguration_ServiceType_MAPS
  | logs_proto_mobilesdk_ios_ICoreConfiguration_ServiceType_SCION
  | logs_proto_mobilesdk_ios_ICoreConfiguration_ServiceType_ANALYTICS
  | logs_proto_mobilesdk_ios_ICoreConfiguration_ServiceType_APP_INDEXING
  | logs_proto_mobilesdk_ios_ICoreConfiguration_ServiceType_CONFIG
  | logs_proto_mobilesdk_ios_ICoreConfiguration_ServiceType_DURABLE_DEEP_LINKS
  | logs_proto_mobilesdk_ios_ICoreConfiguration_ServiceType_CRASH
  | logs_proto_mobilesdk_ios_ICoreConfiguration_ServiceType_AUTH
  | logs_proto_mobilesdk_ios_ICoreConfiguration_ServiceType_DATABASE
  | logs_proto_mobilesdk_ios_ICoreConfiguration_ServiceType_STORAGE
  | logs_proto_mobilesdk_ios_ICoreConfiguration_ServiceType_MESSAGING
  | logs_proto_mobilesdk_ios_ICoreConfiguration_ServiceType_MEASUREMENT
  | logs_proto_mobilesdk_ios_ICoreConfiguration_ServiceType_REMOTE_CONFIG
  | logs_proto_mobilesdk_ios_ICoreConfiguration_ServiceType_DYNAMIC_LINKS
  | logs_proto_mobilesdk_ios_ICoreConfiguration_ServiceType_INVITES
  | logs_proto_mobilesdk_ios_ICoreConfiguration_ServiceType_AUTH_UI
  | logs_proto_mobilesdk_ios_ICoreConfiguration_ServiceType_FIRESTORE
  | logs_proto_mobilesdk_ios_ICoreConfiguration_ServiceType_PERFORMANCE
  | logs_proto_mobilesdk_ios_ICoreConfiguration_ServiceType_ML_VISION_ON_DEVICE_FACE
  | logs_proto_mobilesdk_ios_ICoreConfiguration_ServiceType_ML_VISION_ON_DEVICE_BARCODE
  | logs_proto_mobilesdk_ios_ICoreConfiguration_ServiceType_ML_VISION_ON_DEVICE_TEXT
  | logs_proto_mobilesdk_ios_ICoreConfiguration_ServiceType_ML_VISION_ON_DEVICE_LABEL
  | logs_proto_mobilesdk_ios_ICoreConfiguration_ServiceType_ML_MODEL_INTERPRETER
  | logs_proto_mobilesdk_ios_ICoreConfiguration_ServiceType_IN_APP_MESSAGING
  | logs_proto_mobilesdk_ios_ICoreConfiguration_ServiceType_FUNCTIONS
  | logs_proto_mobilesdk_ios_ICoreConfiguration_ServiceType_ML_NATURAL_LANGUAGE
  | logs_proto_mobilesdk_ios_ICoreConfiguration_ServiceType_ML_VISION_ON_DEVICE_AUTOML
  | logs_proto_mobilesdk_ios_ICoreConfiguration_ServiceType_ML_VISION_ON_DEVICE_OBJECT_DETECTION

fun logs_proto_mobilesdk_ios_ICoreConfiguration_ServiceType_value :: "logs_proto_mobilesdk_ios_ICoreConfiguration_ServiceType \<Rightarrow> 32 word" where
  "logs_proto_mobilesdk_ios_ICoreConfiguration_ServiceType_value logs_proto_mobilesdk_ios_ICoreConfiguration_ServiceType_UNKNOWN_SDK_SERVICE = 0"
| "logs_proto_mobilesdk_ios_ICoreConfiguration_ServiceType_value logs_proto_mobilesdk_ios_ICoreConfiguration_ServiceType_ICORE = 1"
| "logs_proto_mobilesdk_ios_ICoreConfiguration_ServiceType_value logs_proto_mobilesdk_ios_ICoreConfiguration_ServiceType_ADMOB = 2"
| "logs_proto_mobilesdk_ios_ICoreConfiguration_ServiceType_value logs_proto_mobilesdk_ios_ICoreConfiguration_ServiceType_APP_INVITE = 3"
| "logs_proto_mobilesdk_ios_ICoreConfiguration_ServiceType_value logs_proto_mobilesdk_ios_ICoreConfiguration_ServiceType_SIGN_IN = 5"
| "logs_proto_mobilesdk_ios_ICoreConfiguration_ServiceType_value logs_proto_mobilesdk_ios_ICoreConfiguration_ServiceType_GCM = 6"
| "logs_proto_mobilesdk_ios_ICoreConfiguration_ServiceType_value logs_proto_mobilesdk_ios_ICoreConfiguration_ServiceType_MAPS = 7"
| "logs_proto_mobilesdk_ios_ICoreConfiguration_ServiceType_value logs_proto_mobilesdk_ios_ICoreConfiguration_ServiceType_SCION = 8"
| "logs_proto_mobilesdk_ios_ICoreConfiguration_ServiceType_value logs_proto_mobilesdk_ios_ICoreConfiguration_ServiceType_ANALYTICS = 9"
| "logs_proto_mobilesdk_ios_ICoreConfiguration_ServiceType_value logs_proto_mobilesdk_ios_ICoreConfiguration_ServiceType_APP_INDEXING = 10"
| "logs_proto_mobilesdk_ios_ICoreConfiguration_ServiceType_value logs_proto_mobilesdk_ios_ICoreConfiguration_ServiceType_CONFIG = 11"
| "logs_proto_mobilesdk_ios_ICoreConfiguration_ServiceType_value logs_proto_mobilesdk_ios_ICoreConfiguration_ServiceType_DURABLE_DEEP_LINKS = 12"
| "logs_proto_mobilesdk_ios_ICoreConfiguration_ServiceType_value logs_proto_mobilesdk_ios_ICoreConfiguration_ServiceType_CRASH = 13"
| "logs_proto_mobilesdk_ios_ICoreConfiguration_ServiceType_value logs_proto_mobilesdk_ios_ICoreConfiguration_ServiceType_AUTH = 14"
| "logs_proto_mobilesdk_ios_ICoreConfiguration_ServiceType_value logs_proto_mobilesdk_ios_ICoreConfiguration_ServiceType_DATABASE = 15"
| "logs_proto_mobilesdk_ios_ICoreConfiguration_ServiceType_value logs_proto_mobilesdk_ios_ICoreConfiguration_ServiceType_STORAGE = 16"
| "logs_proto_mobilesdk_ios_ICoreConfiguration_ServiceType_value logs_proto_mobilesdk_ios_ICoreConfiguration_ServiceType_MESSAGING = 17"
| "logs_proto_mobilesdk_ios_ICoreConfiguration_ServiceType_value logs_proto_mobilesdk_ios_ICoreConfiguration_ServiceType_MEASUREMENT = 18"
| "logs_proto_mobilesdk_ios_ICoreConfiguration_ServiceType_value logs_proto_mobilesdk_ios_ICoreConfiguration_ServiceType_REMOTE_CONFIG = 19"
| "logs_proto_mobilesdk_ios_ICoreConfiguration_ServiceType_value logs_proto_mobilesdk_ios_ICoreConfiguration_ServiceType_DYNAMIC_LINKS = 20"
| "logs_proto_mobilesdk_ios_ICoreConfiguration_ServiceType_value logs_proto_mobilesdk_ios_ICoreConfiguration_ServiceType_INVITES = 21"
| "logs_proto_mobilesdk_ios_ICoreConfiguration_ServiceType_value logs_proto_mobilesdk_ios_ICoreConfiguration_ServiceType_AUTH_UI = 22"
| "logs_proto_mobilesdk_ios_ICoreConfiguration_ServiceType_value logs_proto_mobilesdk_ios_ICoreConfiguration_ServiceType_FIRESTORE = 23"
| "logs_proto_mobilesdk_ios_ICoreConfiguration_ServiceType_value logs_proto_mobilesdk_ios_ICoreConfiguration_ServiceType_PERFORMANCE = 24"
| "logs_proto_mobilesdk_ios_ICoreConfiguration_ServiceType_value logs_proto_mobilesdk_ios_ICoreConfiguration_ServiceType_ML_VISION_ON_DEVICE_FACE = 26"
| "logs_proto_mobilesdk_ios_ICoreConfiguration_ServiceType_value logs_proto_mobilesdk_ios_ICoreConfiguration_ServiceType_ML_VISION_ON_DEVICE_BARCODE = 27"
| "logs_proto_mobilesdk_ios_ICoreConfiguration_ServiceType_value logs_proto_mobilesdk_ios_ICoreConfiguration_ServiceType_ML_VISION_ON_DEVICE_TEXT = 28"
| "logs_proto_mobilesdk_ios_ICoreConfiguration_ServiceType_value logs_proto_mobilesdk_ios_ICoreConfiguration_ServiceType_ML_VISION_ON_DEVICE_LABEL = 29"
| "logs_proto_mobilesdk_ios_ICoreConfiguration_ServiceType_value logs_proto_mobilesdk_ios_ICoreConfiguration_ServiceType_ML_MODEL_INTERPRETER = 30"
| "logs_proto_mobilesdk_ios_ICoreConfiguration_ServiceType_value logs_proto_mobilesdk_ios_ICoreConfiguration_ServiceType_IN_APP_MESSAGING = 31"
| "logs_proto_mobilesdk_ios_ICoreConfiguration_ServiceType_value logs_proto_mobilesdk_ios_ICoreConfiguration_ServiceType_FUNCTIONS = 32"
| "logs_proto_mobilesdk_ios_ICoreConfiguration_ServiceType_value logs_proto_mobilesdk_ios_ICoreConfiguration_ServiceType_ML_NATURAL_LANGUAGE = 33"
| "logs_proto_mobilesdk_ios_ICoreConfiguration_ServiceType_value logs_proto_mobilesdk_ios_ICoreConfiguration_ServiceType_ML_VISION_ON_DEVICE_AUTOML = 34"
| "logs_proto_mobilesdk_ios_ICoreConfiguration_ServiceType_value logs_proto_mobilesdk_ios_ICoreConfiguration_ServiceType_ML_VISION_ON_DEVICE_OBJECT_DETECTION = 35"

datatype logs_proto_mobilesdk_ios_ICoreConfiguration_PodName =
    logs_proto_mobilesdk_ios_ICoreConfiguration_PodName_UNKNOWN_POD_NAME
  | logs_proto_mobilesdk_ios_ICoreConfiguration_PodName_GOOGLE
  | logs_proto_mobilesdk_ios_ICoreConfiguration_PodName_FIREBASE

fun logs_proto_mobilesdk_ios_ICoreConfiguration_PodName_value :: "logs_proto_mobilesdk_ios_ICoreConfiguration_PodName \<Rightarrow> 32 word" where
  "logs_proto_mobilesdk_ios_ICoreConfiguration_PodName_value logs_proto_mobilesdk_ios_ICoreConfiguration_PodName_UNKNOWN_POD_NAME = 0"
| "logs_proto_mobilesdk_ios_ICoreConfiguration_PodName_value logs_proto_mobilesdk_ios_ICoreConfiguration_PodName_GOOGLE = 1"
| "logs_proto_mobilesdk_ios_ICoreConfiguration_PodName_value logs_proto_mobilesdk_ios_ICoreConfiguration_PodName_FIREBASE = 2"

datatype logs_proto_mobilesdk_ios_ICoreConfiguration_DeploymentType =
    logs_proto_mobilesdk_ios_ICoreConfiguration_DeploymentType_UNKNOWN
  | logs_proto_mobilesdk_ios_ICoreConfiguration_DeploymentType_COCOAPODS
  | logs_proto_mobilesdk_ios_ICoreConfiguration_DeploymentType_ZIP_FILE
  | logs_proto_mobilesdk_ios_ICoreConfiguration_DeploymentType_CARTHAGE
  | logs_proto_mobilesdk_ios_ICoreConfiguration_DeploymentType_SPM

fun logs_proto_mobilesdk_ios_ICoreConfiguration_DeploymentType_value :: "logs_proto_mobilesdk_ios_ICoreConfiguration_DeploymentType \<Rightarrow> 32 word" where
  "logs_proto_mobilesdk_ios_ICoreConfiguration_DeploymentType_value logs_proto_mobilesdk_ios_ICoreConfiguration_DeploymentType_UNKNOWN = 0"
| "logs_proto_mobilesdk_ios_ICoreConfiguration_DeploymentType_value logs_proto_mobilesdk_ios_ICoreConfiguration_DeploymentType_COCOAPODS = 1"
| "logs_proto_mobilesdk_ios_ICoreConfiguration_DeploymentType_value logs_proto_mobilesdk_ios_ICoreConfiguration_DeploymentType_ZIP_FILE = 2"
| "logs_proto_mobilesdk_ios_ICoreConfiguration_DeploymentType_value logs_proto_mobilesdk_ios_ICoreConfiguration_DeploymentType_CARTHAGE = 3"
| "logs_proto_mobilesdk_ios_ICoreConfiguration_DeploymentType_value logs_proto_mobilesdk_ios_ICoreConfiguration_DeploymentType_SPM = 4"

section \<open>The structure and its table\<close>

definition logs_proto_mobilesdk_ios_ICoreConfiguration_struct :: "member list" where
  "logs_proto_mobilesdk_ios_ICoreConfiguration_struct =
    [c_bool ''has_configuration_type'',
     c_int32 ''configuration_type'',
     c_int32 ''sdk_service_installed_count'',
     c_pointer ''sdk_service_installed'' C_integer 4,
     c_bytes ''device_model'',
     c_bytes ''app_id'',
     c_bytes ''bundle_id'',
     c_bool ''has_pod_name'',
     c_int32 ''pod_name'',
     c_bytes ''icore_version'',
     c_bytes ''sdk_version'',
     c_bool ''has_sdk_name'',
     c_int32 ''sdk_name'',
     c_bool ''has_app_count'',
     c_int32 ''app_count'',
     c_bytes ''os_version'',
     c_bytes ''min_supported_ios_version'',
     c_bool ''has_use_default_app'',
     c_bool ''use_default_app'',
     c_bool ''has_deployed_in_app_store'',
     c_bool ''deployed_in_app_store'',
     c_bool ''has_dynamic_framework_count'',
     c_int32 ''dynamic_framework_count'',
     c_bytes ''apple_framework_version'',
     c_bool ''has_using_zip_file'',
     c_bool ''using_zip_file'',
     c_bool ''has_deployment_type'',
     c_int32 ''deployment_type'',
     c_bytes ''platform_info'',
     c_bool ''has_swizzling_enabled'',
     c_bool ''swizzling_enabled'',
     c_bool ''has_using_gdt'',
     c_bool ''using_gdt'']"

definition logs_proto_mobilesdk_ios_ICoreConfiguration_fields :: "pb_field_t list" where
  "logs_proto_mobilesdk_ios_ICoreConfiguration_fields =
    [PB_FIELD 1 UENUM OPTIONAL STATIC FIRST logs_proto_mobilesdk_ios_ICoreConfiguration_struct ''configuration_type'' ''configuration_type'' Null,
     PB_FIELD 7 UENUM REPEATED POINTER OTHER logs_proto_mobilesdk_ios_ICoreConfiguration_struct ''sdk_service_installed'' ''configuration_type'' Null,
     PB_FIELD 9 BYTES OPTIONAL POINTER OTHER logs_proto_mobilesdk_ios_ICoreConfiguration_struct ''device_model'' ''sdk_service_installed'' Null,
     PB_FIELD 10 BYTES OPTIONAL POINTER OTHER logs_proto_mobilesdk_ios_ICoreConfiguration_struct ''app_id'' ''device_model'' Null,
     PB_FIELD 12 BYTES OPTIONAL POINTER OTHER logs_proto_mobilesdk_ios_ICoreConfiguration_struct ''bundle_id'' ''app_id'' Null,
     PB_FIELD 16 UENUM OPTIONAL STATIC OTHER logs_proto_mobilesdk_ios_ICoreConfiguration_struct ''pod_name'' ''bundle_id'' Null,
     PB_FIELD 18 BYTES OPTIONAL POINTER OTHER logs_proto_mobilesdk_ios_ICoreConfiguration_struct ''icore_version'' ''pod_name'' Null,
     PB_FIELD 19 BYTES OPTIONAL POINTER OTHER logs_proto_mobilesdk_ios_ICoreConfiguration_struct ''sdk_version'' ''icore_version'' Null,
     PB_FIELD 20 UENUM OPTIONAL STATIC OTHER logs_proto_mobilesdk_ios_ICoreConfiguration_struct ''sdk_name'' ''sdk_version'' Null,
     PB_FIELD 21 INT32 OPTIONAL STATIC OTHER logs_proto_mobilesdk_ios_ICoreConfiguration_struct ''app_count'' ''sdk_name'' Null,
     PB_FIELD 22 BYTES OPTIONAL POINTER OTHER logs_proto_mobilesdk_ios_ICoreConfiguration_struct ''os_version'' ''app_count'' Null,
     PB_FIELD 24 BYTES OPTIONAL POINTER OTHER logs_proto_mobilesdk_ios_ICoreConfiguration_struct ''min_supported_ios_version'' ''os_version'' Null,
     PB_FIELD 25 BOOL OPTIONAL STATIC OTHER logs_proto_mobilesdk_ios_ICoreConfiguration_struct ''use_default_app'' ''min_supported_ios_version'' Null,
     PB_FIELD 26 BOOL OPTIONAL STATIC OTHER logs_proto_mobilesdk_ios_ICoreConfiguration_struct ''deployed_in_app_store'' ''use_default_app'' Null,
     PB_FIELD 27 INT32 OPTIONAL STATIC OTHER logs_proto_mobilesdk_ios_ICoreConfiguration_struct ''dynamic_framework_count'' ''deployed_in_app_store'' Null,
     PB_FIELD 28 BYTES OPTIONAL POINTER OTHER logs_proto_mobilesdk_ios_ICoreConfiguration_struct ''apple_framework_version'' ''dynamic_framework_count'' Null,
     PB_FIELD 29 BOOL OPTIONAL STATIC OTHER logs_proto_mobilesdk_ios_ICoreConfiguration_struct ''using_zip_file'' ''apple_framework_version'' Null,
     PB_FIELD 30 UENUM OPTIONAL STATIC OTHER logs_proto_mobilesdk_ios_ICoreConfiguration_struct ''deployment_type'' ''using_zip_file'' Null,
     PB_FIELD 31 BYTES OPTIONAL POINTER OTHER logs_proto_mobilesdk_ios_ICoreConfiguration_struct ''platform_info'' ''deployment_type'' Null,
     PB_FIELD 33 BOOL OPTIONAL STATIC OTHER logs_proto_mobilesdk_ios_ICoreConfiguration_struct ''swizzling_enabled'' ''platform_info'' Null,
     PB_FIELD 36 BOOL OPTIONAL STATIC OTHER logs_proto_mobilesdk_ios_ICoreConfiguration_struct ''using_gdt'' ''swizzling_enabled'' Null,
     PB_LAST_FIELD]"

lemma ICoreConfiguration_offsets:
  "offsets 0 logs_proto_mobilesdk_ios_ICoreConfiguration_struct =
    [(''has_configuration_type'', 0), (''configuration_type'', 4), (''sdk_service_installed_count'', 8), (''sdk_service_installed'', 16), (''device_model'', 24), (''app_id'', 32), (''bundle_id'', 40), (''has_pod_name'', 48), (''pod_name'', 52), (''icore_version'', 56), (''sdk_version'', 64), (''has_sdk_name'', 72), (''sdk_name'', 76), (''has_app_count'', 80), (''app_count'', 84), (''os_version'', 88), (''min_supported_ios_version'', 96), (''has_use_default_app'', 104), (''use_default_app'', 105), (''has_deployed_in_app_store'', 106), (''deployed_in_app_store'', 107), (''has_dynamic_framework_count'', 108), (''dynamic_framework_count'', 112), (''apple_framework_version'', 120), (''has_using_zip_file'', 128), (''using_zip_file'', 129), (''has_deployment_type'', 130), (''deployment_type'', 132), (''platform_info'', 136), (''has_swizzling_enabled'', 144), (''swizzling_enabled'', 145), (''has_using_gdt'', 146), (''using_gdt'', 147)]"
  by code_simp

lemma ICoreConfiguration_members:
  "value_members logs_proto_mobilesdk_ios_ICoreConfiguration_struct =
    [''configuration_type'', ''sdk_service_installed'', ''device_model'', ''app_id'', ''bundle_id'', ''pod_name'', ''icore_version'', ''sdk_version'', ''sdk_name'', ''app_count'', ''os_version'', ''min_supported_ios_version'', ''use_default_app'', ''deployed_in_app_store'', ''dynamic_framework_count'', ''apple_framework_version'', ''using_zip_file'', ''deployment_type'', ''platform_info'', ''swizzling_enabled'', ''using_gdt'']"
  by code_simp

lemmas ICoreConfiguration_layout = PB_FIELD_def pb_rule_macro.simps PB_DATAOFFSET_def pb_delta_def offsetof_def ICoreConfiguration_offsets

lemma ICoreConfiguration_fields_1:
  "PB_FIELD 1 UENUM OPTIONAL STATIC FIRST logs_proto_mobilesdk_ios_ICoreConfiguration_struct ''configuration_type'' ''configuration_type'' Null = Pb_field 1 17 4 (- 4) 4 0 Null"
  "PB_FIELD 7 UENUM REPEATED POINTER OTHER logs_proto_mobilesdk_ios_ICoreConfiguration_struct ''sdk_service_installed'' ''configuration_type'' Null = Pb_field 7 161 8 (- 8) 4 0 Null"
  "PB_FIELD 9 BYTES OPTIONAL POINTER OTHER logs_proto_mobilesdk_ios_ICoreConfiguration_struct ''device_model'' ''sdk_service_installed'' Null = Pb_field 9 149 0 0 8 0 Null"
  unfolding ICoreConfiguration_layout by code_simp+

lemma ICoreConfiguration_fields_2:
  "PB_FIELD 10 BYTES OPTIONAL POINTER OTHER logs_proto_mobilesdk_ios_ICoreConfiguration_struct ''app_id'' ''device_model'' Null = Pb_field 10 149 0 0 8 0 Null"
  "PB_FIELD 12 BYTES OPTIONAL POINTER OTHER logs_proto_mobilesdk_ios_ICoreConfiguration_struct ''bundle_id'' ''app_id'' Null = Pb_field 12 149 0 0 8 0 Null"
  "PB_FIELD 16 UENUM OPTIONAL STATIC OTHER logs_proto_mobilesdk_ios_ICoreConfiguration_struct ''pod_name'' ''bundle_id'' Null = Pb_field 16 17 4 (- 4) 4 0 Null"
  unfolding ICoreConfiguration_layout by code_simp+

lemma ICoreConfiguration_fields_3:
  "PB_FIELD 18 BYTES OPTIONAL POINTER OTHER logs_proto_mobilesdk_ios_ICoreConfiguration_struct ''icore_version'' ''pod_name'' Null = Pb_field 18 149 0 0 8 0 Null"
  "PB_FIELD 19 BYTES OPTIONAL POINTER OTHER logs_proto_mobilesdk_ios_ICoreConfiguration_struct ''sdk_version'' ''icore_version'' Null = Pb_field 19 149 0 0 8 0 Null"
  "PB_FIELD 20 UENUM OPTIONAL STATIC OTHER logs_proto_mobilesdk_ios_ICoreConfiguration_struct ''sdk_name'' ''sdk_version'' Null = Pb_field 20 17 4 (- 4) 4 0 Null"
  unfolding ICoreConfiguration_layout by code_simp+

lemma ICoreConfiguration_fields_4:
  "PB_FIELD 21 INT32 OPTIONAL STATIC OTHER logs_proto_mobilesdk_ios_ICoreConfiguration_struct ''app_count'' ''sdk_name'' Null = Pb_field 21 16 4 (- 4) 4 0 Null"
  "PB_FIELD 22 BYTES OPTIONAL POINTER OTHER logs_proto_mobilesdk_ios_ICoreConfiguration_struct ''os_version'' ''app_count'' Null = Pb_field 22 149 0 0 8 0 Null"
  "PB_FIELD 24 BYTES OPTIONAL POINTER OTHER logs_proto_mobilesdk_ios_ICoreConfiguration_struct ''min_supported_ios_version'' ''os_version'' Null = Pb_field 24 149 0 0 8 0 Null"
  unfolding ICoreConfiguration_layout by code_simp+

lemma ICoreConfiguration_fields_5:
  "PB_FIELD 25 BOOL OPTIONAL STATIC OTHER logs_proto_mobilesdk_ios_ICoreConfiguration_struct ''use_default_app'' ''min_supported_ios_version'' Null = Pb_field 25 16 1 (- 1) 1 0 Null"
  "PB_FIELD 26 BOOL OPTIONAL STATIC OTHER logs_proto_mobilesdk_ios_ICoreConfiguration_struct ''deployed_in_app_store'' ''use_default_app'' Null = Pb_field 26 16 1 (- 1) 1 0 Null"
  "PB_FIELD 27 INT32 OPTIONAL STATIC OTHER logs_proto_mobilesdk_ios_ICoreConfiguration_struct ''dynamic_framework_count'' ''deployed_in_app_store'' Null = Pb_field 27 16 4 (- 4) 4 0 Null"
  unfolding ICoreConfiguration_layout by code_simp+

lemma ICoreConfiguration_fields_6:
  "PB_FIELD 28 BYTES OPTIONAL POINTER OTHER logs_proto_mobilesdk_ios_ICoreConfiguration_struct ''apple_framework_version'' ''dynamic_framework_count'' Null = Pb_field 28 149 4 0 8 0 Null"
  "PB_FIELD 29 BOOL OPTIONAL STATIC OTHER logs_proto_mobilesdk_ios_ICoreConfiguration_struct ''using_zip_file'' ''apple_framework_version'' Null = Pb_field 29 16 1 (- 1) 1 0 Null"
  "PB_FIELD 30 UENUM OPTIONAL STATIC OTHER logs_proto_mobilesdk_ios_ICoreConfiguration_struct ''deployment_type'' ''using_zip_file'' Null = Pb_field 30 17 2 (- 2) 4 0 Null"
  unfolding ICoreConfiguration_layout by code_simp+

lemma ICoreConfiguration_fields_7:
  "PB_FIELD 31 BYTES OPTIONAL POINTER OTHER logs_proto_mobilesdk_ios_ICoreConfiguration_struct ''platform_info'' ''deployment_type'' Null = Pb_field 31 149 0 0 8 0 Null"
  "PB_FIELD 33 BOOL OPTIONAL STATIC OTHER logs_proto_mobilesdk_ios_ICoreConfiguration_struct ''swizzling_enabled'' ''platform_info'' Null = Pb_field 33 16 1 (- 1) 1 0 Null"
  "PB_FIELD 36 BOOL OPTIONAL STATIC OTHER logs_proto_mobilesdk_ios_ICoreConfiguration_struct ''using_gdt'' ''swizzling_enabled'' Null = Pb_field 36 16 1 (- 1) 1 0 Null"
  unfolding ICoreConfiguration_layout by code_simp+

lemmas ICoreConfiguration_fields_eq = ICoreConfiguration_fields_1 ICoreConfiguration_fields_2 ICoreConfiguration_fields_3 ICoreConfiguration_fields_4 ICoreConfiguration_fields_5 ICoreConfiguration_fields_6 ICoreConfiguration_fields_7

lemma ICoreConfiguration_table_reaches:
  "table_reaches logs_proto_mobilesdk_ios_ICoreConfiguration_struct
     (value_members logs_proto_mobilesdk_ios_ICoreConfiguration_struct)
     logs_proto_mobilesdk_ios_ICoreConfiguration_fields"
  unfolding logs_proto_mobilesdk_ios_ICoreConfiguration_fields_def ICoreConfiguration_members ICoreConfiguration_fields_eq
  by (rule table_reachesI, unfold ICoreConfiguration_offsets) code_simp+

lemma ICoreConfiguration_table_types:
  "table_types tabs logs_proto_mobilesdk_ios_ICoreConfiguration_struct
     (value_members logs_proto_mobilesdk_ios_ICoreConfiguration_struct)
     logs_proto_mobilesdk_ios_ICoreConfiguration_fields"
  unfolding logs_proto_mobilesdk_ios_ICoreConfiguration_fields_def ICoreConfiguration_members
  by (simp add: table_types_def type_describes_def PB_FIELD_parts find_member_def logs_proto_mobilesdk_ios_ICoreConfiguration_struct_def
      c_bool_def c_int32_def c_int64_def c_pointer_def c_bytes_def)

text \<open>The descriptor table of \<^verbatim>\<open>firebasecore.nanopb.c\<close> describes its structure: each of the 21 value
  members is reached at its offset, with its flag or count, and has a field type that agrees with its C type. None of them is
  a message, so the table refers to no other one.\<close>

theorem ICoreConfiguration_table_describes:
  "table_describes [] logs_proto_mobilesdk_ios_ICoreConfiguration_struct
     (value_members logs_proto_mobilesdk_ios_ICoreConfiguration_struct)
     logs_proto_mobilesdk_ios_ICoreConfiguration_fields"
  using ICoreConfiguration_table_reaches ICoreConfiguration_table_types by (simp add: table_describes_def)

end
