(* ===== verification/Fbase64.thy ===== *)
theory Fbase64
  imports Prelude
begin

text \<open>
  \<^verbatim>\<open>FirebaseDatabase/.../SocketRocket/fbase64.c\<close>: base64 for the handshake of the web socket. A
  buffer is the list of its bytes, so a write past its end is \<open>UB\<close>; a C string is a list that
  contains its terminator, so reading past the list is \<open>UB\<close>. \<open>Err\<close> stands for \<^verbatim>\<open>return (-1)\<close>.
\<close>

section \<open>Encoding\<close>

definition Base64 :: "byte list" where
  "Base64 = map of_char ''ABCDEFGHIJKLMNOPQRSTUVWXYZabcdefghijklmnopqrstuvwxyz0123456789+/''"

definition Pad64 :: byte where "Pad64 = 61"

type_synonym buffer = "byte list"

text \<open>\<^verbatim>\<open>target[i] = b\<close>\<close>

definition put_at :: "size_t \<Rightarrow> byte \<Rightarrow> buffer \<Rightarrow> (unit, buffer) res" where
  "put_at i b target = (if unat i < length target then (Ok (), target[unat i := b]) else (UB, target))"

fun put_all :: "size_t \<Rightarrow> byte list \<Rightarrow> buffer \<Rightarrow> (unit, buffer) res" where
  "put_all i [] target = (Ok (), target)"
| "put_all i (b # bs) target = checkreturn (put_at i b target) (\<lambda>_. put_all (i + 1) bs)"

text \<open>The four values of six bits that three bytes are split into.\<close>

definition output0 :: "byte \<Rightarrow> byte" where "output0 i0 = drop_bit 2 i0"
definition output1 :: "byte \<Rightarrow> byte \<Rightarrow> byte" where "output1 i0 i1 = push_bit 4 (i0 AND 0x03) + drop_bit 4 i1"
definition output2 :: "byte \<Rightarrow> byte \<Rightarrow> byte" where "output2 i1 i2 = push_bit 2 (i1 AND 0x0f) + drop_bit 6 i2"
definition output3 :: "byte \<Rightarrow> byte" where "output3 i2 = i2 AND 0x3f"

definition base64_char :: "byte \<Rightarrow> byte" where
  "base64_char v = Base64 ! unat v"

fun ntop_loop :: "byte list \<Rightarrow> size_t \<Rightarrow> size_t \<Rightarrow> size_t \<Rightarrow> buffer \<Rightarrow> (byte list \<times> size_t \<times> size_t, buffer) res" where
  "ntop_loop src srclength datalength targsize target =
     (if 2 < srclength then
        (case src of
           i0 # i1 # i2 # src \<Rightarrow>
             if datalength + 4 > targsize then (Err, target)
             else checkreturn
                    (put_all datalength (map base64_char [output0 i0, output1 i0 i1, output2 i1 i2, output3 i2]) target)
                    (\<lambda>_. ntop_loop src (srclength - 3) (datalength + 4) targsize)
         | _ \<Rightarrow> (UB, target))
      else (Ok (src, srclength, datalength), target))"

declare ntop_loop.simps [simp del]

text \<open>The padding: what is left after the last full group is one or two bytes.\<close>

definition ntop_tail :: "byte list \<Rightarrow> size_t \<Rightarrow> size_t \<Rightarrow> size_t \<Rightarrow> buffer \<Rightarrow> (size_t, buffer) res" where
  "ntop_tail src srclength datalength targsize target =
     (if srclength = 0 then (Ok datalength, target)
      else if length src < unat srclength then (UB, target)
      else let i0 = src ! 0; i1 = (if 1 < srclength then src ! 1 else 0); i2 = (if 2 < srclength then src ! 2 else 0)
           in if datalength + 4 > targsize then (Err, target)
              else checkreturn
                     (put_all datalength
                        [base64_char (output0 i0), base64_char (output1 i0 i1),
                         if srclength = 1 then Pad64 else base64_char (output2 i1 i2), Pad64] target)
                     (\<lambda>_ target. (Ok (datalength + 4), target)))"

definition f_b64_ntop :: "byte list \<Rightarrow> size_t \<Rightarrow> size_t \<Rightarrow> buffer \<Rightarrow> (u32, buffer) res" where
  "f_b64_ntop src srclength targsize target =
     checkreturn (ntop_loop src srclength 0 targsize target) (\<lambda>(src, srclength, datalength) target.
       checkreturn (ntop_tail src srclength datalength targsize target) (\<lambda>datalength target.
         if datalength \<ge> targsize then (Err, target)
         else checkreturn (put_at datalength 0 target) (\<lambda>_ target. (Ok (ucast datalength), target))))"

section \<open>Decoding\<close>

text \<open>\<^verbatim>\<open>isspace\<close> in the C locale: space, and the characters from tab to carriage return. The source passes a plain
  \<^verbatim>\<open>char\<close>; for bytes from 0x80 on, which are negative there, the C library of the platform says no as well.\<close>

definition isspace :: "byte \<Rightarrow> bool" where
  "isspace ch \<longleftrightarrow> ch = 32 \<or> 9 \<le> ch \<and> ch \<le> 13"

text \<open>\<^verbatim>\<open>strchr(Base64, ch) - Base64\<close> for a character other than the terminator.\<close>

fun strchr_from :: "nat \<Rightarrow> byte list \<Rightarrow> byte \<Rightarrow> nat option" where
  "strchr_from i [] ch = None"
| "strchr_from i (c # cs) ch = (if c = ch then Some i else strchr_from (Suc i) cs ch)"

abbreviation base64_pos :: "byte \<Rightarrow> nat option" where
  "base64_pos ch \<equiv> strchr_from 0 Base64 ch"

text \<open>\<^verbatim>\<open>target[i] |= b\<close>\<close>

definition or_at :: "size_t \<Rightarrow> byte \<Rightarrow> buffer \<Rightarrow> (unit, buffer) res" where
  "or_at i b target =
     (if unat i < length target then (Ok (), target[unat i := target ! unat i OR b]) else (UB, target))"

text \<open>
  One character of value \<open>d\<close>. \<open>with_target\<close> tells whether the caller gave a buffer; without one
  only the length is computed.
\<close>

definition pton_digit ::
    "bool \<Rightarrow> size_t \<Rightarrow> nat \<Rightarrow> nat \<times> u32 \<Rightarrow> buffer \<Rightarrow> (nat \<times> u32, buffer) res" where
  "pton_digit with_target targsize d = (\<lambda>(state, tarindex) target.
     let v = word_of_nat d :: byte; i = ucast tarindex :: size_t; j = ucast (tarindex + 1) :: size_t in
     if state = 0 then
       checkreturn
         (if \<not> with_target then (Ok (), target)
          else if i \<ge> targsize then (Err, target)
          else put_at i (push_bit 2 v) target)
         (\<lambda>_ target. (Ok (1, tarindex), target))
     else if state = 1 then
       checkreturn
         (if \<not> with_target then (Ok (), target)
          else if j \<ge> targsize then (Err, target)
          else checkreturn (or_at i (drop_bit 4 v) target) (\<lambda>_. put_at j (push_bit 4 (v AND 0x0f))))
         (\<lambda>_ target. (Ok (2, tarindex + 1), target))
     else if state = 2 then
       checkreturn
         (if \<not> with_target then (Ok (), target)
          else if j \<ge> targsize then (Err, target)
          else checkreturn (or_at i (drop_bit 2 v) target) (\<lambda>_. put_at j (push_bit 6 (v AND 0x03))))
         (\<lambda>_ target. (Ok (3, tarindex + 1), target))
     else
       checkreturn
         (if \<not> with_target then (Ok (), target)
          else if i \<ge> targsize then (Err, target)
          else or_at i v target)
         (\<lambda>_ target. (Ok (0, tarindex + 1), target)))"

text \<open>The loop ends at the terminator or at a pad; it returns that character and what follows it.\<close>

fun pton_loop ::
    "bool \<Rightarrow> size_t \<Rightarrow> byte list \<Rightarrow> nat \<times> u32 \<Rightarrow> buffer \<Rightarrow> (byte \<times> byte list \<times> nat \<times> u32, buffer) res" where
  "pton_loop wt targsize [] st target = (UB, target)"
| "pton_loop wt targsize (ch # src) st target =
     (if ch = 0 then (Ok (ch, src, st), target)
      else if isspace ch then pton_loop wt targsize src st target
      else if ch = Pad64 then (Ok (ch, src, st), target)
      else case base64_pos ch of
             None \<Rightarrow> (Err, target)
           | Some d \<Rightarrow> checkreturn (pton_digit wt targsize d st target) (pton_loop wt targsize src))"

text \<open>\<^verbatim>\<open>for (; ch != 0; ch = *src++) if (!isspace(ch)) break;\<close>: the character it stops at.\<close>

fun skip_spaces :: "byte list \<Rightarrow> (byte \<times> byte list) option" where
  "skip_spaces [] = None"
| "skip_spaces (ch # src) = (if ch \<noteq> 0 \<and> isspace ch then skip_spaces src else Some (ch, src))"

text \<open>After a pad: \<open>src\<close> starts at the character that follows it.\<close>

definition pton_pad :: "bool \<Rightarrow> byte list \<Rightarrow> nat \<times> u32 \<Rightarrow> buffer \<Rightarrow> (u32, buffer) res" where
  "pton_pad with_target src = (\<lambda>(state, tarindex) target.
     let last = (\<lambda>src. case skip_spaces src of
             None \<Rightarrow> (UB, target)
           | Some (ch, _) \<Rightarrow>
               if ch \<noteq> 0 then (Err, target)
               else if \<not> with_target then (Ok tarindex, target)
               else if unat tarindex \<ge> length target then (UB, target)
               else if target ! unat tarindex \<noteq> 0 then (Err, target)
               else (Ok tarindex, target)) in
     if state = 0 \<or> state = 1 then (if src = [] then (UB, target) else (Err, target))
     else if state = 2 then
       (case skip_spaces src of
          None \<Rightarrow> (UB, target)
        | Some (ch, src) \<Rightarrow> if ch \<noteq> Pad64 then (Err, target) else last src)
     else last src)"

definition f_b64_pton :: "byte list \<Rightarrow> bool \<Rightarrow> size_t \<Rightarrow> buffer \<Rightarrow> (u32, buffer) res" where
  "f_b64_pton src with_target targsize target =
     checkreturn (pton_loop with_target targsize src (0, 0) target) (\<lambda>(ch, src, state, tarindex) target.
       if ch = Pad64 then pton_pad with_target src (state, tarindex) target
       else if state \<noteq> 0 then (Err, target)
       else (Ok tarindex, target))"

section \<open>What the encoder writes\<close>

fun b64 :: "byte list \<Rightarrow> byte list" where
  "b64 [] = []"
| "b64 [a] = [base64_char (output0 a), base64_char (output1 a 0), Pad64, Pad64]"
| "b64 [a, b] = [base64_char (output0 a), base64_char (output1 a b), base64_char (output2 b 0), Pad64]"
| "b64 (a # b # c # bs) = map base64_char [output0 a, output1 a b, output2 b c, output3 c] @ b64 bs"

lemma length_b64: "length (b64 bs) = 4 * ((length bs + 2) div 3)"
proof (induction bs rule: b64.induct)
  case (4 a b c bs)
  have "(length (a # b # c # bs) + 2) div 3 = Suc ((length bs + 2) div 3)" by simp
  then show ?case using 4 by simp
qed simp_all

definition patch :: "nat \<Rightarrow> byte list \<Rightarrow> buffer \<Rightarrow> buffer" where
  "patch i bs target = take i target @ bs @ drop (i + length bs) target"

lemma length_patch [simp]: "i + length bs \<le> length t \<Longrightarrow> length (patch i bs t) = length t"
  by (simp add: patch_def)

lemma patch_Nil [simp]: "patch i [] t = t"
  by (simp add: patch_def)

lemma patch_patch:
  assumes "i + length bs + length cs \<le> length t"
  shows "patch (i + length bs) cs (patch i bs t) = patch i (bs @ cs) t"
  using assms by (simp add: patch_def ac_simps)

lemma patch_Cons: "i < length t \<Longrightarrow> patch (Suc i) bs (t[i := b]) = patch i (b # bs) t"
  by (simp add: patch_def take_Suc_conv_app_nth)

lemma put_all_patch:
  "unat i + length bs \<le> length t \<Longrightarrow> length t < 2 ^ 64 \<Longrightarrow> put_all i bs t = (Ok (), patch (unat i) bs t)"
proof (induction bs arbitrary: i t)
  case (Cons b bs)
  have "unat (i + 1) = Suc (unat i)"
    using Cons.prems by (simp add: unat_word_ariths)
  then show ?case using Cons by (simp add: put_at_def patch_Cons)
qed simp

definition ntop_data :: "byte list \<Rightarrow> size_t \<Rightarrow> size_t \<Rightarrow> size_t \<Rightarrow> buffer \<Rightarrow> (size_t, buffer) res" where
  "ntop_data src len dl targsize t =
     checkreturn (ntop_loop src len dl targsize t) (\<lambda>(src, len, dl). ntop_tail src len dl targsize)"

lemma ntop_data_group:
  assumes "unat len = length (a # b # c # bs)"
  shows "ntop_data (a # b # c # bs) len dl n t =
     (if dl + 4 > n then (Err, t)
      else checkreturn (put_all dl (map base64_char [output0 a, output1 a b, output2 b c, output3 c]) t)
             (\<lambda>_. ntop_data bs (len - 3) (dl + 4) n))"
proof -
  have "2 < len" using assms by (simp add: word_less_nat_alt)
  then show ?thesis
    unfolding ntop_data_def by (subst ntop_loop.simps) (simp add: checkreturn_assoc)
qed

lemma ntop_data_tail:
  assumes "unat len = length bs" "length bs < 3"
  shows "ntop_data bs len dl n t = ntop_tail bs len dl n t"
  using assms by (simp add: ntop_data_def ntop_loop.simps word_less_nat_alt)

lemma unat_add_4: "unat dl + 4 < 2 ^ 64 \<Longrightarrow> unat (dl + 4 :: size_t) = unat dl + 4"
  by (simp add: unat_word_ariths)

lemma ntop_data_fits:
  "unat len = length bs \<Longrightarrow> unat dl + length (b64 bs) \<le> unat n \<Longrightarrow> unat n \<le> length t \<Longrightarrow> length t < 2 ^ 64 \<Longrightarrow>
   ntop_data bs len dl n t = (Ok (dl + word_of_nat (length (b64 bs))), patch (unat dl) (b64 bs) t)"
proof (induction bs arbitrary: len dl t rule: b64.induct)
  case 1
  then have "len = 0" by (simp add: unat_eq_zero)
  then show ?case by (simp add: ntop_data_tail ntop_tail_def)
next
  case (2 a)
  then have "len = 1" by (simp add: word_unat_eq_iff)
  moreover have "unat (dl + 4) = unat dl + 4" using 2 by (intro unat_add_4) simp
  ultimately show ?case
    using 2 by (simp add: ntop_data_tail ntop_tail_def Let_def word_less_nat_alt put_all_patch del: put_all.simps)
next
  case (3 a b)
  then have "len = 2" by (simp add: word_unat_eq_iff)
  moreover have "unat (dl + 4) = unat dl + 4" using 3 by (intro unat_add_4) simp
  ultimately show ?case
    using 3 by (simp add: ntop_data_tail ntop_tail_def Let_def word_less_nat_alt put_all_patch del: put_all.simps)
next
  case (4 a b c bs)
  let ?g = "map base64_char [output0 a, output1 a b, output2 b c, output3 c]"
  have l: "length ?g = 4" by simp
  have p: "unat dl + length ?g + length (b64 bs) \<le> length t" using 4 by simp
  have dl: "unat (dl + 4) = unat dl + 4" using 4 by (intro unat_add_4) simp
  have "3 \<le> len" using 4 by (simp add: word_le_nat_alt)
  then have len: "unat (len - 3) = length bs" using 4 by (simp add: unat_diff_le)
  have "ntop_data (a # b # c # bs) len dl n t = ntop_data bs (len - 3) (dl + 4) n (patch (unat dl) ?g t)"
    using 4 dl by (simp add: ntop_data_group put_all_patch word_less_nat_alt del: put_all.simps)
  also have "\<dots> = (Ok (dl + 4 + word_of_nat (length (b64 bs))), patch (unat dl + 4) (b64 bs) (patch (unat dl) ?g t))"
    using 4 dl len by simp
  also have "patch (unat dl + 4) (b64 bs) (patch (unat dl) ?g t) = patch (unat dl) (?g @ b64 bs) t"
    by (rule patch_patch[OF p, unfolded l])
  finally show ?case by simp
qed

lemma ntop_data_full:
  "unat len = length bs \<Longrightarrow> unat n < unat dl + length (b64 bs) \<Longrightarrow> dl \<le> n \<Longrightarrow> unat n \<le> length t \<Longrightarrow> length t + 4 < 2 ^ 64 \<Longrightarrow>
   \<exists>t'. ntop_data bs len dl n t = (Err, t') \<and> length t' = length t"
proof (induction bs arbitrary: len dl t rule: b64.induct)
  case 1
  then show ?case by (simp add: word_le_nat_alt)
next
  case (2 a)
  then have "len = 1" by (simp add: word_unat_eq_iff)
  moreover have "unat (dl + 4) = unat dl + 4" using 2 by (intro unat_add_4) (simp add: word_le_nat_alt)
  ultimately show ?case
    using 2 by (simp add: ntop_data_tail ntop_tail_def Let_def word_less_nat_alt)
next
  case (3 a b)
  then have "len = 2" by (simp add: word_unat_eq_iff)
  moreover have "unat (dl + 4) = unat dl + 4" using 3 by (intro unat_add_4) (simp add: word_le_nat_alt)
  ultimately show ?case
    using 3 by (simp add: ntop_data_tail ntop_tail_def Let_def word_less_nat_alt)
next
  case (4 a b c bs)
  let ?g = "map base64_char [output0 a, output1 a b, output2 b c, output3 c]"
  have dl: "unat (dl + 4) = unat dl + 4" using 4 by (intro unat_add_4) (simp add: word_le_nat_alt)
  have "3 \<le> len" using 4 by (simp add: word_le_nat_alt)
  then have len: "unat (len - 3) = length bs" using 4 by (simp add: unat_diff_le)
  show ?case
  proof (cases "dl + 4 > n")
    case True
    then show ?thesis using 4 by (simp add: ntop_data_group)
  next
    case False
    then have le: "unat dl + 4 \<le> unat n" using dl by (simp add: word_less_nat_alt)
    then have "ntop_data (a # b # c # bs) len dl n t = ntop_data bs (len - 3) (dl + 4) n (patch (unat dl) ?g t)"
      using 4 False by (simp add: ntop_data_group put_all_patch del: put_all.simps)
    moreover have "\<exists>t'. ntop_data bs (len - 3) (dl + 4) n (patch (unat dl) ?g t) = (Err, t') \<and>
        length t' = length (patch (unat dl) ?g t)"
      using 4 dl len le by (intro "4.IH") (simp_all add: word_le_nat_alt)
    ultimately show ?thesis using 4 le by simp
  qed
qed

section \<open>The alphabet\<close>

lemma length_Base64: "length Base64 = 64"
  by (simp add: Base64_def)

lemma distinct_Base64: "distinct Base64"
  by code_simp

lemma Base64_plain: "list_all (\<lambda>c. c \<noteq> 0 \<and> \<not> isspace c \<and> c \<noteq> Pad64) Base64"
  by code_simp

lemma strchr_from_nth: "distinct cs \<Longrightarrow> k < length cs \<Longrightarrow> strchr_from i cs (cs ! k) = Some (i + k)"
proof (induction cs arbitrary: i k)
  case (Cons c cs)
  then show ?case by (cases k) auto
qed simp

lemma strchr_from_SomeD: "strchr_from i cs ch = Some d \<Longrightarrow> i \<le> d \<and> d - i < length cs \<and> cs ! (d - i) = ch"
proof (induction cs arbitrary: i)
  case (Cons c cs)
  show ?case
  proof (cases "c = ch")
    case False
    then have "Suc i \<le> d" "d - Suc i < length cs" "cs ! (d - Suc i) = ch" using Cons by auto
    moreover have "d - i = Suc (d - Suc i)" using \<open>Suc i \<le> d\<close> by simp
    ultimately show ?thesis by simp
  qed (use Cons.prems in auto)
qed simp

lemma base64_pos_char [simp]: "unat v < 64 \<Longrightarrow> base64_pos (base64_char v) = Some (unat v)"
  using strchr_from_nth[OF distinct_Base64, of "unat v" 0] by (simp add: base64_char_def length_Base64)

lemma base64_posD:
  assumes "base64_pos ch = Some d"
  obtains v where "d = unat v" "unat v < 64" "ch = base64_char v"
proof -
  have d: "d < 64" "Base64 ! d = ch" using strchr_from_SomeD[OF assms] by (auto simp: length_Base64)
  then have "unat (word_of_nat d :: byte) = d" by (simp add: unat_word_of_nat)
  then show ?thesis using that[of "word_of_nat d"] d by (simp add: base64_char_def)
qed

lemma base64_char_plain [simp]:
  assumes "unat v < 64"
  shows "base64_char v \<noteq> 0" "\<not> isspace (base64_char v)" "base64_char v \<noteq> Pad64"
  using assms Base64_plain by (auto simp: base64_char_def list_all_length length_Base64)

lemma Pad64_plain [simp]: "Pad64 \<noteq> 0" "\<not> isspace Pad64"
  by (simp_all add: Pad64_def isspace_def)

lemma isspace_0 [simp]: "\<not> isspace 0"
  by (simp add: isspace_def)

section \<open>Splitting bytes into six bits and back\<close>

lemma output1_or: "output1 a b = push_bit 4 (a AND 3) OR drop_bit 4 b"
proof -
  have "push_bit 4 (a AND 3) AND drop_bit 4 b = (0 :: byte)"
    by (rule bit_word_eqI) (auto simp: bit_simps dest: bit_imp_le_length)
  then show ?thesis unfolding output1_def by (rule disjunctive_add_eq_or)
qed

lemma output2_or: "output2 b c = push_bit 2 (b AND 15) OR drop_bit 6 c"
proof -
  have "push_bit 2 (b AND 15) AND drop_bit 6 c = (0 :: byte)"
    by (rule bit_word_eqI) (auto simp: bit_simps dest: bit_imp_le_length)
  then show ?thesis unfolding output2_def by (rule disjunctive_add_eq_or)
qed

lemmas outputs = output0_def output1_or output2_or output3_def


lemma byte_eqI:
  fixes a b :: byte
  assumes "bit a 0 = bit b 0" "bit a (Suc 0) = bit b (Suc 0)" "bit a 2 = bit b 2" "bit a 3 = bit b 3"
    "bit a 4 = bit b 4" "bit a 5 = bit b 5" "bit a 6 = bit b 6" "bit a 7 = bit b 7"
  shows "a = b"
proof (rule bit_word_eqI)
  fix n assume "n < LENGTH(8)"
  then have "n \<in> {0, 1, 2, 3, 4, 5, 6, 7}" by auto
  then show "bit a n = bit b n" using assms by auto
qed

lemma join_first: "push_bit 2 (output0 a) OR drop_bit 4 (output1 a b) = a"
  by (rule byte_eqI) (simp_all add: outputs bit_simps)

lemma join_second: "push_bit 4 (output1 a b AND 0x0f) OR drop_bit 2 (output2 b c) = b"
  by (rule byte_eqI) (simp_all add: outputs bit_simps)

lemma join_third: "push_bit 6 (output2 b c AND 0x03) OR output3 c = c"
  by (rule byte_eqI) (simp_all add: outputs bit_simps)

section \<open>The decoder, character by character\<close>

lemma output_less [simp]:
  "unat (output0 a) < 64" "unat (output1 a b) < 64" "unat (output2 b c) < 64" "unat (output3 c) < 64"
proof -
  have small: "unat v < 64" if "\<not> bit v 6" "\<not> bit v 7" for v :: byte
  proof -
    have "take_bit 6 v = v"
      by (rule byte_eqI) (use that in \<open>simp_all add: bit_simps\<close>)
    then have "unat v = take_bit 6 (unat v)" by (metis unsigned_take_bit_eq)
    then show ?thesis using take_bit_nat_less_exp[of 6 "unat v"] by simp
  qed
  show "unat (output0 a) < 64" by (rule small) (auto simp: outputs bit_simps dest: bit_imp_le_length)
  show "unat (output1 a b) < 64" by (rule small) (auto simp: outputs bit_simps dest: bit_imp_le_length)
  show "unat (output2 b c) < 64" by (rule small) (auto simp: outputs bit_simps dest: bit_imp_le_length)
  show "unat (output3 c) < 64" by (rule small) (auto simp: outputs bit_simps dest: bit_imp_le_length)
qed

text \<open>The four states, for a buffer of at least \<open>n\<close> bytes.\<close>

lemma pton_digit_0:
  assumes "unat n \<le> length t"
  shows "pton_digit True n (unat v) (0, i) t =
     (if unat i < unat n then (Ok (1, i), t[unat i := push_bit 2 v]) else (Err, t))"
  using assms by (simp add: pton_digit_def Let_def put_at_def ucast_u32 word_le_nat_alt)

lemma unat_inc_u32: "Suc (unat i) < 2 ^ 32 \<Longrightarrow> unat (i + 1 :: u32) = Suc (unat i)"
  by (simp add: unat_word_ariths)

lemma pton_digit_1:
  assumes "unat n \<le> length t" "Suc (unat i) < 2 ^ 32"
  shows "pton_digit True n (unat v) (Suc 0, i) t =
     (if Suc (unat i) < unat n
      then (Ok (2, i + 1), t[unat i := t ! unat i OR drop_bit 4 v, Suc (unat i) := push_bit 4 (v AND 0x0f)])
      else (Err, t))"
  using assms by (simp add: pton_digit_def Let_def put_at_def or_at_def ucast_u32 word_le_nat_alt unat_inc_u32)

lemma pton_digit_2:
  assumes "unat n \<le> length t" "Suc (unat i) < 2 ^ 32"
  shows "pton_digit True n (unat v) (2, i) t =
     (if Suc (unat i) < unat n
      then (Ok (3, i + 1), t[unat i := t ! unat i OR drop_bit 2 v, Suc (unat i) := push_bit 6 (v AND 0x03)])
      else (Err, t))"
  using assms by (simp add: pton_digit_def Let_def put_at_def or_at_def ucast_u32 word_le_nat_alt unat_inc_u32)

lemma pton_digit_3:
  assumes "unat n \<le> length t"
  shows "pton_digit True n (unat v) (3, i) t =
     (if unat i < unat n then (Ok (0, i + 1), t[unat i := t ! unat i OR v]) else (Err, t))"
  using assms by (simp add: pton_digit_def Let_def or_at_def ucast_u32 word_le_nat_alt)

lemma pton_loop_char [simp]:
  "unat v < 64 \<Longrightarrow>
   pton_loop wt n (base64_char v # src) st t = checkreturn (pton_digit wt n (unat v) st t) (pton_loop wt n src)"
  by simp

text \<open>What follows the loop.\<close>

definition pton_rest :: "bool \<Rightarrow> size_t \<Rightarrow> byte list \<Rightarrow> nat \<times> u32 \<Rightarrow> buffer \<Rightarrow> (u32, buffer) res" where
  "pton_rest wt n src st t =
     checkreturn (pton_loop wt n src st t) (\<lambda>(ch, src, state, tarindex) target.
       if ch = Pad64 then pton_pad wt src (state, tarindex) target
       else if state \<noteq> 0 then (Err, target) else (Ok tarindex, target))"

lemma pton_rest_char:
  "unat v < 64 \<Longrightarrow> pton_rest wt n (base64_char v # src) st t = checkreturn (pton_digit wt n (unat v) st t) (pton_rest wt n src)"
  unfolding pton_rest_def by (simp add: checkreturn_assoc)

lemma pton_rest_end: "pton_rest wt n (0 # src) (state, i) t = (if state \<noteq> 0 then (Err, t) else (Ok i, t))"
  by (simp add: pton_rest_def Pad64_plain(1)[symmetric])

lemma pton_rest_pad: "pton_rest wt n (Pad64 # src) st t = pton_pad wt src st t"
  by (cases st) (simp add: pton_rest_def)

text \<open>A group of four characters stores three bytes.\<close>

lemma pton_group:
  assumes "unat n \<le> length t" "unat i + 2 < unat n" "unat i + 3 < 2 ^ 32"
    "unat v0 < 64" "unat v1 < 64" "unat v2 < 64" "unat v3 < 64"
  shows "pton_rest True n (base64_char v0 # base64_char v1 # base64_char v2 # base64_char v3 # src) (0, i) t =
    pton_rest True n src (0, i + 3)
      (patch (unat i) [push_bit 2 v0 OR drop_bit 4 v1, push_bit 4 (v1 AND 0x0f) OR drop_bit 2 v2,
         push_bit 6 (v2 AND 0x03) OR v3] t)"
proof -
  have i1: "unat (i + 1) = Suc (unat i)" by (rule unat_inc_u32) (use assms in simp)
  have i2: "unat (i + 1 + 1) = Suc (Suc (unat i))" by (subst unat_inc_u32) (use assms i1 in simp_all)
  note i = i1 i2[simplified]
  have p: "patch (unat i) [x, y, z] t = t[unat i := x, Suc (unat i) := y, Suc (Suc (unat i)) := z]" for x y z
    using assms by (simp add: patch_Cons[symmetric])
  have "i + 1 + 1 + 1 = i + 3" by simp
  then show ?thesis
    using assms i
    by (simp add: pton_rest_char pton_digit_0 pton_digit_1 pton_digit_2 pton_digit_3 p add.commute[of i 3])
qed


section \<open>Decoding what was encoded\<close>

text \<open>The byte past the data that a partial group leaves in the buffer.\<close>

definition slop :: "byte list \<Rightarrow> byte list" where
  "slop bs = (if length bs mod 3 = 0 then [] else [0])"

lemma pton_b64:
  "unat n \<le> length t \<Longrightarrow> unat i + length (bs @ slop bs) \<le> unat n \<Longrightarrow> unat i + length bs + 3 < 2 ^ 32 \<Longrightarrow>
   pton_rest True n (b64 bs @ 0 # rest) (0, i) t = (Ok (i + word_of_nat (length bs)), patch (unat i) (bs @ slop bs) t)"
proof (induction bs arbitrary: i t rule: b64.induct)
  case 1
  then show ?case by (simp add: pton_rest_end slop_def)
next
  case (2 a)
  have i: "unat (i + 1) = Suc (unat i)" by (rule unat_inc_u32) (use 2 in simp)
  have z: "push_bit 4 (output1 a 0 AND 0x0f) = (0 :: byte)"
    by (rule byte_eqI) (simp_all add: outputs bit_simps)
  show ?case
    using 2 i z join_first[of a 0]
    by (simp add: pton_rest_char pton_rest_pad pton_digit_0 pton_digit_1 pton_pad_def slop_def
        patch_Cons[symmetric])
next
  case (3 a b)
  have i: "unat (i + 1) = Suc (unat i)" by (rule unat_inc_u32) (use 3 in simp)
  have i2: "unat (i + 1 + 1) = Suc (Suc (unat i))" by (subst unat_inc_u32) (use 3 i in simp_all)
  have z: "push_bit 6 (output2 b 0 AND 0x03) = (0 :: byte)"
    by (rule byte_eqI) (simp_all add: outputs bit_simps)
  show ?case
    using 3 i i2[simplified] z join_first[of a b] join_second[of a b 0]
    by (simp add: pton_rest_char pton_rest_pad pton_digit_0 pton_digit_1 pton_digit_2 pton_pad_def slop_def
        patch_Cons[symmetric])
next
  case (4 a b c bs)
  have s: "slop (a # b # c # bs) = slop bs" by (simp add: slop_def)
  have i: "unat (i + 3) = unat i + 3" using 4 by (simp add: unat_word_ariths)
  let ?t = "patch (unat i) [a, b, c] t"
  have "pton_rest True n (b64 (a # b # c # bs) @ 0 # rest) (0, i) t = pton_rest True n (b64 bs @ 0 # rest) (0, i + 3) ?t"
    using 4 pton_group[of n t i "output0 a" "output1 a b" "output2 b c" "output3 c",
        unfolded join_first join_second join_third] by simp
  also have "\<dots> = (Ok (i + 3 + word_of_nat (length bs)), patch (unat i + 3) (bs @ slop bs) ?t)"
    using 4 i s by simp
  also have "patch (unat i + 3) (bs @ slop bs) ?t = patch (unat i) ([a, b, c] @ bs @ slop bs) t"
  proof -
    have "length [a, b, c] = 3" "unat i + length [a, b, c] + length (bs @ slop bs) \<le> length t" using 4 s by simp_all
    then show ?thesis by (metis patch_patch)
  qed
  finally show ?case using s by simp
qed

section \<open>Only encodings are accepted\<close>

abbreviation not_space :: "byte \<Rightarrow> bool" where "not_space c \<equiv> \<not> isspace c"

lemma skip_spaces_string:
  "0 \<notin> set s \<Longrightarrow>
   (\<exists>s2. skip_spaces (s @ 0 # rest) = (case filter not_space s of [] \<Rightarrow> Some (0, rest) | c # _ \<Rightarrow> Some (c, s2 @ 0 # rest)) \<and>
      0 \<notin> set s2 \<and> filter not_space s2 = tl (filter not_space s))"
proof (induction s)
  case (Cons c s)
  then show ?case by (cases "isspace c") auto
qed (auto intro: exI[of _ "[]"])

lemma skip_spaces_filter:
  assumes "0 \<notin> set s"
  shows "map_option fst (skip_spaces (s @ 0 # rest)) = map_option fst (skip_spaces (filter not_space s @ 0 # rest))"
  using skip_spaces_string[OF assms, of rest] skip_spaces_string[of "filter not_space s" rest] assms
  by (auto split: list.splits)

definition pad_last :: "bool \<Rightarrow> u32 \<Rightarrow> buffer \<Rightarrow> byte option \<Rightarrow> (u32, buffer) res" where
  "pad_last wt i t ch = (case ch of
      None \<Rightarrow> (UB, t)
    | Some ch \<Rightarrow> if ch \<noteq> 0 then (Err, t) else if \<not> wt then (Ok i, t)
        else if unat i \<ge> length t then (UB, t) else if t ! unat i \<noteq> 0 then (Err, t) else (Ok i, t))"

lemma pton_pad_alt:
  "pton_pad wt src (state, i) t =
     (if state = 0 \<or> state = 1 then (if src = [] then (UB, t) else (Err, t))
      else if state = 2 then
        (case skip_spaces src of
           None \<Rightarrow> (UB, t)
         | Some (ch, src) \<Rightarrow> if ch \<noteq> Pad64 then (Err, t) else pad_last wt i t (map_option fst (skip_spaces src)))
      else pad_last wt i t (map_option fst (skip_spaces src)))"
  by (simp add: pton_pad_def pad_last_def Let_def split: option.splits)

lemma pton_pad_filter:
  assumes "0 \<notin> set s"
  shows "pton_pad wt (s @ 0 # rest) st t = pton_pad wt (filter not_space s @ 0 # rest) st t"
proof (cases st)
  case (Pair state i)
  let ?f = "filter not_space s"
  have "0 \<notin> set ?f" using assms by simp
  then obtain s2 s3 where s2:
      "skip_spaces (s @ 0 # rest) = (case ?f of [] \<Rightarrow> Some (0, rest) | c # _ \<Rightarrow> Some (c, s2 @ 0 # rest))"
      "0 \<notin> set s2" "filter not_space s2 = tl ?f"
    and s3: "skip_spaces (?f @ 0 # rest) = (case ?f of [] \<Rightarrow> Some (0, rest) | c # _ \<Rightarrow> Some (c, s3 @ 0 # rest))"
      "0 \<notin> set s3" "filter not_space s3 = tl ?f"
    using skip_spaces_string[OF assms, of rest] skip_spaces_string[of ?f rest] by auto
  have "map_option fst (skip_spaces (s2 @ 0 # rest)) = map_option fst (skip_spaces (s3 @ 0 # rest))"
    using skip_spaces_filter[OF s2(2), of rest] skip_spaces_filter[OF s3(2), of rest] s2(3) s3(3) by simp
  then show ?thesis
    using Pair s2(1) s3(1) skip_spaces_filter[OF assms, of rest] by (auto simp: pton_pad_alt split: list.splits)
qed

lemma pton_rest_bad:
  "c \<noteq> 0 \<Longrightarrow> \<not> isspace c \<Longrightarrow> c \<noteq> Pad64 \<Longrightarrow> base64_pos c = None \<Longrightarrow> pton_rest wt n (c # src) st t = (Err, t)"
  by (simp add: pton_rest_def)

lemma pton_rest_space: "isspace c \<Longrightarrow> pton_rest wt n (c # src) st t = pton_rest wt n src st t"
  by (cases "c = 0") (simp_all add: pton_rest_def)

lemma char_cases:
  assumes "c \<noteq> 0" "\<not> isspace c"
  obtains "c = Pad64" | "c \<noteq> Pad64" "base64_pos c = None" | v where "unat v < 64" "c = base64_char v"
  by (cases "base64_pos c"; cases "c = Pad64") (auto elim: base64_posD)

lemma pton_rest_filter:
  "0 \<notin> set s \<Longrightarrow> pton_rest wt n (s @ 0 # rest) st t = pton_rest wt n (filter not_space s @ 0 # rest) st t"
proof (induction s arbitrary: st t)
  case (Cons c s)
  show ?case
  proof (cases "isspace c")
    case True
    then show ?thesis using Cons by (simp add: pton_rest_space)
  next
    case False
    then have "c \<noteq> 0" "\<not> isspace c" using Cons.prems by auto
    then show ?thesis
    proof (cases rule: char_cases)
      case 1
      then show ?thesis using Cons.prems pton_pad_filter[of s] by (simp add: pton_rest_pad)
    next
      case 2
      then show ?thesis using False Cons.prems by (simp add: pton_rest_bad)
    next
      case (3 v)
      then have "pton_rest wt n (s @ 0 # rest) = pton_rest wt n (filter not_space s @ 0 # rest)"
        using Cons by (intro ext) simp
      then show ?thesis using 3 by (simp add: pton_rest_char)
    qed
  qed
qed simp

lemma small_bits: "unat v < 64 \<Longrightarrow> \<not> bit v 6 \<and> \<not> bit (v :: byte) 7"
proof -
  assume "unat v < 64"
  then have "take_bit 6 v = v" by (simp add: word_unat_eq_iff unsigned_take_bit_eq take_bit_nat_eq_self)
  moreover have "\<not> bit (take_bit 6 v) 6 \<and> \<not> bit (take_bit 6 v) 7" by (simp add: bit_simps)
  ultimately show ?thesis by simp
qed

lemma split_joined:
  assumes "unat v0 < 64" "unat v1 < 64" "unat v2 < 64" "unat v3 < 64"
  shows "output0 (push_bit 2 v0 OR drop_bit 4 v1) = v0"
    "output1 (push_bit 2 v0 OR drop_bit 4 v1) (push_bit 4 (v1 AND 0x0f) OR drop_bit 2 v2) = v1"
    "output2 (push_bit 4 (v1 AND 0x0f) OR drop_bit 2 v2) (push_bit 6 (v2 AND 0x03) OR v3) = v2"
    "output3 (push_bit 6 (v2 AND 0x03) OR v3) = v3"
proof -
  note b = small_bits[OF assms(1)] small_bits[OF assms(2)] small_bits[OF assms(3)] small_bits[OF assms(4)]
  note o = outputs bit_simps
  show "output0 (push_bit 2 v0 OR drop_bit 4 v1) = v0"
    by (rule byte_eqI) (use b in \<open>auto simp: o dest: bit_imp_le_length\<close>)
  show "output1 (push_bit 2 v0 OR drop_bit 4 v1) (push_bit 4 (v1 AND 0x0f) OR drop_bit 2 v2) = v1"
    by (rule byte_eqI) (use b in \<open>auto simp: o dest: bit_imp_le_length\<close>)
  show "output2 (push_bit 4 (v1 AND 0x0f) OR drop_bit 2 v2) (push_bit 6 (v2 AND 0x03) OR v3) = v2"
    by (rule byte_eqI) (use b in \<open>auto simp: o dest: bit_imp_le_length\<close>)
  show "output3 (push_bit 6 (v2 AND 0x03) OR v3) = v3"
    by (rule byte_eqI) (use b in \<open>auto simp: o dest: bit_imp_le_length\<close>)
qed


text \<open>What the next character of an accepted string can be.\<close>

definition plain :: "byte list \<Rightarrow> bool" where
  "plain s \<longleftrightarrow> (\<forall>c \<in> set s. c \<noteq> 0 \<and> \<not> isspace c)"

lemma plain_simps [simp]: "plain []" "plain (c # s) \<longleftrightarrow> c \<noteq> 0 \<and> \<not> isspace c \<and> plain s"
  by (auto simp: plain_def)

lemma skip_spaces_plain: "plain s \<Longrightarrow> skip_spaces (s @ 0 # rest) = (case s of [] \<Rightarrow> Some (0, rest) | c # s \<Rightarrow> Some (c, s @ 0 # rest))"
  by (cases s) auto

lemma pton_rest_OkE:
  assumes "pton_rest True n (s @ 0 # rest) (state, i) t = (Ok k, t')" "plain s"
  obtains "s = []" "state = 0" "k = i" "t' = t"
  | s' where "s = Pad64 # s'" "plain s'" "pton_pad True (s' @ 0 # rest) (state, i) t = (Ok k, t')"
  | v s' st t1 where "s = base64_char v # s'" "unat v < 64" "plain s'" "pton_digit True n (unat v) (state, i) t = (Ok st, t1)"
      "pton_rest True n (s' @ 0 # rest) st t1 = (Ok k, t')"
proof (cases s)
  case Nil
  then show ?thesis using assms(1) that(1) by (simp add: pton_rest_end split: if_splits)
next
  case (Cons c s')
  then have c: "c \<noteq> 0" "\<not> isspace c" "plain s'" using assms(2) by auto
  from c(1,2) show ?thesis
  proof (cases rule: char_cases)
    case 1
    then show ?thesis using assms(1) Cons c that(2) by (simp add: pton_rest_pad)
  next
    case 2
    then show ?thesis using assms(1) Cons c by (simp add: pton_rest_bad)
  next
    case (3 v)
    then show ?thesis using assms(1) Cons c that(3) by (auto simp: pton_rest_char checkreturn_Ok_iff)
  qed
qed

lemma pton_pad_OkD:
  assumes "pton_pad True (s @ 0 # rest) (state, i) t = (Ok k, t')" "plain s"
  shows "k = i \<and> t' = t \<and> t ! unat i = 0 \<and> (state = 2 \<and> s = [Pad64] \<or> state > 2 \<and> s = [])"
  using assms
  by (cases s; cases "tl s")
     (auto simp: pton_pad_alt skip_spaces_plain pad_last_def Pad64_plain(1)[symmetric] split: if_splits)

text \<open>The three ways a string accepted from state 0 can start.\<close>

lemma pton_accepts_group:
  assumes acc: "pton_rest True n (s @ 0 # rest) (0, i) t = (Ok k, t')" and s: "plain s" "s \<noteq> []"
    and n: "unat n \<le> length t" and i: "unat i + 3 < 2 ^ 32"
  obtains a where "s = b64 [a]" "k = i + 1" "t' = patch (unat i) [a, 0] t" "unat i + 1 < unat n"
  | a b where "s = b64 [a, b]" "k = i + 2" "t' = patch (unat i) [a, b, 0] t" "unat i + 2 < unat n"
  | a b c s' where "s = b64 [a, b, c] @ s'" "plain s'" "unat i + 2 < unat n"
      "pton_rest True n (s' @ 0 # rest) (0, i + 3) (patch (unat i) [a, b, c] t) = (Ok k, t')"
proof -
  have i1: "unat (i + 1) = Suc (unat i)" by (rule unat_inc_u32) (use i in simp)
  have i2: "unat (i + 1 + 1) = Suc (Suc (unat i))" by (subst unat_inc_u32) (use i i1 in simp_all)
  note p = patch_Cons[symmetric]
  obtain v0 s0 where v0: "s = base64_char v0 # s0" "unat v0 < 64" "plain s0" "unat i < unat n"
      "pton_rest True n (s0 @ 0 # rest) (Suc 0, i) (t[unat i := push_bit 2 v0]) = (Ok k, t')"
    using acc s(1)
  proof (cases rule: pton_rest_OkE)
    case (3 v s' st t1)
    then show ?thesis using that[of v s'] n by (simp add: pton_digit_0 split: if_splits)
  qed (use s in \<open>auto dest: pton_pad_OkD\<close>)
  obtain v1 s1 where v1: "s0 = base64_char v1 # s1" "unat v1 < 64" "plain s1" "Suc (unat i) < unat n"
      "pton_rest True n (s1 @ 0 # rest) (2, i + 1)
         (t[unat i := push_bit 2 v0 OR drop_bit 4 v1, Suc (unat i) := push_bit 4 (v1 AND 0x0f)]) = (Ok k, t')"
    using v0(5,3)
  proof (cases rule: pton_rest_OkE)
    case (3 v s' st t1)
    then show ?thesis using that[of v s'] n i v0(4) by (simp add: pton_digit_1 split: if_splits)
  qed (auto dest: pton_pad_OkD)
  let ?a = "push_bit 2 v0 OR drop_bit 4 v1" and ?b0 = "push_bit 4 (v1 AND 0x0f)"
  show ?thesis
    using v1(5,3)
  proof (cases rule: pton_rest_OkE)
    case (2 s')
    then have f: "s' = [Pad64]" "k = i + 1" "t' = t[unat i := ?a, Suc (unat i) := ?b0]" "?b0 = 0"
      using pton_pad_OkD[OF 2(3,2)] i1 v1(4) n by (auto simp del: push_bit_and)
    have "output0 ?a = v0" "output1 ?a 0 = v1"
      using split_joined(1,2)[OF v0(2) v1(2), of 0 0] f(4) by (simp_all del: push_bit_and)
    then show ?thesis
      using that(1)[of ?a] v0(1) v1(1,4) 2(1) f n by (simp add: p)
  next
    case (3 v2 s2 st t1)
    then have st: "Suc (unat (i + 1)) < unat n" "st = (3, i + 1 + 1)"
        "t1 = t[unat i := ?a, Suc (unat i) := ?b0 OR drop_bit 2 v2, Suc (Suc (unat i)) := push_bit 6 (v2 AND 0x03)]"
      using n i i1 v1(4) by (auto simp: pton_digit_2 split: if_splits simp del: push_bit_and)
    let ?b = "?b0 OR drop_bit 2 v2" and ?c0 = "push_bit 6 (v2 AND 0x03)"
    have acc2: "pton_rest True n (s2 @ 0 # rest) (3, i + 1 + 1) t1 = (Ok k, t')" using 3(5) st(2) by simp
    show ?thesis
      using acc2 3(3)
    proof (cases rule: pton_rest_OkE)
      case (2 s')
      then have f: "s' = []" "k = i + 1 + 1" "t' = t1" "?c0 = 0"
        using pton_pad_OkD[OF 2(3,2)] i1 i2 st n by (auto simp del: push_bit_and)
      have "output0 ?a = v0" "output1 ?a ?b = v1" "output2 ?b 0 = v2"
        using split_joined(1,2,3)[OF v0(2) v1(2) 3(2), of 0] f(4) by (simp_all del: push_bit_and)
      then show ?thesis
        using that(2)[of ?a ?b] v0(1) v1(1) 3(1) 2(1) f st n i1 by (simp add: p)
    next
      case v3: (3 v3 s3 st' t2)
      let ?c = "?c0 OR v3"
      have t2: "st' = (0, i + 1 + 1 + 1)" "t2 = patch (unat i) [?a, ?b, ?c] t"
        using v3(4) st n i1 i2 by (auto simp: pton_digit_3 p split: if_splits simp del: push_bit_and)
      have "output0 ?a = v0" "output1 ?a ?b = v1" "output2 ?b ?c = v2" "output3 ?c = v3"
        using split_joined[OF v0(2) v1(2) 3(2) v3(2)] by (simp_all del: push_bit_and)
      then have "s = b64 [?a, ?b, ?c] @ s3" using v0(1) v1(1) 3(1) v3(1) by simp
      moreover have "i + 1 + 1 + 1 = i + 3" by simp
      ultimately show ?thesis
        using that(3)[of ?a ?b ?c s3] v3(3,5) t2 st(1) i1 by (simp add: add.commute)
    qed simp
  qed simp
qed


lemma pton_accepts:
  "pton_rest True n (s @ 0 # rest) (0, i) t = (Ok k, t') \<Longrightarrow> plain s \<Longrightarrow> unat n \<le> length t \<Longrightarrow>
   unat i + length s + 3 < 2 ^ 32 \<Longrightarrow> unat i \<le> unat n \<Longrightarrow>
   \<exists>bs. s = b64 bs \<and> k = i + word_of_nat (length bs) \<and> t' = patch (unat i) (bs @ slop bs) t \<and>
     unat i + length (bs @ slop bs) \<le> unat n"
proof (induction s arbitrary: i t rule: length_induct)
  case (1 s)
  note IH = 1(1) and acc = 1(2) and s = 1(3) and n = 1(4) and i = 1(5,6)
  show ?case
  proof (cases "s = []")
    case True
    then show ?thesis using acc i by (auto simp: pton_rest_end slop_def intro!: exI[of _ "[]"])
  next
    case False
    have i3: "unat i + 3 < 2 ^ 32" using i by simp
    show ?thesis
      using acc s False n i3
    proof (cases rule: pton_accepts_group)
      case (1 a)
      then show ?thesis by (intro exI[of _ "[a]"]) (simp add: slop_def)
    next
      case (2 a b)
      then show ?thesis by (intro exI[of _ "[a, b]"]) (simp add: slop_def)
    next
      case (3 a b c s')
      have u: "unat (i + 3) = unat i + 3" using i by (simp add: unat_word_ariths)
      have "length s' < length s" using 3(1) by simp
      then obtain bs where bs: "s' = b64 bs" "k = i + 3 + word_of_nat (length bs)"
          "t' = patch (unat i + 3) (bs @ slop bs) (patch (unat i) [a, b, c] t)"
          "unat i + 3 + length (bs @ slop bs) \<le> unat n"
        using IH[rule_format, of s' "i + 3" "patch (unat i) [a, b, c] t"] 3 n i u by auto
      have l: "length [a, b, c] = 3" "unat i + length [a, b, c] + length (bs @ slop bs) \<le> length t"
        using bs(4) n by simp_all
      have "slop (a # b # c # bs) = slop bs" by (simp add: slop_def)
      moreover have "t' = patch (unat i) ([a, b, c] @ bs @ slop bs) t" using patch_patch[OF l(2)] bs(3) l(1) by metis
      ultimately show ?thesis using 3(1) bs by (intro exI[of _ "a # b # c # bs"]) simp
    qed
  qed
qed

section \<open>Safety\<close>

text \<open>The index stays inside the buffer whenever a partial byte is pending.\<close>

definition pending_ok :: "size_t \<Rightarrow> nat \<times> u32 \<Rightarrow> bool" where
  "pending_ok n st \<longleftrightarrow> (fst st > 0 \<longrightarrow> unat (snd st) < unat n)"

lemma pton_digit_safe:
  assumes "unat n \<le> length t" "pending_ok n (state, i)" "Suc (unat i) < 2 ^ 32"
  obtains r t' where "pton_digit True n d (state, i) t = (r, t')" "r \<noteq> UB" "r \<noteq> Fuel" "length t' = length t"
    "\<And>st. r = Ok st \<Longrightarrow> pending_ok n st \<and> unat (snd st) \<le> Suc (unat i)"
proof -
  have "unat (i + 1) = Suc (unat i)" using assms(3) by (rule unat_inc_u32)
  then show ?thesis
    using assms that
    by (cases "pton_digit True n d (state, i) t")
       (auto simp: pton_digit_def put_at_def or_at_def pending_ok_def Let_def ucast_u32 word_le_nat_alt split: if_splits)
qed

lemma skip_spaces_terminated: "0 \<in> set s \<Longrightarrow> \<exists>c s'. skip_spaces s = Some (c, s') \<and> (c \<noteq> 0 \<longrightarrow> 0 \<in> set s')"
  by (induction s) auto

lemma pton_pad_safe:
  assumes "unat n \<le> length t" "pending_ok n (state, i)" "0 \<in> set src"
  shows "fst (pton_pad True src (state, i) t) \<noteq> UB" "fst (pton_pad True src (state, i) t) \<noteq> Fuel"
    "snd (pton_pad True src (state, i) t) = t"
proof -
  have "src \<noteq> []" using assms(3) by auto
  obtain c s' where c: "skip_spaces src = Some (c, s')" "c \<noteq> 0 \<longrightarrow> 0 \<in> set s'"
    using skip_spaces_terminated[OF assms(3)] by blast
  have "c = Pad64 \<Longrightarrow> \<exists>c2 s2. skip_spaces s' = Some (c2, s2)"
    using c(2) skip_spaces_terminated[of s'] by auto
  with c(1) \<open>src \<noteq> []\<close> assms(1,2)
  show "fst (pton_pad True src (state, i) t) \<noteq> UB" "fst (pton_pad True src (state, i) t) \<noteq> Fuel"
    "snd (pton_pad True src (state, i) t) = t"
    by (auto simp: pton_pad_alt pad_last_def pending_ok_def split: if_splits)
qed

lemma pton_rest_safe:
  "unat n \<le> length t \<Longrightarrow> pending_ok n st \<Longrightarrow> 0 \<in> set src \<Longrightarrow> unat (snd st) + length src < 2 ^ 32 \<Longrightarrow>
   fst (pton_rest True n src st t) \<notin> {UB, Fuel} \<and> length (snd (pton_rest True n src st t)) = length t"
proof (induction src arbitrary: st t)
  case (Cons c src)
  obtain state i where st: "st = (state, i)" by (cases st)
  show ?case
  proof (cases "c = 0")
    case True
    then show ?thesis using st by (simp add: pton_rest_end)
  next
    case c0: False
    show ?thesis
    proof (cases "isspace c")
      case True
      then show ?thesis using Cons c0 by (simp add: pton_rest_space)
    next
      case False
      with c0 show ?thesis
      proof (cases rule: char_cases)
        case 1
        then show ?thesis using Cons.prems c0 st pton_pad_safe by (simp add: pton_rest_pad)
      next
        case 2
        then show ?thesis using False c0 by (simp add: pton_rest_bad)
      next
        case (3 v)
        obtain r t' where r: "pton_digit True n (unat v) (state, i) t = (r, t')" "r \<noteq> UB" "r \<noteq> Fuel" "length t' = length t"
            "\<And>st. r = Ok st \<Longrightarrow> pending_ok n st \<and> unat (snd st) \<le> Suc (unat i)"
          using pton_digit_safe[OF Cons.prems(1), of state i "unat v"] Cons.prems st by (auto simp del: One_nat_def)
        have "fst (pton_rest True n src st' t') \<notin> {UB, Fuel} \<and> length (snd (pton_rest True n src st' t')) = length t'"
          if "r = Ok st'" for st'
          using Cons.prems r(4) r(5)[OF that] c0 st by (intro Cons.IH) auto
        then show ?thesis using r st 3 by (cases r) (auto simp: pton_rest_char)
      qed
    qed
  qed
qed simp

section \<open>Properties\<close>

lemma f_b64_ntop_data:
  "f_b64_ntop src len n t =
     checkreturn (ntop_data src len 0 n t) (\<lambda>dl t.
       if dl \<ge> n then (Err, t) else checkreturn (put_at dl 0 t) (\<lambda>_ t. (Ok (ucast dl), t)))"
  unfolding f_b64_ntop_def ntop_data_def checkreturn_assoc by (rule arg_cong[where f = "checkreturn _"]) auto

lemma f_b64_pton_rest: "f_b64_pton src wt n t = pton_rest wt n src (0, 0) t"
  by (simp add: f_b64_pton_def pton_rest_def)

lemma ntop_result:
  assumes "length (b64 bs) < unat n" "unat n \<le> length t" "length t < 2 ^ 64" "length bs < 2 ^ 64"
  shows "f_b64_ntop bs (word_of_nat (length bs)) n t = (Ok (word_of_nat (length (b64 bs))), patch 0 (b64 bs @ [0]) t)"
proof -
  let ?n = "word_of_nat (length (b64 bs)) :: size_t"
  have u: "unat ?n = length (b64 bs)" using assms by (intro unat_word_of_nat) simp
  have "ntop_data bs (word_of_nat (length bs)) 0 n t = (Ok (0 + ?n), patch (unat (0 :: size_t)) (b64 bs) t)"
    using assms by (intro ntop_data_fits) (simp_all add: unat_word_of_nat)
  moreover have "patch (length (b64 bs)) [0] (patch 0 (b64 bs) t) = patch 0 (b64 bs @ [0]) t"
    using assms patch_patch[of 0 "b64 bs" "[0]" t] by simp
  moreover have "put_at ?n 0 (patch 0 (b64 bs) t) = (Ok (), patch (length (b64 bs)) [0] (patch 0 (b64 bs) t))"
    using assms u put_all_patch[of ?n "[0]" "patch 0 (b64 bs) t"] by (simp add: checkreturn_def put_at_def)
  ultimately show ?thesis
    using u assms by (simp add: f_b64_ntop_data word_le_nat_alt unsigned_of_nat take_bit_nat_eq_self)
qed

text \<open>\<^verbatim>\<open>f_b64_ntop\<close> writes the base64 form of its input and a terminator, four characters for
  every three bytes begun, and returns the number of characters without the terminator.\<close>

theorem b64_ntop_encodes:
  assumes "length (b64 bs) < unat n" "unat n \<le> length t" "length t < 2 ^ 64" "length bs < 2 ^ 64"
  shows "\<exists>t'. f_b64_ntop bs (word_of_nat (length bs)) n t = (Ok (word_of_nat (4 * ((length bs + 2) div 3))), t') \<and>
    t' = b64 bs @ 0 # drop (length (b64 bs) + 1) t"
  using ntop_result[OF assms] by (simp add: length_b64 patch_def)

theorem b64_ntop_encodes_witness:
  "\<exists>t'. f_b64_ntop [77, 97] (word_of_nat 2) 6 [9, 9, 9, 9, 9, 9] = (Ok (word_of_nat (4 * ((2 + 2) div 3))), t') \<and>
    t' = b64 [77, 97] @ 0 # [9]"
  using b64_ntop_encodes[of "[77, 97]" 6 "[9, 9, 9, 9, 9, 9]"] by simp

text \<open>C29: when the target is too small for the encoding and its terminator, \<^verbatim>\<open>f_b64_ntop\<close> returns -1,
  and it has not written outside the target.\<close>

theorem b64_ntop_too_small:
  assumes "unat n \<le> length (b64 bs)" "unat n \<le> length t" "length t + 4 < 2 ^ 64" "length bs < 2 ^ 64"
  shows "\<exists>t'. f_b64_ntop bs (word_of_nat (length bs)) n t = (Err, t') \<and> length t' = length t"
proof (cases "unat n = length (b64 bs)")
  case True
  have "ntop_data bs (word_of_nat (length bs)) 0 n t =
      (Ok (0 + word_of_nat (length (b64 bs))), patch (unat (0 :: size_t)) (b64 bs) t)"
    using assms True by (intro ntop_data_fits) (simp_all add: unat_word_of_nat)
  moreover have "word_of_nat (length (b64 bs)) = n" using True assms(2,3) by (simp add: word_unat_eq_iff unat_word_of_nat)
  ultimately show ?thesis using assms True by (simp add: f_b64_ntop_data)
next
  case False
  have "\<exists>t'. ntop_data bs (word_of_nat (length bs)) 0 n t = (Err, t') \<and> length t' = length t"
    using assms False by (intro ntop_data_full) (simp_all add: unat_word_of_nat)
  then show ?thesis by (auto simp: f_b64_ntop_data)
qed

theorem b64_ntop_too_small_witness:
  "\<exists>t'. f_b64_ntop [77, 97] (word_of_nat 2) 4 [9, 9, 9, 9] = (Err, t') \<and> length t' = length [9, 9, 9, 9 :: byte]"
  using b64_ntop_too_small[of 4 "[77, 97]" "[9, 9, 9, 9]"] by simp

text \<open>C11: decoding what \<^verbatim>\<open>f_b64_ntop\<close> wrote gives the original bytes back.\<close>

theorem b64_round_trip:
  assumes "length (b64 bs) < unat n" "unat n \<le> length t" "length t < 2 ^ 64" "length bs + 3 < 2 ^ 32"
    and "length bs < unat m" "unat m \<le> length u"
  shows "\<exists>t' u'. f_b64_ntop bs (word_of_nat (length bs)) n t = (Ok (word_of_nat (length (b64 bs))), t') \<and>
    f_b64_pton t' True m u = (Ok (word_of_nat (length bs)), u') \<and> take (length bs) u' = bs"
proof -
  have "f_b64_pton (b64 bs @ 0 # drop (length (b64 bs) + 1) t) True m u =
      (Ok (0 + word_of_nat (length bs)), patch (unat (0 :: u32)) (bs @ slop bs) u)"
    unfolding f_b64_pton_rest by (rule pton_b64) (use assms in \<open>auto simp: slop_def\<close>)
  moreover have "take (length bs) (patch 0 (bs @ slop bs) u) = bs" by (simp add: patch_def)
  ultimately show ?thesis using ntop_result[OF assms(1-3)] assms(4) by (simp add: patch_def)
qed

theorem b64_round_trip_witness:
  "\<exists>t' u'. f_b64_ntop [1, 2, 3, 4] (word_of_nat 4) 9 [7, 7, 7, 7, 7, 7, 7, 7, 7] = (Ok (word_of_nat 8), t') \<and>
    f_b64_pton t' True 5 [0, 0, 0, 0, 0] = (Ok (word_of_nat 4), u') \<and> take (length [1, 2, 3, 4 :: byte]) u' = [1, 2, 3, 4]"
  using b64_round_trip[of "[1, 2, 3, 4]" 9 "[7, 7, 7, 7, 7, 7, 7, 7, 7]" 5 "[0, 0, 0, 0, 0]"] by simp

text \<open>C12: \<^verbatim>\<open>f_b64_pton\<close> accepts a string exactly if, white space aside, it is the base64 form of some
  bytes that fit the target, and then it returns their number and leaves them at the start of the target, with a zero byte
  behind them when the last group is padded: there is one spelling per value, and the unused bits of the last
  character cannot carry information.\<close>

theorem b64_pton_accepts:
  assumes "0 \<notin> set s" "unat n \<le> length t" "length s + 3 < 2 ^ 32"
  shows "f_b64_pton (s @ 0 # rest) True n t = (Ok k, t') \<longleftrightarrow>
    (\<exists>bs. filter (\<lambda>c. \<not> isspace c) s = b64 bs \<and> length (bs @ slop bs) \<le> unat n \<and>
      unat k = length bs \<and> t' = bs @ slop bs @ drop (length (bs @ slop bs)) t)"
proof -
  let ?f = "filter not_space s"
  have f: "f_b64_pton (s @ 0 # rest) True n t = pton_rest True n (?f @ 0 # rest) (0, 0) t"
    using pton_rest_filter[OF assms(1)] by (simp add: f_b64_pton_rest)
  have plain: "plain ?f" using assms(1) by (auto simp: plain_def)
  have len: "length ?f + 3 < 2 ^ 32" using assms(3) length_filter_le[of not_space s] by linarith
  have short: "length bs + 3 < 2 ^ 32" if "?f = b64 bs" for bs
    using len arg_cong[OF that, of length] by (simp add: length_b64)
  have accepted: "f_b64_pton (s @ 0 # rest) True n t = (Ok (word_of_nat (length bs)), patch 0 (bs @ slop bs) t)"
    if "?f = b64 bs" "length (bs @ slop bs) \<le> unat n" for bs
    using pton_b64[of n t 0 bs rest] that assms(2) short[OF that(1)] by (simp add: f)
  show ?thesis
  proof
    assume "f_b64_pton (s @ 0 # rest) True n t = (Ok k, t')"
    then obtain bs where bs: "?f = b64 bs" "k = 0 + word_of_nat (length bs)" "t' = patch (unat (0 :: u32)) (bs @ slop bs) t"
      "unat (0 :: u32) + length (bs @ slop bs) \<le> unat n"
      using pton_accepts[of n ?f rest 0 t k t'] plain len assms(2) f by auto
    moreover have "unat k = length bs" using short[OF bs(1)] bs(2) by (simp add: unat_word_of_nat)
    ultimately show "\<exists>bs. ?f = b64 bs \<and> length (bs @ slop bs) \<le> unat n \<and> unat k = length bs \<and>
      t' = bs @ slop bs @ drop (length (bs @ slop bs)) t" by (auto simp: patch_def)
  next
    assume "\<exists>bs. ?f = b64 bs \<and> length (bs @ slop bs) \<le> unat n \<and> unat k = length bs \<and>
      t' = bs @ slop bs @ drop (length (bs @ slop bs)) t"
    then obtain bs where bs: "?f = b64 bs" "length (bs @ slop bs) \<le> unat n" "unat k = length bs"
      "t' = bs @ slop bs @ drop (length (bs @ slop bs)) t" by blast
    moreover have "k = word_of_nat (length bs)" by (simp flip: bs(3))
    ultimately show "f_b64_pton (s @ 0 # rest) True n t = (Ok k, t')" using accepted[OF bs(1,2)] by (simp add: patch_def)
  qed
qed

theorem b64_pton_accepts_witness:
  "f_b64_pton ([84, 32, 87, 69, 61] @ 0 # []) True 4 [9, 9, 9, 9] = (Ok 2, [77, 97, 0, 9])"
proof -
  have "filter (\<lambda>c. \<not> isspace c) [84, 32, 87, 69, 61] = b64 [77, 97]" "slop [77, 97 :: byte] = [0]" by code_simp+
  then show ?thesis
    using b64_pton_accepts[of "[84, 32, 87, 69, 61]" 4 "[9, 9, 9, 9]" "[]" 2 "[77, 97, 0, 9]"]
    by (auto intro!: exI[of _ "[77, 97]"])
qed

text \<open>C13: whatever string it is given, \<^verbatim>\<open>f_b64_pton\<close> stops at the terminator and writes only inside
  the target; nothing it reads or writes is out of bounds.\<close>

theorem b64_pton_safe:
  assumes "0 \<in> set src" "unat n \<le> length t" "length src < 2 ^ 32"
  shows "\<exists>r t'. f_b64_pton src True n t = (r, t') \<and> r \<noteq> UB \<and> r \<noteq> Fuel \<and> length t' = length t"
  using pton_rest_safe[of n t "(0, 0)" src] assms
  by (cases "f_b64_pton src True n t") (auto simp: f_b64_pton_rest pending_ok_def)

theorem b64_pton_safe_witness:
  "\<exists>r t'. f_b64_pton [84, 61, 61, 61, 0] True 1 [0] = (r, t') \<and> r \<noteq> UB \<and> r \<noteq> Fuel \<and> length t' = 1"
  using b64_pton_safe[of "[84, 61, 61, 61, 0]" 1 "[0]"] by simp

end
