(* ===== verification/Ldb_Coding.thy ===== *)
theory Ldb_Coding
  imports Leb128
begin

text \<open>
  LevelDB, \<^verbatim>\<open>util/coding.cc\<close>, \<^verbatim>\<open>util/coding.h\<close> and \<^verbatim>\<open>include/leveldb/slice.h\<close>: the byte encodings of
  integers and strings. A \<^verbatim>\<open>Slice\<close> is the list of the bytes it refers to; a pair of pointers
  \<^verbatim>\<open>p, limit\<close> is the list of the bytes between them; \<^verbatim>\<open>nullptr\<close> and \<^verbatim>\<open>false\<close> are \<open>None\<close>. A routine
  that writes through a pointer is the list of the bytes it writes.
\<close>

type_synonym slice = "byte list"

section \<open>Slices\<close>

definition slice_empty :: "slice \<Rightarrow> bool" where
  "slice_empty s \<longleftrightarrow> length s = 0"

text \<open>\<^verbatim>\<open>REQUIRES: n <= size()\<close>, checked by an \<^verbatim>\<open>assert\<close>.\<close>

definition remove_prefix :: "nat \<Rightarrow> slice \<Rightarrow> slice" where
  "remove_prefix n s = drop n s"

text \<open>\<^verbatim>\<open>memcmp\<close> of the first \<open>n\<close> bytes, as unsigned bytes. Only the sign of its result is defined.\<close>

fun memcmp :: "nat \<Rightarrow> byte list \<Rightarrow> byte list \<Rightarrow> int" where
  "memcmp (Suc n) (a # as) (b # bs) = (if a < b then - 1 else if b < a then 1 else memcmp n as bs)"
| "memcmp _ _ _ = 0"

definition starts_with :: "slice \<Rightarrow> slice \<Rightarrow> bool" where
  "starts_with s x \<longleftrightarrow> length s \<ge> length x \<and> memcmp (length x) s x = 0"

definition slice_eq :: "slice \<Rightarrow> slice \<Rightarrow> bool" where
  "slice_eq x y \<longleftrightarrow> length x = length y \<and> memcmp (length x) x y = 0"

definition slice_compare :: "slice \<Rightarrow> slice \<Rightarrow> int" where
  "slice_compare s b =
     (let min_len = (if length s < length b then length s else length b); r = memcmp min_len s b in
      if r = 0 then (if length s < length b then - 1 else if length s > length b then 1 else r) else r)"

section \<open>Fixed width\<close>

definition EncodeFixed32 :: "u32 \<Rightarrow> byte list" where
  "EncodeFixed32 value = le_of_word 4 value"

definition EncodeFixed64 :: "u64 \<Rightarrow> byte list" where
  "EncodeFixed64 value = le_of_word 8 value"

definition PutFixed32 :: "byte list \<Rightarrow> u32 \<Rightarrow> byte list" where
  "PutFixed32 dst value = dst @ EncodeFixed32 value"

definition PutFixed64 :: "byte list \<Rightarrow> u64 \<Rightarrow> byte list" where
  "PutFixed64 dst value = dst @ EncodeFixed64 value"

text \<open>\<^verbatim>\<open>DecodeFixed32(ptr)\<close> reads the four bytes at \<open>ptr\<close>, without bounds checking.\<close>

definition DecodeFixed32 :: "byte list \<Rightarrow> u32" where
  "DecodeFixed32 p = word_of_le (take 4 p)"

definition DecodeFixed64 :: "byte list \<Rightarrow> u64" where
  "DecodeFixed64 p = word_of_le (take 8 p)"

section \<open>Varints\<close>

text \<open>\<^verbatim>\<open>*(ptr++) = v | B\<close> and \<^verbatim>\<open>*(ptr++) = v\<close> store the low eight bits.\<close>

definition EncodeVarint32 :: "u32 \<Rightarrow> byte list" where
  "EncodeVarint32 v =
     (let B = 128 in
      if v < push_bit 7 1 then [ucast v]
      else if v < push_bit 14 1 then [ucast (v OR B), ucast (drop_bit 7 v)]
      else if v < push_bit 21 1 then [ucast (v OR B), ucast (drop_bit 7 v OR B), ucast (drop_bit 14 v)]
      else if v < push_bit 28 1 then
        [ucast (v OR B), ucast (drop_bit 7 v OR B), ucast (drop_bit 14 v OR B), ucast (drop_bit 21 v)]
      else [ucast (v OR B), ucast (drop_bit 7 v OR B), ucast (drop_bit 14 v OR B), ucast (drop_bit 21 v OR B),
            ucast (drop_bit 28 v)])"

definition PutVarint32 :: "byte list \<Rightarrow> u32 \<Rightarrow> byte list" where
  "PutVarint32 dst v = dst @ EncodeVarint32 v"

lemma drop_bit_7_less: "(v :: u64) \<ge> 128 \<Longrightarrow> unat (drop_bit 7 v) < unat v"
proof -
  assume "v \<ge> 128"
  then have "v \<noteq> 0" by (auto simp: word_le_nat_alt)
  then show ?thesis using drop_bit_less[of 7 v] by (simp add: word_less_nat_alt)
qed

function EncodeVarint64 :: "u64 \<Rightarrow> byte list" where
  "EncodeVarint64 v = (if v \<ge> 128 then ucast (v OR 128) # EncodeVarint64 (drop_bit 7 v) else [ucast v])"
  by pat_completeness auto
termination
  by (relation "measure unat") (auto intro: drop_bit_7_less)

declare EncodeVarint64.simps [simp del]

definition PutVarint64 :: "byte list \<Rightarrow> u64 \<Rightarrow> byte list" where
  "PutVarint64 dst v = dst @ EncodeVarint64 v"

definition PutLengthPrefixedSlice :: "byte list \<Rightarrow> slice \<Rightarrow> byte list" where
  "PutLengthPrefixedSlice dst value = PutVarint32 dst (word_of_nat (length value)) @ value"

text \<open>\<^verbatim>\<open>while (v >= 128) { v >>= 7; len++; }\<close>\<close>

function varint_length_from :: "nat \<Rightarrow> u64 \<Rightarrow> nat" where
  "varint_length_from len v = (if v \<ge> 128 then varint_length_from (len + 1) (drop_bit 7 v) else len)"
  by pat_completeness auto
termination
  by (relation "measure (\<lambda>(len, v). unat v)") (auto intro: drop_bit_7_less)

declare varint_length_from.simps [simp del]

definition VarintLength :: "u64 \<Rightarrow> nat" where
  "VarintLength v = varint_length_from 1 v"

text \<open>
  The loop of \<^verbatim>\<open>GetVarint32PtrFallback\<close> and of \<^verbatim>\<open>GetVarint64Ptr\<close>: \<open>max_shift\<close> is the largest shift, 28 or
  63. The result is the value and what follows it.
\<close>

function get_varint_loop :: "nat \<Rightarrow> nat \<Rightarrow> 'a::len word \<Rightarrow> byte list \<Rightarrow> ('a word \<times> byte list) option" where
  "get_varint_loop max_shift shift result p =
     (if shift \<le> max_shift then
        (case p of
           [] \<Rightarrow> None
         | b # p \<Rightarrow>
             if b AND 128 \<noteq> 0
             then get_varint_loop max_shift (shift + 7) (result OR push_bit shift (ucast (b AND 127))) p
             else Some (result OR push_bit shift (ucast b), p))
      else None)"
  by pat_completeness auto
termination
  by (relation "measure (\<lambda>(max_shift, shift, result, p). length p)") auto

declare get_varint_loop.simps [simp del]

definition GetVarint32PtrFallback :: "byte list \<Rightarrow> (u32 \<times> byte list) option" where
  "GetVarint32PtrFallback p = get_varint_loop 28 0 0 p"

definition GetVarint32Ptr :: "byte list \<Rightarrow> (u32 \<times> byte list) option" where
  "GetVarint32Ptr p =
     (case p of
        b # q \<Rightarrow> if b AND 128 = 0 then Some (ucast b, q) else GetVarint32PtrFallback p
      | [] \<Rightarrow> GetVarint32PtrFallback p)"

definition GetVarint32 :: "slice \<Rightarrow> (u32 \<times> slice) option" where
  "GetVarint32 input = GetVarint32Ptr input"

definition GetVarint64Ptr :: "byte list \<Rightarrow> (u64 \<times> byte list) option" where
  "GetVarint64Ptr p = get_varint_loop 63 0 0 p"

definition GetVarint64 :: "slice \<Rightarrow> (u64 \<times> slice) option" where
  "GetVarint64 input = GetVarint64Ptr input"

text \<open>The two overloads of \<^verbatim>\<open>GetLengthPrefixedSlice\<close>: the slice, and what follows it.\<close>

definition GetLengthPrefixedSlicePtr :: "byte list \<Rightarrow> (slice \<times> byte list) option" where
  "GetLengthPrefixedSlicePtr p =
     (case GetVarint32Ptr p of
        None \<Rightarrow> None
      | Some (len, p) \<Rightarrow> if unat len > length p then None else Some (take (unat len) p, drop (unat len) p))"

definition GetLengthPrefixedSlice :: "slice \<Rightarrow> (slice \<times> slice) option" where
  "GetLengthPrefixedSlice input =
     (case GetVarint32 input of
        None \<Rightarrow> None
      | Some (len, input) \<Rightarrow>
          if length input \<ge> unat len then Some (take (unat len) input, remove_prefix (unat len) input) else None)"

section \<open>The varints are the shared format\<close>

lemma unat_drop_7: "unat (drop_bit 7 (v :: 'a::len word)) = unat v div 128"
  using unat_drop_bit_eq[of 7 v] by (simp only: drop_bit_nat_def drop_bit_eq_div) simp

lemma group_byte_or:
  assumes "8 \<le> LENGTH('a::len)"
  shows "(ucast ((v :: 'a word) OR 128) :: byte) = word_of_nat (unat v mod 128 + 128)"
proof -
  have "(word_of_nat (unat v mod 128 + 128) :: byte) = word_of_nat (take_bit 7 (unat v)) + 128"
    by (simp add: take_bit_eq_mod)
  also have "\<dots> = word_of_nat (take_bit 7 (unat v)) OR 128"
  proof (rule disjunctive_add_eq_or)
    show "word_of_nat (take_bit 7 (unat v)) AND 128 = (0 :: byte)"
      using and_exp_eq_0_iff_not_bit[of "word_of_nat (take_bit 7 (unat v)) :: byte" 7] by (simp add: bit_simps)
  qed
  also have "\<dots> = ucast (v OR 128)"
  proof (rule bit_word_eqI)
    fix n assume n: "n < LENGTH(8)"
    have "bit (128 :: byte) n \<longleftrightarrow> n = 7" "bit (128 :: 'a word) n \<longleftrightarrow> n = 7"
      using bit_exp_iff[of 7 n, where 'a = byte] bit_exp_iff[of 7 n, where 'a = "'a word"] assms n by auto
    then show "bit (word_of_nat (take_bit 7 (unat v)) OR 128 :: byte) n = bit (ucast (v OR 128) :: byte) n"
      using n assms by (auto simp: bit_simps)
  qed
  finally show ?thesis by simp
qed

lemma last_byte: "(ucast (v :: 'a::len word) :: byte) = word_of_nat (unat v)"
  by (rule bit_word_eqI) (simp add: bit_simps)

lemma leb128_word:
  fixes v :: "'a::len word"
  assumes "8 \<le> LENGTH('a)"
  shows "unat v < 128 \<Longrightarrow> leb128 (unat v) = [ucast v]"
    "\<not> unat v < 128 \<Longrightarrow> leb128 (unat v) = ucast (v OR 128) # leb128 (unat (drop_bit 7 v))"
proof -
  show "leb128 (unat v) = [ucast v]" if "unat v < 128"
    unfolding last_byte by (subst leb128.simps) (simp only: that if_True)
  show "leb128 (unat v) = ucast (v OR 128) # leb128 (unat (drop_bit 7 v))" if "\<not> unat v < 128"
    unfolding group_byte_or[OF assms] unat_drop_7 by (subst leb128.simps) (simp only: that if_False)
qed

lemma EncodeVarint64_leb128: "EncodeVarint64 v = leb128 (unat v)"
proof (induction v rule: EncodeVarint64.induct)
  case (1 v)
  show ?case
  proof (cases "v \<ge> 128")
    case True
    then have "\<not> unat v < 128" by (simp add: word_le_nat_alt)
    then show ?thesis using 1 True leb128_word(2)[of v] by (simp add: EncodeVarint64.simps[of v])
  next
    case False
    then have "unat v < 128" by (simp add: word_le_nat_alt)
    then show ?thesis using False leb128_word(1)[of v] by (simp add: EncodeVarint64.simps[of v])
  qed
qed

lemma VarintLength_leb128: "VarintLength v = length (leb128 (unat v))"
proof -
  have "varint_length_from n v + 1 = n + length (leb128 (unat v))" for n
  proof (induction n v rule: varint_length_from.induct)
    case (1 n v)
    then show ?case
      by (cases "v \<ge> 128")
        (simp_all add: varint_length_from.simps[of n v] leb128.simps[of "unat v"] unat_drop_7 word_le_nat_alt)
  qed
  from this[of 1] show ?thesis by (simp add: VarintLength_def)
qed

lemma EncodeVarint32_leb128: "EncodeVarint32 v = leb128 (unat v)"
proof -
  have d: "drop_bit 14 v = drop_bit 7 (drop_bit 7 v)" "drop_bit 21 v = drop_bit 7 (drop_bit 7 (drop_bit 7 v))"
    "drop_bit 28 v = drop_bit 7 (drop_bit 7 (drop_bit 7 (drop_bit 7 v)))" by simp_all
  have less: "v < push_bit 7 1 \<longleftrightarrow> unat v < 128" "v < push_bit 14 1 \<longleftrightarrow> unat (drop_bit 7 v) < 128"
    "v < push_bit 21 1 \<longleftrightarrow> unat (drop_bit 7 (drop_bit 7 v)) < 128"
    "v < push_bit 28 1 \<longleftrightarrow> unat (drop_bit 7 (drop_bit 7 (drop_bit 7 v))) < 128"
    unfolding unat_drop_7 by (simp_all add: word_less_nat_alt push_bit_eq_mult div_less_iff_less_mult flip: div_mult2_eq)
  have top: "unat (drop_bit 7 (drop_bit 7 (drop_bit 7 (drop_bit 7 v)))) < 128"
    unfolding unat_drop_7 using unat_less_two_power[of v] by (simp add: div_less_iff_less_mult flip: div_mult2_eq)
  have len: "8 \<le> LENGTH(32)" by simp
  note l = leb128_word[where 'a = 32, OF len]
  show ?thesis
    unfolding EncodeVarint32_def Let_def less d
    by (cases "unat v < 128"; cases "unat (drop_bit 7 v) < 128"; cases "unat (drop_bit 7 (drop_bit 7 v)) < 128";
        cases "unat (drop_bit 7 (drop_bit 7 (drop_bit 7 v))) < 128") (simp_all only: l top if_True if_False not_False_eq_True)
qed

section \<open>Reading\<close>

lemma get_varint_loop_leb128:
  "i \<le> j \<Longrightarrow> r < 2 ^ (7 * i) \<Longrightarrow> n * 2 ^ (7 * i) < 2 ^ LENGTH('a) \<Longrightarrow> LENGTH('a) \<le> 7 * j + 7 \<Longrightarrow>
   get_varint_loop (7 * j) (7 * i) (word_of_nat r :: 'a::len word) (leb128 n @ rest) =
     Some (word_of_nat (r + n * 2 ^ (7 * i)), rest)"
proof (induction n arbitrary: i r rule: leb128.induct)
  case (1 n)
  let ?s = "7 * i"
  show ?case
  proof (cases "n < 128")
    case True
    have "ucast (word_of_nat n :: byte) = (word_of_nat n :: 'a word)"
      using True by (simp add: unsigned_of_nat take_bit_nat_eq_self)
    then show ?thesis
      using 1(2-) True word_of_nat_group_bits(3)[OF True] or_push_bit[OF 1(3), of n, where 'a = 'a]
      by (simp add: get_varint_loop.simps[of "7 * j" ?s] leb128.simps[of n])
  next
    case False
    let ?m = "n mod 128"
    have m: "?m < 128" by simp
    let ?b = "word_of_nat (?m + 128) :: byte"
    have l: "leb128 n = ?b # leb128 (n div 128)" using False by (simp add: leb128.simps[of n])
    have b: "?b AND 128 \<noteq> 0" "?b AND 127 = word_of_nat ?m" using word_of_nat_group_bits(1,2)[OF m] by simp_all
    have c: "ucast (word_of_nat ?m :: byte) = (word_of_nat ?m :: 'a word)"
      using m by (simp add: unsigned_of_nat take_bit_nat_eq_self)
    have bound: "r + ?m * 2 ^ ?s < 2 ^ (7 * Suc i)" using group_bound[OF 1(3) m] by (simp add: power_add)
    have le: "n div 128 * 2 ^ (7 * Suc i) < 2 ^ LENGTH('a)" using group_split[of n i] 1(4) by linarith
    have "(2 :: nat) ^ (7 * Suc i) = 128 * 2 ^ ?s" by (simp add: power_add)
    also have "\<dots> \<le> n * 2 ^ ?s" using False by (intro mult_right_mono) simp_all
    also have "\<dots> < 2 ^ LENGTH('a)" by (rule 1(4))
    finally have "7 * Suc i < LENGTH('a)" using power_less_imp_less_exp[of 2 "7 * Suc i" "LENGTH('a)"] by simp
    then have i: "Suc i \<le> j" using 1(5) by simp
    have "get_varint_loop (7 * j) ?s (word_of_nat r :: 'a word) (leb128 n @ rest) =
        get_varint_loop (7 * j) (?s + 7) (word_of_nat r OR push_bit ?s (ucast (?b AND 127))) (leb128 (n div 128) @ rest)"
      unfolding l using b(1) 1(2) by (simp add: get_varint_loop.simps[of "7 * j" ?s])
    also have "\<dots> = get_varint_loop (7 * j) (7 * Suc i) (word_of_nat (r + ?m * 2 ^ ?s)) (leb128 (n div 128) @ rest)"
      unfolding b(2) c or_push_bit[OF 1(3)] by (simp add: add.commute)
    also have "\<dots> = Some (word_of_nat (r + ?m * 2 ^ ?s + n div 128 * 2 ^ (7 * Suc i)), rest)"
      using "1.IH"[OF False i bound le 1(5)] .
    also have "r + ?m * 2 ^ ?s + n div 128 * 2 ^ (7 * Suc i) = r + n * 2 ^ ?s" using group_split[of n i] by simp
    finally show ?thesis .
  qed
qed

lemma GetVarint32Ptr_leb128: "GetVarint32Ptr (leb128 (unat v) @ rest) = Some (v, rest)"
proof -
  have "GetVarint32PtrFallback (leb128 (unat v) @ rest) = Some (v, rest)"
    using get_varint_loop_leb128[of 0 4 0 "unat v" rest, where 'a = 32] unat_less_two_power[of v]
    by (simp add: GetVarint32PtrFallback_def)
  moreover have "b AND 128 = 0 \<Longrightarrow> get_varint_loop 28 0 0 (b # q) = Some (ucast b :: u32, q)" for b q
    by (simp add: get_varint_loop.simps)
  ultimately show ?thesis by (auto simp: GetVarint32Ptr_def GetVarint32PtrFallback_def split: list.splits)
qed

lemma GetVarint64Ptr_leb128: "GetVarint64Ptr (leb128 (unat v) @ rest) = Some (v, rest)"
  using get_varint_loop_leb128[of 0 9 0 "unat v" rest, where 'a = 64] unat_less_two_power[of v]
  by (simp add: GetVarint64Ptr_def)

lemma DecodeFixed32_Encode: "DecodeFixed32 (EncodeFixed32 v @ rest) = v"
  by (simp add: DecodeFixed32_def EncodeFixed32_def word_of_le_of_word)

lemma DecodeFixed64_Encode: "DecodeFixed64 (EncodeFixed64 v @ rest) = v"
  by (simp add: DecodeFixed64_def EncodeFixed64_def word_of_le_of_word)

lemma length_EncodeFixed [simp]: "length (EncodeFixed32 v) = 4" "length (EncodeFixed64 w) = 8"
  by (simp_all add: EncodeFixed32_def EncodeFixed64_def)

lemma GetLengthPrefixedSlice_Put:
  assumes "length s < 2 ^ 32"
  shows "GetLengthPrefixedSlice (PutLengthPrefixedSlice [] s @ rest) = Some (s, rest)"
    "GetLengthPrefixedSlicePtr (PutLengthPrefixedSlice [] s @ rest) = Some (s, rest)"
proof -
  have "unat (word_of_nat (length s) :: u32) = length s" using assms by (simp add: unat_word_of_nat)
  moreover have "GetVarint32Ptr (leb128 (unat (word_of_nat (length s) :: u32)) @ s @ rest) = Some (word_of_nat (length s), s @ rest)"
    by (rule GetVarint32Ptr_leb128)
  ultimately show "GetLengthPrefixedSlice (PutLengthPrefixedSlice [] s @ rest) = Some (s, rest)"
    "GetLengthPrefixedSlicePtr (PutLengthPrefixedSlice [] s @ rest) = Some (s, rest)"
    by (simp_all add: GetLengthPrefixedSlice_def GetLengthPrefixedSlicePtr_def GetVarint32_def
        PutLengthPrefixedSlice_def PutVarint32_def EncodeVarint32_leb128 remove_prefix_def)
qed

lemma PutLengthPrefixedSlice_append: "PutLengthPrefixedSlice dst s = dst @ PutLengthPrefixedSlice [] s"
  by (simp add: PutLengthPrefixedSlice_def PutVarint32_def)

text \<open>A reader consumes at least one byte.\<close>

lemma get_varint_loop_shorter: "get_varint_loop m s r p = Some (v, q) \<Longrightarrow> length q < length p"
proof (induction m s r p rule: get_varint_loop.induct)
  case (1 m s r p)
  then show ?case
    by (subst (asm) (2) get_varint_loop.simps) (fastforce split: if_splits list.splits)
qed

lemma GetVarint32_shorter: "GetVarint32 p = Some (v, q) \<Longrightarrow> length q < length p"
  by (auto simp: GetVarint32_def GetVarint32Ptr_def GetVarint32PtrFallback_def
      split: list.splits if_splits dest: get_varint_loop_shorter)

lemma GetLengthPrefixedSlice_shorter: "GetLengthPrefixedSlice p = Some (s, q) \<Longrightarrow> length q < length p"
  by (auto simp: GetLengthPrefixedSlice_def remove_prefix_def split: option.splits if_splits dest!: GetVarint32_shorter)

section \<open>Arrays of fixed-width numbers\<close>

definition fixed32_array :: "u32 list \<Rightarrow> byte list" where
  "fixed32_array xs = concat (map EncodeFixed32 xs)"

lemma length_fixed32_array [simp]: "length (fixed32_array xs) = 4 * length xs"
  by (induction xs) (simp_all add: fixed32_array_def)

lemma fixed32_array_append: "fixed32_array (xs @ ys) = fixed32_array xs @ fixed32_array ys"
  by (simp add: fixed32_array_def)

lemma fold_PutFixed32: "fold (\<lambda>x dst. PutFixed32 dst x) xs dst = dst @ fixed32_array xs"
  by (induction xs arbitrary: dst) (simp_all add: fixed32_array_def PutFixed32_def)

lemma DecodeFixed32_array: "i < length xs \<Longrightarrow> DecodeFixed32 (drop (4 * i) (fixed32_array xs @ rest)) = xs ! i"
proof (induction xs arbitrary: i)
  case (Cons x xs)
  have l: "fixed32_array (x # xs) @ rest = EncodeFixed32 x @ fixed32_array xs @ rest" by (simp add: fixed32_array_def)
  show ?case
  proof (cases i)
    case 0
    then show ?thesis unfolding l using DecodeFixed32_Encode[of x] by simp
  next
    case (Suc j)
    then show ?thesis unfolding l using Cons.IH[of j] Cons.prems by simp
  qed
qed simp

section \<open>Properties\<close>

text \<open>C35: what the \<^verbatim>\<open>Put\<close> and \<^verbatim>\<open>Encode\<close> routines of LevelDB write, the \<^verbatim>\<open>Get\<close> and \<^verbatim>\<open>Decode\<close> routines read back, and they
  stop right behind it.\<close>

theorem coding_round_trip:
  "GetVarint32 (PutVarint32 [] v @ rest) = Some (v, rest) \<and> GetVarint64 (PutVarint64 [] w @ rest) = Some (w, rest) \<and>
   DecodeFixed32 (PutFixed32 [] v @ rest) = v \<and> DecodeFixed64 (PutFixed64 [] w @ rest) = w"
  by (simp add: GetVarint32_def GetVarint64_def PutVarint32_def PutVarint64_def EncodeVarint32_leb128 EncodeVarint64_leb128
      GetVarint32Ptr_leb128 GetVarint64Ptr_leb128 PutFixed32_def PutFixed64_def DecodeFixed32_Encode DecodeFixed64_Encode)

text \<open>\<^verbatim>\<open>VarintLength\<close> is the number of bytes both varint writers use, between one and ten, and the unrolled
  32-bit writer agrees with the 64-bit loop.\<close>

theorem varint_length_exact:
  "length (EncodeVarint64 w) = VarintLength w \<and> 1 \<le> VarintLength w \<and> VarintLength w \<le> 10 \<and>
   EncodeVarint32 v = EncodeVarint64 (ucast v)"
proof -
  have "length (leb128 (unat w)) \<le> 10" using leb128_length[of 10 "unat w"] unat_less_two_power[of w] by simp
  moreover have "1 \<le> length (leb128 (unat w))" using leb128_not_Nil[of "unat w"] by (simp add: Suc_le_eq)
  ultimately show ?thesis
    by (simp add: EncodeVarint64_leb128 EncodeVarint32_leb128 VarintLength_leb128 ucast_u32)
qed

end
