(* ===== verification/Ldb_Comparator.thy ===== *)
theory Ldb_Comparator
  imports Ldb_Coding
begin

text \<open>
  LevelDB, \<^verbatim>\<open>include/leveldb/comparator.h\<close> and \<^verbatim>\<open>util/comparator.cc\<close>. The locale \<open>comparator\<close> is the contract
  of the abstract class; \<open>bytewise\<close> is the comparator that LevelDB uses by default.
\<close>

section \<open>The contract\<close>

text \<open>
  What every sorted structure relies on: on the keys that \<open>valid\<close> admits, \<^verbatim>\<open>Compare\<close> is a total order up
  to keys that compare equal. Only the sign of its result matters.
\<close>

locale key_order =
  fixes valid :: "'k \<Rightarrow> bool" and Compare :: "'k \<Rightarrow> 'k \<Rightarrow> int"
  assumes Compare_swap: "valid a \<Longrightarrow> valid b \<Longrightarrow> Compare a b < 0 \<longleftrightarrow> 0 < Compare b a"
    and Compare_le_trans: "valid a \<Longrightarrow> valid b \<Longrightarrow> valid c \<Longrightarrow> Compare a b \<le> 0 \<Longrightarrow> Compare b c \<le> 0 \<Longrightarrow> Compare a c \<le> 0"
begin

lemma Compare_refl: "valid a \<Longrightarrow> Compare a a = 0"
  using Compare_swap[of a a] by linarith

lemma Compare_le_less_trans: "valid a \<Longrightarrow> valid b \<Longrightarrow> valid c \<Longrightarrow> Compare a b \<le> 0 \<Longrightarrow> Compare b c < 0 \<Longrightarrow> Compare a c < 0"
  using Compare_le_trans[of c a b] Compare_swap[of b c] Compare_swap[of c a] Compare_swap[of a c] by linarith

lemma Compare_less_le_trans: "valid a \<Longrightarrow> valid b \<Longrightarrow> valid c \<Longrightarrow> Compare a b < 0 \<Longrightarrow> Compare b c \<le> 0 \<Longrightarrow> Compare a c < 0"
  using Compare_le_trans[of b c a] Compare_swap[of a b] Compare_swap[of c a] Compare_swap[of a c] by linarith

lemma Compare_trans: "valid a \<Longrightarrow> valid b \<Longrightarrow> valid c \<Longrightarrow> Compare a b < 0 \<Longrightarrow> Compare b c < 0 \<Longrightarrow> Compare a c < 0"
  using Compare_less_le_trans[of a b c] by simp

end

text \<open>
  The class \<^verbatim>\<open>Comparator\<close> on byte strings: keys that compare equal are the same.
  \<^verbatim>\<open>FindShortestSeparator\<close> moves \<^verbatim>\<open>*start\<close> to a key in \<^verbatim>\<open>[start, limit)\<close>, and does not move it when
  the two are the same; \<^verbatim>\<open>FindShortSuccessor\<close> moves its argument to a key that is not smaller.
\<close>

locale comparator = key_order valid Compare for valid :: "slice \<Rightarrow> bool" and Compare :: "slice \<Rightarrow> slice \<Rightarrow> int" +
  fixes FindShortestSeparator :: "slice \<Rightarrow> slice \<Rightarrow> slice" and FindShortSuccessor :: "slice \<Rightarrow> slice"
  assumes Compare_eq: "valid a \<Longrightarrow> valid b \<Longrightarrow> Compare a b = 0 \<longleftrightarrow> a = b"
    and separator: "valid a \<Longrightarrow> valid b \<Longrightarrow> Compare a b < 0 \<Longrightarrow>
      valid (FindShortestSeparator a b) \<and> Compare a (FindShortestSeparator a b) \<le> 0 \<and> Compare (FindShortestSeparator a b) b < 0"
    and separator_same: "valid a \<Longrightarrow> FindShortestSeparator a a = a"
    and successor: "valid a \<Longrightarrow> valid (FindShortSuccessor a) \<and> Compare a (FindShortSuccessor a) \<le> 0"
begin

text \<open>A separator of a block's last key and the next block's first key can stand for both in an index.\<close>

lemma separator_separates:
  assumes "valid a" "valid b" "valid k" "Compare a b < 0"
  shows "Compare k a \<le> 0 \<Longrightarrow> Compare k (FindShortestSeparator a b) \<le> 0"
    "Compare b k \<le> 0 \<Longrightarrow> Compare (FindShortestSeparator a b) k < 0"
proof -
  let ?s = "FindShortestSeparator a b"
  have s: "valid ?s" "Compare a ?s \<le> 0" "Compare ?s b < 0" using separator[OF assms(1,2,4)] by auto
  show "Compare k ?s \<le> 0" if "Compare k a \<le> 0"
    using that s Compare_le_trans[of k a ?s] assms by simp
  show "Compare ?s k < 0" if "Compare b k \<le> 0"
    using that s Compare_less_le_trans[of ?s b k] assms by simp
qed

end

section \<open>The bytewise comparator\<close>

definition bytewise_Compare :: "slice \<Rightarrow> slice \<Rightarrow> int" where
  "bytewise_Compare a b = slice_compare a b"

text \<open>The loop that finds the length of the common prefix.\<close>

fun diff_index :: "slice \<Rightarrow> slice \<Rightarrow> nat" where
  "diff_index (a # as) (b # bs) = (if a = b then Suc (diff_index as bs) else 0)"
| "diff_index _ _ = 0"

definition bytewise_FindShortestSeparator :: "slice \<Rightarrow> slice \<Rightarrow> slice" where
  "bytewise_FindShortestSeparator start limit =
     (let min_length = min (length start) (length limit); i = diff_index start limit in
      if i \<ge> min_length then start
      else let diff_byte = start ! i in
        if diff_byte < 0xff \<and> unat diff_byte + 1 < unat (limit ! i)
        then take (i + 1) (start[i := diff_byte + 1]) else start)"

fun bytewise_FindShortSuccessor :: "slice \<Rightarrow> slice" where
  "bytewise_FindShortSuccessor [] = []"
| "bytewise_FindShortSuccessor (b # key) = (if b \<noteq> 0xff then [b + 1] else b # bytewise_FindShortSuccessor key)"

subsection \<open>Order\<close>

lemma slice_compare_simps [simp]:
  "slice_compare [] [] = 0" "slice_compare [] (b # bs) = - 1" "slice_compare (a # as) [] = 1"
  "slice_compare (a # as) (b # bs) = (if a < b then - 1 else if b < a then 1 else slice_compare as bs)"
  by (auto simp: slice_compare_def Let_def)

lemma slice_compare_eq: "slice_compare a b = 0 \<longleftrightarrow> a = b"
proof (induction a arbitrary: b)
  case (Cons x a)
  then show ?case by (cases b) auto
next
  case Nil
  then show ?case by (cases b) auto
qed

lemma slice_compare_swap: "slice_compare a b < 0 \<longleftrightarrow> 0 < slice_compare b a"
proof (induction a arbitrary: b)
  case (Cons x a)
  then show ?case by (cases b) auto
next
  case Nil
  then show ?case by (cases b) auto
qed

lemma slice_compare_trans: "slice_compare a b \<le> 0 \<Longrightarrow> slice_compare b c \<le> 0 \<Longrightarrow> slice_compare a c \<le> 0"
proof (induction a arbitrary: b c)
  case (Cons x a)
  then show ?case by (cases b; cases c) (auto split: if_splits)
next
  case Nil
  then show ?case by (cases b; cases c) (auto split: if_splits)
qed

text \<open>Where two strings first differ decides their order.\<close>

lemma diff_index_bound: "diff_index a b \<le> length a" "diff_index a b \<le> length b"
  by (induction a b rule: diff_index.induct) auto

lemma slice_compare_at:
  assumes "take i a = take i b" "i < length a" "i < length b" "a ! i < b ! i"
  shows "slice_compare a b < 0"
  using assms
proof (induction i arbitrary: a b)
  case 0
  then show ?case by (cases a; cases b) auto
next
  case (Suc i)
  then show ?case by (cases a; cases b) auto
qed

lemma diff_index_take: "take (diff_index a b) a = take (diff_index a b) b"
  by (induction a b rule: diff_index.induct) auto

lemma diff_index_differs: "diff_index a b < length a \<Longrightarrow> diff_index a b < length b \<Longrightarrow> a ! diff_index a b \<noteq> b ! diff_index a b"
  by (induction a b rule: diff_index.induct) auto

lemma diff_index_same [simp]: "diff_index a a = length a"
  by (induction a) auto

lemma inc_byte: "b < 0xff \<Longrightarrow> unat (b + 1 :: byte) = unat b + 1"
  using unat_inc_less[of b "0xff"] by simp

lemma bytewise_separator:
  assumes "bytewise_Compare a b < 0"
  shows "bytewise_Compare a (bytewise_FindShortestSeparator a b) \<le> 0" "bytewise_Compare (bytewise_FindShortestSeparator a b) b < 0"
proof -
  let ?i = "diff_index a b" and ?s = "bytewise_FindShortestSeparator a b"
  have "bytewise_Compare a ?s \<le> 0 \<and> bytewise_Compare ?s b < 0"
  proof (cases "?i < min (length a) (length b) \<and> a ! ?i < 0xff \<and> unat (a ! ?i) + 1 < unat (b ! ?i)")
    case False
    then have "?s = a" by (auto simp: bytewise_FindShortestSeparator_def Let_def)
    moreover have "slice_compare a a = 0" by (simp add: slice_compare_eq)
    ultimately show ?thesis using assms by (simp add: bytewise_Compare_def)
  next
    case True
    then have s: "?s = take (?i + 1) (a[?i := a ! ?i + 1])" and i: "?i < length a" "?i < length b"
      by (auto simp: bytewise_FindShortestSeparator_def Let_def)
    have n: "?s ! ?i = a ! ?i + 1" "?i < length ?s" "take ?i ?s = take ?i a" using i by (simp_all add: s)
    have "a ! ?i < ?s ! ?i" "?s ! ?i < b ! ?i" using True n(1) inc_byte[of "a ! ?i"] by (simp_all add: word_less_nat_alt)
    then show ?thesis
      using slice_compare_at[of ?i a ?s] slice_compare_at[of ?i ?s b] i n diff_index_take[of a b]
      by (simp add: bytewise_Compare_def)
  qed
  then show "bytewise_Compare a ?s \<le> 0" "bytewise_Compare ?s b < 0" by auto
qed

lemma bytewise_successor: "bytewise_Compare a (bytewise_FindShortSuccessor a) \<le> 0"
proof (induction a)
  case (Cons b a)
  show ?case
  proof (cases "b = 0xff")
    case False
    then have "b < 0xff" using unat_less_two_power[of b] by (simp add: word_less_nat_alt word_unat_eq_iff)
    then have "b < b + 1" using inc_byte[of b] by (simp add: word_less_nat_alt)
    then show ?thesis using False by (simp add: bytewise_Compare_def)
  qed (use Cons in \<open>simp add: bytewise_Compare_def\<close>)
qed (simp add: bytewise_Compare_def)

interpretation bytewise: comparator "\<lambda>_. True" bytewise_Compare bytewise_FindShortestSeparator bytewise_FindShortSuccessor
proof
  show "bytewise_FindShortestSeparator a a = a" for a by (simp add: bytewise_FindShortestSeparator_def)
  show "bytewise_Compare a b = 0 \<longleftrightarrow> a = b" for a b by (simp add: bytewise_Compare_def slice_compare_eq)
  show "bytewise_Compare a b < 0 \<longleftrightarrow> 0 < bytewise_Compare b a" for a b
    unfolding bytewise_Compare_def by (rule slice_compare_swap)
  show "bytewise_Compare a b \<le> 0 \<Longrightarrow> bytewise_Compare b c \<le> 0 \<Longrightarrow> bytewise_Compare a c \<le> 0" for a b c
    unfolding bytewise_Compare_def by (rule slice_compare_trans)
qed (use bytewise_separator bytewise_successor in auto)

lemma length_separator: "length (bytewise_FindShortestSeparator a b) \<le> length a"
  by (auto simp: bytewise_FindShortestSeparator_def Let_def)

lemma length_successor: "length (bytewise_FindShortSuccessor a) \<le> length a"
  by (induction a rule: bytewise_FindShortSuccessor.induct) auto

text \<open>The order is the lexicographic one of the list library.\<close>

lemma slice_compare_lexordp: "slice_compare a b < 0 \<longleftrightarrow> ord_class.lexordp a b"
proof (induction a arbitrary: b)
  case (Cons x a)
  then show ?case by (cases b) auto
next
  case Nil
  then show ?case by (cases b) auto
qed

section \<open>Properties\<close>

text \<open>C34: \<^verbatim>\<open>Compare\<close> of the bytewise comparator is the lexicographic order of the bytes, and a total order: it is 0 on equal keys
  only, its sign is reversed when the keys change places, and it is transitive. \<^verbatim>\<open>FindShortestSeparator\<close> gives a string that is at
  least the smaller key, below the larger one, and no longer than the smaller one, so that it may stand
  between the two in an index; it leaves a key as it is when the two are the same. \<^verbatim>\<open>FindShortSuccessor\<close> gives a string that is at
  least the key and no longer.\<close>

theorem bytewise_separator_between:
  "(bytewise_Compare a b < 0 \<longleftrightarrow> ord_class.lexordp a b) \<and>
   (bytewise_Compare a b = 0 \<longleftrightarrow> a = b) \<and>
   (bytewise_Compare a b < 0 \<longleftrightarrow> 0 < bytewise_Compare b a) \<and>
   (bytewise_Compare a b \<le> 0 \<and> bytewise_Compare b c \<le> 0 \<longrightarrow> bytewise_Compare a c \<le> 0) \<and>
   (bytewise_Compare a b < 0 \<longrightarrow>
      bytewise_Compare a (bytewise_FindShortestSeparator a b) \<le> 0 \<and>
      bytewise_Compare (bytewise_FindShortestSeparator a b) b < 0) \<and>
   length (bytewise_FindShortestSeparator a b) \<le> length a \<and>
   bytewise_FindShortestSeparator a a = a \<and>
   bytewise_Compare a (bytewise_FindShortSuccessor a) \<le> 0 \<and>
   length (bytewise_FindShortSuccessor a) \<le> length a"
  using bytewise.Compare_eq bytewise.Compare_swap bytewise.Compare_le_trans[of a b c] bytewise.separator[of a b]
    bytewise.separator_same bytewise.successor[of a] length_separator length_successor slice_compare_lexordp[of a b]
  by (auto simp: bytewise_Compare_def)

theorem bytewise_separator_between_witness:
  "bytewise_Compare [97, 98, 99, 120] [97, 98, 102] < 0 \<and>
    bytewise_FindShortestSeparator [97, 98, 99, 120] [97, 98, 102] = [97, 98, 100] \<and>
    bytewise_Compare [97, 98, 99, 120] [97, 98, 100] \<le> 0 \<and>
    bytewise_Compare [97, 98, 100] [97, 98, 102] < 0 \<and>
    bytewise_Compare [97, 98, 102] [97, 103] \<le> 0 \<and> bytewise_Compare [97, 98, 99, 120] [97, 103] \<le> 0"
proof -
  have "bytewise_Compare [97, 98, 99, 120] [97, 98, 102] < 0" "bytewise_Compare [97, 98, 102] [97, 103] \<le> 0"
    "bytewise_FindShortestSeparator [97, 98, 99, 120] [97, 98, 102] = [97, 98, 100]"
    by code_simp+
  then show ?thesis
    using bytewise_separator_between[of "[97, 98, 99, 120]" "[97, 98, 102]" "[97, 103]"] by simp
qed

end
