(* ===== verification/Ldb_Random.thy ===== *)
theory Ldb_Random
  imports Leb128
begin

text \<open>
  LevelDB, \<^verbatim>\<open>util/random.h\<close>: a linear congruential generator modulo the prime \<open>2 ^ 31 - 1\<close>. The code
  reduces without a division; that is shown to be the remainder.
\<close>

definition Random_new :: "u32 \<Rightarrow> u32" where
  "Random_new s = (let seed = s AND 0x7fffffff in if seed = 0 \<or> seed = 2147483647 then 1 else seed)"

definition rnd_M :: u64 where "rnd_M = 2147483647"
definition rnd_A :: u64 where "rnd_A = 16807"

text \<open>The new seed, which is also the result.\<close>

definition Random_Next :: "u32 \<Rightarrow> u32" where
  "Random_Next seed =
     (let product = ucast seed * rnd_A;
          seed' = ucast (drop_bit 31 product + (product AND rnd_M)) :: u32
      in if seed' > ucast rnd_M then seed' - ucast rnd_M else seed')"

definition Random_Uniform :: "u32 \<Rightarrow> u32 \<Rightarrow> u32 \<times> u32" where
  "Random_Uniform n seed = (let s = Random_Next seed in (s mod n, s))"

definition Random_OneIn :: "u32 \<Rightarrow> u32 \<Rightarrow> bool \<times> u32" where
  "Random_OneIn n seed = (let s = Random_Next seed in (s mod n = 0, s))"

definition Random_Skewed :: "u32 \<Rightarrow> u32 \<Rightarrow> u32 \<times> u32" where
  "Random_Skewed max_log seed =
     (case Random_Uniform (max_log + 1) seed of (b, s) \<Rightarrow> Random_Uniform (push_bit (unat b) 1) s)"

definition seed_ok :: "u32 \<Rightarrow> bool" where
  "seed_ok seed \<longleftrightarrow> 0 < unat seed \<and> unat seed < 2147483647"

lemma Random_new_ok: "seed_ok (Random_new s)"
proof -
  have m: "s AND 0x7fffffff = take_bit 31 s" by (simp add: take_bit_eq_mask mask_eq_exp_minus_1)
  have "unat (take_bit 31 s) < 2 ^ 31" unfolding unsigned_take_bit_eq by (rule take_bit_nat_less_exp)
  moreover have "unat (take_bit 31 s) \<noteq> 2147483647" if "take_bit 31 s \<noteq> 2147483647"
    using that by (simp add: word_unat_eq_iff)
  ultimately show ?thesis
    unfolding Random_new_def Let_def m seed_ok_def by (simp add: unat_gt_0) linarith
qed

lemma mod_once: "m \<le> x \<Longrightarrow> x < 2 * m \<Longrightarrow> x mod m = x - (m :: nat)"
  by (simp add: le_mod_geq)

lemma mod_mersenne:
  fixes p :: nat
  assumes "p < 2147483647 * 2147483647"
  shows "p div 2 ^ 31 + p mod 2 ^ 31 < 2 * 2147483647" "(p div 2 ^ 31 + p mod 2 ^ 31) mod 2147483647 = p mod 2147483647"
proof -
  have "p div 2 ^ 31 < 2147483647"
    using assms by (simp add: div_less_iff_less_mult)
  moreover have "p mod 2 ^ 31 \<le> 2147483647" using mod_less_divisor[of "2 ^ 31" p] by simp
  ultimately show "p div 2 ^ 31 + p mod 2 ^ 31 < 2 * 2147483647" by simp
  have "p = p div 2 ^ 31 * 2147483647 + (p div 2 ^ 31 + p mod 2 ^ 31)"
    using div_mult_mod_eq[of p "2 ^ 31"] by simp
  then show "(p div 2 ^ 31 + p mod 2 ^ 31) mod 2147483647 = p mod 2147483647"
    by (metis mod_mult_self3)
qed

text \<open>1407677000 is the inverse of 16807 modulo the prime.\<close>

lemma dvd_cancel_inverse:
  fixes m s a i b :: nat
  assumes "m dvd s * a" "a * i = m * b + 1"
  shows "m dvd s"
proof -
  have "m dvd s * a * i" using assms(1) by (rule dvd_mult2)
  also have "s * a * i = s * (m * b + 1)" using assms(2) by (simp add: mult.assoc)
  also have "\<dots> = m * (b * s) + s" by (simp add: algebra_simps)
  finally show ?thesis by (simp add: dvd_add_right_iff)
qed

lemma not_dvd_product:
  assumes "seed_ok seed"
  shows "\<not> 2147483647 dvd unat seed * 16807"
proof
  assume "2147483647 dvd unat seed * 16807"
  then have "2147483647 dvd unat seed" by (rule dvd_cancel_inverse[where i = 1407677000 and b = 11017]) simp
  then show False using assms by (auto simp: seed_ok_def dest: dvd_imp_le)
qed

lemma Random_Next_mod:
  assumes "seed_ok seed"
  shows "unat (Random_Next seed) = unat seed * 16807 mod 2147483647"
proof -
  let ?p = "unat seed * 16807"
  have s: "unat seed < 2147483647" using assms by (simp add: seed_ok_def)
  have p: "?p < 2147483647 * 2147483647" using s by simp
  have prod: "unat (ucast seed * rnd_A) = ?p"
    using s by (simp add: rnd_A_def unat_word_ariths ucast_u32)
  have lo: "unat ((ucast seed * rnd_A) AND rnd_M) = ?p mod 2 ^ 31"
  proof -
    have m: "(ucast seed * rnd_A) AND rnd_M = take_bit 31 (ucast seed * rnd_A)"
      by (simp add: rnd_M_def take_bit_eq_mask mask_eq_exp_minus_1)
    show ?thesis unfolding m unsigned_take_bit_eq prod by (rule take_bit_eq_mod)
  qed
  have hi: "unat (drop_bit 31 (ucast seed * rnd_A)) = ?p div 2 ^ 31"
    using prod unat_drop_bit_eq[of 31 "ucast seed * rnd_A"] by (simp add: drop_bit_eq_div)
  let ?x = "?p div 2 ^ 31 + ?p mod 2 ^ 31"
  let ?s = "ucast (drop_bit 31 (ucast seed * rnd_A) + ((ucast seed * rnd_A) AND rnd_M)) :: u32"
  have x: "?x < 2 * 2147483647" "?x mod 2147483647 = ?p mod 2147483647" using mod_mersenne[OF p] by auto
  have sx: "unat ?s = ?x"
  proof -
    have "unat (drop_bit 31 (ucast seed * rnd_A) + ((ucast seed * rnd_A) AND rnd_M)) = ?x"
      using hi lo x(1) by (simp add: unat_word_ariths)
    then show ?thesis using x(1) by (simp add: unsigned_ucast_eq take_bit_nat_eq_self)
  qed
  have nz: "?x \<noteq> 2147483647"
  proof
    assume "?x = 2147483647"
    then have "2147483647 dvd ?p" using x(2) by (simp add: dvd_eq_mod_eq_0)
    then show False using not_dvd_product[OF assms] by simp
  qed
  have M: "(ucast rnd_M :: u32) = 2147483647" by (simp add: rnd_M_def)
  have lt: "2147483647 < ?s \<longleftrightarrow> 2147483647 < ?x" unfolding word_less_nat_alt sx by simp
  show ?thesis
  proof (cases "?x < 2147483647")
    case True
    then have "?x mod 2147483647 = ?x" "\<not> 2147483647 < ?s" unfolding lt by simp_all
    then show ?thesis using sx x(2) unfolding Random_Next_def Let_def M by (simp only: if_False)
  next
    case False
    then have "?x mod 2147483647 = ?x - 2147483647" using x(1) by (intro mod_once) simp_all
    moreover have g: "2147483647 < ?s" unfolding lt using False nz by simp
    moreover have "unat (?s - 2147483647) = ?x - 2147483647"
      using unat_diff_le[OF less_imp_le[OF g]] unfolding sx by simp
    ultimately show ?thesis using x(2) unfolding Random_Next_def Let_def M by (simp only: if_True)
  qed
qed

lemma Random_Next_ok: "seed_ok seed \<Longrightarrow> seed_ok (Random_Next seed)"
  using Random_Next_mod[of seed] not_dvd_product[of seed] by (simp add: seed_ok_def dvd_eq_mod_eq_0)

text \<open>C37: the generator computes the multiplicative congruence \<open>seed * 16807 mod (2 ^ 31 - 1)\<close>, and its seed never
  becomes one of the two values that would stop it.\<close>

theorem random_next_is_remainder:
  assumes "seed_ok seed"
  shows "unat (Random_Next seed) = unat seed * 16807 mod 2147483647 \<and> seed_ok (Random_Next seed)"
  using Random_Next_mod[OF assms] Random_Next_ok[OF assms] by simp

theorem random_next_is_remainder_witness:
  "unat (Random_Next (Random_new 0xdeadbeef)) = unat (Random_new 0xdeadbeef) * 16807 mod 2147483647 \<and>
   seed_ok (Random_Next (Random_new 0xdeadbeef))"
  by (rule random_next_is_remainder) (rule Random_new_ok)

end
