(* ===== verification/Ldb_Skiplist.thy ===== *)
theory Ldb_Skiplist
  imports Ldb_Comparator Ldb_Random
begin

text \<open>
  LevelDB, \<^verbatim>\<open>db/skiplist.h\<close>. Nodes are numbered in the order of their allocation, the head is node 0. A
  node carries its key and the array of its links, one per level. The loops follow links that
  could be circular in a damaged list, hence \<open>None\<close> for not returning; \<open>None\<close> also stands for an
  access to a link or an array element that does not exist. On a list built by \<^verbatim>\<open>Insert\<close> neither
  happens.
\<close>

section \<open>The data structure\<close>

record 'k Node =
  node_key :: 'k
  next_links :: "nat option list"

record 'k SkipList =
  nodes :: "'k Node list"
  max_height :: nat
  sl_rnd :: u32

definition kMaxHeight :: nat where "kMaxHeight = 12"

abbreviation head_node :: nat where "head_node \<equiv> 0"

definition Node_Next :: "'k SkipList \<Rightarrow> nat \<Rightarrow> nat \<Rightarrow> nat option option" where
  "Node_Next sl n x =
     (if x < length (nodes sl) \<and> n < length (next_links (nodes sl ! x)) then Some (next_links (nodes sl ! x) ! n) else None)"

definition Node_SetNext :: "nat \<Rightarrow> nat \<Rightarrow> nat option \<Rightarrow> 'k SkipList \<Rightarrow> 'k SkipList option" where
  "Node_SetNext n x y sl =
     (if x < length (nodes sl) \<and> n < length (next_links (nodes sl ! x))
      then Some (sl\<lparr>nodes := (nodes sl)[x := (nodes sl ! x)\<lparr>next_links := (next_links (nodes sl ! x))[n := y]\<rparr>]\<rparr>)
      else None)"

definition key_of :: "'k SkipList \<Rightarrow> nat \<Rightarrow> 'k" where
  "key_of sl x = node_key (nodes sl ! x)"

text \<open>The new node is the last one; its links are still empty.\<close>

definition NewNode :: "'k \<Rightarrow> nat \<Rightarrow> 'k SkipList \<Rightarrow> nat \<times> 'k SkipList" where
  "NewNode key height sl =
     (length (nodes sl), sl\<lparr>nodes := nodes sl @ [\<lparr>node_key = key, next_links = replicate height None\<rparr>]\<rparr>)"

definition SkipList_new :: "'k \<Rightarrow> 'k SkipList" where
  "SkipList_new any_key =
     \<lparr>nodes = [\<lparr>node_key = any_key, next_links = replicate kMaxHeight None\<rparr>], max_height = 1, sl_rnd = Random_new 0xdeadbeef\<rparr>"

text \<open>\<^verbatim>\<open>while (height < kMaxHeight && ((rnd_.Next() % kBranching) == 0)) height++;\<close>\<close>

function random_height_loop :: "nat \<Rightarrow> u32 \<Rightarrow> nat \<times> u32" where
  "random_height_loop height seed =
     (if height < kMaxHeight then
        (let seed = Random_Next seed in
         if seed mod 4 = 0 then random_height_loop (height + 1) seed else (height, seed))
      else (height, seed))"
  by pat_completeness auto
termination
  by (relation "measure (\<lambda>(height, seed). kMaxHeight - height)") auto

declare random_height_loop.simps [simp del]

definition RandomHeight :: "'k SkipList \<Rightarrow> nat \<times> 'k SkipList" where
  "RandomHeight sl = (case random_height_loop 1 (sl_rnd sl) of (h, seed) \<Rightarrow> (h, sl\<lparr>sl_rnd := seed\<rparr>))"

section \<open>Searching\<close>

definition KeyIsAfterNode :: "('k \<Rightarrow> 'k \<Rightarrow> int) \<Rightarrow> 'k SkipList \<Rightarrow> 'k \<Rightarrow> nat option \<Rightarrow> bool" where
  "KeyIsAfterNode cmp sl key n = (case n of None \<Rightarrow> False | Some x \<Rightarrow> cmp (key_of sl x) key < 0)"

text \<open>\<open>prev\<close> is the array the caller gave, or \<open>None\<close> for the null pointer.\<close>

partial_function (option) find_ge_loop ::
    "('k \<Rightarrow> 'k \<Rightarrow> int) \<Rightarrow> 'k SkipList \<Rightarrow> 'k \<Rightarrow> nat \<Rightarrow> nat \<Rightarrow> nat option list option
      \<Rightarrow> (nat option \<times> nat option list option) option" where
  [code]: "find_ge_loop cmp sl key x level prev =
     (case Node_Next sl level x of
        None \<Rightarrow> None
      | Some nx \<Rightarrow>
          if KeyIsAfterNode cmp sl key nx then find_ge_loop cmp sl key (the nx) level prev
          else let prev = map_option (\<lambda>p. p[level := Some x]) prev in
            if level = 0 then Some (nx, prev) else find_ge_loop cmp sl key x (level - 1) prev)"

definition FindGreaterOrEqual ::
    "('k \<Rightarrow> 'k \<Rightarrow> int) \<Rightarrow> 'k SkipList \<Rightarrow> 'k \<Rightarrow> nat option list option \<Rightarrow> (nat option \<times> nat option list option) option" where
  "FindGreaterOrEqual cmp sl key prev = find_ge_loop cmp sl key head_node (max_height sl - 1) prev"

partial_function (option) find_less_loop ::
    "('k \<Rightarrow> 'k \<Rightarrow> int) \<Rightarrow> 'k SkipList \<Rightarrow> 'k \<Rightarrow> nat \<Rightarrow> nat \<Rightarrow> nat option" where
  [code]: "find_less_loop cmp sl key x level =
     (case Node_Next sl level x of
        None \<Rightarrow> None
      | Some nx \<Rightarrow>
          if (case nx of None \<Rightarrow> True | Some y \<Rightarrow> cmp (key_of sl y) key \<ge> 0)
          then (if level = 0 then Some x else find_less_loop cmp sl key x (level - 1))
          else find_less_loop cmp sl key (the nx) level)"

definition FindLessThan :: "('k \<Rightarrow> 'k \<Rightarrow> int) \<Rightarrow> 'k SkipList \<Rightarrow> 'k \<Rightarrow> nat option" where
  "FindLessThan cmp sl key = find_less_loop cmp sl key head_node (max_height sl - 1)"

partial_function (option) find_last_loop :: "'k SkipList \<Rightarrow> nat \<Rightarrow> nat \<Rightarrow> nat option" where
  [code]: "find_last_loop sl x level =
     (case Node_Next sl level x of
        None \<Rightarrow> None
      | Some None \<Rightarrow> if level = 0 then Some x else find_last_loop sl x (level - 1)
      | Some (Some y) \<Rightarrow> find_last_loop sl y level)"

definition FindLast :: "'k SkipList \<Rightarrow> nat option" where
  "FindLast sl = find_last_loop sl head_node (max_height sl - 1)"

definition Contains :: "('k \<Rightarrow> 'k \<Rightarrow> int) \<Rightarrow> 'k SkipList \<Rightarrow> 'k \<Rightarrow> bool option" where
  "Contains cmp sl key =
     (case FindGreaterOrEqual cmp sl key None of
        None \<Rightarrow> None
      | Some (x, _) \<Rightarrow> Some (case x of None \<Rightarrow> False | Some x \<Rightarrow> cmp key (key_of sl x) = 0))"

section \<open>Iterators\<close>

text \<open>An iterator is the node it points at. The operations require that it is valid.\<close>

definition Iter_Valid :: "nat option \<Rightarrow> bool" where
  "Iter_Valid node \<longleftrightarrow> node \<noteq> None"

definition Iter_Next :: "'k SkipList \<Rightarrow> nat \<Rightarrow> nat option option" where
  "Iter_Next sl x = Node_Next sl 0 x"

definition Iter_Prev :: "('k \<Rightarrow> 'k \<Rightarrow> int) \<Rightarrow> 'k SkipList \<Rightarrow> nat \<Rightarrow> nat option option" where
  "Iter_Prev cmp sl x =
     map_option (\<lambda>y. if y = head_node then None else Some y) (FindLessThan cmp sl (key_of sl x))"

definition Iter_Seek :: "('k \<Rightarrow> 'k \<Rightarrow> int) \<Rightarrow> 'k SkipList \<Rightarrow> 'k \<Rightarrow> nat option option" where
  "Iter_Seek cmp sl target = map_option fst (FindGreaterOrEqual cmp sl target None)"

definition Iter_SeekToFirst :: "'k SkipList \<Rightarrow> nat option option" where
  "Iter_SeekToFirst sl = Node_Next sl 0 head_node"

definition Iter_SeekToLast :: "'k SkipList \<Rightarrow> nat option option" where
  "Iter_SeekToLast sl = map_option (\<lambda>y. if y = head_node then None else Some y) (FindLast sl)"

section \<open>Inserting\<close>

text \<open>One round of the loop that links the new node \<open>x\<close> at level \<open>i\<close>.\<close>

definition link_level :: "nat option list \<Rightarrow> nat \<Rightarrow> nat \<Rightarrow> 'k SkipList \<Rightarrow> 'k SkipList option" where
  "link_level prev x i sl =
     (case prev ! i of
        None \<Rightarrow> None
      | Some p \<Rightarrow>
          (case Node_Next sl i p of
             None \<Rightarrow> None
           | Some nx \<Rightarrow>
               (case Node_SetNext i x nx sl of None \<Rightarrow> None | Some sl \<Rightarrow> Node_SetNext i p (Some x) sl)))"

fun link_levels :: "nat option list \<Rightarrow> nat \<Rightarrow> nat list \<Rightarrow> 'k SkipList \<Rightarrow> 'k SkipList option" where
  "link_levels prev x [] sl = Some sl"
| "link_levels prev x (i # is) sl =
     (case link_level prev x i sl of None \<Rightarrow> None | Some sl \<Rightarrow> link_levels prev x is sl)"

text \<open>\<^verbatim>\<open>for (int i = GetMaxHeight(); i < height; i++) prev[i] = head_;\<close>\<close>

definition raise_height :: "nat \<Rightarrow> nat option list \<Rightarrow> 'k SkipList \<Rightarrow> nat option list \<times> 'k SkipList" where
  "raise_height height prev sl =
     (if height > max_height sl
      then (fold (\<lambda>i p. p[i := Some head_node]) [max_height sl..<height] prev, sl\<lparr>max_height := height\<rparr>)
      else (prev, sl))"

definition SkipList_Insert :: "('k \<Rightarrow> 'k \<Rightarrow> int) \<Rightarrow> 'k \<Rightarrow> 'k SkipList \<Rightarrow> 'k SkipList option" where
  "SkipList_Insert cmp key sl =
     (case FindGreaterOrEqual cmp sl key (Some (replicate kMaxHeight None)) of
        Some (_, Some prev) \<Rightarrow>
          (case RandomHeight sl of (height, sl) \<Rightarrow>
           case raise_height height prev sl of (prev, sl) \<Rightarrow>
           case NewNode key height sl of (x, sl) \<Rightarrow> link_levels prev x [0..<height] sl)
      | _ \<Rightarrow> None)"

end
