(* ===== verification/Ldb_Skiplist_Laws.thy ===== *)
theory Ldb_Skiplist_Laws
  imports Ldb_Skiplist
begin

text \<open>
  The skip list refines a sorted list. \<open>skiplist_inv\<close> says that the links of every level run through
  the nodes of that level, in the order of their keys; every search is the same descent through
  the levels (locale \<open>descent\<close>), and \<^verbatim>\<open>Insert\<close> splices the new node into each level it has.
\<close>

section \<open>Chains of links\<close>

fun chain :: "(nat \<Rightarrow> nat option option) \<Rightarrow> nat \<Rightarrow> nat list \<Rightarrow> bool" where
  "chain f x [] \<longleftrightarrow> f x = Some None"
| "chain f x (y # ys) \<longleftrightarrow> f x = Some (Some y) \<and> chain f y ys"

definition first :: "'a list \<Rightarrow> 'a option" where
  "first xs = (case xs of [] \<Rightarrow> None | x # _ \<Rightarrow> Some x)"

lemma first_simps [simp]: "first [] = None" "first (x # xs) = Some x"
  by (simp_all add: first_def)

definition end_of :: "'a list \<Rightarrow> 'a option" where
  "end_of xs = first (rev xs)"

lemma chain_next: "chain f x (us @ vs) \<Longrightarrow> f (last (x # us)) = Some (first vs)"
proof (induction us arbitrary: x)
  case Nil
  then show ?case by (cases vs) auto
qed auto

lemma chain_cong: "(\<And>y. y \<in> set (x # ys) \<Longrightarrow> f y = g y) \<Longrightarrow> chain f x ys = chain g x ys"
  by (induction ys arbitrary: x) auto

lemma chain_splice:
  "chain f x (us @ vs) \<Longrightarrow> distinct (x # us @ vs) \<Longrightarrow> n \<notin> set (x # us @ vs) \<Longrightarrow>
   chain (f(n := f (last (x # us)), last (x # us) := Some (Some n))) x (us @ n # vs)"
proof (induction us arbitrary: x)
  case Nil
  let ?f = "f(n := f x, x := Some (Some n))"
  have "chain ?f n vs"
  proof (cases vs)
    case (Cons v vs')
    then have "chain f v vs'" "f x = Some (Some v)" using Nil.prems by auto
    moreover have "chain ?f v vs' = chain f v vs'" using Nil.prems Cons by (intro chain_cong) auto
    ultimately show ?thesis using Nil.prems Cons by simp
  qed (use Nil.prems in simp)
  then show ?case using Nil.prems by (simp add: fun_upd_def)
next
  case (Cons u us)
  have "chain (f(n := f (last (u # us)), last (u # us) := Some (Some n))) u (us @ n # vs)"
    by (rule Cons.IH) (use Cons.prems in auto)
  moreover have "last (u # us) \<noteq> x" using Cons.prems(2) by (metis distinct.simps(2) in_set_conv_decomp last_in_set list.distinct(1) append_Cons UnI1 set_append)
  ultimately show ?case using Cons.prems by (auto simp: fun_upd_def)
qed

section \<open>The descent\<close>

definition height :: "'k SkipList \<Rightarrow> nat \<Rightarrow> nat" where
  "height sl x = length (next_links (nodes sl ! x))"

text \<open>The last node of the given ones that has level \<open>l\<close>, or the head.\<close>

definition at_level :: "'k SkipList \<Rightarrow> nat list \<Rightarrow> nat \<Rightarrow> nat" where
  "at_level sl as l = last (head_node # filter (\<lambda>i. l < height sl i) as)"

text \<open>
  A search follows a level while \<open>P\<close> holds of the next node, then goes one level down, and stops at
  level 0. \<open>upd\<close> is what it notes at a level before leaving it, \<open>finish\<close> what it returns.
\<close>

locale descent =
  fixes sl :: "'k SkipList" and P :: "nat \<Rightarrow> bool" and loop :: "nat \<Rightarrow> nat \<Rightarrow> 's \<Rightarrow> 'r option"
    and upd :: "nat \<Rightarrow> nat \<Rightarrow> 's \<Rightarrow> 's" and finish :: "nat option \<Rightarrow> nat \<Rightarrow> 's \<Rightarrow> 'r"
  assumes forward: "Node_Next sl l x = Some (Some y) \<Longrightarrow> P y \<Longrightarrow> loop x l s = loop y l s"
    and down: "Node_Next sl (Suc l) x = Some nx \<Longrightarrow> (\<And>y. nx = Some y \<Longrightarrow> \<not> P y) \<Longrightarrow> loop x (Suc l) s = loop x l (upd (Suc l) x s)"
    and stop: "Node_Next sl 0 x = Some nx \<Longrightarrow> (\<And>y. nx = Some y \<Longrightarrow> \<not> P y) \<Longrightarrow> loop x 0 s = Some (finish nx x (upd 0 x s))"
begin

lemma first_filter_not: "(\<And>i. i \<in> set bs \<Longrightarrow> \<not> P i) \<Longrightarrow> first (filter Q bs) = Some y \<Longrightarrow> \<not> P y"
proof -
  assume "\<And>i. i \<in> set bs \<Longrightarrow> \<not> P i" "first (filter Q bs) = Some y"
  moreover from this(2) have "y \<in> set (filter Q bs)" by (cases "filter Q bs") auto
  ultimately show ?thesis by auto
qed

lemma along_level:
  assumes c: "chain (Node_Next sl l) head_node (us @ ws @ vs)" and P: "\<And>i. i \<in> set ws \<Longrightarrow> P i"
  shows "loop (last (head_node # us)) l s = loop (last (head_node # us @ ws)) l s"
  using assms
proof (induction ws arbitrary: us)
  case (Cons w ws)
  have "Node_Next sl l (last (head_node # us)) = Some (Some w)" using chain_next[OF Cons.prems(1)] by simp
  then have "loop (last (head_node # us)) l s = loop w l s" using Cons.prems(2) by (intro forward) auto
  also have "\<dots> = loop (last (head_node # us @ w # ws)) l s" using Cons.IH[of "us @ [w]"] Cons.prems by simp
  finally show ?case .
qed simp

lemma descent:
  assumes chains: "\<And>l. l \<le> L \<Longrightarrow> chain (Node_Next sl l) head_node (filter (\<lambda>i. l < height sl i) (as @ bs))"
    and P: "\<And>i. i \<in> set as \<Longrightarrow> P i" "\<And>i. i \<in> set bs \<Longrightarrow> \<not> P i" and h: "\<And>i. i \<in> set (as @ bs) \<Longrightarrow> 0 < height sl i"
    and x: "filter (\<lambda>i. L < height sl i) as = us @ ws" "x = last (head_node # us)"
  shows "loop x L s = Some (finish (first bs) (last (head_node # as)) (fold (\<lambda>l. upd l (at_level sl as l)) (rev [0..<Suc L]) s))"
  using chains x
proof (induction L arbitrary: x us ws s)
  case 0
  have f: "filter (\<lambda>i. 0 < height sl i) as = as" "filter (\<lambda>i. 0 < height sl i) bs = bs"
    using h by (auto intro: filter_True)
  have c: "chain (Node_Next sl 0) head_node (us @ ws @ bs)" using 0 f by simp
  have "loop x 0 s = loop (last (head_node # us @ ws)) 0 s"
    using along_level[OF c, of s] P(1) 0(2,3) f(1) by (simp add: f)
  also have "us @ ws = as" using 0(2) f(1) by simp
  also have "loop (last (head_node # as)) 0 s = Some (finish (first bs) (last (head_node # as)) (upd 0 (at_level sl as 0) s))"
    unfolding at_level_def f(1)
  proof (rule stop)
    have "chain (Node_Next sl 0) head_node (as @ bs)" using c \<open>us @ ws = as\<close> by (metis append_assoc)
    then show "Node_Next sl 0 (last (head_node # as)) = Some (first bs)" by (rule chain_next)
    show "\<not> P y" if "first bs = Some y" for y using that P(2) by (cases bs) auto
  qed
  finally show ?case by simp
next
  case (Suc L)
  let ?Q = "\<lambda>l i. l < height sl i"
  have c: "chain (Node_Next sl (Suc L)) head_node (us @ ws @ filter (?Q (Suc L)) bs)"
    using Suc.prems(1)[of "Suc L"] Suc.prems(2) by simp
  let ?y = "last (head_node # us @ ws)"
  have "set ws \<subseteq> set as" using Suc.prems(2) by (metis Un_upper2 filter_is_subset set_append subset_trans)
  then have "loop x (Suc L) s = loop ?y (Suc L) s"
    using along_level[OF c, of s] P(1) Suc.prems(3) by blast
  also have "\<dots> = loop ?y L (upd (Suc L) ?y s)"
  proof (rule down)
    show "Node_Next sl (Suc L) ?y = Some (first (filter (?Q (Suc L)) bs))" using chain_next[of _ head_node "us @ ws"] c by simp
  qed (use first_filter_not P(2) in blast)
  also have "upd (Suc L) ?y s = upd (Suc L) (at_level sl as (Suc L)) s" using Suc.prems(2) by (simp add: at_level_def)
  also have "loop ?y L (upd (Suc L) (at_level sl as (Suc L)) s) =
      Some (finish (first bs) (last (head_node # as)) (fold (\<lambda>l. upd l (at_level sl as l)) (rev [0..<Suc L]) (upd (Suc L) (at_level sl as (Suc L)) s)))"
  proof -
    have "\<exists>us' ws'. filter (?Q L) as = us' @ ws' \<and> ?y = last (head_node # us')"
    proof (cases "us @ ws = []")
      case True
      then show ?thesis by (intro exI[of _ "[]"] exI) simp_all
    next
      case False
      then have "?y = last (us @ ws)" "last (us @ ws) \<in> set (us @ ws)" by (simp_all only: last_ConsR last_in_set not_False_eq_True)
      then have "?y \<in> set (filter (?Q (Suc L)) as)" using Suc.prems(2) by simp
      then have "?y \<in> set (filter (?Q L) as)" by auto
      then obtain us' ws' where "filter (?Q L) as = us' @ ?y # ws'" using split_list[of ?y "filter (?Q L) as"] by blast
      then show ?thesis by (intro exI[of _ "us' @ [?y]"] exI[of _ ws']) simp
    qed
    then obtain us' ws' where "filter (?Q L) as = us' @ ws'" "?y = last (head_node # us')" by blast
    then show ?thesis using Suc.IH Suc.prems(1) by simp
  qed
  finally show ?case by simp
qed

end

interpretation find_ge: descent sl "\<lambda>i. cmp (key_of sl i) key < 0" "find_ge_loop cmp sl key"
    "\<lambda>l x. map_option (\<lambda>p. p[l := Some x])" "\<lambda>nx x prev. (nx, prev)" for sl :: "'k SkipList" and cmp key
proof
  show "Node_Next sl l x = Some (Some y) \<Longrightarrow> cmp (key_of sl y) key < 0 \<Longrightarrow> find_ge_loop cmp sl key x l s = find_ge_loop cmp sl key y l s"
    for l x y s by (subst find_ge_loop.simps) (simp add: KeyIsAfterNode_def)
qed (subst find_ge_loop.simps, auto simp: KeyIsAfterNode_def split: option.splits)+

interpretation find_less: descent sl "\<lambda>i. cmp (key_of sl i) key < 0" "\<lambda>x l _. find_less_loop cmp sl key x l"
    "\<lambda>l x s. s" "\<lambda>nx x (s :: unit). x" for sl :: "'k SkipList" and cmp key
proof
  show "Node_Next sl l x = Some (Some y) \<Longrightarrow> cmp (key_of sl y) key < 0 \<Longrightarrow> find_less_loop cmp sl key x l = find_less_loop cmp sl key y l"
    for l x y by (subst find_less_loop.simps) simp
qed (subst find_less_loop.simps, auto split: option.splits)+

interpretation find_last: descent sl "\<lambda>i. True" "\<lambda>x l _. find_last_loop sl x l"
    "\<lambda>l x s. s" "\<lambda>nx x (s :: unit). x" for sl :: "'k SkipList"
proof
  show "Node_Next sl l x = Some (Some y) \<Longrightarrow> find_last_loop sl x l = find_last_loop sl y l" for l x y
    by (subst find_last_loop.simps) simp
qed (subst find_last_loop.simps, auto split: option.splits)+

section \<open>The invariant\<close>

text \<open>\<open>ns\<close> are the nodes behind the head, in the order of their keys.\<close>

definition skiplist_inv :: "('k \<Rightarrow> bool) \<Rightarrow> ('k \<Rightarrow> 'k \<Rightarrow> int) \<Rightarrow> 'k SkipList \<Rightarrow> nat list \<Rightarrow> bool" where
  "skiplist_inv valid cmp sl ns \<longleftrightarrow>
     distinct ns \<and> set ns = {1..<length (nodes sl)} \<and> nodes sl \<noteq> []
     \<and> height sl head_node = kMaxHeight \<and> 0 < max_height sl \<and> max_height sl \<le> kMaxHeight
     \<and> (\<forall>i \<in> set ns. valid (key_of sl i) \<and> 0 < height sl i \<and> height sl i \<le> max_height sl)
     \<and> sorted_wrt (\<lambda>i j. cmp (key_of sl i) (key_of sl j) < 0) ns
     \<and> (\<forall>l < kMaxHeight. chain (Node_Next sl l) head_node (filter (\<lambda>i. l < height sl i) ns))"

definition skiplist_keys :: "'k SkipList \<Rightarrow> nat list \<Rightarrow> 'k list" where
  "skiplist_keys sl ns = map (key_of sl) ns"

lemma skiplist_invD:
  assumes "skiplist_inv valid cmp sl ns"
  shows "distinct ns" "set ns = {1..<length (nodes sl)}" "nodes sl \<noteq> []" "height sl head_node = kMaxHeight"
    "0 < max_height sl" "max_height sl \<le> kMaxHeight"
    "\<And>i. i \<in> set ns \<Longrightarrow> valid (key_of sl i)" "\<And>i. i \<in> set ns \<Longrightarrow> 0 < height sl i"
    "\<And>i. i \<in> set ns \<Longrightarrow> height sl i \<le> max_height sl"
    "sorted_wrt (\<lambda>i j. cmp (key_of sl i) (key_of sl j) < 0) ns"
    "\<And>l. l < kMaxHeight \<Longrightarrow> chain (Node_Next sl l) head_node (filter (\<lambda>i. l < height sl i) ns)"
  using assms by (auto simp: skiplist_inv_def)

lemma skiplist_inv_new: "skiplist_inv valid cmp (SkipList_new k) []"
  by (auto simp: skiplist_inv_def SkipList_new_def kMaxHeight_def height_def Node_Next_def)

text \<open>Where a key belongs: the nodes before it and the nodes from it on.\<close>

definition before :: "('k \<Rightarrow> 'k \<Rightarrow> int) \<Rightarrow> 'k SkipList \<Rightarrow> 'k \<Rightarrow> nat list \<Rightarrow> nat list" where
  "before cmp sl key ns = takeWhile (\<lambda>i. cmp (key_of sl i) key < 0) ns"

definition from_key :: "('k \<Rightarrow> 'k \<Rightarrow> int) \<Rightarrow> 'k SkipList \<Rightarrow> 'k \<Rightarrow> nat list \<Rightarrow> nat list" where
  "from_key cmp sl key ns = dropWhile (\<lambda>i. cmp (key_of sl i) key < 0) ns"

lemma before_from [simp]: "before cmp sl key ns @ from_key cmp sl key ns = ns"
  by (simp add: before_def from_key_def)

lemma before_from_set: "set (before cmp sl key ns) \<union> set (from_key cmp sl key ns) = set ns"
  by (metis before_from set_append)

lemma before_less: "i \<in> set (before cmp sl key ns) \<Longrightarrow> cmp (key_of sl i) key < 0"
  by (auto simp: before_def dest: set_takeWhileD)

context key_order
begin

lemma from_key_not_less:
  assumes inv: "skiplist_inv valid Compare sl ns" and key: "valid key" and i: "i \<in> set (from_key Compare sl key ns)"
  shows "\<not> Compare (key_of sl i) key < 0"
proof -
  obtain j js where j: "from_key Compare sl key ns = j # js" using i by (cases "from_key Compare sl key ns") auto
  have hd: "\<not> Compare (key_of sl j) key < 0"
    using j by (simp add: from_key_def dropWhile_eq_Cons_conv)
  have "sorted_wrt (\<lambda>i j. Compare (key_of sl i) (key_of sl j) < 0) (before Compare sl key ns @ j # js)"
    using skiplist_invD(10)[OF inv] j before_from[of Compare sl key ns] by simp
  then have s: "\<And>k. k \<in> set js \<Longrightarrow> Compare (key_of sl j) (key_of sl k) < 0" by (simp add: sorted_wrt_append)
  have sub: "set (j # js) \<subseteq> set ns" using j before_from[of Compare sl key ns] by (metis Un_upper2 set_append)
  have v: "valid (key_of sl j)" "valid (key_of sl i)" using skiplist_invD(7)[OF inv] sub i j by auto
  show ?thesis
  proof
    assume "Compare (key_of sl i) key < 0"
    then have "i \<noteq> j" using hd by auto
    then have "Compare (key_of sl j) (key_of sl i) < 0" using i j s by simp
    then show False using hd Compare_trans[of "key_of sl j" "key_of sl i" key] v key \<open>Compare (key_of sl i) key < 0\<close> by blast
  qed
qed

lemma search_setup:
  assumes inv: "skiplist_inv valid Compare sl ns" and key: "valid key" and l: "l \<le> max_height sl - 1"
  shows "chain (Node_Next sl l) head_node
     (filter (\<lambda>i. l < height sl i) (before Compare sl key ns @ from_key Compare sl key ns))"
  using skiplist_invD(5,6,11)[OF inv] l by simp

lemma in_ns:
  assumes "skiplist_inv valid Compare sl ns" "i \<in> set (before Compare sl key ns @ from_key Compare sl key ns)"
  shows "0 < height sl i"
  using assms skiplist_invD(8) by simp

lemma FindGreaterOrEqual_correct:
  assumes inv: "skiplist_inv valid Compare sl ns" and key: "valid key"
  shows "FindGreaterOrEqual Compare sl key prev =
     Some (first (from_key Compare sl key ns),
       fold (\<lambda>l. map_option (\<lambda>p. p[l := Some (at_level sl (before Compare sl key ns) l)])) (rev [0..<max_height sl]) prev)"
proof -
  have H: "Suc (max_height sl - 1) = max_height sl" using skiplist_invD(5)[OF inv] by simp
  have "find_ge_loop Compare sl key head_node (max_height sl - 1) prev = Some (first (from_key Compare sl key ns),
      fold (\<lambda>l. map_option (\<lambda>p. p[l := Some (at_level sl (before Compare sl key ns) l)])) (rev [0..<Suc (max_height sl - 1)]) prev)"
    by (rule find_ge.descent[OF search_setup[OF inv key], where us = "[]"])
       (auto intro: before_less in_ns[OF inv] dest: from_key_not_less[OF inv key])
  then show ?thesis unfolding FindGreaterOrEqual_def H .
qed

lemma FindLessThan_correct:
  assumes inv: "skiplist_inv valid Compare sl ns" and key: "valid key"
  shows "FindLessThan Compare sl key = Some (last (head_node # before Compare sl key ns))"
  unfolding FindLessThan_def
  by (rule find_less.descent[OF search_setup[OF inv key], where us = "[]"])
     (auto intro: before_less in_ns[OF inv] dest: from_key_not_less[OF inv key])

lemma FindLast_correct:
  assumes inv: "skiplist_inv valid Compare sl ns"
  shows "FindLast sl = Some (last (head_node # ns))"
  unfolding FindLast_def
  using skiplist_invD(5,6,8,11)[OF inv]
  by (intro find_last.descent[where us = "[]" and bs = "[]"]) auto

end

section \<open>Inserting\<close>

text \<open>The parts of a list that linking does not change.\<close>

definition same_shape :: "'k SkipList \<Rightarrow> 'k SkipList \<Rightarrow> bool" where
  "same_shape sl sl' \<longleftrightarrow> length (nodes sl') = length (nodes sl) \<and> max_height sl' = max_height sl \<and>
     (\<forall>x. key_of sl' x = key_of sl x \<and> height sl' x = height sl x)"

lemma same_shape_refl [simp]: "same_shape sl sl"
  by (simp add: same_shape_def)

lemma same_shape_trans: "same_shape a b \<Longrightarrow> same_shape b c \<Longrightarrow> same_shape a c"
  by (simp add: same_shape_def)

lemma Node_Next_defined: "Node_Next sl l x \<noteq> None \<longleftrightarrow> x < length (nodes sl) \<and> l < height sl x"
  by (simp add: Node_Next_def height_def)

lemma Node_SetNext_correct:
  assumes "x < length (nodes sl)" "n < height sl x"
  obtains sl' where "Node_SetNext n x y sl = Some sl'" "same_shape sl sl'"
    "\<And>l. Node_Next sl' l = (if l = n then (Node_Next sl l)(x := Some y) else Node_Next sl l)"
proof -
  define sl' where "sl' = sl\<lparr>nodes := (nodes sl)[x := (nodes sl ! x)\<lparr>next_links := (next_links (nodes sl ! x))[n := y]\<rparr>]\<rparr>"
  have "Node_SetNext n x y sl = Some sl'" using assms by (simp add: Node_SetNext_def height_def sl'_def)
  moreover have "same_shape sl sl'"
    using assms(1) by (auto simp: same_shape_def sl'_def key_of_def height_def nth_list_update)
  moreover have "Node_Next sl' l = (if l = n then (Node_Next sl l)(x := Some y) else Node_Next sl l)" for l
    using assms by (auto simp: fun_eq_iff Node_Next_def sl'_def height_def nth_list_update)
  ultimately show ?thesis using that by blast
qed

lemma link_level_correct:
  assumes p: "prev ! i = Some p" "p < length (nodes sl)" "i < height sl p" and x: "x < length (nodes sl)" "i < height sl x"
  obtains sl' where "link_level prev x i sl = Some sl'" "same_shape sl sl'"
    "\<And>l. Node_Next sl' l = (if l = i then (Node_Next sl l)(x := Node_Next sl l p, p := Some (Some x)) else Node_Next sl l)"
proof -
  obtain nx where nx: "Node_Next sl i p = Some nx" using Node_Next_defined[of sl i p] p(2,3) by auto
  obtain sl1 where sl1: "Node_SetNext i x nx sl = Some sl1" "same_shape sl sl1"
      "\<And>l. Node_Next sl1 l = (if l = i then (Node_Next sl l)(x := Some nx) else Node_Next sl l)"
    using Node_SetNext_correct[OF x, where y = nx] by blast
  have "p < length (nodes sl1)" "i < height sl1 p" using p sl1(2) by (simp_all add: same_shape_def)
  then obtain sl2 where sl2: "Node_SetNext i p (Some x) sl1 = Some sl2" "same_shape sl1 sl2"
      "\<And>l. Node_Next sl2 l = (if l = i then (Node_Next sl1 l)(p := Some (Some x)) else Node_Next sl1 l)"
    using Node_SetNext_correct by metis
  have "link_level prev x i sl = Some sl2" using p(1) nx sl1(1) sl2(1) by (simp add: link_level_def)
  moreover have "same_shape sl sl2" using sl1(2) sl2(2) by (rule same_shape_trans)
  moreover have "Node_Next sl2 l = (if l = i then (Node_Next sl l)(x := Node_Next sl l p, p := Some (Some x)) else Node_Next sl l)" for l
    by (simp add: sl2(3) sl1(3) nx)
  ultimately show ?thesis using that by blast
qed

lemma link_levels_correct:
  "distinct is \<Longrightarrow> (\<And>i. i \<in> set is \<Longrightarrow> prev ! i = Some (p i) \<and> p i < length (nodes sl) \<and> i < height sl (p i) \<and> i < height sl x) \<Longrightarrow>
   x < length (nodes sl) \<Longrightarrow>
   \<exists>sl'. link_levels prev x is sl = Some sl' \<and> same_shape sl sl' \<and>
     (\<forall>l. Node_Next sl' l =
        (if l \<in> set is then (Node_Next sl l)(x := Node_Next sl l (p l), p l := Some (Some x)) else Node_Next sl l))"
proof (induction "is" arbitrary: sl)
  case (Cons i "is")
  have i: "prev ! i = Some (p i)" "p i < length (nodes sl)" "i < height sl (p i)" "x < length (nodes sl)" "i < height sl x"
    using Cons.prems by auto
  obtain sl1 where sl1: "link_level prev x i sl = Some sl1" "same_shape sl sl1"
      "\<And>l. Node_Next sl1 l = (if l = i then (Node_Next sl l)(x := Node_Next sl l (p i), p i := Some (Some x)) else Node_Next sl l)"
    using link_level_correct[of prev i "p i" sl x] i by blast
  have "\<And>j. j \<in> set is \<Longrightarrow> prev ! j = Some (p j) \<and> p j < length (nodes sl1) \<and> j < height sl1 (p j) \<and> j < height sl1 x"
    "x < length (nodes sl1)" "distinct is"
    using Cons.prems sl1(2) by (auto simp: same_shape_def)
  then obtain sl2 where sl2: "link_levels prev x is sl1 = Some sl2" "same_shape sl1 sl2"
      "\<And>l. Node_Next sl2 l =
        (if l \<in> set is then (Node_Next sl1 l)(x := Node_Next sl1 l (p l), p l := Some (Some x)) else Node_Next sl1 l)"
    using Cons.IH[of sl1] by blast
  have "i \<notin> set is" using Cons.prems(1) by simp
  then have "Node_Next sl2 l =
      (if l \<in> set (i # is) then (Node_Next sl l)(x := Node_Next sl l (p l), p l := Some (Some x)) else Node_Next sl l)" for l
    by (cases "l = i") (simp_all add: sl2(3) sl1(3))
  then show ?case using sl1(1,2) sl2(1,2) same_shape_trans by auto
qed simp

lemma random_height_bounds: "1 \<le> h \<Longrightarrow> h \<le> kMaxHeight \<Longrightarrow> 1 \<le> fst (random_height_loop h seed) \<and> fst (random_height_loop h seed) \<le> kMaxHeight"
proof (induction h seed rule: random_height_loop.induct)
  case (1 h seed)
  then show ?case by (subst (1 2) random_height_loop.simps) (auto simp: Let_def)
qed

lemma nth_fold_update:
  "length (fold (\<lambda>l p. p[l := g l]) ls ps) = length ps \<and>
   (i < length ps \<longrightarrow> fold (\<lambda>l p. p[l := g l]) ls ps ! i = (if i \<in> set ls then g i else ps ! i))"
  by (induction ls arbitrary: ps) auto

lemma fold_map_option: "fold (\<lambda>l. map_option (f l)) ls (Some p) = Some (fold f ls p)"
  by (induction ls arbitrary: p) auto

lemma RandomHeight_correct:
  obtains h seed where "RandomHeight sl = (h, sl\<lparr>sl_rnd := seed\<rparr>)" "1 \<le> h" "h \<le> kMaxHeight"
proof -
  obtain h seed where "random_height_loop 1 (sl_rnd sl) = (h, seed)" by fastforce
  moreover from this have "1 \<le> h \<and> h \<le> kMaxHeight"
    using random_height_bounds[of 1 "sl_rnd sl"] by (simp add: kMaxHeight_def)
  ultimately show ?thesis using that by (simp add: RandomHeight_def)
qed

text \<open>The list after the height is raised and the node is allocated, before it is linked.\<close>

definition unlinked :: "'k \<Rightarrow> nat \<Rightarrow> u32 \<Rightarrow> 'k SkipList \<Rightarrow> 'k SkipList" where
  "unlinked key h seed sl =
     sl\<lparr>sl_rnd := seed, max_height := max h (max_height sl),
        nodes := nodes sl @ [\<lparr>node_key = key, next_links = replicate h None\<rparr>]\<rparr>"

lemma unlinked_simps [simp]:
  "length (nodes (unlinked key h seed sl)) = Suc (length (nodes sl))"
  "max_height (unlinked key h seed sl) = max h (max_height sl)"
  "key_of (unlinked key h seed sl) (length (nodes sl)) = key"
  "height (unlinked key h seed sl) (length (nodes sl)) = h"
  "x < length (nodes sl) \<Longrightarrow> key_of (unlinked key h seed sl) x = key_of sl x"
  "x < length (nodes sl) \<Longrightarrow> height (unlinked key h seed sl) x = height sl x"
  "x < length (nodes sl) \<Longrightarrow> Node_Next (unlinked key h seed sl) l x = Node_Next sl l x"
  by (simp_all add: unlinked_def key_of_def height_def Node_Next_def nth_append)

lemma at_level_cases:
  assumes inv: "skiplist_inv valid cmp sl ns" and as: "set as \<subseteq> set ns" and l: "l < kMaxHeight"
  shows "at_level sl as l < length (nodes sl)" "l < height sl (at_level sl as l)"
    "max_height sl \<le> l \<Longrightarrow> at_level sl as l = head_node"
proof -
  let ?f = "filter (\<lambda>i. l < height sl i) as"
  have "at_level sl as l = head_node \<or> at_level sl as l \<in> set ?f"
    using last_in_set[of "head_node # ?f"] by (simp add: at_level_def)
  then show "at_level sl as l < length (nodes sl)" "l < height sl (at_level sl as l)"
    using as l skiplist_invD(2,3,4)[OF inv] by auto
  show "at_level sl as l = head_node" if "max_height sl \<le> l"
  proof -
    have "?f = []" using that as skiplist_invD(9)[OF inv] by (fastforce simp: filter_empty_conv)
    then show ?thesis unfolding at_level_def by simp
  qed
qed

text \<open>One level after the new node is linked into it, or passed over.\<close>

lemma chain_new_node:
  assumes c: "chain (Node_Next sl l) head_node (b @ f)" and d: "distinct (b @ f)"
    and set: "set (b @ f) \<subseteq> {1..<length (nodes sl)}" and ne: "0 < length (nodes sl)"
    and links: "Node_Next sl' l = (if l < h
       then (Node_Next (unlinked key h seed sl) l)(length (nodes sl) := Node_Next sl l (last (head_node # b)),
              last (head_node # b) := Some (Some (length (nodes sl))))
       else Node_Next (unlinked key h seed sl) l)"
  shows "chain (Node_Next sl' l) head_node (b @ (if l < h then [length (nodes sl)] else []) @ f)"
proof -
  have in_list: "i < length (nodes sl)" if "i \<in> set (head_node # b @ f)" for i using that set ne by fastforce
  then have "chain (Node_Next (unlinked key h seed sl) l) head_node (b @ f) = chain (Node_Next sl l) head_node (b @ f)"
    by (intro chain_cong) simp
  with c have c': "chain (Node_Next (unlinked key h seed sl) l) head_node (b @ f)" by simp
  have d': "distinct (head_node # b @ f)" "length (nodes sl) \<notin> set (head_node # b @ f)"
    using d set ne by auto
  have "last (head_node # b) \<in> set (head_node # b @ f)" using last_in_set[of "head_node # b"] by auto
  from in_list[OF this] show ?thesis using c' chain_splice[OF c' d'] by (simp add: links)
qed

context key_order
begin

text \<open>\<^verbatim>\<open>Insert\<close> reaches the linking loop with the predecessor of every level in \<open>prev\<close>.\<close>

lemma Insert_prepares:
  assumes inv: "skiplist_inv valid Compare sl ns" and key: "valid key"
  obtains h seed prev where "1 \<le> h" "h \<le> kMaxHeight"
    "SkipList_Insert Compare key sl = link_levels prev (length (nodes sl)) [0..<h] (unlinked key h seed sl)"
    "\<forall>l < h. prev ! l = Some (at_level sl (before Compare sl key ns) l)"
proof -
  obtain h seed where h: "RandomHeight sl = (h, sl\<lparr>sl_rnd := seed\<rparr>)" "1 \<le> h" "h \<le> kMaxHeight"
    by (rule RandomHeight_correct)
  let ?at = "\<lambda>l. Some (at_level sl (before Compare sl key ns) l)"
  define ps where "ps = fold (\<lambda>l p. p[l := ?at l]) (rev [0..<max_height sl]) (replicate kMaxHeight None)"
  define prev where "prev = fst (raise_height h ps (sl\<lparr>sl_rnd := seed\<rparr>))"
  have sub: "set (before Compare sl key ns) \<subseteq> set ns" by (auto simp: before_def dest: set_takeWhileD)
  have ps: "length ps = kMaxHeight" "\<And>l. l < max_height sl \<Longrightarrow> ps ! l = ?at l"
    using nth_fold_update[of ?at] skiplist_invD(6)[OF inv] by (simp_all add: ps_def)
  have "FindGreaterOrEqual Compare sl key (Some (replicate kMaxHeight None)) = Some (first (from_key Compare sl key ns), Some ps)"
    by (simp add: FindGreaterOrEqual_correct[OF inv key] fold_map_option ps_def)
  moreover have "raise_height h ps (sl\<lparr>sl_rnd := seed\<rparr>) = (prev, sl\<lparr>sl_rnd := seed, max_height := max h (max_height sl)\<rparr>)"
    by (simp add: prev_def raise_height_def max_def)
  ultimately have "SkipList_Insert Compare key sl = link_levels prev (length (nodes sl)) [0..<h] (unlinked key h seed sl)"
    by (simp add: SkipList_Insert_def h(1) NewNode_def unlinked_def)
  moreover have "prev ! l = ?at l" if l: "l < h" for l
  proof (cases "l < max_height sl")
    case True
    then show ?thesis using ps l h(3) nth_fold_update[of "\<lambda>_. Some head_node" "[max_height sl..<h]" ps l]
      by (simp add: prev_def raise_height_def)
  next
    case False
    then have "at_level sl (before Compare sl key ns) l = head_node" using at_level_cases(3)[OF inv sub] l h(3) by simp
    then show ?thesis using False ps l h(3) nth_fold_update[of "\<lambda>_. Some head_node" "[max_height sl..<h]" ps l]
      by (simp add: prev_def raise_height_def)
  qed
  ultimately show ?thesis using that h(2,3) by blast
qed

lemma Insert_links:
  assumes inv: "skiplist_inv valid Compare sl ns" and key: "valid key"
  obtains h seed sl' where "1 \<le> h" "h \<le> kMaxHeight" "SkipList_Insert Compare key sl = Some sl'"
    "same_shape (unlinked key h seed sl) sl'"
    "\<forall>l. Node_Next sl' l = (if l < h
       then (Node_Next (unlinked key h seed sl) l)(length (nodes sl) := Node_Next sl l (at_level sl (before Compare sl key ns) l),
              at_level sl (before Compare sl key ns) l := Some (Some (length (nodes sl))))
       else Node_Next (unlinked key h seed sl) l)"
proof -
  obtain h seed prev where h: "1 \<le> h" "h \<le> kMaxHeight"
    and ins: "SkipList_Insert Compare key sl = link_levels prev (length (nodes sl)) [0..<h] (unlinked key h seed sl)"
    and prev: "\<forall>l < h. prev ! l = Some (at_level sl (before Compare sl key ns) l)"
    by (rule Insert_prepares[OF inv key])
  let ?p = "at_level sl (before Compare sl key ns)" and ?sl = "unlinked key h seed sl"
  have sub: "set (before Compare sl key ns) \<subseteq> set ns" by (auto simp: before_def dest: set_takeWhileD)
  have p: "?p l < length (nodes sl)" "l < height sl (?p l)" if "l < h" for l
    using at_level_cases(1,2)[OF inv sub] that h(2) by simp_all
  obtain sl' where sl': "link_levels prev (length (nodes sl)) [0..<h] ?sl = Some sl'" "same_shape ?sl sl'"
    "\<And>l. Node_Next sl' l = (if l \<in> set [0..<h] then (Node_Next ?sl l)(length (nodes sl) := Node_Next ?sl l (?p l),
              ?p l := Some (Some (length (nodes sl)))) else Node_Next ?sl l)"
    using link_levels_correct[of "[0..<h]" prev ?p ?sl "length (nodes sl)"] prev p by force
  have "Node_Next sl' l = (if l < h then (Node_Next ?sl l)(length (nodes sl) := Node_Next sl l (?p l),
              ?p l := Some (Some (length (nodes sl)))) else Node_Next ?sl l)" for l
    using p by (simp add: sl'(3))
  then show ?thesis using that[OF h] ins sl'(1,2) by simp
qed

lemma sorted_insert:
  assumes inv: "skiplist_inv valid Compare sl ns" and key: "valid key" and new: "\<And>i. i \<in> set ns \<Longrightarrow> Compare (key_of sl i) key \<noteq> 0"
    and k: "\<And>i. i \<in> set ns \<Longrightarrow> k i = key_of sl i" "k n = key"
  shows "sorted_wrt (\<lambda>i j. Compare (k i) (k j) < 0) (before Compare sl key ns @ n # from_key Compare sl key ns)"
proof -
  let ?B = "before Compare sl key ns" and ?F = "from_key Compare sl key ns"
  have sub: "set ?B \<subseteq> set ns" "set ?F \<subseteq> set ns"
    by (auto simp: before_def from_key_def dest: set_takeWhileD set_dropWhileD)
  have s: "sorted_wrt (\<lambda>i j. Compare (k i) (k j) < 0) (?B @ ?F)"
    using skiplist_invD(10)[OF inv] k(1) by (simp only: before_from) (rule sorted_wrt_mono_rel, auto)
  have "Compare (k i) (k n) < 0" if "i \<in> set ?B" for i
    using that before_less[of i Compare sl key ns] sub k by auto
  moreover have "Compare (k n) (k i) < 0" if i: "i \<in> set ?F" for i
  proof -
    have "i \<in> set ns" using i sub by auto
    moreover from this have "Compare (key_of sl i) key \<noteq> 0" "valid (key_of sl i)" using new skiplist_invD(7)[OF inv] by auto
    ultimately show ?thesis
      using from_key_not_less[OF inv key i] Compare_swap[of key "key_of sl i"] key k by auto
  qed
  ultimately show ?thesis using s unfolding sorted_wrt_append by simp
qed

lemma Insert_correct:
  assumes inv: "skiplist_inv valid Compare sl ns" and key: "valid key" and new: "\<And>i. i \<in> set ns \<Longrightarrow> Compare (key_of sl i) key \<noteq> 0"
  obtains sl' where "SkipList_Insert Compare key sl = Some sl'"
    "skiplist_inv valid Compare sl' (before Compare sl key ns @ length (nodes sl) # from_key Compare sl key ns)"
    "key_of sl' (length (nodes sl)) = key" "\<And>i. i \<in> set ns \<Longrightarrow> key_of sl' i = key_of sl i"
proof -
  let ?B = "before Compare sl key ns" and ?F = "from_key Compare sl key ns" and ?n = "length (nodes sl)"
  obtain h seed sl' where h: "1 \<le> h" "h \<le> kMaxHeight" and ins: "SkipList_Insert Compare key sl = Some sl'"
    and shape: "same_shape (unlinked key h seed sl) sl'"
    and "\<forall>l. Node_Next sl' l = (if l < h
       then (Node_Next (unlinked key h seed sl) l)(?n := Node_Next sl l (at_level sl ?B l), at_level sl ?B l := Some (Some ?n))
       else Node_Next (unlinked key h seed sl) l)"
    by (rule Insert_links[OF inv key])
  then have links: "\<And>l. Node_Next sl' l = (if l < h
       then (Node_Next (unlinked key h seed sl) l)(?n := Node_Next sl l (at_level sl ?B l), at_level sl ?B l := Some (Some ?n))
       else Node_Next (unlinked key h seed sl) l)" by blast
  let ?sl = "unlinked key h seed sl"
  have ns: "set ?B \<union> set ?F = {1..<?n}" "?n > 0" using skiplist_invD(2,3)[OF inv] by (simp_all add: before_from_set)
  have B: "i < ?n" "i \<noteq> head_node" if "i \<in> set ?B" for i using that ns by fastforce+
  have F: "i < ?n" "i \<noteq> head_node" if "i \<in> set ?F" for i using that ns by fastforce+
  have old: "i < ?n" if "i \<in> set ns" for i using that skiplist_invD(2)[OF inv] by simp
  have key_of: "key_of sl' ?n = key" "\<And>i. i < ?n \<Longrightarrow> key_of sl' i = key_of sl i"
    and height: "height sl' ?n = h" "\<And>i. i < ?n \<Longrightarrow> height sl' i = height sl i"
    and len: "length (nodes sl') = Suc ?n" "max_height sl' = max h (max_height sl)"
    using shape by (simp_all add: same_shape_def)
  have filter: "filter (\<lambda>i. l < height sl' i) ?B = filter (\<lambda>i. l < height sl i) ?B"
    "filter (\<lambda>i. l < height sl' i) ?F = filter (\<lambda>i. l < height sl i) ?F" for l
    using B F height(2) by (auto intro!: filter_cong)
  have chain: "chain (Node_Next sl' l) head_node (filter (\<lambda>i. l < height sl' i) (?B @ ?n # ?F))" if l: "l < kMaxHeight" for l
  proof -
    let ?b = "filter (\<lambda>i. l < height sl i) ?B" and ?f = "filter (\<lambda>i. l < height sl i) ?F"
    have "chain (Node_Next sl' l) head_node (?b @ (if l < h then [?n] else []) @ ?f)"
    proof (rule chain_new_node[where key = key and seed = seed])
      show "chain (Node_Next sl l) head_node (?b @ ?f)" using skiplist_invD(11)[OF inv l] by (simp flip: filter_append)
      show "distinct (?b @ ?f)" using skiplist_invD(1)[OF inv] by (simp flip: filter_append)
      show "set (?b @ ?f) \<subseteq> {1..<?n}" using ns(1) by auto
    qed (use links ns(2) in \<open>simp_all add: at_level_def\<close>)
    then show ?thesis by (simp add: filter height(1) split: if_splits)
  qed
  have "skiplist_inv valid Compare sl' (?B @ ?n # ?F)"
    unfolding skiplist_inv_def
  proof (intro conjI)
    show "sorted_wrt (\<lambda>i j. Compare (key_of sl' i) (key_of sl' j) < 0) (?B @ ?n # ?F)"
      using sorted_insert[OF inv key new] key_of old by blast
    have "distinct (?B @ ?F)" using skiplist_invD(1)[OF inv] by simp
    then show "distinct (?B @ ?n # ?F)" using B F by (fastforce simp del: before_from)
    have "{1..<Suc ?n} = insert ?n (set ?B \<union> set ?F)" using atLeastLessThanSuc[of 1 ?n] ns by (simp only: Suc_le_eq One_nat_def if_True)
    then show "set (?B @ ?n # ?F) = {1..<length (nodes sl')}" by (simp add: len)
    show "\<forall>i\<in>set (?B @ ?n # ?F). valid (key_of sl' i) \<and> 0 < height sl' i \<and> height sl' i \<le> max_height sl'"
    proof
      fix i assume "i \<in> set (?B @ ?n # ?F)"
      then consider "i = ?n" | "i \<in> set ns" using before_from[of Compare sl key ns] by (metis Un_iff set_ConsD set_append)
      then show "valid (key_of sl' i) \<and> 0 < height sl' i \<and> height sl' i \<le> max_height sl'"
        using key h skiplist_invD(7,8,9)[OF inv] old by cases (auto simp: key_of height len le_max_iff_disj)
    qed
  qed (use len h skiplist_invD(4,5,6)[OF inv] chain height(2) ns(2) in auto)
  then show ?thesis using that ins key_of old by blast
qed

text \<open>The keys of the new list are the old ones with the new key at its place.\<close>

lemma Insert_keys:
  assumes "\<And>i. i \<in> set ns \<Longrightarrow> key_of sl' i = key_of sl i" "key_of sl' n = key"
  shows "skiplist_keys sl' (before Compare sl key ns @ n # from_key Compare sl key ns) =
    takeWhile (\<lambda>k. Compare k key < 0) (skiplist_keys sl ns) @ key # dropWhile (\<lambda>k. Compare k key < 0) (skiplist_keys sl ns)"
proof -
  have "map (key_of sl') (before Compare sl key ns) = map (key_of sl) (before Compare sl key ns)"
    "map (key_of sl') (from_key Compare sl key ns) = map (key_of sl) (from_key Compare sl key ns)"
    using assms(1) before_from_set[of Compare sl key ns] by auto
  then show ?thesis using assms(2)
    by (simp add: skiplist_keys_def before_def from_key_def takeWhile_map dropWhile_map comp_def)
qed

lemma from_key_keys:
  "map (key_of sl) (from_key Compare sl key ns) = dropWhile (\<lambda>k. Compare k key < 0) (skiplist_keys sl ns)"
  by (simp add: skiplist_keys_def from_key_def dropWhile_map comp_def)

lemma before_keys:
  "map (key_of sl) (before Compare sl key ns) = takeWhile (\<lambda>k. Compare k key < 0) (skiplist_keys sl ns)"
  by (simp add: skiplist_keys_def before_def takeWhile_map comp_def)

lemma Contains_correct:
  assumes inv: "skiplist_inv valid Compare sl ns" and key: "valid key"
  shows "Contains Compare sl key = Some (\<exists>k \<in> set (skiplist_keys sl ns). Compare key k = 0)"
proof -
  let ?F = "from_key Compare sl key ns"
  have sub: "set ?F \<subseteq> set ns" using before_from_set[of Compare sl key ns] by blast
  have v: "valid (key_of sl i)" if "i \<in> set ns" for i using skiplist_invD(7)[OF inv that] .
  have F: "i \<in> set ?F" if "i \<in> set ns" "Compare key (key_of sl i) = 0" for i
    using that before_less[of i Compare sl key ns] before_from_set[of Compare sl key ns] Compare_swap[of "key_of sl i" key] v key
    by fastforce
  have head: "Compare key (key_of sl (hd ?F)) = 0" if i: "i \<in> set ns" "Compare key (key_of sl i) = 0" for i
  proof -
    obtain j js where j: "?F = j # js" using F[OF i] by (cases ?F) auto
    have "sorted_wrt (\<lambda>i j. Compare (key_of sl i) (key_of sl j) < 0) (before Compare sl key ns @ ?F)"
      using skiplist_invD(10)[OF inv] by simp
    then have "i = j \<or> Compare (key_of sl j) (key_of sl i) < 0" using F[OF i] j unfolding sorted_wrt_append by auto
    moreover have "\<not> Compare (key_of sl j) key < 0" using from_key_not_less[OF inv key] j by simp
    moreover have "j \<in> set ns" using j sub by simp
    ultimately show ?thesis
      using i v key Compare_swap[of "key_of sl i" key] Compare_swap[of key "key_of sl i"] Compare_less_le_trans[of "key_of sl j" "key_of sl i" key] j by auto
  qed
  show ?thesis
  proof (cases ?F)
    case Nil
    then show ?thesis using F by (auto simp: Contains_def FindGreaterOrEqual_correct[OF inv key] skiplist_keys_def)
  next
    case (Cons j js)
    then have "j \<in> set ns" using sub by simp
    then show ?thesis using Cons head by (auto simp: Contains_def FindGreaterOrEqual_correct[OF inv key] skiplist_keys_def)
  qed
qed

text \<open>The iterator: a position is a split of the nodes.\<close>

lemma Iter_Seek_correct:
  assumes "skiplist_inv valid Compare sl ns" "valid key"
  shows "Iter_Seek Compare sl key = Some (first (from_key Compare sl key ns))"
  by (simp add: Iter_Seek_def FindGreaterOrEqual_correct[OF assms])

lemma Iter_Next_correct:
  assumes inv: "skiplist_inv valid Compare sl (us @ x # vs)"
  shows "Iter_Next sl x = Some (first vs)"
proof -
  have "filter (\<lambda>i. 0 < height sl i) (us @ x # vs) = us @ x # vs" using skiplist_invD(8)[OF inv] by (intro filter_True) auto
  then have "chain (Node_Next sl 0) head_node ((us @ [x]) @ vs)" using skiplist_invD(11)[OF inv, of 0] by (simp add: kMaxHeight_def)
  from chain_next[OF this] show ?thesis by (simp add: Iter_Next_def)
qed

lemma Iter_SeekToFirst_correct:
  assumes inv: "skiplist_inv valid Compare sl ns"
  shows "Iter_SeekToFirst sl = Some (first ns)"
proof -
  have "filter (\<lambda>i. 0 < height sl i) ns = ns" using skiplist_invD(8)[OF inv] by (intro filter_True) auto
  then have "chain (Node_Next sl 0) head_node ([] @ ns)" using skiplist_invD(11)[OF inv, of 0] by (simp add: kMaxHeight_def)
  from chain_next[OF this] show ?thesis by (simp add: Iter_SeekToFirst_def)
qed

lemma end_of_last:
  assumes "head_node \<notin> set xs"
  shows "(if last (head_node # xs) = head_node then None else Some (last (head_node # xs))) = end_of xs"
  using assms by (cases xs rule: rev_cases) (auto simp: end_of_def)

lemma head_not_in: "skiplist_inv valid Compare sl ns \<Longrightarrow> head_node \<notin> set ns"
  using skiplist_invD(2) by fastforce

lemma Iter_SeekToLast_correct:
  assumes inv: "skiplist_inv valid Compare sl ns"
  shows "Iter_SeekToLast sl = Some (end_of ns)"
  using end_of_last[OF head_not_in[OF inv]] by (simp only: Iter_SeekToLast_def FindLast_correct[OF inv] option.map)

lemma Iter_Prev_correct:
  assumes inv: "skiplist_inv valid Compare sl (us @ x # vs)"
  shows "Iter_Prev Compare sl x = Some (end_of us)"
proof -
  have v: "valid (key_of sl x)" using skiplist_invD(7)[OF inv] by simp
  have "\<And>u. u \<in> set us \<Longrightarrow> Compare (key_of sl u) (key_of sl x) < 0"
    using skiplist_invD(10)[OF inv] by (simp add: sorted_wrt_append)
  then have "before Compare sl (key_of sl x) (us @ x # vs) = us"
    using Compare_refl[OF v] by (simp add: before_def)
  then show ?thesis using end_of_last[of us] head_not_in[OF inv]
    by (simp only: Iter_Prev_def FindLessThan_correct[OF inv v] option.map) simp
qed

end

section \<open>Properties\<close>

text \<open>C5: inserting a key that is not there succeeds, keeps the invariant of the skip list, and refines the
  insertion into a sorted list, whatever height the random numbers give the new node.\<close>

theorem skiplist_insert_refines:
  assumes inv: "skiplist_inv (\<lambda>_. True) bytewise_Compare sl ns" and new: "key \<notin> set (skiplist_keys sl ns)"
  shows "\<exists>sl' ns'. SkipList_Insert bytewise_Compare key sl = Some sl' \<and> skiplist_inv (\<lambda>_. True) bytewise_Compare sl' ns' \<and>
    skiplist_keys sl' ns' = takeWhile (\<lambda>k. bytewise_Compare k key < 0) (skiplist_keys sl ns) @ key #
      dropWhile (\<lambda>k. bytewise_Compare k key < 0) (skiplist_keys sl ns)"
proof -
  have "bytewise_Compare (key_of sl i) key \<noteq> 0" if "i \<in> set ns" for i
    using that new bytewise.Compare_eq[of "key_of sl i" key] by (auto simp: skiplist_keys_def)
  then obtain sl' where "SkipList_Insert bytewise_Compare key sl = Some sl'"
    "skiplist_inv (\<lambda>_. True) bytewise_Compare sl' (before bytewise_Compare sl key ns @ length (nodes sl) # from_key bytewise_Compare sl key ns)"
    "key_of sl' (length (nodes sl)) = key" "\<And>i. i \<in> set ns \<Longrightarrow> key_of sl' i = key_of sl i"
    using bytewise.Insert_correct[OF inv TrueI] by blast
  then show ?thesis using bytewise.Insert_keys[of ns sl' sl "length (nodes sl)" key] by blast
qed

theorem skiplist_insert_refines_witness:
  "\<exists>sl' ns'. SkipList_Insert bytewise_Compare [5] (SkipList_new []) = Some sl' \<and>
    skiplist_inv (\<lambda>_. True) bytewise_Compare sl' ns' \<and> skiplist_keys sl' ns' = [[5]]"
  using skiplist_insert_refines[OF skiplist_inv_new, of "[5]" "[]"] by (simp add: skiplist_keys_def)

text \<open>C19: on a well-formed list \<^verbatim>\<open>Contains\<close> returns and is membership, and \<^verbatim>\<open>Seek\<close> goes to the first key that is not
  smaller than its target, or to the end.\<close>

theorem skiplist_contains_seek:
  assumes inv: "skiplist_inv (\<lambda>_. True) bytewise_Compare sl ns"
  shows "Contains bytewise_Compare sl key = Some (key \<in> set (skiplist_keys sl ns)) \<and>
    (\<exists>x. Iter_Seek bytewise_Compare sl key = Some x \<and>
      map_option (key_of sl) x = find (\<lambda>k. 0 \<le> bytewise_Compare k key) (skiplist_keys sl ns))"
proof -
  have "map_option (key_of sl) (first (from_key bytewise_Compare sl key ns)) =
      find (\<lambda>k. 0 \<le> bytewise_Compare k key) (skiplist_keys sl ns)"
    by (induction ns) (auto simp: from_key_def skiplist_keys_def)
  then show ?thesis
    using bytewise.Contains_correct[OF inv TrueI] bytewise.Iter_Seek_correct[OF inv TrueI] bytewise.Compare_eq by auto
qed

theorem skiplist_contains_seek_witness:
  "Contains bytewise_Compare (SkipList_new []) [5] = Some False \<and>
    (\<exists>x. Iter_Seek bytewise_Compare (SkipList_new []) [5] = Some x \<and>
      map_option (key_of (SkipList_new [])) x = find (\<lambda>k. 0 \<le> bytewise_Compare k [5]) (skiplist_keys (SkipList_new []) []))"
  using skiplist_contains_seek[OF skiplist_inv_new, of "[]" "[5]"] by (simp add: skiplist_keys_def)

text \<open>C20: the iterator walks the nodes in the order of their keys: the first, the last, and from every node to
  its two neighbours.\<close>

theorem skiplist_iterator_walks:
  assumes inv: "skiplist_inv (\<lambda>_. True) bytewise_Compare sl (us @ x # vs)"
  shows "Iter_SeekToFirst sl = Some (first (us @ [x])) \<and> Iter_SeekToLast sl = Some (end_of (x # vs)) \<and>
    Iter_Next sl x = Some (first vs) \<and> Iter_Prev bytewise_Compare sl x = Some (end_of us)"
proof -
  have "first (us @ x # vs) = first (us @ [x])" by (cases us) simp_all
  moreover have "end_of (us @ x # vs) = end_of (x # vs)" by (cases vs rule: rev_cases) (simp_all add: end_of_def)
  ultimately show ?thesis
    using bytewise.Iter_SeekToFirst_correct[OF inv] bytewise.Iter_SeekToLast_correct[OF inv]
      bytewise.Iter_Next_correct[OF inv] bytewise.Iter_Prev_correct[OF inv] by simp
qed

theorem skiplist_iterator_walks_witness:
  "\<exists>sl. Iter_SeekToFirst sl = Some (Some 1) \<and> Iter_SeekToLast sl = Some (Some 1) \<and>
    Iter_Next sl 1 = Some None \<and> Iter_Prev bytewise_Compare sl 1 = Some None"
proof -
  let ?sl = "\<lparr>nodes = [\<lparr>node_key = [], next_links = Some 1 # replicate 11 None\<rparr>, \<lparr>node_key = [5], next_links = [None]\<rparr>],
      max_height = 1, sl_rnd = 1\<rparr> :: slice SkipList"
  have "chain (Node_Next ?sl l) head_node (filter (\<lambda>i. l < height ?sl i) [1])" if "l < 12" for l
    using that by (cases l) (simp_all add: Node_Next_def height_def)
  then have "skiplist_inv (\<lambda>_. True) bytewise_Compare ?sl ([] @ 1 # [])"
    by (auto simp: skiplist_inv_def kMaxHeight_def height_def)
  from skiplist_iterator_walks[OF this] show ?thesis by (intro exI[of _ ?sl]) (simp add: end_of_def)
qed

end
