(* ===== verification/Ldb_Dbformat.thy ===== *)
theory Ldb_Dbformat
  imports Ldb_Comparator
begin

text \<open>
  LevelDB, \<^verbatim>\<open>db/dbformat.h\<close> and \<^verbatim>\<open>db/dbformat.cc\<close>: internal keys, i.e. a user key followed by eight bytes
  with a sequence number and a value type. The comparator of internal keys takes the user
  comparator as an argument; the locale \<open>comparator\<close> gives it the same contract.
\<close>

section \<open>Internal keys\<close>

datatype ValueType = kTypeDeletion | kTypeValue

fun type_byte :: "ValueType \<Rightarrow> u64" where
  "type_byte kTypeDeletion = 0"
| "type_byte kTypeValue = 1"

definition kValueTypeForSeek :: ValueType where
  "kValueTypeForSeek = kTypeValue"

type_synonym SequenceNumber = u64

definition kMaxSequenceNumber :: SequenceNumber where
  "kMaxSequenceNumber = push_bit 56 1 - 1"

record ParsedInternalKey =
  user_key :: slice
  sequence :: SequenceNumber
  key_type :: ValueType

text \<open>\<^verbatim>\<open>assert(seq <= kMaxSequenceNumber)\<close> is the caller's obligation.\<close>

definition PackSequenceAndType :: "u64 \<Rightarrow> ValueType \<Rightarrow> u64" where
  "PackSequenceAndType seq t = push_bit 8 seq OR type_byte t"

definition InternalKeyEncodingLength :: "ParsedInternalKey \<Rightarrow> nat" where
  "InternalKeyEncodingLength key = length (user_key key) + 8"

definition AppendInternalKey :: "byte list \<Rightarrow> ParsedInternalKey \<Rightarrow> byte list" where
  "AppendInternalKey result key =
     PutFixed64 (result @ user_key key) (PackSequenceAndType (sequence key) (key_type key))"

definition ParseInternalKey :: "slice \<Rightarrow> ParsedInternalKey option" where
  "ParseInternalKey internal_key =
     (let n = length internal_key in
      if n < 8 then None
      else let num = DecodeFixed64 (drop (n - 8) internal_key); c = ucast (num AND 0xff) :: byte in
        if c \<le> 1
        then Some \<lparr>user_key = take (n - 8) internal_key, sequence = drop_bit 8 num,
                   key_type = (if c = 0 then kTypeDeletion else kTypeValue)\<rparr>
        else None)"

text \<open>\<^verbatim>\<open>assert(internal_key.size() >= 8)\<close>\<close>

definition ExtractUserKey :: "slice \<Rightarrow> slice" where
  "ExtractUserKey internal_key = take (length internal_key - 8) internal_key"

text \<open>The number at the end of an internal key.\<close>

definition key_num :: "slice \<Rightarrow> u64" where
  "key_num key = DecodeFixed64 (drop (length key - 8) key)"

section \<open>The comparator of internal keys\<close>

definition internal_Compare :: "(slice \<Rightarrow> slice \<Rightarrow> int) \<Rightarrow> slice \<Rightarrow> slice \<Rightarrow> int" where
  "internal_Compare ucmp akey bkey =
     (let r = ucmp (ExtractUserKey akey) (ExtractUserKey bkey) in
      if r = 0 then
        (let anum = key_num akey; bnum = key_num bkey in if anum > bnum then - 1 else if anum < bnum then 1 else r)
      else r)"

definition seek_suffix :: "byte list \<Rightarrow> byte list" where
  "seek_suffix tmp = PutFixed64 tmp (PackSequenceAndType kMaxSequenceNumber kValueTypeForSeek)"

definition internal_FindShortestSeparator ::
    "(slice \<Rightarrow> slice \<Rightarrow> int) \<Rightarrow> (slice \<Rightarrow> slice \<Rightarrow> slice) \<Rightarrow> slice \<Rightarrow> slice \<Rightarrow> slice" where
  "internal_FindShortestSeparator ucmp usep start limit =
     (let user_start = ExtractUserKey start; user_limit = ExtractUserKey limit; tmp = usep user_start user_limit in
      if length tmp < length user_start \<and> ucmp user_start tmp < 0 then seek_suffix tmp else start)"

definition internal_FindShortSuccessor ::
    "(slice \<Rightarrow> slice \<Rightarrow> int) \<Rightarrow> (slice \<Rightarrow> slice) \<Rightarrow> slice \<Rightarrow> slice" where
  "internal_FindShortSuccessor ucmp usucc key =
     (let user_key = ExtractUserKey key; tmp = usucc user_key in
      if length tmp < length user_key \<and> ucmp user_key tmp < 0 then seek_suffix tmp else key)"

section \<open>Lookup keys\<close>

text \<open>\<^verbatim>\<open>LookupKey\<close>: the array at \<^verbatim>\<open>start_\<close>, and where \<^verbatim>\<open>kstart_\<close> points into it.\<close>

record LookupKey =
  lk_array :: "byte list"
  lk_kstart :: nat

definition LookupKey_new :: "slice \<Rightarrow> SequenceNumber \<Rightarrow> LookupKey" where
  "LookupKey_new ukey s =
     (let usize = length ukey; len = EncodeVarint32 (word_of_nat (usize + 8)) in
      \<lparr>lk_array = len @ ukey @ EncodeFixed64 (PackSequenceAndType s kValueTypeForSeek), lk_kstart = length len\<rparr>)"

definition memtable_key :: "LookupKey \<Rightarrow> slice" where
  "memtable_key lk = lk_array lk"

definition lk_internal_key :: "LookupKey \<Rightarrow> slice" where
  "lk_internal_key lk = drop (lk_kstart lk) (lk_array lk)"

definition lk_user_key :: "LookupKey \<Rightarrow> slice" where
  "lk_user_key lk = take (length (lk_array lk) - lk_kstart lk - 8) (drop (lk_kstart lk) (lk_array lk))"

section \<open>Lemmas\<close>

lemma type_byte_less: "type_byte t < 256"
  by (cases t) simp_all

lemma pack_seq: "seq \<le> kMaxSequenceNumber \<Longrightarrow> drop_bit 8 (PackSequenceAndType seq t) = seq"
proof -
  assume "seq \<le> kMaxSequenceNumber"
  then have small: "unat seq < 2 ^ 56" by (simp add: kMaxSequenceNumber_def word_le_nat_alt push_bit_eq_mult)
  have top: "n < 56" if "bit seq n" for n
  proof (rule ccontr)
    assume "\<not> n < 56"
    then have "unat seq < 2 ^ n" using small by (meson less_le_trans not_less one_le_numeral power_increasing)
    then have "\<not> bit (unat seq) n" by (simp add: bit_iff_odd)
    then show False using that by (simp add: bit_unsigned_iff)
  qed
  have t: "\<not> bit (type_byte t) (8 + n)" for n
    by (cases t) (simp_all add: bit_1_iff)
  show ?thesis
    by (rule bit_word_eqI) (use top t in \<open>auto simp: PackSequenceAndType_def bit_simps add.commute\<close>)
qed

lemma pack_type: "ucast (PackSequenceAndType seq t AND 0xff) = (ucast (type_byte t) :: byte)"
proof -
  have "PackSequenceAndType seq t AND 0xff = take_bit 8 (PackSequenceAndType seq t)"
    by (simp add: take_bit_eq_mask mask_eq_exp_minus_1)
  then show ?thesis
    by (simp only:) (rule bit_word_eqI, simp add: PackSequenceAndType_def bit_simps)
qed

lemma pack_type_masked: "PackSequenceAndType seq t AND 0xff = type_byte t"
proof (rule bit_word_eqI)
  fix n assume "n < LENGTH(64)"
  have m: "(0xff :: u64) = mask 8" by (simp add: mask_eq_exp_minus_1)
  have f: "bit (0xff :: u64) n \<longleftrightarrow> n < 8" unfolding m bit_mask_iff using \<open>n < LENGTH(64)\<close> by simp
  have "bit (type_byte t) n \<Longrightarrow> n < 8" by (cases t) (simp_all add: bit_1_iff)
  then show "bit (PackSequenceAndType seq t AND 0xff) n = bit (type_byte t) n"
    unfolding bit_and_iff f by (auto simp: PackSequenceAndType_def bit_simps)
qed

lemma AppendInternalKey_parts:
  "ExtractUserKey (AppendInternalKey [] k) = user_key k"
  "key_num (AppendInternalKey [] k) = PackSequenceAndType (sequence k) (key_type k)"
  "length (AppendInternalKey [] k) = InternalKeyEncodingLength k"
  using DecodeFixed64_Encode[of "PackSequenceAndType (sequence k) (key_type k)" "[]"]
  by (simp_all add: AppendInternalKey_def ExtractUserKey_def key_num_def PutFixed64_def InternalKeyEncodingLength_def)

text \<open>An internal key is its user key and its number.\<close>

lemma internal_key_split: "8 \<le> length k \<Longrightarrow> k = ExtractUserKey k @ EncodeFixed64 (key_num k)"
proof -
  assume k: "8 \<le> length k"
  have "EncodeFixed64 (key_num k) = drop (length k - 8) k"
    using k le_of_word_of_le[of "drop (length k - 8) k", where 'a = 64]
    by (simp add: EncodeFixed64_def key_num_def DecodeFixed64_def)
  then show ?thesis by (simp add: ExtractUserKey_def)
qed

lemma seek_suffix_parts:
  "8 \<le> length (seek_suffix u)" "ExtractUserKey (seek_suffix u) = u"
  by (simp_all add: seek_suffix_def PutFixed64_def ExtractUserKey_def)

lemma parse_append:
  assumes "sequence k \<le> kMaxSequenceNumber"
  shows "ParseInternalKey (AppendInternalKey [] k) = Some k"
proof -
  have n: "DecodeFixed64 (drop (length (AppendInternalKey [] k) - 8) (AppendInternalKey [] k)) =
      PackSequenceAndType (sequence k) (key_type k)"
    using AppendInternalKey_parts(2) by (simp add: key_num_def)
  have "take (length (AppendInternalKey [] k) - 8) (AppendInternalKey [] k) = user_key k"
    using AppendInternalKey_parts(1) by (simp add: ExtractUserKey_def)
  moreover have "\<not> length (AppendInternalKey [] k) < 8"
    by (simp add: AppendInternalKey_parts InternalKeyEncodingLength_def)
  ultimately show ?thesis
    using pack_seq[OF assms] unfolding ParseInternalKey_def Let_def n pack_type
    by (cases "key_type k") simp_all
qed

section \<open>The order of internal keys\<close>

abbreviation internal_valid :: "(slice \<Rightarrow> bool) \<Rightarrow> slice \<Rightarrow> bool" where
  "internal_valid uvalid k \<equiv> 8 \<le> length k \<and> uvalid (ExtractUserKey k)"

lemma internal_key_eq:
  "8 \<le> length a \<Longrightarrow> 8 \<le> length b \<Longrightarrow> a = b \<longleftrightarrow> ExtractUserKey a = ExtractUserKey b \<and> key_num a = key_num b"
  using internal_key_split by metis

context comparator
begin

lemma internal_less:
  assumes "internal_valid valid a" "internal_valid valid b"
  shows "internal_Compare Compare a b < 0 \<longleftrightarrow>
    Compare (ExtractUserKey a) (ExtractUserKey b) < 0 \<or> ExtractUserKey a = ExtractUserKey b \<and> key_num b < key_num a"
  using assms Compare_eq[of "ExtractUserKey a" "ExtractUserKey b"] by (auto simp: internal_Compare_def Let_def Compare_refl)

lemma internal_greater:
  assumes "internal_valid valid a" "internal_valid valid b"
  shows "0 < internal_Compare Compare a b \<longleftrightarrow>
    0 < Compare (ExtractUserKey a) (ExtractUserKey b) \<or> ExtractUserKey a = ExtractUserKey b \<and> key_num a < key_num b"
  using assms Compare_eq[of "ExtractUserKey a" "ExtractUserKey b"] by (auto simp: internal_Compare_def Let_def Compare_refl)

lemma internal_zero:
  assumes "internal_valid valid a" "internal_valid valid b"
  shows "internal_Compare Compare a b = 0 \<longleftrightarrow> a = b"
proof -
  have "internal_Compare Compare a b = 0 \<longleftrightarrow> ExtractUserKey a = ExtractUserKey b \<and> key_num a = key_num b"
    using assms Compare_eq[of "ExtractUserKey a" "ExtractUserKey b"] by (auto simp: internal_Compare_def Let_def Compare_refl)
  then show ?thesis using internal_key_eq assms by blast
qed

lemma internal_comparator:
  "comparator (internal_valid valid) (internal_Compare Compare)
     (internal_FindShortestSeparator Compare FindShortestSeparator) (internal_FindShortSuccessor Compare FindShortSuccessor)"
proof
  fix a b c
  assume a: "internal_valid valid a"
  show "internal_FindShortestSeparator Compare FindShortestSeparator a a = a"
    using a separator_same by (simp add: internal_FindShortestSeparator_def Let_def)
  show "internal_valid valid (internal_FindShortSuccessor Compare FindShortSuccessor a) \<and>
      internal_Compare Compare a (internal_FindShortSuccessor Compare FindShortSuccessor a) \<le> 0"
  proof (cases "internal_FindShortSuccessor Compare FindShortSuccessor a = a")
    case True
    then show ?thesis using a internal_zero[OF a a] by simp
  next
    case False
    let ?t = "FindShortSuccessor (ExtractUserKey a)"
    have t: "internal_FindShortSuccessor Compare FindShortSuccessor a = seek_suffix ?t" "Compare (ExtractUserKey a) ?t < 0"
      using False by (auto simp: internal_FindShortSuccessor_def Let_def split: if_splits)
    have v: "internal_valid valid (seek_suffix ?t)" using seek_suffix_parts successor a by simp
    then show ?thesis using t internal_less[OF a v] by (simp add: seek_suffix_parts)
  qed
  assume b: "internal_valid valid b"
  show "internal_Compare Compare a b = 0 \<longleftrightarrow> a = b" by (rule internal_zero[OF a b])
  show "internal_Compare Compare a b < 0 \<longleftrightarrow> 0 < internal_Compare Compare b a"
    using internal_less[OF a b] internal_greater[OF b a] Compare_swap a b by auto
  show "internal_valid valid (internal_FindShortestSeparator Compare FindShortestSeparator a b) \<and>
      internal_Compare Compare a (internal_FindShortestSeparator Compare FindShortestSeparator a b) \<le> 0 \<and>
      internal_Compare Compare (internal_FindShortestSeparator Compare FindShortestSeparator a b) b < 0"
    if less: "internal_Compare Compare a b < 0"
  proof (cases "internal_FindShortestSeparator Compare FindShortestSeparator a b = a")
    case True
    then show ?thesis using a less internal_zero[OF a a] by simp
  next
    case False
    let ?t = "FindShortestSeparator (ExtractUserKey a) (ExtractUserKey b)"
    have t: "internal_FindShortestSeparator Compare FindShortestSeparator a b = seek_suffix ?t"
        "Compare (ExtractUserKey a) ?t < 0" "length ?t < length (ExtractUserKey a)"
      using False by (auto simp: internal_FindShortestSeparator_def Let_def split: if_splits)
    have "ExtractUserKey a \<noteq> ExtractUserKey b" using t(3) separator_same[of "ExtractUserKey a"] a by auto
    then have "Compare (ExtractUserKey a) (ExtractUserKey b) < 0" using less internal_less[OF a b] by simp
    then have u: "valid ?t" "Compare ?t (ExtractUserKey b) < 0" using separator a b by auto
    have v: "internal_valid valid (seek_suffix ?t)" using u(1) by (simp add: seek_suffix_parts)
    show ?thesis
      using t(1,2) u v internal_less[OF a v] internal_less[OF v b] by (simp add: seek_suffix_parts)
  qed
  assume c: "internal_valid valid c"
  show "internal_Compare Compare a c \<le> 0" if "internal_Compare Compare a b \<le> 0" "internal_Compare Compare b c \<le> 0"
  proof -
    let ?u = ExtractUserKey
    have le: "internal_Compare Compare x y \<le> 0 \<longleftrightarrow> Compare (?u x) (?u y) < 0 \<or> ?u x = ?u y \<and> key_num y \<le> key_num x"
      if "internal_valid valid x" "internal_valid valid y" for x y
      using internal_greater[OF that] Compare_eq[of "?u x" "?u y"] Compare_refl[of "?u x"] that by (auto simp: not_less[symmetric])
    show ?thesis
      using that Compare_trans[of "?u a" "?u b" "?u c"] a b c unfolding le[OF a b] le[OF b c] le[OF a c] by auto
  qed
qed

end

interpretation internal_bytewise: comparator "internal_valid (\<lambda>_. True)" "internal_Compare bytewise_Compare"
  "internal_FindShortestSeparator bytewise_Compare bytewise_FindShortestSeparator"
  "internal_FindShortSuccessor bytewise_Compare bytewise_FindShortSuccessor"
  by (rule bytewise.internal_comparator)

lemma unat_pack:
  assumes "seq \<le> kMaxSequenceNumber"
  shows "unat (PackSequenceAndType seq t) = 256 * unat seq + unat (type_byte t)"
proof -
  have small: "unat seq < 2 ^ 56" using assms by (simp add: kMaxSequenceNumber_def word_le_nat_alt push_bit_eq_mult)
  have "push_bit 8 seq AND type_byte t = 0"
    by (rule bit_word_eqI) (cases t; auto simp: bit_simps bit_1_iff)
  then have "PackSequenceAndType seq t = push_bit 8 seq + type_byte t"
    unfolding PackSequenceAndType_def by (simp add: disjunctive_add_eq_or)
  also have "\<dots> = 256 * seq + type_byte t" by (simp add: push_bit_eq_mult mult.commute)
  finally show ?thesis
    using small by (cases t) (simp_all add: unat_word_ariths)
qed

lemma pack_less:
  assumes "s1 \<le> kMaxSequenceNumber" "s2 \<le> kMaxSequenceNumber"
  shows "PackSequenceAndType s1 t1 < PackSequenceAndType s2 t2 \<longleftrightarrow> s1 < s2 \<or> s1 = s2 \<and> t1 = kTypeDeletion \<and> t2 = kTypeValue"
  unfolding word_less_nat_alt unat_pack[OF assms(1)] unat_pack[OF assms(2)] word_unat_eq_iff
  by (cases t1; cases t2) auto

lemma LookupKey_array:
  "memtable_key (LookupKey_new u s) = EncodeVarint32 (word_of_nat (length u + 8)) @ lk_internal_key (LookupKey_new u s)"
  "lk_internal_key (LookupKey_new u s) = AppendInternalKey [] \<lparr>user_key = u, sequence = s, key_type = kValueTypeForSeek\<rparr>"
  "lk_user_key (LookupKey_new u s) = u"
  by (simp_all add: LookupKey_new_def memtable_key_def lk_internal_key_def lk_user_key_def AppendInternalKey_def
      PutFixed64_def Let_def)

lemma lookup_length_prefix:
  assumes "length u + 8 < 2 ^ 32"
  shows "GetLengthPrefixedSlicePtr (memtable_key (LookupKey_new u s) @ rest) = Some (lk_internal_key (LookupKey_new u s), rest)"
proof -
  let ?k = "lk_internal_key (LookupKey_new u s)"
  have "length ?k = length u + 8"
    by (simp add: LookupKey_array(2) AppendInternalKey_parts(3) InternalKeyEncodingLength_def)
  then have "memtable_key (LookupKey_new u s) = PutLengthPrefixedSlice [] ?k"
    by (simp add: LookupKey_array(1) PutLengthPrefixedSlice_def PutVarint32_def)
  then show ?thesis using GetLengthPrefixedSlice_Put(2)[of ?k rest] assms \<open>length ?k = _\<close> by simp
qed

lemma internal_valid_append: "internal_valid (\<lambda>_. True) (AppendInternalKey [] k)"
  by (simp add: AppendInternalKey_parts InternalKeyEncodingLength_def)

section \<open>Properties\<close>

text \<open>\<^verbatim>\<open>ParseInternalKey\<close> recovers the user key, the sequence number and the type that \<^verbatim>\<open>AppendInternalKey\<close>
  wrote, for every sequence number the format has room for.\<close>

theorem internal_key_round_trip:
  assumes "sequence k \<le> kMaxSequenceNumber"
  shows "ParseInternalKey (AppendInternalKey [] k) = Some k \<and>
    length (AppendInternalKey [] k) = InternalKeyEncodingLength k"
  using parse_append[OF assms] AppendInternalKey_parts(3) by simp

theorem internal_key_round_trip_witness:
  "ParseInternalKey (AppendInternalKey [] \<lparr>user_key = [97, 98], sequence = 5, key_type = kTypeValue\<rparr>) =
     Some \<lparr>user_key = [97, 98], sequence = 5, key_type = kTypeValue\<rparr> \<and>
   length (AppendInternalKey [] \<lparr>user_key = [97, 98], sequence = 5, key_type = kTypeValue\<rparr>) =
     InternalKeyEncodingLength \<lparr>user_key = [97, 98], sequence = 5, key_type = kTypeValue\<rparr>"
  by (rule internal_key_round_trip) (simp add: kMaxSequenceNumber_def)

text \<open>C33: internal keys are ordered by user key, then by decreasing sequence number, then by decreasing type:
  the newest entry of a user key comes first.\<close>

theorem internal_key_order:
  assumes "sequence k \<le> kMaxSequenceNumber" "sequence l \<le> kMaxSequenceNumber"
  shows "internal_Compare bytewise_Compare (AppendInternalKey [] k) (AppendInternalKey [] l) < 0 \<longleftrightarrow>
    bytewise_Compare (user_key k) (user_key l) < 0 \<or>
    user_key k = user_key l \<and> (sequence l < sequence k \<or>
      sequence k = sequence l \<and> key_type k = kTypeValue \<and> key_type l = kTypeDeletion)"
  using bytewise.internal_less[OF internal_valid_append[of k] internal_valid_append[of l]] pack_less[OF assms(2,1)]
  by (auto simp: AppendInternalKey_parts)

theorem internal_key_order_witness:
  "internal_Compare bytewise_Compare (AppendInternalKey [] \<lparr>user_key = [97], sequence = 7, key_type = kTypeDeletion\<rparr>)
     (AppendInternalKey [] \<lparr>user_key = [97], sequence = 3, key_type = kTypeValue\<rparr>) < 0"
  using internal_key_order[of "\<lparr>user_key = [97], sequence = 7, key_type = kTypeDeletion\<rparr>"
      "\<lparr>user_key = [97], sequence = 3, key_type = kTypeValue\<rparr>"]
  by (simp add: kMaxSequenceNumber_def)

text \<open>C32: a lookup key for a user key at a snapshot stands, in the order of internal keys, right before the
  entries of that user key that the snapshot may see, and behind the ones written later; and the
  memtable finds the internal key in it by its length prefix.\<close>

theorem lookup_key_seeks:
  assumes "s \<le> kMaxSequenceNumber" "sequence k \<le> kMaxSequenceNumber" "length u + 8 < 2 ^ 32"
  shows "(internal_Compare bytewise_Compare (lk_internal_key (LookupKey_new u s)) (AppendInternalKey [] k) \<le> 0 \<longleftrightarrow>
      bytewise_Compare u (user_key k) < 0 \<or> u = user_key k \<and> sequence k \<le> s) \<and>
    GetLengthPrefixedSlicePtr (memtable_key (LookupKey_new u s) @ rest) = Some (lk_internal_key (LookupKey_new u s), rest)"
proof -
  let ?l = "\<lparr>user_key = u, sequence = s, key_type = kValueTypeForSeek\<rparr>"
  let ?c = "internal_Compare bytewise_Compare (AppendInternalKey [] ?l) (AppendInternalKey [] k)"
  have v: "internal_valid (\<lambda>_. True) (AppendInternalKey [] ?l)" "internal_valid (\<lambda>_. True) (AppendInternalKey [] k)"
    using internal_valid_append by blast+
  have "0 < ?c \<longleftrightarrow> 0 < bytewise_Compare u (user_key k) \<or> u = user_key k \<and> s < sequence k"
    using bytewise.internal_greater[OF v] pack_less[OF assms(1,2)]
    by (auto simp: AppendInternalKey_parts kValueTypeForSeek_def)
  moreover have "\<not> 0 < bytewise_Compare u (user_key k) \<longleftrightarrow> bytewise_Compare u (user_key k) < 0 \<or> u = user_key k"
    using bytewise.Compare_eq[of u "user_key k"] by auto
  ultimately have "?c \<le> 0 \<longleftrightarrow> bytewise_Compare u (user_key k) < 0 \<or> u = user_key k \<and> sequence k \<le> s"
    using bytewise.Compare_refl[of u] by (auto simp: not_less[symmetric])
  then show ?thesis using lookup_length_prefix[OF assms(3)] by (simp add: LookupKey_array(2))
qed

theorem lookup_key_seeks_witness:
  "(internal_Compare bytewise_Compare (lk_internal_key (LookupKey_new [97] 5))
      (AppendInternalKey [] \<lparr>user_key = [97], sequence = 3, key_type = kTypeValue\<rparr>) \<le> 0 \<longleftrightarrow>
      bytewise_Compare [97] [97] < 0 \<or> [97] = [97 :: byte] \<and> (3 :: u64) \<le> 5) \<and>
    GetLengthPrefixedSlicePtr (memtable_key (LookupKey_new [97] 5) @ [1]) = Some (lk_internal_key (LookupKey_new [97] 5), [1])"
  using lookup_key_seeks[of 5 "\<lparr>user_key = [97], sequence = 3, key_type = kTypeValue\<rparr>" "[97]" "[1]"]
  by (simp add: kMaxSequenceNumber_def)

text \<open>The separator of two internal keys lies between them, so an index over internal keys may use it.\<close>

theorem internal_separator_between:
  assumes "8 \<le> length a" "8 \<le> length b" "internal_Compare bytewise_Compare a b < 0"
  shows "\<exists>c. c = internal_FindShortestSeparator bytewise_Compare bytewise_FindShortestSeparator a b \<and>
    8 \<le> length c \<and> internal_Compare bytewise_Compare a c \<le> 0 \<and> internal_Compare bytewise_Compare c b < 0"
  using internal_bytewise.separator[of a b] assms by simp

theorem internal_separator_between_witness:
  "\<exists>c. c = internal_FindShortestSeparator bytewise_Compare bytewise_FindShortestSeparator
      [97, 98, 99, 1, 0, 0, 0, 0, 0, 0, 0] [97, 100, 1, 0, 0, 0, 0, 0, 0, 0] \<and> 8 \<le> length c \<and>
    internal_Compare bytewise_Compare [97, 98, 99, 1, 0, 0, 0, 0, 0, 0, 0] c \<le> 0 \<and>
    internal_Compare bytewise_Compare c [97, 100, 1, 0, 0, 0, 0, 0, 0, 0] < 0"
  by (rule internal_separator_between) (simp_all add: internal_Compare_def bytewise_Compare_def ExtractUserKey_def)

end
