(* ===== verification/Ldb_Status.thy ===== *)
theory Ldb_Status
  imports Ldb_Coding
begin

text \<open>
  LevelDB, \<^verbatim>\<open>include/leveldb/status.h\<close> and \<^verbatim>\<open>util/status.cc\<close>: the result of an operation. A status is the
  array \<^verbatim>\<open>state_\<close> points to, or \<open>None\<close> for the null pointer that stands for success.
\<close>

type_synonym Status = "byte list option"

datatype Code = kOk | kNotFound | kCorruption | kNotSupported | kInvalidArgument | kIOError

fun code_byte :: "Code \<Rightarrow> byte" where
  "code_byte kOk = 0"
| "code_byte kNotFound = 1"
| "code_byte kCorruption = 2"
| "code_byte kNotSupported = 3"
| "code_byte kInvalidArgument = 4"
| "code_byte kIOError = 5"

text \<open>The bytes of a string literal.\<close>

definition lit :: "string \<Rightarrow> byte list" where
  "lit s = map of_char s"

definition Status_OK :: Status where
  "Status_OK = None"

text \<open>The private constructor; it requires that \<open>code\<close> is not \<open>kOk\<close>.\<close>

definition Status_new :: "Code \<Rightarrow> slice \<Rightarrow> slice \<Rightarrow> Status" where
  "Status_new code msg msg2 =
     (let len1 = word_of_nat (length msg) :: u32; len2 = word_of_nat (length msg2) :: u32;
          size = len1 + (if len2 \<noteq> 0 then 2 + len2 else 0)
      in Some (EncodeFixed32 size @ [code_byte code] @ take (unat len1) msg @
             (if len2 \<noteq> 0 then lit '': '' @ take (unat len2) msg2 else [])))"

definition Status_Corruption :: "slice \<Rightarrow> Status" where
  "Status_Corruption msg = Status_new kCorruption msg []"

definition Status_NotFound :: "slice \<Rightarrow> Status" where
  "Status_NotFound msg = Status_new kNotFound msg []"

definition Status_NotSupported :: "slice \<Rightarrow> slice \<Rightarrow> Status" where
  "Status_NotSupported msg msg2 = Status_new kNotSupported msg msg2"

definition Status_InvalidArgument :: "slice \<Rightarrow> slice \<Rightarrow> Status" where
  "Status_InvalidArgument msg msg2 = Status_new kInvalidArgument msg msg2"

definition Status_IOError :: "slice \<Rightarrow> slice \<Rightarrow> Status" where
  "Status_IOError msg msg2 = Status_new kIOError msg msg2"

definition Status_ok :: "Status \<Rightarrow> bool" where
  "Status_ok s \<longleftrightarrow> s = None"

text \<open>\<^verbatim>\<open>static_cast<Code>(state_[4])\<close>, as the byte.\<close>

definition Status_code :: "Status \<Rightarrow> byte" where
  "Status_code s = (case s of None \<Rightarrow> code_byte kOk | Some st \<Rightarrow> st ! 4)"

definition IsNotFound :: "Status \<Rightarrow> bool" where
  "IsNotFound s \<longleftrightarrow> Status_code s = code_byte kNotFound"

definition IsCorruption :: "Status \<Rightarrow> bool" where
  "IsCorruption s \<longleftrightarrow> Status_code s = code_byte kCorruption"

definition IsIOError :: "Status \<Rightarrow> bool" where
  "IsIOError s \<longleftrightarrow> Status_code s = code_byte kIOError"

definition IsNotSupportedError :: "Status \<Rightarrow> bool" where
  "IsNotSupportedError s \<longleftrightarrow> Status_code s = code_byte kNotSupported"

definition IsInvalidArgument :: "Status \<Rightarrow> bool" where
  "IsInvalidArgument s \<longleftrightarrow> Status_code s = code_byte kInvalidArgument"

definition CopyState :: "byte list \<Rightarrow> byte list" where
  "CopyState state = (let size = DecodeFixed32 state in take (unat (size + 5)) state)"

definition Status_copy :: "Status \<Rightarrow> Status" where
  "Status_copy rhs = map_option CopyState rhs"

text \<open>Decimal digits, as \<^verbatim>\<open>snprintf\<close> prints them.\<close>

fun decimal :: "nat \<Rightarrow> byte list" where
  "decimal n = (if n < 10 then [48 + word_of_nat n] else decimal (n div 10) @ [48 + word_of_nat (n mod 10)])"

definition print_int :: "int \<Rightarrow> byte list" where
  "print_int i = (if i < 0 then [45] else []) @ decimal (nat \<bar>i\<bar>)"

definition code_name :: "byte \<Rightarrow> byte list" where
  "code_name c =
     (if c = code_byte kOk then lit ''OK''
      else if c = code_byte kNotFound then lit ''NotFound: ''
      else if c = code_byte kCorruption then lit ''Corruption: ''
      else if c = code_byte kNotSupported then lit ''Not implemented: ''
      else if c = code_byte kInvalidArgument then lit ''Invalid argument: ''
      else if c = code_byte kIOError then lit ''IO error: ''
      else lit ''Unknown code('' @ print_int (sint c) @ lit ''): '')"

definition Status_ToString :: "Status \<Rightarrow> byte list" where
  "Status_ToString s =
     (case s of
        None \<Rightarrow> lit ''OK''
      | Some st \<Rightarrow> code_name (Status_code s) @ take (unat (DecodeFixed32 st)) (drop 5 st))"

section \<open>Lemmas\<close>

lemma Status_new_parts:
  assumes "length msg + length msg2 + 7 < 2 ^ 32"
  obtains st where "Status_new code msg msg2 = Some st" "st ! 4 = code_byte code" "CopyState st = st"
    "take (unat (DecodeFixed32 st)) (drop 5 st) = msg @ (if msg2 = [] then [] else lit '': '' @ msg2)"
proof -
  let ?l1 = "word_of_nat (length msg) :: u32" and ?l2 = "word_of_nat (length msg2) :: u32"
  let ?tail = "msg @ (if msg2 = [] then [] else lit '': '' @ msg2)"
  have u: "unat ?l1 = length msg" "unat ?l2 = length msg2" using assms by (simp_all add: unat_word_of_nat)
  have z: "?l2 \<noteq> 0 \<longleftrightarrow> msg2 \<noteq> []" using u(2) by (metis length_0_conv unat_eq_zero)
  define size :: u32 where "size = ?l1 + (if ?l2 \<noteq> 0 then 2 + ?l2 else 0)"
  have size_eq: "size = word_of_nat (length ?tail)" by (auto simp: size_def z lit_def)
  have "length ?tail + 5 < 2 ^ 32" using assms by (simp add: lit_def)
  then have su: "unat size = length ?tail" "unat (size + 5) = length ?tail + 5"
    unfolding size_eq by (simp_all add: unat_word_ariths unat_word_of_nat)
  define st where "st = EncodeFixed32 size @ [code_byte code] @ ?tail"
  have "Status_new code msg msg2 = Some st"
    by (simp add: Status_new_def Let_def st_def z size_def u)
  moreover have "st ! 4 = code_byte code" by (simp add: st_def nth_append)
  moreover have d: "DecodeFixed32 st = size" unfolding st_def by (rule DecodeFixed32_Encode)
  moreover have "length st = length ?tail + 5" by (simp add: st_def)
  ultimately show ?thesis
    using that su by (simp add: CopyState_def) (simp add: st_def)
qed

section \<open>Properties\<close>

text \<open>An error status keeps its code and its message: it is not ok, copying it changes nothing, and its text is
  the name of the code, the message and, when given, the second message after a colon.\<close>

theorem status_keeps_message:
  assumes "length msg + length msg2 + 7 < 2 ^ 32"
  shows "\<not> Status_ok (Status_new code msg msg2) \<and> Status_code (Status_new code msg msg2) = code_byte code \<and>
    Status_copy (Status_new code msg msg2) = Status_new code msg msg2 \<and>
    Status_ToString (Status_new code msg msg2) =
      code_name (code_byte code) @ msg @ (if msg2 = [] then [] else lit '': '' @ msg2)"
proof -
  obtain st where "Status_new code msg msg2 = Some st" "st ! 4 = code_byte code" "CopyState st = st"
      "take (unat (DecodeFixed32 st)) (drop 5 st) = msg @ (if msg2 = [] then [] else lit '': '' @ msg2)"
    using Status_new_parts[OF assms] .
  then show ?thesis by (simp add: Status_ok_def Status_code_def Status_copy_def Status_ToString_def)
qed

theorem status_keeps_message_witness:
  "\<not> Status_ok (Status_new kIOError [97] [98]) \<and> Status_code (Status_new kIOError [97] [98]) = code_byte kIOError \<and>
    Status_copy (Status_new kIOError [97] [98]) = Status_new kIOError [97] [98] \<and>
    Status_ToString (Status_new kIOError [97] [98]) = code_name (code_byte kIOError) @ [97] @ lit '': '' @ [98]"
  using status_keeps_message[of "[97]" "[98]" kIOError] by simp

end
