(* ===== verification/Ldb_Write_Batch.thy ===== *)
theory Ldb_Write_Batch
  imports Ldb_Dbformat Ldb_Status
begin

text \<open>
  LevelDB, \<^verbatim>\<open>db/write_batch.cc\<close>: a batch of updates as one byte string. \<^verbatim>\<open>Iterate\<close> calls a handler for every
  update; a handler is a pair of functions on a state of its own.
\<close>

section \<open>The operations\<close>

type_synonym WriteBatch = "byte list"

definition kHeader :: nat where "kHeader = 12"

record 's Handler =
  h_Put :: "slice \<Rightarrow> slice \<Rightarrow> 's \<Rightarrow> 's"
  h_Delete :: "slice \<Rightarrow> 's \<Rightarrow> 's"

definition WriteBatch_Clear :: WriteBatch where
  "WriteBatch_Clear = replicate kHeader 0"

definition ApproximateSize :: "WriteBatch \<Rightarrow> nat" where
  "ApproximateSize b = length b"

definition WriteBatch_Count :: "WriteBatch \<Rightarrow> u32" where
  "WriteBatch_Count b = DecodeFixed32 (drop 8 b)"

definition SetCount :: "WriteBatch \<Rightarrow> u32 \<Rightarrow> WriteBatch" where
  "SetCount b n = take 8 b @ EncodeFixed32 n @ drop 12 b"

definition WriteBatch_Sequence :: "WriteBatch \<Rightarrow> SequenceNumber" where
  "WriteBatch_Sequence b = DecodeFixed64 b"

definition SetSequence :: "WriteBatch \<Rightarrow> SequenceNumber \<Rightarrow> WriteBatch" where
  "SetSequence b seq = EncodeFixed64 seq @ drop 8 b"

text \<open>The tag byte of a record.\<close>

definition tag_byte :: "ValueType \<Rightarrow> byte" where
  "tag_byte t = ucast (type_byte t)"

definition WriteBatch_Put :: "slice \<Rightarrow> slice \<Rightarrow> WriteBatch \<Rightarrow> WriteBatch" where
  "WriteBatch_Put key value b =
     (let b = SetCount b (WriteBatch_Count b + 1); b = b @ [tag_byte kTypeValue]; b = PutLengthPrefixedSlice b key
      in PutLengthPrefixedSlice b value)"

definition WriteBatch_Delete :: "slice \<Rightarrow> WriteBatch \<Rightarrow> WriteBatch" where
  "WriteBatch_Delete key b =
     (let b = SetCount b (WriteBatch_Count b + 1); b = b @ [tag_byte kTypeDeletion] in PutLengthPrefixedSlice b key)"

definition WriteBatch_Append :: "WriteBatch \<Rightarrow> WriteBatch \<Rightarrow> WriteBatch" where
  "WriteBatch_Append dst src = SetCount dst (WriteBatch_Count dst + WriteBatch_Count src) @ drop kHeader src"

text \<open>The loop of \<^verbatim>\<open>Iterate\<close>: the number of records found, or an error; and the handler's state. The source counts in an
  \<^verbatim>\<open>int\<close> and compares with the 32 bits of the header, as an \<^verbatim>\<open>int\<close> too; the words here are those 32 bits.\<close>

function iterate_loop :: "'s Handler \<Rightarrow> slice \<Rightarrow> u32 \<Rightarrow> 's \<Rightarrow> (Status + u32) \<times> 's" where
  "iterate_loop handler [] found s = (Inr found, s)"
| "iterate_loop handler (tg # input) found s =
     (if tg = tag_byte kTypeValue then
        (case GetLengthPrefixedSlice input of
           None \<Rightarrow> (Inl (Status_Corruption (lit ''bad WriteBatch Put'')), s)
         | Some (key, input') \<Rightarrow>
             (case GetLengthPrefixedSlice input' of
                None \<Rightarrow> (Inl (Status_Corruption (lit ''bad WriteBatch Put'')), s)
              | Some (value, input'') \<Rightarrow> iterate_loop handler input'' (found + 1) (h_Put handler key value s)))
      else if tg = tag_byte kTypeDeletion then
        (case GetLengthPrefixedSlice input of
           None \<Rightarrow> (Inl (Status_Corruption (lit ''bad WriteBatch Delete'')), s)
         | Some (key, input') \<Rightarrow> iterate_loop handler input' (found + 1) (h_Delete handler key s))
      else (Inl (Status_Corruption (lit ''unknown WriteBatch tag'')), s))"
  by pat_completeness auto
termination
  by (relation "measure (\<lambda>(handler, input, found, s). length input)")
     (auto dest!: GetLengthPrefixedSlice_shorter)

definition WriteBatch_Iterate :: "'s Handler \<Rightarrow> WriteBatch \<Rightarrow> 's \<Rightarrow> Status \<times> 's" where
  "WriteBatch_Iterate handler b s =
     (if length b < kHeader then (Status_Corruption (lit ''malformed WriteBatch (too small)''), s)
      else case iterate_loop handler (remove_prefix kHeader b) 0 s of
             (Inl e, s) \<Rightarrow> (e, s)
           | (Inr found, s) \<Rightarrow>
               if found \<noteq> WriteBatch_Count b then (Status_Corruption (lit ''WriteBatch has wrong count''), s)
               else (Status_OK, s))"

text \<open>
  \<^verbatim>\<open>MemTableInserter\<close>: its state is the sequence number and the table; \<open>add\<close> is \<^verbatim>\<open>MemTable::Add\<close>.
\<close>

definition MemTableInserter ::
    "(SequenceNumber \<Rightarrow> ValueType \<Rightarrow> slice \<Rightarrow> slice \<Rightarrow> 'm \<Rightarrow> 'm) \<Rightarrow> (SequenceNumber \<times> 'm) Handler" where
  "MemTableInserter add =
     \<lparr>h_Put = (\<lambda>key value (seq, mem). (seq + 1, add seq kTypeValue key value mem)),
      h_Delete = (\<lambda>key (seq, mem). (seq + 1, add seq kTypeDeletion key [] mem))\<rparr>"

definition InsertInto ::
    "(SequenceNumber \<Rightarrow> ValueType \<Rightarrow> slice \<Rightarrow> slice \<Rightarrow> 'm \<Rightarrow> 'm) \<Rightarrow> WriteBatch \<Rightarrow> 'm \<Rightarrow> Status \<times> 'm" where
  "InsertInto add b mem =
     (case WriteBatch_Iterate (MemTableInserter add) b (WriteBatch_Sequence b, mem) of
        (st, (seq, mem)) \<Rightarrow> (st, mem))"

text \<open>\<^verbatim>\<open>assert(contents.size() >= kHeader)\<close>\<close>

definition SetContents :: "slice \<Rightarrow> WriteBatch" where
  "SetContents contents = contents"

section \<open>A batch as a list of updates\<close>

datatype update = Put_op slice slice | Delete_op slice

fun update_ok :: "update \<Rightarrow> bool" where
  "update_ok (Put_op k v) \<longleftrightarrow> length k < 2 ^ 32 \<and> length v < 2 ^ 32"
| "update_ok (Delete_op k) \<longleftrightarrow> length k < 2 ^ 32"

fun update_bytes :: "update \<Rightarrow> byte list" where
  "update_bytes (Put_op k v) = tag_byte kTypeValue # PutLengthPrefixedSlice [] k @ PutLengthPrefixedSlice [] v"
| "update_bytes (Delete_op k) = tag_byte kTypeDeletion # PutLengthPrefixedSlice [] k"

fun apply_update :: "update \<Rightarrow> WriteBatch \<Rightarrow> WriteBatch" where
  "apply_update (Put_op k v) b = WriteBatch_Put k v b"
| "apply_update (Delete_op k) b = WriteBatch_Delete k b"

fun handle :: "'s Handler \<Rightarrow> update \<Rightarrow> 's \<Rightarrow> 's" where
  "handle h (Put_op k v) = h_Put h k v"
| "handle h (Delete_op k) = h_Delete h k"

text \<open>\<open>batch_of seq us\<close> is the byte form of a batch with sequence number \<open>seq\<close> and updates \<open>us\<close>.\<close>

definition batch_of :: "SequenceNumber \<Rightarrow> update list \<Rightarrow> WriteBatch" where
  "batch_of seq us = EncodeFixed64 seq @ EncodeFixed32 (word_of_nat (length us)) @ concat (map update_bytes us)"

lemma batch_of_parts:
  "WriteBatch_Count (batch_of seq us) = word_of_nat (length us)" "WriteBatch_Sequence (batch_of seq us) = seq"
  "remove_prefix kHeader (batch_of seq us) = concat (map update_bytes us)" "\<not> length (batch_of seq us) < kHeader"
  by (simp_all add: batch_of_def WriteBatch_Count_def WriteBatch_Sequence_def DecodeFixed32_Encode DecodeFixed64_Encode
      remove_prefix_def kHeader_def)

lemma batch_of_Clear: "WriteBatch_Clear = batch_of 0 []"
  by code_simp

lemma SetCount_batch_of:
  "SetCount (batch_of seq us) n = EncodeFixed64 seq @ EncodeFixed32 n @ concat (map update_bytes us)"
  by (simp add: SetCount_def batch_of_def)

lemma apply_update_batch_of: "apply_update u (batch_of seq us) = batch_of seq (us @ [u])"
proof (cases u)
  case (Put_op k v)
  have "apply_update u (batch_of seq us) =
      EncodeFixed64 seq @ EncodeFixed32 (word_of_nat (length us) + 1) @ concat (map update_bytes us) @ update_bytes u"
    using Put_op
    by (simp add: WriteBatch_Put_def Let_def SetCount_batch_of batch_of_parts PutLengthPrefixedSlice_def PutVarint32_def)
  then show ?thesis by (simp add: batch_of_def add.commute)
next
  case (Delete_op k)
  have "apply_update u (batch_of seq us) =
      EncodeFixed64 seq @ EncodeFixed32 (word_of_nat (length us) + 1) @ concat (map update_bytes us) @ update_bytes u"
    using Delete_op
    by (simp add: WriteBatch_Delete_def Let_def SetCount_batch_of batch_of_parts PutLengthPrefixedSlice_def PutVarint32_def)
  then show ?thesis by (simp add: batch_of_def add.commute)
qed

lemma fold_apply_update: "fold apply_update us (batch_of seq vs) = batch_of seq (vs @ us)"
  by (induction us arbitrary: vs) (simp_all add: apply_update_batch_of)

lemma Append_batch_of: "WriteBatch_Append (batch_of seq us) (batch_of seq' vs) = batch_of seq (us @ vs)"
proof -
  have "drop kHeader (batch_of seq' vs) = concat (map update_bytes vs)"
    using batch_of_parts(3) by (simp add: remove_prefix_def)
  then show ?thesis by (simp add: WriteBatch_Append_def SetCount_batch_of batch_of_parts) (simp add: batch_of_def)
qed

lemma SetSequence_batch_of: "SetSequence (batch_of seq us) seq' = batch_of seq' us"
  by (simp add: SetSequence_def batch_of_def)

lemma iterate_update:
  assumes "update_ok u"
  shows "iterate_loop h (update_bytes u @ rest) found s = iterate_loop h rest (found + 1) (handle h u s)"
  using assms GetLengthPrefixedSlice_Put(1)
  by (cases u) (simp_all add: tag_byte_def)

lemma iterate_updates:
  "list_all update_ok us \<Longrightarrow>
   iterate_loop h (concat (map update_bytes us)) found s = (Inr (found + word_of_nat (length us)), fold (handle h) us s)"
proof (induction us arbitrary: found s)
  case (Cons u us)
  then show ?case using iterate_update[of u h "concat (map update_bytes us)"] by (simp add: ac_simps)
qed simp

lemma Iterate_batch_of:
  "list_all update_ok us \<Longrightarrow> WriteBatch_Iterate h (batch_of seq us) s = (Status_OK, fold (handle h) us s)"
  by (simp add: WriteBatch_Iterate_def batch_of_parts iterate_updates)

text \<open>On any bytes, the handler is called for some updates, and an OK result means the count was right.\<close>

lemma iterate_loop_calls:
  "\<exists>us. snd (iterate_loop h input found s) = fold (handle h) us s \<and>
     (\<forall>n. fst (iterate_loop h input found s) = Inr n \<longrightarrow> n = found + word_of_nat (length us)) \<and>
     (\<forall>e. fst (iterate_loop h input found s) = Inl e \<longrightarrow> IsCorruption e \<and> \<not> Status_ok e)"
proof (induction h input found s rule: iterate_loop.induct)
  case (1 h found s)
  then show ?case by (intro exI[of _ "[]"]) simp
next
  case (2 h tg input found s)
  have bad: "IsCorruption (Status_Corruption m) \<and> \<not> Status_ok (Status_Corruption m)" for m
    by (simp add: Status_Corruption_def Status_new_def IsCorruption_def Status_code_def Status_ok_def Let_def nth_append)
  have more: "\<exists>us. snd r = fold (handle h) us s \<and> (\<forall>n. fst r = Inr n \<longrightarrow> n = found + word_of_nat (length us)) \<and>
      (\<forall>e. fst r = Inl e \<longrightarrow> IsCorruption e \<and> \<not> Status_ok e)"
    if "\<exists>us. snd r = fold (handle h) us (handle h u s) \<and> (\<forall>n. fst r = Inr n \<longrightarrow> n = found + 1 + word_of_nat (length us)) \<and>
      (\<forall>e. fst r = Inl e \<longrightarrow> IsCorruption e \<and> \<not> Status_ok e)" for r :: "(Status + u32) \<times> _" and u
  proof -
    from that obtain us where "snd r = fold (handle h) us (handle h u s)" "\<forall>n. fst r = Inr n \<longrightarrow> n = found + 1 + word_of_nat (length us)"
        "\<forall>e. fst r = Inl e \<longrightarrow> IsCorruption e \<and> \<not> Status_ok e" by blast
    then show ?thesis by (intro exI[of _ "u # us"]) (auto simp: ac_simps)
  qed
  consider "tg = tag_byte kTypeValue" | "tg \<noteq> tag_byte kTypeValue" "tg = tag_byte kTypeDeletion"
    | "tg \<noteq> tag_byte kTypeValue" "tg \<noteq> tag_byte kTypeDeletion" by blast
  then show ?case
  proof cases
    case 1
    show ?thesis
    proof (cases "GetLengthPrefixedSlice input")
      case None
      then show ?thesis using 1 bad by (intro exI[of _ "[]"]) simp
    next
      case (Some p)
      obtain k i1 where p: "p = (k, i1)" by (cases p)
      show ?thesis
      proof (cases "GetLengthPrefixedSlice i1")
        case None
        then show ?thesis using 1 Some p bad by (intro exI[of _ "[]"]) simp
      next
        case S: (Some q)
        obtain v i2 where q: "q = (v, i2)" by (cases q)
        show ?thesis using "2.IH"(1)[OF 1 Some p[symmetric] S q[symmetric]] more[of _ "Put_op k v"] 1 Some S p q by simp
      qed
    qed
  next
    case 2
    show ?thesis
    proof (cases "GetLengthPrefixedSlice input")
      case None
      then show ?thesis using 2 bad by (intro exI[of _ "[]"]) simp
    next
      case (Some p)
      obtain k i1 where p: "p = (k, i1)" by (cases p)
      show ?thesis using "2.IH"(2)[OF 2 Some p[symmetric]] more[of _ "Delete_op k"] 2 Some p by simp
    qed
  next
    case 3
    then show ?thesis using bad by (intro exI[of _ "[]"]) simp
  qed
qed

section \<open>Properties\<close>

text \<open>C30: iterating over a batch replays its updates, in the order they were made, and succeeds.\<close>

theorem batch_replays_updates:
  assumes "list_all update_ok us"
  shows "WriteBatch_Iterate h (fold apply_update us WriteBatch_Clear) s = (Status_OK, fold (handle h) us s)"
  using Iterate_batch_of[OF assms] fold_apply_update[of us 0 "[]"] by (simp add: batch_of_Clear)

theorem batch_replays_updates_witness:
  "WriteBatch_Iterate \<lparr>h_Put = (\<lambda>k v l. (k, Some v) # l), h_Delete = (\<lambda>k l. (k, None) # l)\<rparr>
     (fold apply_update [Put_op [1] [2], Delete_op [1]] WriteBatch_Clear) [] = (Status_OK, [([1], None), ([1], Some [2])])"
  using batch_replays_updates[of "[Put_op [1] [2], Delete_op [1]]"
      "\<lparr>h_Put = (\<lambda>k v l. (k, Some v) # l), h_Delete = (\<lambda>k l. (k, None) # l)\<rparr>" "[]"] by simp

text \<open>Appending a batch to another gives the batch of all their updates, under the sequence number of the first.\<close>

theorem batch_append:
  "WriteBatch_Append (fold apply_update us WriteBatch_Clear) (fold apply_update vs WriteBatch_Clear) =
     fold apply_update (us @ vs) WriteBatch_Clear"
  using fold_apply_update[of us 0 "[]"] fold_apply_update[of vs 0 "[]"] fold_apply_update[of "us @ vs" 0 "[]"]
  by (simp add: batch_of_Clear Append_batch_of)

text \<open>C31: whatever bytes a batch holds, \<^verbatim>\<open>Iterate\<close> ends; it has called the handler for a list of updates, and it
  returns OK only if the header counts exactly those, and a corruption otherwise.\<close>

theorem batch_iterate_checks_count:
  "\<exists>us st. WriteBatch_Iterate h b s = (st, fold (handle h) us s) \<and>
     (Status_ok st \<and> WriteBatch_Count b = word_of_nat (length us) \<or> \<not> Status_ok st \<and> IsCorruption st)"
proof -
  have bad: "IsCorruption (Status_Corruption m) \<and> \<not> Status_ok (Status_Corruption m)" for m
    by (simp add: Status_Corruption_def Status_new_def IsCorruption_def Status_code_def Status_ok_def Let_def nth_append)
  obtain us where us: "snd (iterate_loop h (remove_prefix kHeader b) 0 s) = fold (handle h) us s"
      "\<And>n. fst (iterate_loop h (remove_prefix kHeader b) 0 s) = Inr n \<Longrightarrow> n = word_of_nat (length us)"
      "\<And>e. fst (iterate_loop h (remove_prefix kHeader b) 0 s) = Inl e \<Longrightarrow> IsCorruption e \<and> \<not> Status_ok e"
    using iterate_loop_calls[of h "remove_prefix kHeader b" 0 s] by auto
  obtain r s' where r: "iterate_loop h (remove_prefix kHeader b) 0 s = (r, s')" by (cases "iterate_loop h (remove_prefix kHeader b) 0 s")
  show ?thesis
  proof (cases "length b < kHeader")
    case True
    then show ?thesis using bad by (intro exI[of _ "[]"]) (auto simp: WriteBatch_Iterate_def)
  next
    case False
    then show ?thesis
      using us r bad by (intro exI[of _ us]) (cases r, auto simp: WriteBatch_Iterate_def Status_OK_def Status_ok_def)
  qed
qed

end
