(* ===== verification/Ldb_Memtable.thy ===== *)
theory Ldb_Memtable
  imports Ldb_Skiplist_Laws Ldb_Write_Batch
begin

text \<open>
  LevelDB, \<^verbatim>\<open>db/memtable.cc\<close>: the table of recent writes, a skip list of encoded entries. A pointer into the
  arena is the bytes from there to the end of the allocation. \<open>None\<close> is a read through the null
  pointer that a damaged length would give (``we assume p is not corrupted''), or a search that
  does not return; on tables built by \<^verbatim>\<open>Add\<close> neither happens.
\<close>

section \<open>The operations\<close>

text \<open>\<^verbatim>\<open>GetVarint32Ptr(p, p + 5, &len)\<close>\<close>

definition varint32_at :: "byte list \<Rightarrow> (u32 \<times> byte list) option" where
  "varint32_at p =
     (case GetVarint32Ptr (take 5 p) of
        None \<Rightarrow> None
      | Some (len, q) \<Rightarrow> Some (len, drop (length (take 5 p) - length q) p))"

definition prefixed_slice_at :: "byte list \<Rightarrow> slice option" where
  "prefixed_slice_at p = (case varint32_at p of None \<Rightarrow> None | Some (len, p) \<Rightarrow> Some (take (unat len) p))"

record MemTable =
  refs :: int
  table :: "byte list SkipList"

text \<open>The key of the head node is the null pointer.\<close>

definition MemTable_new :: MemTable where
  "MemTable_new = \<lparr>refs = 0, table = SkipList_new []\<rparr>"

definition MemTable_Ref :: "MemTable \<Rightarrow> MemTable" where
  "MemTable_Ref mem = mem\<lparr>refs := refs mem + 1\<rparr>"

text \<open>\<open>None\<close>: the table deletes itself.\<close>

definition MemTable_Unref :: "MemTable \<Rightarrow> MemTable option" where
  "MemTable_Unref mem = (let mem = mem\<lparr>refs := refs mem - 1\<rparr> in if refs mem \<le> 0 then None else Some mem)"

definition MemTable_KeyComparator :: "(slice \<Rightarrow> slice \<Rightarrow> int) \<Rightarrow> byte list \<Rightarrow> byte list \<Rightarrow> int" where
  "MemTable_KeyComparator ucmp aptr bptr =
     internal_Compare ucmp (the (prefixed_slice_at aptr)) (the (prefixed_slice_at bptr))"

definition EncodeKey :: "slice \<Rightarrow> byte list" where
  "EncodeKey target = PutVarint32 [] (word_of_nat (length target)) @ target"

definition MemTable_Add ::
    "(slice \<Rightarrow> slice \<Rightarrow> int) \<Rightarrow> SequenceNumber \<Rightarrow> ValueType \<Rightarrow> slice \<Rightarrow> slice \<Rightarrow> MemTable \<Rightarrow> MemTable option" where
  "MemTable_Add ucmp s ty key value mem =
     (let key_size = length key; val_size = length value; internal_key_size = key_size + 8;
          buf = EncodeVarint32 (word_of_nat internal_key_size) @ key @ EncodeFixed64 (push_bit 8 s OR type_byte ty) @
                EncodeVarint32 (word_of_nat val_size) @ value
      in case SkipList_Insert (MemTable_KeyComparator ucmp) buf (table mem) of
           None \<Rightarrow> None
         | Some t \<Rightarrow> Some (mem\<lparr>table := t\<rparr>))"

text \<open>The result of \<^verbatim>\<open>Get\<close>, and what it leaves in \<^verbatim>\<open>*value\<close> and \<^verbatim>\<open>*s\<close>.\<close>

definition MemTable_Get ::
    "(slice \<Rightarrow> slice \<Rightarrow> int) \<Rightarrow> LookupKey \<Rightarrow> MemTable \<Rightarrow> slice \<Rightarrow> Status \<Rightarrow> (bool \<times> slice \<times> Status) option" where
  "MemTable_Get ucmp key mem value s =
     (case Iter_Seek (MemTable_KeyComparator ucmp) (table mem) (memtable_key key) of
        None \<Rightarrow> None
      | Some None \<Rightarrow> Some (False, value, s)
      | Some (Some x) \<Rightarrow>
          (case varint32_at (key_of (table mem) x) of
             None \<Rightarrow> None
           | Some (key_length, key_ptr) \<Rightarrow>
               if ucmp (take (unat (key_length - 8)) key_ptr) (lk_user_key key) = 0 then
                 let ty = DecodeFixed64 (drop (unat key_length - 8) key_ptr) AND 0xff in
                 if ty = type_byte kTypeValue then
                   map_option (\<lambda>v. (True, v, s)) (prefixed_slice_at (drop (unat key_length) key_ptr))
                 else if ty = type_byte kTypeDeletion then Some (True, value, Status_NotFound [])
                 else Some (False, value, s)
               else Some (False, value, s)))"

text \<open>The iterator over the table; its position is a node.\<close>

definition MemTableIterator_Seek :: "(slice \<Rightarrow> slice \<Rightarrow> int) \<Rightarrow> MemTable \<Rightarrow> slice \<Rightarrow> nat option option" where
  "MemTableIterator_Seek ucmp mem k = Iter_Seek (MemTable_KeyComparator ucmp) (table mem) (EncodeKey k)"

definition MemTableIterator_key :: "MemTable \<Rightarrow> nat \<Rightarrow> slice option" where
  "MemTableIterator_key mem x = prefixed_slice_at (key_of (table mem) x)"

definition MemTableIterator_value :: "MemTable \<Rightarrow> nat \<Rightarrow> slice option" where
  "MemTableIterator_value mem x =
     (case varint32_at (key_of (table mem) x) of
        None \<Rightarrow> None
      | Some (len, p) \<Rightarrow> prefixed_slice_at (drop (unat len) p))"

section \<open>Entries\<close>

type_synonym entry = "ParsedInternalKey \<times> slice"

definition entry_bytes :: "entry \<Rightarrow> byte list" where
  "entry_bytes e = PutLengthPrefixedSlice [] (AppendInternalKey [] (fst e)) @ PutLengthPrefixedSlice [] (snd e)"

definition entry_ok :: "(slice \<Rightarrow> bool) \<Rightarrow> entry \<Rightarrow> bool" where
  "entry_ok uvalid e \<longleftrightarrow> uvalid (user_key (fst e)) \<and> sequence (fst e) \<le> kMaxSequenceNumber \<and>
     length (user_key (fst e)) + 8 < 2 ^ 32 \<and> length (snd e) < 2 ^ 32"

definition mem_valid :: "(slice \<Rightarrow> bool) \<Rightarrow> byte list \<Rightarrow> bool" where
  "mem_valid uvalid d \<longleftrightarrow>
     (\<exists>ik rest. d = PutLengthPrefixedSlice [] ik @ rest \<and> length ik < 2 ^ 32 \<and> internal_valid uvalid ik)"

lemma varint32_at_put:
  assumes "length s < 2 ^ 32"
  shows "varint32_at (PutLengthPrefixedSlice [] s @ rest) = Some (word_of_nat (length s), s @ rest)"
proof -
  let ?l = "leb128 (length s)"
  have u: "unat (word_of_nat (length s) :: u32) = length s" using assms by (simp add: unat_word_of_nat)
  have len: "length ?l \<le> 5" using leb128_length[of 5 "length s"] assms by simp
  have p: "PutLengthPrefixedSlice [] s @ rest = ?l @ s @ rest"
    by (simp add: PutLengthPrefixedSlice_def PutVarint32_def EncodeVarint32_leb128 u)
  have "GetVarint32Ptr (?l @ take (5 - length ?l) (s @ rest)) = Some (word_of_nat (length s), take (5 - length ?l) (s @ rest))"
    using GetVarint32Ptr_leb128[of "word_of_nat (length s)"] by (simp add: u)
  moreover have "take 5 (?l @ s @ rest) = ?l @ take (5 - length ?l) (s @ rest)" using len by simp
  ultimately show ?thesis unfolding p varint32_at_def by simp
qed

lemma prefixed_slice_at_put:
  "length s < 2 ^ 32 \<Longrightarrow> prefixed_slice_at (PutLengthPrefixedSlice [] s @ rest) = Some s"
  by (simp add: prefixed_slice_at_def varint32_at_put unat_word_of_nat)

lemma entry_key_length: "entry_ok uvalid e \<Longrightarrow> length (AppendInternalKey [] (fst e)) < 2 ^ 32"
  by (simp add: AppendInternalKey_parts(3) InternalKeyEncodingLength_def entry_ok_def)

lemma entry_slice: "entry_ok uvalid e \<Longrightarrow> prefixed_slice_at (entry_bytes e) = Some (AppendInternalKey [] (fst e))"
  unfolding entry_bytes_def by (rule prefixed_slice_at_put) (rule entry_key_length)

lemma entry_valid: "entry_ok uvalid e \<Longrightarrow> mem_valid uvalid (entry_bytes e)"
  unfolding mem_valid_def entry_bytes_def
  by (rule exI[of _ "AppendInternalKey [] (fst e)"], rule exI[of _ "PutLengthPrefixedSlice [] (snd e)"])
     (auto simp: entry_key_length[unfolded] AppendInternalKey_parts InternalKeyEncodingLength_def entry_ok_def)

lemma mem_valid_slice: "mem_valid uvalid d \<Longrightarrow> \<exists>ik. prefixed_slice_at d = Some ik \<and> internal_valid uvalid ik"
  by (auto simp: mem_valid_def prefixed_slice_at_put)

lemma Add_buffer:
  "EncodeVarint32 (word_of_nat (length (user_key k) + 8)) @ user_key k @
     EncodeFixed64 (push_bit 8 (sequence k) OR type_byte (key_type k)) @ EncodeVarint32 (word_of_nat (length v)) @ v =
   entry_bytes (k, v)"
  using AppendInternalKey_parts(3)[of k]
  by (simp add: entry_bytes_def PutLengthPrefixedSlice_def PutVarint32_def InternalKeyEncodingLength_def)
     (simp add: AppendInternalKey_def PutFixed64_def PackSequenceAndType_def)

text \<open>\<open>holds ucmp mem es\<close>: the table holds the entries \<open>es\<close>, in this order.\<close>

definition holds :: "(slice \<Rightarrow> bool) \<Rightarrow> (slice \<Rightarrow> slice \<Rightarrow> int) \<Rightarrow> MemTable \<Rightarrow> entry list \<Rightarrow> bool" where
  "holds uvalid ucmp mem es \<longleftrightarrow>
     (\<exists>ns. skiplist_inv (mem_valid uvalid) (MemTable_KeyComparator ucmp) (table mem) ns \<and>
        skiplist_keys (table mem) ns = map entry_bytes es) \<and> list_all (entry_ok uvalid) es"

abbreviation entry_cmp :: "(slice \<Rightarrow> slice \<Rightarrow> int) \<Rightarrow> entry \<Rightarrow> entry \<Rightarrow> int" where
  "entry_cmp ucmp d e \<equiv> internal_Compare ucmp (AppendInternalKey [] (fst d)) (AppendInternalKey [] (fst e))"

lemma holds_new: "holds uvalid ucmp MemTable_new []"
  using skiplist_inv_new by (auto simp: holds_def MemTable_new_def skiplist_keys_def)

lemma entry_compare:
  "entry_ok uvalid d \<Longrightarrow> entry_ok uvalid e \<Longrightarrow> MemTable_KeyComparator ucmp (entry_bytes d) (entry_bytes e) = entry_cmp ucmp d e"
  by (simp add: MemTable_KeyComparator_def entry_slice)

lemma AppendInternalKey_inj:
  assumes "sequence k \<le> kMaxSequenceNumber" "sequence l \<le> kMaxSequenceNumber"
  shows "AppendInternalKey [] k = AppendInternalKey [] l \<longleftrightarrow> k = l"
  using parse_append[OF assms(1)] parse_append[OF assms(2)] by (metis option.inject)

lemma takeWhile_map_cong:
  "(\<And>x. x \<in> set xs \<Longrightarrow> P (f x) = Q x) \<Longrightarrow> takeWhile P (map f xs) = map f (takeWhile Q xs)"
  "(\<And>x. x \<in> set xs \<Longrightarrow> P (f x) = Q x) \<Longrightarrow> dropWhile P (map f xs) = map f (dropWhile Q xs)"
  by (induction xs) auto

text \<open>What a reader at snapshot \<open>s\<close> may see of user key \<open>u\<close>.\<close>

definition visible :: "slice \<Rightarrow> SequenceNumber \<Rightarrow> entry \<Rightarrow> bool" where
  "visible u s e \<longleftrightarrow> user_key (fst e) = u \<and> sequence (fst e) \<le> s"

text \<open>The reader's answer: nothing, the value, or a deletion.\<close>

definition answer :: "slice \<Rightarrow> Status \<Rightarrow> entry option \<Rightarrow> bool \<times> slice \<times> Status" where
  "answer value st e =
     (case e of
        None \<Rightarrow> (False, value, st)
      | Some (k, v) \<Rightarrow> (case key_type k of kTypeValue \<Rightarrow> (True, v, st) | kTypeDeletion \<Rightarrow> (True, value, Status_NotFound [])))"

context comparator
begin

lemmas internal_key_order_law = comparator.axioms(1)[OF internal_comparator]

lemma memtable_key_order: "key_order (mem_valid valid) (MemTable_KeyComparator Compare)"
proof
  fix a b c
  assume a: "mem_valid valid a" and b: "mem_valid valid b"
  obtain i j where i: "prefixed_slice_at a = Some i" "internal_valid valid i" and j: "prefixed_slice_at b = Some j" "internal_valid valid j"
    using mem_valid_slice[OF a] mem_valid_slice[OF b] by blast
  show "MemTable_KeyComparator Compare a b < 0 \<longleftrightarrow> 0 < MemTable_KeyComparator Compare b a"
    unfolding MemTable_KeyComparator_def i(1) j(1) option.sel
    by (rule key_order.Compare_swap[OF internal_key_order_law i(2) j(2)])
  assume c: "mem_valid valid c" and le: "MemTable_KeyComparator Compare a b \<le> 0" "MemTable_KeyComparator Compare b c \<le> 0"
  obtain k where k: "prefixed_slice_at c = Some k" "internal_valid valid k" using mem_valid_slice[OF c] by blast
  show "MemTable_KeyComparator Compare a c \<le> 0"
    using le unfolding MemTable_KeyComparator_def i(1) j(1) k(1) option.sel
    by (rule key_order.Compare_le_trans[OF internal_key_order_law i(2) j(2) k(2)])
qed

lemma entry_internal_valid: "entry_ok valid e \<Longrightarrow> internal_valid valid (AppendInternalKey [] (fst e))"
  by (simp add: AppendInternalKey_parts InternalKeyEncodingLength_def entry_ok_def)

lemma entry_cmp_zero:
  assumes "entry_ok valid d" "entry_ok valid e"
  shows "entry_cmp Compare d e = 0 \<longleftrightarrow> fst d = fst e"
  using internal_zero[OF entry_internal_valid[OF assms(1)] entry_internal_valid[OF assms(2)]] assms
  by (simp add: AppendInternalKey_inj entry_ok_def)

lemma entry_cmp_less:
  assumes "entry_ok valid d" "entry_ok valid e"
  shows "entry_cmp Compare d e < 0 \<longleftrightarrow>
    Compare (user_key (fst d)) (user_key (fst e)) < 0 \<or>
    user_key (fst d) = user_key (fst e) \<and> (sequence (fst e) < sequence (fst d) \<or>
      sequence (fst d) = sequence (fst e) \<and> key_type (fst d) = kTypeValue \<and> key_type (fst e) = kTypeDeletion)"
  using internal_less[OF entry_internal_valid[OF assms(1)] entry_internal_valid[OF assms(2)]] assms
  by (auto simp: AppendInternalKey_parts pack_less entry_ok_def)

text \<open>The entries are in the order of their internal keys.\<close>

lemma holds_sorted:
  assumes "holds valid Compare mem es"
  shows "sorted_wrt (\<lambda>d e. entry_cmp Compare d e < 0) es"
proof -
  obtain ns where inv: "skiplist_inv (mem_valid valid) (MemTable_KeyComparator Compare) (table mem) ns"
    and keys: "skiplist_keys (table mem) ns = map entry_bytes es" and ok: "list_all (entry_ok valid) es"
    using assms by (auto simp: holds_def)
  have "sorted_wrt (\<lambda>a b. MemTable_KeyComparator Compare a b < 0) (map (key_of (table mem)) ns)"
    using skiplist_invD(10)[OF inv] by (simp add: sorted_wrt_map)
  then have "sorted_wrt (\<lambda>d e. MemTable_KeyComparator Compare (entry_bytes d) (entry_bytes e) < 0) es"
    unfolding keys[unfolded skiplist_keys_def] sorted_wrt_map .
  then show ?thesis
  proof (rule sorted_wrt_mono_rel[rotated])
    fix d e assume "d \<in> set es" "e \<in> set es" "MemTable_KeyComparator Compare (entry_bytes d) (entry_bytes e) < 0"
    then show "entry_cmp Compare d e < 0" using ok entry_compare[of valid d e Compare] by (simp add: list_all_iff)
  qed
qed

lemma Add_correct:
  assumes mem: "holds valid Compare mem es" and ok: "entry_ok valid (k, v)" and new: "k \<notin> fst ` set es"
  obtains mem' where "MemTable_Add Compare (sequence k) (key_type k) (user_key k) v mem = Some mem'"
    "holds valid Compare mem' (takeWhile (\<lambda>e. entry_cmp Compare e (k, v) < 0) es @ (k, v) # dropWhile (\<lambda>e. entry_cmp Compare e (k, v) < 0) es)"
    "refs mem' = refs mem"
proof -
  let ?c = "MemTable_KeyComparator Compare" and ?b = "entry_bytes (k, v)"
  obtain ns where inv: "skiplist_inv (mem_valid valid) ?c (table mem) ns"
    and keys: "skiplist_keys (table mem) ns = map entry_bytes es" and oks: "\<And>e. e \<in> set es \<Longrightarrow> entry_ok valid e"
    using mem by (auto simp: holds_def list_all_iff)
  have "?c (key_of (table mem) i) ?b \<noteq> 0" if "i \<in> set ns" for i
  proof -
    have "key_of (table mem) i \<in> set (map entry_bytes es)" using that keys[symmetric] by (simp add: skiplist_keys_def)
    then obtain e where e: "e \<in> set es" "key_of (table mem) i = entry_bytes e" by auto
    then have "fst e \<noteq> k" using new by auto
    then show ?thesis using e oks ok entry_cmp_zero[of e "(k, v)"] by (simp add: entry_compare[of valid])
  qed
  then obtain t where t: "SkipList_Insert ?c ?b (table mem) = Some t"
      "skiplist_inv (mem_valid valid) ?c t (before ?c (table mem) ?b ns @ length (nodes (table mem)) # from_key ?c (table mem) ?b ns)"
      "key_of t (length (nodes (table mem))) = ?b" "\<And>i. i \<in> set ns \<Longrightarrow> key_of t i = key_of (table mem) i"
    using key_order.Insert_correct[OF memtable_key_order inv entry_valid[OF ok]] by blast
  have "skiplist_keys t (before ?c (table mem) ?b ns @ length (nodes (table mem)) # from_key ?c (table mem) ?b ns) =
      map entry_bytes (takeWhile (\<lambda>e. entry_cmp Compare e (k, v) < 0) es @ (k, v) # dropWhile (\<lambda>e. entry_cmp Compare e (k, v) < 0) es)"
    using oks ok takeWhile_map_cong[of es "\<lambda>d. ?c d ?b < 0" entry_bytes "\<lambda>e. entry_cmp Compare e (k, v) < 0"]
      key_order.Insert_keys[OF memtable_key_order t(4,3)] keys
    by (simp add: entry_compare[of valid])
  moreover have "MemTable_Add Compare (sequence k) (key_type k) (user_key k) v mem = Some (mem\<lparr>table := t\<rparr>)"
    unfolding MemTable_Add_def Let_def Add_buffer by (simp add: t(1))
  moreover have "list_all (entry_ok valid) (takeWhile (\<lambda>e. entry_cmp Compare e (k, v) < 0) es @ (k, v) # dropWhile (\<lambda>e. entry_cmp Compare e (k, v) < 0) es)"
    using oks ok by (auto simp: list_all_iff dest: set_takeWhileD set_dropWhileD)
  ultimately show ?thesis using t(2) by (intro that[of "mem\<lparr>table := t\<rparr>"]) (auto simp: holds_def)
qed

lemma Seek_finds:
  assumes es: "sorted_wrt (\<lambda>d e. entry_cmp Compare d e < 0) es" "\<And>e. e \<in> set es \<Longrightarrow> entry_ok valid e"
    and l: "entry_ok valid (\<lparr>user_key = u, sequence = s, key_type = kValueTypeForSeek\<rparr>, x)" (is "entry_ok valid ?l")
  shows "find (visible u s) es =
    (case dropWhile (\<lambda>e. entry_cmp Compare e ?l < 0) es of
       [] \<Rightarrow> None
     | e # _ \<Rightarrow> if user_key (fst e) = u then Some e else None)"
  using es
proof (induction es)
  case (Cons e es)
  have e: "entry_ok valid e" using Cons.prems by simp
  have v: "valid (user_key (fst e))" "valid u" using e l by (simp_all add: entry_ok_def)
  have less: "entry_cmp Compare e ?l < 0 \<longleftrightarrow> Compare (user_key (fst e)) u < 0 \<or> user_key (fst e) = u \<and> s < sequence (fst e)"
    using entry_cmp_less[OF e l] by (auto simp: kValueTypeForSeek_def)
  show ?case
  proof (cases "entry_cmp Compare e ?l < 0")
    case True
    then have "\<not> visible u s e" using less Compare_refl[of u] v by (auto simp: visible_def)
    moreover have "find (visible u s) es =
        (case dropWhile (\<lambda>e. entry_cmp Compare e ?l < 0) es of [] \<Rightarrow> None | e # _ \<Rightarrow> if user_key (fst e) = u then Some e else None)"
      using Cons by simp
    ultimately show ?thesis using True by simp
  next
    case False
    have "find (visible u s) es = None" if ne: "user_key (fst e) \<noteq> u"
    proof -
      have "0 < Compare (user_key (fst e)) u" using False less ne v Compare_eq[of "user_key (fst e)" u] by linarith
      then have u: "Compare u (user_key (fst e)) < 0" using Compare_swap v by blast
      have "user_key (fst d) \<noteq> u" if d: "d \<in> set es" for d
      proof -
        have "entry_cmp Compare e d < 0" "entry_ok valid d" using Cons.prems d by simp_all
        then have "Compare (user_key (fst e)) (user_key (fst d)) \<le> 0" "valid (user_key (fst d))"
          using entry_cmp_less[OF e, of d] Compare_refl[of "user_key (fst d)"] by (auto simp: entry_ok_def)
        then show ?thesis using Compare_less_le_trans[OF v(2,1) _ u] Compare_refl[OF v(2)] by fastforce
      qed
      then show ?thesis unfolding find_None_iff visible_def by blast
    qed
    then show ?thesis using False less by (auto simp: visible_def[of u s e] not_less)
  qed
qed simp

lemma Get_entry:
  assumes "entry_ok valid e"
  shows "varint32_at (entry_bytes e) = Some (word_of_nat (length (user_key (fst e)) + 8),
      user_key (fst e) @ EncodeFixed64 (PackSequenceAndType (sequence (fst e)) (key_type (fst e))) @ PutLengthPrefixedSlice [] (snd e))"
  using varint32_at_put[OF entry_key_length[OF assms], of "PutLengthPrefixedSlice [] (snd e)"]
  by (simp add: entry_bytes_def AppendInternalKey_parts InternalKeyEncodingLength_def) (simp add: AppendInternalKey_def PutFixed64_def)

lemma Get_found:
  assumes e: "entry_ok valid e" and x: "Iter_Seek (MemTable_KeyComparator Compare) (table mem) (memtable_key lk) = Some (Some x)"
    "key_of (table mem) x = entry_bytes e" and u: "valid (lk_user_key lk)"
  shows "MemTable_Get Compare lk mem value st = Some (answer value st (if user_key (fst e) = lk_user_key lk then Some e else None))"
proof -
  let ?u = "user_key (fst e)" and ?p = "PackSequenceAndType (sequence (fst e)) (key_type (fst e))"
  have lens: "length ?u + 8 < 2 ^ 32" "length (snd e) < 2 ^ 32" "valid ?u" using e by (simp_all add: entry_ok_def)
  have n: "unat (word_of_nat (length ?u + 8) :: u32) = length ?u + 8"
    using lens(1) by (intro unat_word_of_nat) simp
  have n8: "word_of_nat (length ?u + 8) - 8 = (word_of_nat (length ?u) :: u32)" by simp
  have m: "unat (word_of_nat (length ?u) :: u32) = length ?u" using lens(1) by (simp add: unat_word_of_nat)
  show ?thesis
    unfolding MemTable_Get_def x option.case Get_entry[OF e] prod.case n n8 m
    using Compare_eq[OF lens(3) u] prefixed_slice_at_put[OF lens(2), of "[]"] DecodeFixed64_Encode[of ?p]
    by (cases "key_type (fst e)") (auto simp: answer_def pack_type_masked Let_def case_prod_beta)
qed

lemma Get_correct:
  assumes mem: "holds valid Compare mem es" and u: "valid u" "length u + 8 < 2 ^ 32" and s: "s \<le> kMaxSequenceNumber"
  shows "MemTable_Get Compare (LookupKey_new u s) mem value st = Some (answer value st (find (visible u s) es))"
proof -
  let ?c = "MemTable_KeyComparator Compare" and ?k = "\<lparr>user_key = u, sequence = s, key_type = kValueTypeForSeek\<rparr>"
    and ?key = "memtable_key (LookupKey_new u s)"
  obtain ns where inv: "skiplist_inv (mem_valid valid) ?c (table mem) ns"
    and keys: "skiplist_keys (table mem) ns = map entry_bytes es" and oks: "\<And>e. e \<in> set es \<Longrightarrow> entry_ok valid e"
    using mem by (auto simp: holds_def list_all_iff)
  have l: "entry_ok valid (?k, [])" using u s by (simp add: entry_ok_def)
  have key: "?key = PutLengthPrefixedSlice [] (AppendInternalKey [] ?k)"
    by (simp add: LookupKey_array PutLengthPrefixedSlice_def PutVarint32_def AppendInternalKey_parts InternalKeyEncodingLength_def)
  have slice: "prefixed_slice_at ?key = Some (AppendInternalKey [] ?k)"
    using prefixed_slice_at_put[OF entry_key_length[OF l], of "[]"] key by simp
  have v: "mem_valid valid ?key"
    unfolding mem_valid_def using key entry_key_length[OF l] entry_internal_valid[OF l] by (metis append_Nil2 fst_conv)
  have cmp: "?c (entry_bytes e) ?key = entry_cmp Compare e (?k, [])" if "e \<in> set es" for e
    using entry_slice[OF oks[OF that]] slice by (simp add: MemTable_KeyComparator_def)
  let ?D = "dropWhile (\<lambda>e. entry_cmp Compare e (?k, []) < 0) es"
  have D: "map (key_of (table mem)) (from_key ?c (table mem) ?key ns) = map entry_bytes ?D"
    unfolding key_order.from_key_keys[OF memtable_key_order] keys
    by (rule takeWhile_map_cong(2)) (simp add: cmp)
  have seek: "Iter_Seek ?c (table mem) ?key = Some (first (from_key ?c (table mem) ?key ns))"
    by (rule key_order.Iter_Seek_correct[OF memtable_key_order inv v])
  have f: "find (visible u s) es = (case ?D of [] \<Rightarrow> None | e # _ \<Rightarrow> if user_key (fst e) = u then Some e else None)"
    by (rule Seek_finds[OF holds_sorted[OF mem] oks l])
  show ?thesis
  proof (cases "from_key ?c (table mem) ?key ns")
    case Nil
    then have "?D = []" using D by (metis Nil_is_map_conv)
    then have "find (visible u s) es = None" unfolding f by (simp only: list.case)
    then show ?thesis using Nil seek by (simp add: MemTable_Get_def answer_def)
  next
    case (Cons x xs)
    then obtain e es' where e: "?D = e # es'" "key_of (table mem) x = entry_bytes e" using D by auto
    have "e \<in> set es" using e(1) by (metis list.set_intros(1) set_dropWhileD)
    then have "MemTable_Get Compare (LookupKey_new u s) mem value st = Some (answer value st (if user_key (fst e) = u then Some e else None))"
      using Get_found[OF oks _ e(2), of "LookupKey_new u s"] seek Cons u(1) by (simp add: LookupKey_array(3))
    then show ?thesis unfolding f e(1) by simp
  qed
qed

text \<open>The first visible entry is the newest one.\<close>

lemma find_first:
  assumes mem: "holds valid Compare mem es" and e: "e \<in> set es" "visible u s e"
    and newest: "\<And>d. d \<in> set es \<Longrightarrow> visible u s d \<Longrightarrow> \<not> entry_cmp Compare d e < 0"
  shows "find (visible u s) es = Some e"
proof -
  obtain us vs where es: "es = us @ e # vs" using e(1) by (meson split_list)
  have "\<not> visible u s d" if d: "d \<in> set us" for d
    using newest[of d] holds_sorted[OF mem] d by (auto simp: es sorted_wrt_append)
  then show ?thesis using e(2) unfolding es by (induction us) auto
qed

lemma find_firstD:
  assumes mem: "holds valid Compare mem es" and f: "find (visible u s) es = Some e" and d: "d \<in> set es" "visible u s d"
  shows "\<not> entry_cmp Compare d e < 0"
proof
  assume less: "entry_cmp Compare d e < 0"
  have ok: "entry_ok valid d" "entry_ok valid e"
    using mem f d by (auto simp: holds_def list_all_iff find_Some_iff)
  obtain i where i: "i < length es" "e = es ! i" "\<And>j. j < i \<Longrightarrow> \<not> visible u s (es ! j)"
    using f by (auto simp: find_Some_iff)
  obtain j where j: "j < length es" "d = es ! j" using d(1) by (metis in_set_conv_nth)
  have "i \<le> j" using i(3)[of j] d(2) j(2) by fastforce
  moreover have "i \<noteq> j" using less entry_cmp_zero[OF ok] i(2) j(2) by auto
  ultimately have "entry_cmp Compare e d < 0" using holds_sorted[OF mem] i j by (simp add: sorted_wrt_iff_nth_less)
  then show False
    using less key_order.Compare_swap[OF internal_key_order_law entry_internal_valid[OF ok(1)] entry_internal_valid[OF ok(2)]]
    by simp
qed

lemma find_newest:
  assumes mem: "holds valid Compare mem es" and e: "e \<in> set es" "visible u s e"
    and newest: "\<And>d. d \<in> set es \<Longrightarrow> visible u s d \<Longrightarrow> d = e \<or> sequence (fst d) < sequence (fst e)"
  shows "find (visible u s) es = Some e"
proof (rule find_first[OF mem e])
  fix d assume d: "d \<in> set es" "visible u s d"
  have ok: "entry_ok valid d" "entry_ok valid e" using mem d e by (simp_all add: holds_def list_all_iff)
  have u: "user_key (fst d) = u" "user_key (fst e) = u" using d e by (simp_all add: visible_def)
  have "Compare u u = 0" using ok(1) u(1) by (intro Compare_refl) (simp add: entry_ok_def)
  then show "\<not> entry_cmp Compare d e < 0"
    using newest[OF d] entry_cmp_less[OF ok] entry_cmp_zero[OF ok] by (auto simp: u)
qed

text \<open>A reader's answer depends only on the entries it may see.\<close>

lemma find_same:
  assumes mem: "holds valid Compare mem es" "holds valid Compare mem' es'"
    and same: "\<And>e. visible u s e \<Longrightarrow> e \<in> set es \<longleftrightarrow> e \<in> set es'"
  shows "find (visible u s) es' = find (visible u s) es"
proof (cases "find (visible u s) es")
  case None
  then have "find (visible u s) es' = None" using same unfolding find_None_iff by blast
  then show ?thesis using None by simp
next
  case (Some e)
  then have e: "e \<in> set es" "visible u s e" by (auto simp: find_Some_iff)
  have "find (visible u s) es' = Some e"
    using find_firstD[OF mem(1) Some] same e by (intro find_first[OF mem(2)]) auto
  then show ?thesis using Some by simp
qed

lemma holds_new_entry:
  assumes "holds valid Compare mem es" "entry_ok valid (k, v)" "k \<notin> fst ` set es"
  obtains mem' es' where "MemTable_Add Compare (sequence k) (key_type k) (user_key k) v mem = Some mem'"
    "holds valid Compare mem' es'" "set es' = insert (k, v) (set es)"
proof -
  obtain mem' where "MemTable_Add Compare (sequence k) (key_type k) (user_key k) v mem = Some mem'"
    "holds valid Compare mem' (takeWhile (\<lambda>e. entry_cmp Compare e (k, v) < 0) es @ (k, v) # dropWhile (\<lambda>e. entry_cmp Compare e (k, v) < 0) es)"
    using Add_correct[OF assms] by blast
  moreover have "set (takeWhile (\<lambda>e. entry_cmp Compare e (k, v) < 0) es @ (k, v) # dropWhile (\<lambda>e. entry_cmp Compare e (k, v) < 0) es) =
      insert (k, v) (set es)"
    using set_append[of "takeWhile (\<lambda>e. entry_cmp Compare e (k, v) < 0) es" "dropWhile (\<lambda>e. entry_cmp Compare e (k, v) < 0) es"]
    by (simp only: set_append list.set takeWhile_dropWhile_id) auto
  ultimately show ?thesis using that by blast
qed

text \<open>Adding entries one after the other.\<close>

lemma Add_many:
  assumes "holds valid Compare mem es" "list_all (entry_ok valid) ds" "distinct (map fst ds)" "fst ` set ds \<inter> fst ` set es = {}"
  shows "\<exists>mem' es'. fold (\<lambda>(k, v) m. Option.bind m (MemTable_Add Compare (sequence k) (key_type k) (user_key k) v)) ds (Some mem) = Some mem' \<and>
    holds valid Compare mem' es' \<and> set es' = set ds \<union> set es"
  using assms
proof (induction ds arbitrary: mem es)
  case (Cons d ds)
  obtain k v where d: "d = (k, v)" by (cases d)
  obtain mem1 es1 where 1: "MemTable_Add Compare (sequence k) (key_type k) (user_key k) v mem = Some mem1"
    "holds valid Compare mem1 es1" "set es1 = insert (k, v) (set es)"
    using holds_new_entry[OF Cons.prems(1), of k v] Cons.prems d by auto
  then show ?case using Cons.IH[OF 1(2)] Cons.prems d by auto
qed auto

end

section \<open>Batches\<close>

text \<open>The entries a batch makes: its updates, numbered from its sequence number on.\<close>

fun update_entry :: "SequenceNumber \<Rightarrow> update \<Rightarrow> entry" where
  "update_entry seq (Put_op k v) = (\<lparr>user_key = k, sequence = seq, key_type = kTypeValue\<rparr>, v)"
| "update_entry seq (Delete_op k) = (\<lparr>user_key = k, sequence = seq, key_type = kTypeDeletion\<rparr>, [])"

fun numbered :: "SequenceNumber \<Rightarrow> update list \<Rightarrow> entry list" where
  "numbered seq [] = []"
| "numbered seq (u # us) = update_entry seq u # numbered (seq + 1) us"

text \<open>What the updates leave of a user key: nothing said, a value, or a deletion.\<close>

fun update_of :: "slice \<Rightarrow> update \<Rightarrow> slice option option" where
  "update_of u (Put_op k v) = (if k = u then Some (Some v) else None)"
| "update_of u (Delete_op k) = (if k = u then Some None else None)"

definition last_update :: "slice \<Rightarrow> update list \<Rightarrow> slice option option" where
  "last_update u us = fold (\<lambda>x r. case update_of u x of None \<Rightarrow> r | Some y \<Rightarrow> Some y) us None"

definition add_to :: "(slice \<Rightarrow> slice \<Rightarrow> int) \<Rightarrow> SequenceNumber \<Rightarrow> ValueType \<Rightarrow> slice \<Rightarrow> slice \<Rightarrow> MemTable option \<Rightarrow> MemTable option" where
  "add_to ucmp s ty k v m = Option.bind m (MemTable_Add ucmp s ty k v)"

lemma numbered_append: "numbered seq (us @ vs) = numbered seq us @ numbered (seq + word_of_nat (length us)) vs"
  by (induction us arbitrary: seq) (simp_all add: ac_simps)

lemma fold_inserter:
  "fold (handle (MemTableInserter (add_to ucmp))) us (seq, m) =
     (seq + word_of_nat (length us),
      fold (\<lambda>(k, v) m. Option.bind m (MemTable_Add ucmp (sequence k) (key_type k) (user_key k) v)) (numbered seq us) m)"
proof (induction us arbitrary: seq m)
  case (Cons u us)
  then show ?case by (cases u) (simp_all add: MemTableInserter_def add_to_def ac_simps)
qed simp

lemma update_entry_sequence [simp]: "sequence (fst (update_entry seq u)) = seq"
  by (cases u) simp_all

lemma numbered_sequence:
  "unat seq + length us < 2 ^ 64 \<Longrightarrow> e \<in> set (numbered seq us) \<Longrightarrow>
     unat seq \<le> unat (sequence (fst e)) \<and> unat (sequence (fst e)) < unat seq + length us"
proof (induction us arbitrary: seq)
  case (Cons u us)
  have n: "unat (seq + 1) = unat seq + 1" using Cons.prems(1) by (simp add: unat_word_ariths)
  show ?case
  proof (cases "e = update_entry seq u")
    case False
    then have "unat (seq + 1) \<le> unat (sequence (fst e)) \<and> unat (sequence (fst e)) < unat (seq + 1) + length us"
      using Cons.prems n by (intro Cons.IH) simp_all
    then show ?thesis using n by simp
  qed simp
qed simp

lemma last_update_append [simp]:
  "last_update u (us @ [x]) = (case update_of u x of None \<Rightarrow> last_update u us | Some y \<Rightarrow> Some y)"
  unfolding last_update_def by simp

lemma update_of_None: "update_of u x = None \<longleftrightarrow> user_key (fst (update_entry seq x)) \<noteq> u"
  by (cases x) simp_all

lemma unat_seq_plus: "unat (seq :: u64) + n < 2 ^ 64 \<Longrightarrow> unat (seq + word_of_nat n) = unat seq + n"
  by (simp add: unat_word_ariths unat_of_nat)

text \<open>The entry of the last update to a key is the newest of the batch.\<close>

lemma last_update_entry:
  assumes "last_update u us = Some r" "unat seq + length us < 2 ^ 64"
  shows "\<exists>e \<in> set (numbered seq us). user_key (fst e) = u \<and>
    answer value st (Some e) = (case r of Some v \<Rightarrow> (True, v, st) | None \<Rightarrow> (True, value, Status_NotFound [])) \<and>
    (\<forall>d \<in> set (numbered seq us). user_key (fst d) = u \<longrightarrow> d = e \<or> sequence (fst d) < sequence (fst e))"
  using assms
proof (induction us rule: rev_induct)
  case (snoc x us)
  let ?n = "seq + word_of_nat (length us)"
  show ?case
  proof (cases "update_of u x")
    case None
    then show ?thesis using snoc update_of_None[of u x ?n] by (auto simp: numbered_append)
  next
    case (Some y)
    have "sequence (fst d) < ?n" if "d \<in> set (numbered seq us)" for d
      using numbered_sequence[OF _ that] unat_seq_plus[of seq "length us"] snoc.prems(2) by (simp add: word_less_nat_alt)
    moreover have "user_key (fst (update_entry ?n x)) = u" using Some update_of_None[of u x ?n] by simp
    moreover have "answer value st (Some (update_entry ?n x)) = (case r of Some v \<Rightarrow> (True, v, st) | None \<Rightarrow> (True, value, Status_NotFound []))"
      using Some snoc.prems(1) by (cases x) (auto simp: answer_def split: if_splits)
    ultimately show ?thesis by (intro bexI[of _ "update_entry ?n x"]) (auto simp: numbered_append)
  qed
qed (simp add: last_update_def)

lemma last_update_None: "last_update u us = None \<Longrightarrow> e \<in> set (numbered seq us) \<Longrightarrow> user_key (fst e) \<noteq> u"
proof (induction us rule: rev_induct)
  case (snoc x us)
  then show ?case
    using update_of_None[of u x "seq + word_of_nat (length us)"] by (auto simp: numbered_append split: option.splits)
qed simp

fun update_fits :: "(slice \<Rightarrow> bool) \<Rightarrow> update \<Rightarrow> bool" where
  "update_fits uvalid (Put_op k v) \<longleftrightarrow> uvalid k \<and> length k + 8 < 2 ^ 32 \<and> length v < 2 ^ 32"
| "update_fits uvalid (Delete_op k) \<longleftrightarrow> uvalid k \<and> length k + 8 < 2 ^ 32"

lemma update_fits_ok: "list_all (update_fits uvalid) us \<Longrightarrow> list_all update_ok us"
proof (induction us)
  case (Cons u us)
  then show ?case by (cases u) simp_all
qed simp

lemma update_fits_entry:
  "list_all (update_fits uvalid) us \<Longrightarrow> (\<And>e. e \<in> set (numbered seq us) \<Longrightarrow> sequence (fst e) \<le> kMaxSequenceNumber) \<Longrightarrow>
   list_all (entry_ok uvalid) (numbered seq us)"
proof (induction us arbitrary: seq)
  case (Cons u us)
  have "seq \<le> kMaxSequenceNumber" using Cons.prems(2)[of "update_entry seq u"] by simp
  then have "entry_ok uvalid (update_entry seq u)" using Cons.prems(1) by (cases u) (simp_all add: entry_ok_def)
  then show ?case using Cons by simp
qed simp

lemma numbered_distinct: "unat seq + length us < 2 ^ 64 \<Longrightarrow> distinct (map fst (numbered seq us))"
proof (induction us arbitrary: seq)
  case (Cons u us)
  have n: "unat (seq + 1) = unat seq + 1" using Cons.prems(1) by (simp add: unat_word_ariths)
  have "fst e \<noteq> fst (update_entry seq u)" if "e \<in> set (numbered (seq + 1) us)" for e
    using numbered_sequence[OF _ that] n Cons.prems by auto
  then show ?case using Cons n by force
qed simp

context comparator
begin

lemma InsertInto_correct:
  assumes mem: "holds valid Compare mem es" and old: "\<And>e. e \<in> set es \<Longrightarrow> sequence (fst e) < seq"
    and us: "list_all (update_fits valid) us" and room: "unat seq + length us \<le> unat kMaxSequenceNumber"
  shows "\<exists>mem' es'. InsertInto (add_to Compare) (SetSequence (fold apply_update us WriteBatch_Clear) seq) (Some mem) = (Status_OK, Some mem') \<and>
    holds valid Compare mem' es' \<and> set es' = set (numbered seq us) \<union> set es"
proof -
  have k: "unat kMaxSequenceNumber < 2 ^ 64" using unat_less_two_power[of kMaxSequenceNumber] by simp
  have seqs: "unat seq \<le> unat (sequence (fst e)) \<and> unat (sequence (fst e)) < unat seq + length us"
    if "e \<in> set (numbered seq us)" for e using numbered_sequence[OF _ that] room k by linarith
  have ok: "list_all (entry_ok valid) (numbered seq us)"
    by (rule update_fits_entry[OF us]) (use seqs room in \<open>fastforce simp: word_le_nat_alt\<close>)
  have disj: "fst ` set (numbered seq us) \<inter> fst ` set es = {}"
    using seqs old by (fastforce simp: word_less_nat_alt)
  have dist: "distinct (map fst (numbered seq us))" using numbered_distinct[of seq us] room k by linarith
  have "SetSequence (fold apply_update us WriteBatch_Clear) seq = batch_of seq us"
    using fold_apply_update[of us 0 "[]"] by (simp add: batch_of_Clear SetSequence_batch_of)
  then show ?thesis
    using Add_many[OF mem ok dist disj]
    by (simp add: InsertInto_def Iterate_batch_of[OF update_fits_ok[OF us]] batch_of_parts fold_inserter)
qed

lemma Get_after_batch:
  assumes mem: "holds valid Compare mem es" and old: "\<And>e. e \<in> set es \<Longrightarrow> sequence (fst e) < seq"
    and us: "list_all (update_fits valid) us" and room: "unat seq + length us \<le> unat kMaxSequenceNumber"
    and u: "valid u" "length u + 8 < 2 ^ 32" and s: "unat seq + length us \<le> unat s + 1" "s \<le> kMaxSequenceNumber"
  shows "\<exists>mem'. InsertInto (add_to Compare) (SetSequence (fold apply_update us WriteBatch_Clear) seq) (Some mem) = (Status_OK, Some mem') \<and>
    MemTable_Get Compare (LookupKey_new u s) mem' value st =
      (case last_update u us of
         Some (Some v) \<Rightarrow> Some (True, v, st)
       | Some None \<Rightarrow> Some (True, value, Status_NotFound [])
       | None \<Rightarrow> MemTable_Get Compare (LookupKey_new u s) mem value st)"
proof -
  obtain mem' es' where ins: "InsertInto (add_to Compare) (SetSequence (fold apply_update us WriteBatch_Clear) seq) (Some mem) = (Status_OK, Some mem')"
    and mem': "holds valid Compare mem' es'" "set es' = set (numbered seq us) \<union> set es"
    using InsertInto_correct[OF mem old us room] by blast
  have n: "unat seq + length us < 2 ^ 64" using room unat_less_two_power[of kMaxSequenceNumber] by simp
  have get: "MemTable_Get Compare (LookupKey_new u s) mem' value st = Some (answer value st (find (visible u s) es'))"
    by (rule Get_correct[OF mem'(1) u s(2)])
  have "MemTable_Get Compare (LookupKey_new u s) mem' value st =
      (case last_update u us of Some (Some v) \<Rightarrow> Some (True, v, st) | Some None \<Rightarrow> Some (True, value, Status_NotFound [])
       | None \<Rightarrow> MemTable_Get Compare (LookupKey_new u s) mem value st)"
  proof (cases "last_update u us")
    case None
    then have "find (visible u s) es' = find (visible u s) es"
      using last_update_None[OF None] mem'(2) by (intro find_same[OF mem mem'(1)]) (auto simp: visible_def)
    then show ?thesis using None get Get_correct[OF mem u s(2)] by simp
  next
    case (Some r)
    obtain e where e: "e \<in> set (numbered seq us)" "user_key (fst e) = u"
        "answer value st (Some e) = (case r of Some v \<Rightarrow> (True, v, st) | None \<Rightarrow> (True, value, Status_NotFound []))"
        "\<And>d. d \<in> set (numbered seq us) \<Longrightarrow> user_key (fst d) = u \<Longrightarrow> d = e \<or> sequence (fst d) < sequence (fst e)"
      using last_update_entry[OF Some n] by blast
    have seq: "unat seq \<le> unat (sequence (fst e)) \<and> unat (sequence (fst e)) < unat seq + length us"
      by (rule numbered_sequence[OF n e(1)])
    have "find (visible u s) es' = Some e"
    proof (rule find_newest[OF mem'(1)])
      show "visible u s e" using e(2) seq s(1) by (simp add: visible_def word_le_nat_alt)
      show "d = e \<or> sequence (fst d) < sequence (fst e)" if "d \<in> set es'" "visible u s d" for d
        using that e(4)[of d] mem'(2) old[of d] seq by (auto simp: visible_def word_less_nat_alt)
    qed (use e(1) mem'(2) in simp)
    then show ?thesis using get e(3) Some by (simp split: option.splits)
  qed
  then show ?thesis using ins by blast
qed

lemma Get_snapshot:
  assumes mem: "holds valid Compare mem es" and old: "\<And>e. e \<in> set es \<Longrightarrow> sequence (fst e) < seq"
    and us: "list_all (update_fits valid) us" and room: "unat seq + length us \<le> unat kMaxSequenceNumber"
    and u: "valid u" "length u + 8 < 2 ^ 32" and s: "s < seq"
  shows "\<exists>mem'. InsertInto (add_to Compare) (SetSequence (fold apply_update us WriteBatch_Clear) seq) (Some mem) = (Status_OK, Some mem') \<and>
    MemTable_Get Compare (LookupKey_new u s) mem' value st = MemTable_Get Compare (LookupKey_new u s) mem value st"
proof -
  obtain mem' es' where ins: "InsertInto (add_to Compare) (SetSequence (fold apply_update us WriteBatch_Clear) seq) (Some mem) = (Status_OK, Some mem')"
    and mem': "holds valid Compare mem' es'" "set es' = set (numbered seq us) \<union> set es"
    using InsertInto_correct[OF mem old us room] by blast
  have n: "unat seq + length us < 2 ^ 64" using room unat_less_two_power[of kMaxSequenceNumber] by simp
  have sk: "s \<le> kMaxSequenceNumber" using s room by (simp add: word_less_nat_alt word_le_nat_alt)
  have "\<not> visible u s e" if "e \<in> set (numbered seq us)" for e
    using numbered_sequence[OF n that] s by (simp add: visible_def word_less_nat_alt word_le_nat_alt)
  then have "find (visible u s) es' = find (visible u s) es"
    using mem'(2) by (intro find_same[OF mem mem'(1)]) auto
  then show ?thesis using ins Get_correct[OF mem'(1) u sk] Get_correct[OF mem u sk] by simp
qed

end

section \<open>Properties\<close>

text \<open>C2: after a batch is inserted into a memtable, a reader of any later snapshot gets, for a key the batch
  updates, the last of its updates: the value that was put, or ``not found'' after a deletion; and
  for every other key what it got before. The insertion succeeds.\<close>

theorem memtable_reads_batch:
  assumes "holds (\<lambda>_. True) bytewise_Compare mem es" "\<And>e. e \<in> set es \<Longrightarrow> sequence (fst e) < seq"
    "list_all (update_fits (\<lambda>_. True)) us" "unat seq + length us \<le> unat kMaxSequenceNumber" "length u + 8 < 2 ^ 32"
    "unat seq + length us \<le> unat s + 1" "s \<le> kMaxSequenceNumber"
  shows "\<exists>mem'. InsertInto (add_to bytewise_Compare) (SetSequence (fold apply_update us WriteBatch_Clear) seq) (Some mem) =
      (Status_OK, Some mem') \<and>
    MemTable_Get bytewise_Compare (LookupKey_new u s) mem' value st =
      (case last_update u us of
         Some (Some v) \<Rightarrow> Some (True, v, st)
       | Some None \<Rightarrow> Some (True, value, Status_NotFound [])
       | None \<Rightarrow> MemTable_Get bytewise_Compare (LookupKey_new u s) mem value st)"
  by (rule bytewise.Get_after_batch[OF assms(1,2,3,4) TrueI assms(5,6,7)])

theorem memtable_reads_batch_witness:
  "\<exists>mem'. InsertInto (add_to bytewise_Compare)
      (SetSequence (fold apply_update [Put_op [1] [7], Put_op [2] [8], Delete_op [1], Put_op [2] [9]] WriteBatch_Clear) 5)
      (Some MemTable_new) = (Status_OK, Some mem') \<and>
    MemTable_Get bytewise_Compare (LookupKey_new [2] 8) mem' [] None = Some (True, [9], None)"
  using memtable_reads_batch[OF holds_new, of 5 "[Put_op [1] [7], Put_op [2] [8], Delete_op [1], Put_op [2] [9]]" "[2]" 8 "[]" None]
  by (simp add: last_update_def kMaxSequenceNumber_def)

text \<open>C17: a reader of an older snapshot is not disturbed: a batch with later sequence numbers does not change
  what it gets.\<close>

theorem memtable_snapshot_isolated:
  assumes "holds (\<lambda>_. True) bytewise_Compare mem es" "\<And>e. e \<in> set es \<Longrightarrow> sequence (fst e) < seq"
    "list_all (update_fits (\<lambda>_. True)) us" "unat seq + length us \<le> unat kMaxSequenceNumber" "length u + 8 < 2 ^ 32" "s < seq"
  shows "\<exists>mem'. InsertInto (add_to bytewise_Compare) (SetSequence (fold apply_update us WriteBatch_Clear) seq) (Some mem) =
      (Status_OK, Some mem') \<and>
    MemTable_Get bytewise_Compare (LookupKey_new u s) mem' value st = MemTable_Get bytewise_Compare (LookupKey_new u s) mem value st"
  by (rule bytewise.Get_snapshot[OF assms(1,2,3,4) TrueI assms(5,6)])

theorem memtable_snapshot_isolated_witness:
  "\<exists>mem'. InsertInto (add_to bytewise_Compare) (SetSequence (fold apply_update [Put_op [1] [7]] WriteBatch_Clear) 5) (Some MemTable_new) =
      (Status_OK, Some mem') \<and>
    MemTable_Get bytewise_Compare (LookupKey_new [1] 4) mem' [] None =
      MemTable_Get bytewise_Compare (LookupKey_new [1] 4) MemTable_new [] None"
  by (rule memtable_snapshot_isolated[OF holds_new, of 5 "[Put_op [1] [7]]" "[1]" 4 "[]" None]) (simp_all add: kMaxSequenceNumber_def)

end
