(* ===== verification/Ldb_Bloom.thy ===== *)
theory Ldb_Bloom
  imports Ldb_Dbformat
begin

text \<open>
  LevelDB, \<^verbatim>\<open>util/hash.cc\<close>, \<^verbatim>\<open>util/bloom.cc\<close> and the wrapper \<^verbatim>\<open>InternalFilterPolicy\<close> of \<^verbatim>\<open>db/dbformat.cc\<close>. The
  locale \<open>filter_policy\<close> is the contract of the abstract class in \<^verbatim>\<open>include/leveldb/filter_policy.h\<close>.
\<close>

section \<open>The hash function\<close>

definition hash_m :: u32 where "hash_m = 0xc6a4a793"

text \<open>Four bytes at a time: the hash so far and the remaining bytes.\<close>

fun hash_loop :: "byte list \<Rightarrow> u32 \<Rightarrow> u32 \<times> byte list" where
  "hash_loop (a # b # c # d # data) h =
     (let h = h + DecodeFixed32 [a, b, c, d]; h = h * hash_m; h = h XOR drop_bit 16 h in hash_loop data h)"
| "hash_loop data h = (h, data)"

text \<open>The switch over the last bytes falls through from 3 to 1.\<close>

definition hash_rest :: "byte list \<Rightarrow> u32 \<Rightarrow> u32" where
  "hash_rest data h =
     (if data = [] then h
      else let h = (if 2 < length data then h + push_bit 16 (ucast (data ! 2)) else h);
               h = (if 1 < length data then h + push_bit 8 (ucast (data ! 1)) else h);
               h = h + ucast (data ! 0);
               h = h * hash_m
           in h XOR drop_bit 24 h)"

definition Hash :: "byte list \<Rightarrow> u32 \<Rightarrow> u32" where
  "Hash data seed =
     (case hash_loop data (seed XOR (word_of_nat (length data) * hash_m)) of (h, data) \<Rightarrow> hash_rest data h)"

definition BloomHash :: "slice \<Rightarrow> u32" where
  "BloomHash key = Hash key 0xbc9f1d34"

section \<open>Bloom filters\<close>

text \<open>
  The constructor multiplies by \<^verbatim>\<open>0.69\<close> in floating point and truncates. Up to 43 bits per key the
  product is not near an integer, and from there on the result is cut to 30, so the integer
  division gives the same number.
\<close>

definition bloom_k :: "nat \<Rightarrow> nat" where
  "bloom_k bits_per_key = (let k = bits_per_key * 69 div 100; k = (if k < 1 then 1 else k) in if k > 30 then 30 else k)"

definition bloom_delta :: "u32 \<Rightarrow> u32" where
  "bloom_delta h = drop_bit 17 h OR push_bit 15 h"

text \<open>\<^verbatim>\<open>h % bits\<close> and the access to that bit.\<close>

definition bloom_bitpos :: "nat \<Rightarrow> u32 \<Rightarrow> nat" where
  "bloom_bitpos bits h = unat h mod bits"

definition set_bit_at :: "nat \<Rightarrow> byte list \<Rightarrow> byte list" where
  "set_bit_at bitpos array = array[bitpos div 8 := array ! (bitpos div 8) OR push_bit (bitpos mod 8) 1]"

definition bit_at :: "nat \<Rightarrow> byte list \<Rightarrow> bool" where
  "bit_at bitpos array \<longleftrightarrow> array ! (bitpos div 8) AND push_bit (bitpos mod 8) 1 \<noteq> 0"

fun bloom_add :: "nat \<Rightarrow> nat \<Rightarrow> u32 \<Rightarrow> u32 \<Rightarrow> byte list \<Rightarrow> byte list" where
  "bloom_add 0 bits h delta array = array"
| "bloom_add (Suc j) bits h delta array = bloom_add j bits (h + delta) delta (set_bit_at (bloom_bitpos bits h) array)"

definition bloom_add_key :: "nat \<Rightarrow> nat \<Rightarrow> slice \<Rightarrow> byte list \<Rightarrow> byte list" where
  "bloom_add_key k bits key array = (let h = BloomHash key in bloom_add k bits h (bloom_delta h) array)"

text \<open>\<^verbatim>\<open>bits_per_key\<close> is not negative, and the number of bits is below the width of \<^verbatim>\<open>size_t\<close>: the filter that is built has
  that many bits in memory.\<close>

definition bloom_CreateFilter :: "nat \<Rightarrow> slice list \<Rightarrow> byte list \<Rightarrow> byte list" where
  "bloom_CreateFilter bits_per_key keys dst =
     (let bits = length keys * bits_per_key;
          bits = (if bits < 64 then 64 else bits);
          bytes = (bits + 7) div 8;
          bits = bytes * 8;
          k = bloom_k bits_per_key
      in dst @ fold (bloom_add_key k bits) keys (replicate bytes 0) @ [word_of_nat k])"

fun bloom_probe :: "nat \<Rightarrow> nat \<Rightarrow> u32 \<Rightarrow> u32 \<Rightarrow> byte list \<Rightarrow> bool" where
  "bloom_probe 0 bits h delta array = True"
| "bloom_probe (Suc j) bits h delta array =
     (if bit_at (bloom_bitpos bits h) array then bloom_probe j bits (h + delta) delta array else False)"

text \<open>The number of probes is stored as a \<^verbatim>\<open>char\<close>, which is signed.\<close>

definition bloom_KeyMayMatch :: "slice \<Rightarrow> slice \<Rightarrow> bool" where
  "bloom_KeyMayMatch key bloom_filter =
     (let len = length bloom_filter in
      if len < 2 then False
      else let bits = (len - 1) * 8; k = unat (scast (bloom_filter ! (len - 1)) :: u64) in
        if k > 30 then True
        else let h = BloomHash key in bloom_probe k bits h (bloom_delta h) bloom_filter)"

section \<open>The contract of a filter policy\<close>

text \<open>
  \<^verbatim>\<open>CreateFilter\<close> appends a filter to \<^verbatim>\<open>*dst\<close>; \<^verbatim>\<open>KeyMayMatch\<close> must return true for every key that was in the list.
  The number of keys is an \<^verbatim>\<open>int\<close>.
\<close>

locale filter_policy =
  fixes valid :: "slice \<Rightarrow> bool" and CreateFilter :: "slice list \<Rightarrow> byte list \<Rightarrow> byte list" and KeyMayMatch :: "slice \<Rightarrow> slice \<Rightarrow> bool"
  assumes CreateFilter_appends: "CreateFilter keys dst = dst @ CreateFilter keys []"
    and KeyMayMatch_created: "length keys < 2 ^ 31 \<Longrightarrow> list_all valid keys \<Longrightarrow> key \<in> set keys \<Longrightarrow> KeyMayMatch key (CreateFilter keys [])"

text \<open>\<^verbatim>\<open>InternalFilterPolicy\<close> hands the user keys to the policy of the user.\<close>

definition internal_CreateFilter :: "(slice list \<Rightarrow> byte list \<Rightarrow> byte list) \<Rightarrow> slice list \<Rightarrow> byte list \<Rightarrow> byte list" where
  "internal_CreateFilter create keys dst = create (map ExtractUserKey keys) dst"

definition internal_KeyMayMatch :: "(slice \<Rightarrow> slice \<Rightarrow> bool) \<Rightarrow> slice \<Rightarrow> slice \<Rightarrow> bool" where
  "internal_KeyMayMatch match key f = match (ExtractUserKey key) f"

context filter_policy
begin

lemma internal_filter_policy:
  "filter_policy (internal_valid valid) (internal_CreateFilter CreateFilter) (internal_KeyMayMatch KeyMayMatch)"
proof
  show "internal_CreateFilter CreateFilter keys dst = dst @ internal_CreateFilter CreateFilter keys []" for keys dst
    unfolding internal_CreateFilter_def by (rule CreateFilter_appends)
  show "internal_KeyMayMatch KeyMayMatch key (internal_CreateFilter CreateFilter keys [])"
    if "length keys < 2 ^ 31" "list_all (internal_valid valid) keys" "key \<in> set keys" for keys key
    unfolding internal_KeyMayMatch_def internal_CreateFilter_def
    using that by (intro KeyMayMatch_created) (auto simp: list_all_iff)
qed

end

section \<open>No false negatives\<close>

lemma bit_at_iff: "bit_at p a \<longleftrightarrow> bit (a ! (p div 8)) (p mod 8)"
proof -
  have "push_bit (p mod 8) 1 = (2 ^ (p mod 8) :: byte)" by (simp add: push_bit_eq_mult)
  then show ?thesis
    unfolding bit_at_def using and_exp_eq_0_iff_not_bit[of "a ! (p div 8)" "p mod 8"] by simp
qed

lemma length_set_bit_at [simp]: "length (set_bit_at p a) = length a"
  by (simp add: set_bit_at_def)

lemma bit_at_set_bit_at:
  assumes "p < 8 * length a"
  shows "bit_at q (set_bit_at p a) \<longleftrightarrow> q = p \<or> bit_at q a"
proof -
  have p: "p div 8 < length a" using assms by (simp add: div_less_iff_less_mult mult.commute)
  have "q mod 8 < 8" by simp
  then have b: "bit (push_bit (p mod 8) 1 :: byte) (q mod 8) \<longleftrightarrow> q mod 8 = p mod 8"
    by (auto simp: bit_simps bit_1_iff)
  show ?thesis
  proof (cases "q div 8 = p div 8")
    case True
    then have "q = p \<longleftrightarrow> q mod 8 = p mod 8" by (metis div_mod_decomp)
    then show ?thesis using True p b by (auto simp: bit_at_iff set_bit_at_def bit_or_iff)
  next
    case False
    then show ?thesis by (auto simp: bit_at_iff set_bit_at_def)
  qed
qed

lemma bloom_bitpos_less: "0 < bits \<Longrightarrow> bloom_bitpos bits h < bits"
  by (simp add: bloom_bitpos_def)

lemma bloom_add_mono:
  "0 < length a \<Longrightarrow> length (bloom_add k (8 * length a) h d a) = length a \<and>
     (\<forall>p. bit_at p a \<longrightarrow> bit_at p (bloom_add k (8 * length a) h d a))"
proof (induction k arbitrary: h a)
  case (Suc k)
  have "bloom_bitpos (8 * length a) h < 8 * length a" using Suc.prems by (simp add: bloom_bitpos_less)
  then show ?case
    using Suc.IH[of "set_bit_at (bloom_bitpos (8 * length a) h) a" "h + d"] Suc.prems bit_at_set_bit_at by simp
qed simp

lemma bloom_probe_mono:
  "(\<And>p. bit_at p a \<Longrightarrow> bit_at p b) \<Longrightarrow> bloom_probe k bits h d a \<Longrightarrow> bloom_probe k bits h d b"
  by (induction k arbitrary: h) (auto split: if_splits)

lemma bloom_probe_add: "0 < length a \<Longrightarrow> bloom_probe k (8 * length a) h d (bloom_add k (8 * length a) h d a)"
proof (induction k arbitrary: h a)
  case (Suc k)
  let ?p = "bloom_bitpos (8 * length a) h"
  have p: "?p < 8 * length a" using Suc.prems by (simp add: bloom_bitpos_less)
  have "bit_at ?p (set_bit_at ?p a)" using p bit_at_set_bit_at by simp
  then show ?case
    using Suc.IH[of "set_bit_at ?p a" "h + d"] bloom_add_mono[of "set_bit_at ?p a" k "h + d" d] Suc.prems by simp
qed simp

lemma bloom_add_keys:
  assumes "0 < length a"
  shows "length (fold (bloom_add_key k (8 * length a)) keys a) = length a \<and>
    (\<forall>p. bit_at p a \<longrightarrow> bit_at p (fold (bloom_add_key k (8 * length a)) keys a)) \<and>
    (\<forall>key \<in> set keys. bloom_probe k (8 * length a) (BloomHash key) (bloom_delta (BloomHash key))
        (fold (bloom_add_key k (8 * length a)) keys a))"
  using assms
proof (induction keys arbitrary: a)
  case (Cons key keys)
  let ?a = "bloom_add_key k (8 * length a) key a"
  have l: "length ?a = length a" and m: "\<And>p. bit_at p a \<Longrightarrow> bit_at p ?a"
    using bloom_add_mono[OF Cons.prems] by (simp_all add: bloom_add_key_def Let_def)
  have "bloom_probe k (8 * length a) (BloomHash key) (bloom_delta (BloomHash key)) ?a"
    using bloom_probe_add[OF Cons.prems] by (simp add: bloom_add_key_def Let_def)
  then show ?case using Cons.IH[of ?a] Cons.prems l m bloom_probe_mono by simp blast
qed simp

lemma bloom_k_bounds: "1 \<le> bloom_k b \<and> bloom_k b \<le> 30"
  by (simp add: bloom_k_def Let_def)

lemma stored_k: "k \<le> 30 \<Longrightarrow> unat (scast (word_of_nat k :: byte) :: u64) = k"
proof -
  assume "k \<le> 30"
  then have "sint (word_of_nat k :: byte) = int k"
    using signed_take_bit_int_eq_self[of 7 "int k"] by (simp add: signed_of_nat)
  then have "(scast (word_of_nat k :: byte) :: u64) = word_of_nat k"
    by (simp only: scast_eq of_int_of_nat_eq)
  then show ?thesis using \<open>k \<le> 30\<close> by (simp add: unat_word_of_nat)
qed

lemma bit_at_append: "p < 8 * length a \<Longrightarrow> bit_at p (a @ [x]) = bit_at p a"
  by (simp add: bit_at_iff nth_append div_less_iff_less_mult mult.commute)

lemma bloom_probe_append: "0 < length a \<Longrightarrow> bloom_probe k (8 * length a) h d (a @ [x]) = bloom_probe k (8 * length a) h d a"
  by (induction k arbitrary: h) (simp_all add: bit_at_append bloom_bitpos_less)

lemma length_bloom_CreateFilter:
  "length (bloom_CreateFilter b keys dst) = length dst + (max 64 (length keys * b) + 7) div 8 + 1"
proof -
  let ?bytes = "(max 64 (length keys * b) + 7) div 8"
  have "length (fold (bloom_add_key (bloom_k b) (8 * ?bytes)) keys (replicate ?bytes 0)) = ?bytes"
    using bloom_add_keys[of "replicate ?bytes 0" "bloom_k b" keys] by simp
  then show ?thesis by (simp add: bloom_CreateFilter_def Let_def max_def mult.commute split: if_splits)
qed

interpretation bloom: filter_policy "\<lambda>_. True" "bloom_CreateFilter b" bloom_KeyMayMatch for b
proof
  show "bloom_CreateFilter b keys dst = dst @ bloom_CreateFilter b keys []" for keys dst
    by (simp add: bloom_CreateFilter_def Let_def)
next
  fix keys key assume key: "key \<in> set (keys :: slice list)"
  define bits where "bits = (if length keys * b < 64 then 64 else length keys * b)"
  define bytes where "bytes = (bits + 7) div 8"
  have "64 \<le> bits" by (simp add: bits_def)
  then have bytes: "8 \<le> bytes" by (simp add: bytes_def)
  define a where "a = fold (bloom_add_key (bloom_k b) (8 * bytes)) keys (replicate bytes 0)"
  have a: "length a = bytes" "bloom_probe (bloom_k b) (8 * bytes) (BloomHash key) (bloom_delta (BloomHash key)) a"
    using bloom_add_keys[of "replicate bytes 0" "bloom_k b" keys] bytes key by (simp_all add: a_def)
  have f: "bloom_CreateFilter b keys [] = a @ [word_of_nat (bloom_k b)]"
    by (simp add: bloom_CreateFilter_def Let_def a_def bytes_def bits_def mult.commute)
  have nth: "(a @ [word_of_nat (bloom_k b)]) ! bytes = word_of_nat (bloom_k b)" using a(1) by (simp add: nth_append)
  have len: "length (a @ [word_of_nat (bloom_k b)]) - 1 = bytes" using a(1) by simp
  show "bloom_KeyMayMatch key (bloom_CreateFilter b keys [])"
    unfolding f bloom_KeyMayMatch_def Let_def len nth
    using a bytes bloom_k_bounds[of b] bloom_probe_append[of a] stored_k[of "bloom_k b"]
    by (simp add: mult.commute)
qed

interpretation internal_bloom: filter_policy "internal_valid (\<lambda>_. True)"
    "internal_CreateFilter (bloom_CreateFilter b)" "internal_KeyMayMatch bloom_KeyMayMatch" for b
  by (rule bloom.internal_filter_policy)

end
