(* ===== verification/Ldb_Filter_Block.thy ===== *)
theory Ldb_Filter_Block
  imports Ldb_Bloom
begin

text \<open>
  LevelDB, \<^verbatim>\<open>table/filter_block.cc\<close>: the filters of a table, one for every 2 KiB of file offsets. Builder and
  reader take the policy as an argument; their correctness is proved in the locale
  \<open>filter_policy\<close>, for every policy that keeps the contract.
\<close>

section \<open>The builder\<close>

definition kFilterBaseLg :: nat where "kFilterBaseLg = 11"
definition kFilterBase :: nat where "kFilterBase = 2 ^ kFilterBaseLg"

record FilterBlockBuilder =
  fb_keys :: "byte list"
  fb_start :: "nat list"
  fb_result :: "byte list"
  fb_offsets :: "u32 list"

definition FilterBlockBuilder_new :: FilterBlockBuilder where
  "FilterBlockBuilder_new = \<lparr>fb_keys = [], fb_start = [], fb_result = [], fb_offsets = []\<rparr>"

text \<open>The keys from their flattened form: \<open>start\<close> has one position more than there are keys.\<close>

fun tmp_keys :: "byte list \<Rightarrow> nat list \<Rightarrow> slice list" where
  "tmp_keys keys (i # j # start) = take (j - i) (drop i keys) # tmp_keys keys (j # start)"
| "tmp_keys keys start = []"

definition GenerateFilter :: "(slice list \<Rightarrow> byte list \<Rightarrow> byte list) \<Rightarrow> FilterBlockBuilder \<Rightarrow> FilterBlockBuilder" where
  "GenerateFilter create b =
     (let offsets = fb_offsets b @ [word_of_nat (length (fb_result b))] in
      if fb_start b = [] then b\<lparr>fb_offsets := offsets\<rparr>
      else \<lparr>fb_keys = [], fb_start = [],
            fb_result = create (tmp_keys (fb_keys b) (fb_start b @ [length (fb_keys b)])) (fb_result b),
            fb_offsets = offsets\<rparr>)"

lemma length_offsets_GenerateFilter [simp]: "length (fb_offsets (GenerateFilter create b)) = Suc (length (fb_offsets b))"
  by (simp add: GenerateFilter_def Let_def)

function start_block_loop :: "(slice list \<Rightarrow> byte list \<Rightarrow> byte list) \<Rightarrow> nat \<Rightarrow> FilterBlockBuilder \<Rightarrow> FilterBlockBuilder" where
  "start_block_loop create filter_index b =
     (if filter_index > length (fb_offsets b) then start_block_loop create filter_index (GenerateFilter create b) else b)"
  by pat_completeness auto
termination
  by (relation "measure (\<lambda>(create, i, b). i - length (fb_offsets b))") auto

declare start_block_loop.simps [simp del]

text \<open>\<^verbatim>\<open>assert(filter_index >= filter_offsets_.size())\<close>\<close>

definition StartBlock :: "(slice list \<Rightarrow> byte list \<Rightarrow> byte list) \<Rightarrow> u64 \<Rightarrow> FilterBlockBuilder \<Rightarrow> FilterBlockBuilder" where
  "StartBlock create block_offset b = start_block_loop create (unat block_offset div kFilterBase) b"

definition AddKey :: "slice \<Rightarrow> FilterBlockBuilder \<Rightarrow> FilterBlockBuilder" where
  "AddKey key b = b\<lparr>fb_start := fb_start b @ [length (fb_keys b)], fb_keys := fb_keys b @ key\<rparr>"

definition FilterBlockBuilder_Finish :: "(slice list \<Rightarrow> byte list \<Rightarrow> byte list) \<Rightarrow> FilterBlockBuilder \<Rightarrow> slice" where
  "FilterBlockBuilder_Finish create b =
     (let b = (if fb_start b \<noteq> [] then GenerateFilter create b else b);
          array_offset = word_of_nat (length (fb_result b));
          result = fold (\<lambda>x dst. PutFixed32 dst x) (fb_offsets b) (fb_result b);
          result = PutFixed32 result array_offset
      in result @ [word_of_nat kFilterBaseLg])"

section \<open>The reader\<close>

text \<open>\<open>fr_data\<close> is the bytes at \<^verbatim>\<open>data_\<close>; \<open>fr_offset\<close> is \<^verbatim>\<open>offset_ - data_\<close>. On bad contents no filter is known.\<close>

record FilterBlockReader =
  fr_data :: "byte list"
  fr_offset :: nat
  fr_num :: nat
  fr_base_lg :: nat

definition FilterBlockReader_new :: "slice \<Rightarrow> FilterBlockReader" where
  "FilterBlockReader_new contents =
     (let n = length contents; none = \<lparr>fr_data = [], fr_offset = 0, fr_num = 0, fr_base_lg = 0\<rparr> in
      if n < 5 then none
      else let base_lg = unat (scast (contents ! (n - 1)) :: u64);
               last_word = unat (DecodeFixed32 (drop (n - 5) contents)) in
        if last_word > n - 5 then none\<lparr>fr_base_lg := base_lg\<rparr>
        else \<lparr>fr_data = contents, fr_offset = last_word, fr_num = (n - 5 - last_word) div 4, fr_base_lg = base_lg\<rparr>)"

definition FilterBlockReader_KeyMayMatch :: "(slice \<Rightarrow> slice \<Rightarrow> bool) \<Rightarrow> FilterBlockReader \<Rightarrow> u64 \<Rightarrow> slice \<Rightarrow> bool" where
  "FilterBlockReader_KeyMayMatch match r block_offset key =
     (let index = unat (drop_bit (fr_base_lg r) block_offset) in
      if index < fr_num r then
        (let start = unat (DecodeFixed32 (drop (fr_offset r + index * 4) (fr_data r)));
             limit = unat (DecodeFixed32 (drop (fr_offset r + index * 4 + 4) (fr_data r))) in
         if start \<le> limit \<and> limit \<le> fr_offset r then match key (take (limit - start) (drop start (fr_data r)))
         else if start = limit then False
         else True)
      else True)"

section \<open>What the builder keeps\<close>

text \<open>The sizes of the keys so far.\<close>

fun starts :: "nat \<Rightarrow> slice list \<Rightarrow> nat list" where
  "starts n [] = []"
| "starts n (k # ks) = n # starts (n + length k) ks"

lemma starts_append: "starts n (ks @ [k]) = starts n ks @ [n + length (concat ks)]"
  by (induction ks arbitrary: n) simp_all

lemma tmp_keys_starts:
  "tmp_keys (pre @ concat ks) (starts (length pre) ks @ [length pre + length (concat ks)]) = ks"
proof (induction ks arbitrary: pre)
  case (Cons k ks)
  have "tmp_keys (pre @ concat (k # ks)) (starts (length (pre @ k)) ks @ [length (pre @ k) + length (concat ks)]) = ks"
    using Cons.IH[of "pre @ k"] by simp
  then show ?case by (cases ks) (simp_all add: add.assoc)
qed simp

lemma starts_Nil_iff: "starts n ks = [] \<longleftrightarrow> ks = []"
  by (cases ks) simp_all

text \<open>\<open>fs\<close> are the key lists of the finished filters, \<open>ks\<close> the keys of the next one.\<close>

definition filter_of :: "(slice list \<Rightarrow> byte list \<Rightarrow> byte list) \<Rightarrow> slice list \<Rightarrow> byte list" where
  "filter_of create ks = (if ks = [] then [] else create ks [])"

definition filters :: "(slice list \<Rightarrow> byte list \<Rightarrow> byte list) \<Rightarrow> slice list list \<Rightarrow> byte list" where
  "filters create fs = concat (map (filter_of create) fs)"

definition built :: "(slice list \<Rightarrow> byte list \<Rightarrow> byte list) \<Rightarrow> slice list list \<Rightarrow> slice list \<Rightarrow> FilterBlockBuilder" where
  "built create fs ks =
     \<lparr>fb_keys = concat ks, fb_start = starts 0 ks, fb_result = filters create fs,
      fb_offsets = map (\<lambda>i. word_of_nat (length (filters create (take i fs)))) [0..<length fs]\<rparr>"

lemma filters_append [simp]: "filters create (fs @ gs) = filters create fs @ filters create gs"
  by (simp add: filters_def)

lemma filters_simps [simp]: "filters create [] = []" "filters create (ks # fs) = filter_of create ks @ filters create fs"
  by (simp_all add: filters_def)

lemma built_new: "FilterBlockBuilder_new = built create [] []"
  by (simp add: FilterBlockBuilder_new_def built_def)

lemma AddKey_built: "AddKey k (built create fs ks) = built create fs (ks @ [k])"
  by (simp add: AddKey_def built_def starts_append)

lemma fold_AddKey_built: "fold AddKey ks' (built create fs ks) = built create fs (ks @ ks')"
  by (induction ks' arbitrary: ks) (simp_all add: AddKey_built)

lemma offsets_built [simp]: "length (fb_offsets (built create fs ks)) = length fs"
  by (simp add: built_def)

lemma built_offsets_snoc:
  "map (\<lambda>i. word_of_nat (length (filters create (take i (fs @ [ks]))))) [0..<length (fs @ [ks])] =
   map (\<lambda>i. word_of_nat (length (filters create (take i fs)))) [0..<length fs] @ [word_of_nat (length (filters create fs))]"
  by simp

text \<open>Key \<open>k\<close> is, or will be, in filter number \<open>j\<close>.\<close>

definition located :: "slice list list \<Rightarrow> slice list \<Rightarrow> nat \<Rightarrow> slice \<Rightarrow> bool" where
  "located fs ks j k \<longleftrightarrow> j < length fs \<and> k \<in> set (fs ! j) \<or> j = length fs \<and> k \<in> set ks"

text \<open>What the table builder does for a data block: its offset, and the keys in it.\<close>

definition add_block :: "(slice list \<Rightarrow> byte list \<Rightarrow> byte list) \<Rightarrow> u64 \<times> slice list \<Rightarrow> FilterBlockBuilder \<Rightarrow> FilterBlockBuilder" where
  "add_block create = (\<lambda>(block_offset, keys) b. fold AddKey keys (StartBlock create block_offset b))"

context filter_policy
begin

lemma GenerateFilter_built: "GenerateFilter CreateFilter (built CreateFilter fs ks) = built CreateFilter (fs @ [ks]) []"
proof (cases "ks = []")
  case True
  then show ?thesis by (simp add: GenerateFilter_def built_def filter_of_def)
next
  case False
  have "tmp_keys (concat ks) (starts 0 ks @ [length (concat ks)]) = ks" using tmp_keys_starts[of "[]" ks] by simp
  moreover have "CreateFilter ks (filters CreateFilter fs) = filters CreateFilter fs @ CreateFilter ks []" by (rule CreateFilter_appends)
  ultimately show ?thesis
    using False by (simp add: GenerateFilter_def built_def starts_Nil_iff filter_of_def)
qed

lemma start_block_loop_built:
  "length fs \<le> i \<Longrightarrow> \<exists>fs' ks'. start_block_loop CreateFilter i (built CreateFilter fs ks) = built CreateFilter fs' ks' \<and>
     length fs' = i \<and> concat fs' @ ks' = concat fs @ ks \<and> (\<forall>j k. located fs ks j k \<longrightarrow> located fs' ks' j k)"
proof (induction "i - length fs" arbitrary: fs ks)
  case 0
  then show ?case by (subst start_block_loop.simps) auto
next
  case (Suc n)
  have n: "n = i - length (fs @ [ks])" "length (fs @ [ks]) \<le> i" using Suc.hyps(2) by simp_all
  have "located (fs @ [ks]) [] j k" if "located fs ks j k" for j k using that by (auto simp: located_def nth_append)
  moreover have "start_block_loop CreateFilter i (built CreateFilter fs ks) = start_block_loop CreateFilter i (built CreateFilter (fs @ [ks]) [])"
    using Suc.hyps(2) by (subst start_block_loop.simps) (simp add: GenerateFilter_built)
  moreover obtain fs' ks' where "start_block_loop CreateFilter i (built CreateFilter (fs @ [ks]) []) = built CreateFilter fs' ks'"
      "length fs' = i" "concat fs' @ ks' = concat fs @ ks" "\<forall>j k. located (fs @ [ks]) [] j k \<longrightarrow> located fs' ks' j k"
    using Suc.hyps(1)[OF n, of "[]"] by auto
  ultimately show ?case by (intro exI[of _ fs'] exI[of _ ks']) simp
qed

lemma add_blocks_built:
  assumes "\<And>off ks. (off, ks) \<in> set blocks \<Longrightarrow> length fs \<le> unat off div kFilterBase"
    "sorted (map (\<lambda>(off, ks). unat off) blocks)"
  shows "\<exists>fs' ks'. fold (add_block CreateFilter) blocks (built CreateFilter fs ks) = built CreateFilter fs' ks' \<and>
    concat fs' @ ks' = concat fs @ ks @ concat (map snd blocks) \<and>
    (\<forall>j k. located fs ks j k \<longrightarrow> located fs' ks' j k) \<and>
    (\<forall>(off, keys) \<in> set blocks. \<forall>k \<in> set keys. located fs' ks' (unat off div kFilterBase) k)"
  using assms
proof (induction blocks arbitrary: fs ks)
  case (Cons b blocks)
  obtain off keys where b: "b = (off, keys)" by (cases b)
  let ?i = "unat off div kFilterBase"
  obtain fs1 ks1 where 1: "start_block_loop CreateFilter ?i (built CreateFilter fs ks) = built CreateFilter fs1 ks1"
      "length fs1 = ?i" "concat fs1 @ ks1 = concat fs @ ks" "\<And>j k. located fs ks j k \<Longrightarrow> located fs1 ks1 j k"
    using start_block_loop_built[of fs ?i ks] Cons.prems(1) b by auto
  have step: "add_block CreateFilter (off, keys) (built CreateFilter fs ks) = built CreateFilter fs1 (ks1 @ keys)"
    by (simp add: add_block_def StartBlock_def 1(1) fold_AddKey_built)
  have "?i \<le> unat off' div kFilterBase" if "(off', ks') \<in> set blocks" for off' ks'
    using Cons.prems(2) that by (intro div_le_mono) (fastforce simp: b)
  then obtain fs2 ks2 where 2: "fold (add_block CreateFilter) blocks (built CreateFilter fs1 (ks1 @ keys)) = built CreateFilter fs2 ks2"
      "concat fs2 @ ks2 = concat fs1 @ (ks1 @ keys) @ concat (map snd blocks)"
      "\<And>j k. located fs1 (ks1 @ keys) j k \<Longrightarrow> located fs2 ks2 j k"
      "\<forall>(off, keys) \<in> set blocks. \<forall>k \<in> set keys. located fs2 ks2 (unat off div kFilterBase) k"
    using Cons.IH[of fs1 "ks1 @ keys"] 1(2) Cons.prems(2) by auto
  have "located fs1 (ks1 @ keys) j k" if "located fs1 ks1 j k" for j k using that by (auto simp: located_def)
  moreover have "located fs1 (ks1 @ keys) ?i k" if "k \<in> set keys" for k using that 1(2) by (auto simp: located_def)
  ultimately show ?case
    using 2 1(3,4) by (intro exI[of _ fs2] exI[of _ ks2]) (auto simp: step b append_assoc[symmetric] simp del: append_assoc)
qed auto

lemma Finish_built:
  "\<exists>gs. FilterBlockBuilder_Finish CreateFilter (built CreateFilter fs ks) =
     filters CreateFilter gs @ fixed32_array (map (\<lambda>i. word_of_nat (length (filters CreateFilter (take i gs)))) [0..<length gs]) @
     EncodeFixed32 (word_of_nat (length (filters CreateFilter gs))) @ [word_of_nat kFilterBaseLg] \<and>
   concat gs = concat fs @ ks \<and> (\<forall>j k. located fs ks j k \<longrightarrow> j < length gs \<and> k \<in> set (gs ! j))"
proof -
  let ?gs = "if ks = [] then fs else fs @ [ks]"
  have b: "(if fb_start (built CreateFilter fs ks) \<noteq> [] then GenerateFilter CreateFilter (built CreateFilter fs ks) else built CreateFilter fs ks) =
      built CreateFilter ?gs []"
    by (simp add: GenerateFilter_built) (simp add: built_def starts_Nil_iff)
  show ?thesis
    unfolding FilterBlockBuilder_Finish_def Let_def b fold_PutFixed32
    by (rule exI[of _ ?gs]) (auto simp: PutFixed32_def located_def nth_append built_def)
qed

text \<open>The reader on the contents that the builder finished.\<close>

lemma reader_finds:
  assumes size: "length (filters CreateFilter gs) < 2 ^ 32"
    and contents: "contents = filters CreateFilter gs @
      fixed32_array (map (\<lambda>i. word_of_nat (length (filters CreateFilter (take i gs)))) [0..<length gs]) @
      EncodeFixed32 (word_of_nat (length (filters CreateFilter gs))) @ [word_of_nat kFilterBaseLg]"
    and i: "unat off div kFilterBase = i" "i < length gs" and key: "key \<in> set (gs ! i)"
    and keys: "length (gs ! i) < 2 ^ 31" "list_all valid (gs ! i)"
  shows "FilterBlockReader_KeyMayMatch KeyMayMatch (FilterBlockReader_new contents) off key"
proof -
  let ?len = "\<lambda>i. length (filters CreateFilter (take i gs))"
  let ?R = "length (filters CreateFilter gs)" and ?offs = "map (\<lambda>i. word_of_nat (?len i)) [0..<Suc (length gs)] :: u32 list"
  have arr: "contents = filters CreateFilter gs @ fixed32_array ?offs @ [word_of_nat kFilterBaseLg]"
    by (simp add: contents fixed32_array_append) (simp add: fixed32_array_def)
  have n: "length contents = ?R + 4 * length gs + 5" by (simp add: contents)
  have le: "?len j \<le> ?R" for j
    using append_take_drop_id[of j gs] filters_append[of CreateFilter "take j gs" "drop j gs"] by (metis le_add1 length_append)
  have u: "unat (word_of_nat (?len j) :: u32) = ?len j" for j using le[of j] size by (intro unat_word_of_nat) simp
  have dec: "DecodeFixed32 (drop (?R + 4 * j) contents) = word_of_nat (?len j)" if "j \<le> length gs" for j
    using DecodeFixed32_array[of j ?offs] that unfolding arr by (simp del: upt_Suc)
  have "DecodeFixed32 (drop (length contents - 5) contents) = word_of_nat ?R" using dec[of "length gs"] n by simp
  moreover have "unat (word_of_nat ?R :: u32) = ?R" using u[of "length gs"] by simp
  moreover have "contents ! (length contents - 1) = 11" by (simp add: contents kFilterBaseLg_def nth_append)
  moreover have "unat (scast (11 :: byte) :: u64) = 11" by simp
  ultimately have r: "FilterBlockReader_new contents = \<lparr>fr_data = contents, fr_offset = ?R, fr_num = length gs, fr_base_lg = 11\<rparr>"
    using n by (simp add: FilterBlockReader_new_def Let_def)
  have idx: "unat (drop_bit 11 off) = i" unfolding unat_drop_bit_eq using i(1) by (simp add: drop_bit_eq_div kFilterBase_def kFilterBaseLg_def)
  have d: "DecodeFixed32 (drop (?R + i * 4) contents) = word_of_nat (?len i)"
    "DecodeFixed32 (drop (?R + i * 4 + 4) contents) = word_of_nat (?len (Suc i))"
    using dec[of i] dec[of "Suc i"] i(2) by (simp_all add: algebra_simps)
  have len: "?len (Suc i) = ?len i + length (filter_of CreateFilter (gs ! i))"
    using i(2) by (simp add: take_Suc_conv_app_nth)
  have "filters CreateFilter gs = filters CreateFilter (take i gs) @ filter_of CreateFilter (gs ! i) @ filters CreateFilter (drop (Suc i) gs)"
    using i(2) by (metis append_assoc filters_append filters_simps(2) id_take_nth_drop append_Cons)
  then have "take (?len (Suc i) - ?len i) (drop (?len i) contents) = filter_of CreateFilter (gs ! i)"
    by (simp add: contents len)
  moreover have "filter_of CreateFilter (gs ! i) = CreateFilter (gs ! i) []" using key by (auto simp: filter_of_def)
  ultimately have "KeyMayMatch key (take (?len (Suc i) - ?len i) (drop (?len i) contents))"
    using KeyMayMatch_created[OF keys key] by simp
  moreover have "?len i \<le> ?len (Suc i)" using len by simp
  ultimately show ?thesis
    unfolding FilterBlockReader_KeyMayMatch_def r Let_def FilterBlockReader.simps idx d u
    using i(2) le[of "Suc i"] by (simp only: if_True simp_thms)
qed

theorem filter_block_no_false_negative:
  assumes "sorted (map (\<lambda>(off, ks). unat off) blocks)" "length (concat (map snd blocks)) < 2 ^ 31"
    "list_all valid (concat (map snd blocks))" "(off, keys) \<in> set blocks" "key \<in> set keys"
    "contents = FilterBlockBuilder_Finish CreateFilter (fold (add_block CreateFilter) blocks FilterBlockBuilder_new)"
    "length contents < 2 ^ 32"
  shows "FilterBlockReader_KeyMayMatch KeyMayMatch (FilterBlockReader_new contents) off key"
proof -
  obtain fs ks where 1: "fold (add_block CreateFilter) blocks FilterBlockBuilder_new = built CreateFilter fs ks"
      "concat fs @ ks = concat (map snd blocks)" "\<forall>(off, keys) \<in> set blocks. \<forall>k \<in> set keys. located fs ks (unat off div kFilterBase) k"
    using add_blocks_built[of blocks "[]" "[]"] assms(1) built_new by auto
  obtain gs where 2: "contents = filters CreateFilter gs @
      fixed32_array (map (\<lambda>i. word_of_nat (length (filters CreateFilter (take i gs)))) [0..<length gs]) @
      EncodeFixed32 (word_of_nat (length (filters CreateFilter gs))) @ [word_of_nat kFilterBaseLg]"
      "concat gs = concat fs @ ks" "\<And>j k. located fs ks j k \<Longrightarrow> j < length gs \<and> k \<in> set (gs ! j)"
    using Finish_built[of fs ks] assms(6) 1(1) by auto
  have loc: "unat off div kFilterBase < length gs \<and> key \<in> set (gs ! (unat off div kFilterBase))"
    using 2(3) 1(3) assms(4,5) by blast
  then have mem: "gs ! (unat off div kFilterBase) \<in> set gs" by simp
  have "length (gs ! (unat off div kFilterBase)) \<le> length (concat gs)"
    using mem by (simp add: length_concat member_le_sum_list)
  moreover have "set (gs ! (unat off div kFilterBase)) \<subseteq> set (concat gs)" using mem by auto
  ultimately have "length (gs ! (unat off div kFilterBase)) < 2 ^ 31" "list_all valid (gs ! (unat off div kFilterBase))"
    using 2(2) 1(2) assms(2,3) by (auto simp: list_all_iff)
  then show ?thesis using reader_finds[OF _ 2(1) refl] loc assms(7) 2(1) by simp
qed

end

section \<open>Properties\<close>

text \<open>C14: a filter block never hides a key: if a table builder added the blocks of a table in the order of their
  offsets, then for every key of a block the reader of the finished filter block answers that the key
  may be there, whatever the number of bits per key.\<close>

theorem bloom_block_no_false_negative:
  assumes "sorted (map (\<lambda>(off, ks). unat off) blocks)" "length (concat (map snd blocks)) < 2 ^ 31"
    "list_all (\<lambda>k. 8 \<le> length k) (concat (map snd blocks))" "(off, keys) \<in> set blocks" "key \<in> set keys"
    "contents = FilterBlockBuilder_Finish (internal_CreateFilter (bloom_CreateFilter b))
       (fold (add_block (internal_CreateFilter (bloom_CreateFilter b))) blocks FilterBlockBuilder_new)"
    "length contents < 2 ^ 32"
  shows "FilterBlockReader_KeyMayMatch (internal_KeyMayMatch bloom_KeyMayMatch) (FilterBlockReader_new contents) off key"
  by (rule internal_bloom.filter_block_no_false_negative[OF assms(1,2) _ assms(4-7)]) (use assms(3) in simp)

theorem bloom_block_no_false_negative_witness:
  "FilterBlockReader_KeyMayMatch (internal_KeyMayMatch bloom_KeyMayMatch)
     (FilterBlockReader_new (FilterBlockBuilder_Finish (internal_CreateFilter (bloom_CreateFilter 10))
       (fold (add_block (internal_CreateFilter (bloom_CreateFilter 10))) [(0, [[97, 0, 0, 0, 0, 0, 0, 0, 1]]), (5000, [[98, 0, 0, 0, 0, 0, 0, 0, 1]])]
         FilterBlockBuilder_new)))
     5000 [98, 0, 0, 0, 0, 0, 0, 0, 1]"
proof (rule bloom_block_no_false_negative[where keys = "[[98, 0, 0, 0, 0, 0, 0, 0, 1]]", OF _ _ _ _ _ refl])
  show "length (FilterBlockBuilder_Finish (internal_CreateFilter (bloom_CreateFilter 10))
       (fold (add_block (internal_CreateFilter (bloom_CreateFilter 10))) [(0, [[97, 0, 0, 0, 0, 0, 0, 0, 1]]), (5000, [[98, 0, 0, 0, 0, 0, 0, 0, 1]])]
         FilterBlockBuilder_new)) < 2 ^ 32"
    by (simp add: FilterBlockBuilder_Finish_def add_block_def StartBlock_def start_block_loop.simps GenerateFilter_def AddKey_def
        FilterBlockBuilder_new_def kFilterBase_def kFilterBaseLg_def internal_CreateFilter_def length_bloom_CreateFilter
        fold_PutFixed32 PutFixed32_def)
qed simp_all

end
