(* ===== verification/Ldb_File.thy ===== *)
theory Ldb_File
  imports Ldb_Status
begin

text \<open>
  LevelDB, the file classes of \<^verbatim>\<open>include/leveldb/env.h\<close> as contracts, and \<^verbatim>\<open>PosixWritableFile\<close> and
  \<^verbatim>\<open>PosixSequentialFile\<close> of \<^verbatim>\<open>util/env_posix.cc\<close>, which keep them. The system calls \<^verbatim>\<open>write\<close> and \<^verbatim>\<open>read\<close> are
  parameters; the locales \<open>write_call\<close> and \<open>read_call\<close> state what POSIX says of them for a regular file.
  A loop that retries an interrupted call may never end, hence \<open>None\<close>.
\<close>

section \<open>The contracts\<close>

text \<open>A file that is written in order: \<open>contents\<close> is what the calls that succeeded have put into it.\<close>

locale writable_file =
  fixes Append :: "slice \<Rightarrow> 'f \<Rightarrow> (Status \<times> 'f) option" and Flush :: "'f \<Rightarrow> (Status \<times> 'f) option" and contents :: "'f \<Rightarrow> byte list"
  assumes Append_contents: "Append data f = Some (st, f') \<Longrightarrow> Status_ok st \<Longrightarrow> contents f' = contents f @ data"
    and Flush_contents: "Flush f = Some (st, f') \<Longrightarrow> Status_ok st \<Longrightarrow> contents f' = contents f"

text \<open>A file whose operations succeed.\<close>

locale reliable_file = writable_file +
  fixes good :: "'a \<Rightarrow> bool"
  assumes Append_good: "good f \<Longrightarrow> \<exists>f'. Append data f = Some (Status_OK, f') \<and> good f'"
    and Flush_good: "good f \<Longrightarrow> \<exists>f'. Flush f = Some (Status_OK, f') \<and> good f'"

text \<open>
  A file that is read in order: \<open>rest\<close> is what is still to be read. A read that succeeds gives the
  next bytes, and fewer than asked for only at the end of the file.
\<close>

locale sequential_file =
  fixes Read :: "nat \<Rightarrow> 'f \<Rightarrow> (Status \<times> slice \<times> 'f) option" and rest :: "'f \<Rightarrow> byte list"
  assumes Read_ok: "Read n f = Some (st, result, f') \<Longrightarrow> Status_ok st \<Longrightarrow> result = take n (rest f) \<and> rest f' = drop n (rest f)"

text \<open>Reading such a file returns, possibly with an error, and does not fail as long as \<open>readable\<close> holds.\<close>

locale returning_file = sequential_file +
  fixes returns :: "'a \<Rightarrow> bool"
  assumes Read_returns: "returns f \<Longrightarrow> \<exists>st res f'. Read n f = Some (st, res, f') \<and> returns f'"

locale readable_file = sequential_file +
  fixes readable :: "'a \<Rightarrow> bool"
  assumes Read_readable: "readable f \<Longrightarrow> \<exists>res f'. Read n f = Some (Status_OK, res, f') \<and> readable f'"

sublocale readable_file \<subseteq> returning_file Read rest readable
  by unfold_locales (use Read_readable in blast)

section \<open>The system calls\<close>

datatype call_result = Bytes nat | Interrupted | is_Failed: Failed int

text \<open>\<open>written\<close> is the contents of the file the descriptor stands for.\<close>

locale write_call =
  fixes sys_write :: "byte list \<Rightarrow> 'w \<Rightarrow> call_result \<times> 'w" and written :: "'w \<Rightarrow> byte list"
  assumes write_Bytes: "sys_write data w = (Bytes n, w') \<Longrightarrow> n \<le> length data \<and> written w' = written w @ take n data"
    and write_Interrupted: "sys_write data w = (Interrupted, w') \<Longrightarrow> written w' = written w"

locale read_call =
  fixes sys_read :: "nat \<Rightarrow> 'w \<Rightarrow> (call_result \<times> byte list) \<times> 'w" and unread :: "'w \<Rightarrow> byte list"
  assumes read_Bytes: "sys_read n w = ((Bytes k, bs), w') \<Longrightarrow> take k bs = take n (unread w) \<and> unread w' = drop n (unread w)"
    and read_Interrupted: "sys_read n w = ((Interrupted, bs), w') \<Longrightarrow> unread w' = unread w"

text \<open>Signals are finitely many, and the medium is healthy or not.\<close>

locale patient_read_call = read_call +
  fixes pending :: "'a \<Rightarrow> nat"
  assumes read_pending: "sys_read n w = ((Interrupted, bs), w') \<Longrightarrow> pending w' < pending w"

locale reliable_read_call = patient_read_call +
  fixes healthy :: "'a \<Rightarrow> bool"
  assumes read_healthy: "healthy w \<Longrightarrow> sys_read n w = ((c, bs), w') \<Longrightarrow> healthy w' \<and> (\<forall>e. c \<noteq> Failed e)"

section \<open>The POSIX files\<close>

definition kWritableFileBufferSize :: nat where "kWritableFileBufferSize = 65536"

text \<open>\<open>ENOENT\<close> is 2; \<open>strerror\<close> is a parameter.\<close>

definition PosixError :: "(int \<Rightarrow> slice) \<Rightarrow> slice \<Rightarrow> int \<Rightarrow> Status" where
  "PosixError strerror context error_number =
     (if error_number = 2 then Status_new kNotFound context (strerror error_number)
      else Status_IOError context (strerror error_number))"

record 'w PosixWritableFile =
  pw_buf :: "byte list"
  pw_filename :: slice
  pw_fd :: 'w

text \<open>\<open>pw_buf\<close> is the part of \<^verbatim>\<open>buf_\<close> below \<^verbatim>\<open>pos_\<close>.\<close>

definition PosixWritableFile_new :: "slice \<Rightarrow> 'w \<Rightarrow> 'w PosixWritableFile" where
  "PosixWritableFile_new filename fd = \<lparr>pw_buf = [], pw_filename = filename, pw_fd = fd\<rparr>"

partial_function (option) WriteUnbuffered ::
    "(byte list \<Rightarrow> 'w \<Rightarrow> call_result \<times> 'w) \<Rightarrow> (int \<Rightarrow> slice) \<Rightarrow> slice \<Rightarrow> byte list \<Rightarrow> 'w \<Rightarrow> (Status \<times> 'w) option" where
  [code]: "WriteUnbuffered write strerror filename data fd =
     (if data = [] then Some (Status_OK, fd)
      else case write data fd of
             (Bytes n, fd) \<Rightarrow> WriteUnbuffered write strerror filename (drop n data) fd
           | (Interrupted, fd) \<Rightarrow> WriteUnbuffered write strerror filename data fd
           | (Failed e, fd) \<Rightarrow> Some (PosixError strerror filename e, fd))"

definition FlushBuffer ::
    "(byte list \<Rightarrow> 'w \<Rightarrow> call_result \<times> 'w) \<Rightarrow> (int \<Rightarrow> slice) \<Rightarrow> 'w PosixWritableFile \<Rightarrow> (Status \<times> 'w PosixWritableFile) option" where
  "FlushBuffer write strerror f =
     (case WriteUnbuffered write strerror (pw_filename f) (pw_buf f) (pw_fd f) of
        None \<Rightarrow> None
      | Some (status, fd) \<Rightarrow> Some (status, f\<lparr>pw_buf := [], pw_fd := fd\<rparr>))"

definition PosixWritableFile_Append ::
    "(byte list \<Rightarrow> 'w \<Rightarrow> call_result \<times> 'w) \<Rightarrow> (int \<Rightarrow> slice) \<Rightarrow> slice \<Rightarrow> 'w PosixWritableFile \<Rightarrow> (Status \<times> 'w PosixWritableFile) option" where
  "PosixWritableFile_Append write strerror data f =
     (let copy_size = min (length data) (kWritableFileBufferSize - length (pw_buf f));
          f = f\<lparr>pw_buf := pw_buf f @ take copy_size data\<rparr>;
          data = drop copy_size data
      in if data = [] then Some (Status_OK, f)
         else case FlushBuffer write strerror f of
                None \<Rightarrow> None
              | Some (status, f) \<Rightarrow>
                  if \<not> Status_ok status then Some (status, f)
                  else if length data < kWritableFileBufferSize then Some (Status_OK, f\<lparr>pw_buf := data\<rparr>)
                  else (case WriteUnbuffered write strerror (pw_filename f) data (pw_fd f) of
                          None \<Rightarrow> None
                        | Some (status, fd) \<Rightarrow> Some (status, f\<lparr>pw_fd := fd\<rparr>)))"

definition PosixWritableFile_Flush ::
    "(byte list \<Rightarrow> 'w \<Rightarrow> call_result \<times> 'w) \<Rightarrow> (int \<Rightarrow> slice) \<Rightarrow> 'w PosixWritableFile \<Rightarrow> (Status \<times> 'w PosixWritableFile) option" where
  "PosixWritableFile_Flush write strerror f = FlushBuffer write strerror f"

text \<open>\<^verbatim>\<open>PosixSequentialFile::Read\<close>; the file is the state behind the descriptor.\<close>

partial_function (option) PosixSequentialFile_Read ::
    "(nat \<Rightarrow> 'w \<Rightarrow> (call_result \<times> byte list) \<times> 'w) \<Rightarrow> (int \<Rightarrow> slice) \<Rightarrow> slice \<Rightarrow> nat \<Rightarrow> 'w \<Rightarrow> (Status \<times> slice \<times> 'w) option" where
  [code]: "PosixSequentialFile_Read read strerror filename n fd =
     (case read n fd of
        ((Bytes k, bs), fd) \<Rightarrow> Some (Status_OK, take k bs, fd)
      | ((Interrupted, bs), fd) \<Rightarrow> PosixSequentialFile_Read read strerror filename n fd
      | ((Failed e, bs), fd) \<Rightarrow> Some (PosixError strerror filename e, [], fd))"

text \<open>\<^verbatim>\<open>lseek(fd_, n, SEEK_CUR)\<close> gives the error number when it fails.\<close>

definition PosixSequentialFile_Skip :: "(u64 \<Rightarrow> 'w \<Rightarrow> int option \<times> 'w) \<Rightarrow> (int \<Rightarrow> slice) \<Rightarrow> slice \<Rightarrow> u64 \<Rightarrow> 'w \<Rightarrow> Status \<times> 'w" where
  "PosixSequentialFile_Skip lseek strerror filename n fd =
     (case lseek n fd of
        (Some e, fd) \<Rightarrow> (PosixError strerror filename e, fd)
      | (None, fd) \<Rightarrow> (Status_OK, fd))"

section \<open>They keep the contracts\<close>

lemma PosixError_not_ok [simp]: "\<not> Status_ok (PosixError strerror context e)"
  by (simp add: PosixError_def Status_IOError_def Status_new_def Status_ok_def Let_def)

definition posix_contents :: "('w \<Rightarrow> byte list) \<Rightarrow> 'w PosixWritableFile \<Rightarrow> byte list" where
  "posix_contents written f = written (pw_fd f) @ pw_buf f"

context write_call
begin

lemma WriteUnbuffered_written:
  assumes "WriteUnbuffered sys_write strerror filename data fd = Some (st, fd')" "Status_ok st"
  shows "written fd' = written fd @ data"
proof -
  define P where "P wr se fn data fd r \<longleftrightarrow> (\<forall>st fd'. r = (st, fd') \<longrightarrow> wr = sys_write \<longrightarrow> Status_ok st \<longrightarrow> written fd' = written fd @ data)"
    for wr and se :: "int \<Rightarrow> slice" and fn :: slice and data fd r
  have "P sys_write strerror filename data fd (st, fd')"
  proof (rule WriteUnbuffered.raw_induct[where P = P, OF _ assms(1)])
    fix rc wr se fn data fd r
    assume 1: "\<And>wr se fn data fd r. rc wr se fn data fd = Some r \<Longrightarrow> P wr se fn data fd r"
      and 2: "(if data = [] then Some (Status_OK, fd)
        else case wr data fd of
               (Bytes n, fd) \<Rightarrow> rc wr se fn (drop n data) fd
             | (Interrupted, fd) \<Rightarrow> rc wr se fn data fd
             | (Failed e, fd) \<Rightarrow> Some (PosixError se fn e, fd)) = Some r"
    show "P wr se fn data fd r"
      unfolding P_def
    proof (intro allI impI)
      fix st fd' assume r: "r = (st, fd')" "wr = sys_write" "Status_ok st"
      obtain c fd1 where c: "sys_write data fd = (c, fd1)" by fastforce
      show "written fd' = written fd @ data"
      proof (cases "data = []")
        case False
        show ?thesis
        proof (cases c)
          case (Bytes n)
          then have "rc sys_write se fn (drop n data) fd1 = Some r" using 2 False c r(2) by simp
          then have "written fd' = written fd1 @ drop n data" using 1[unfolded P_def] r by blast
          then show ?thesis using write_Bytes[of data fd n fd1] c Bytes by simp
        next
          case Interrupted
          then have "rc sys_write se fn data fd1 = Some r" using 2 False c r(2) by simp
          then have "written fd' = written fd1 @ data" using 1[unfolded P_def] r by blast
          then show ?thesis using write_Interrupted[of data fd fd1] c Interrupted by simp
        qed (use 2 False c r in auto)
      qed (use 2 r in auto)
    qed
  qed
  then show ?thesis using assms(2) by (simp add: P_def)
qed

lemma FlushBuffer_contents:
  assumes "FlushBuffer sys_write strerror f = Some (st, f')" "Status_ok st"
  shows "posix_contents written f' = posix_contents written f \<and> pw_buf f' = []"
  using assms by (auto simp: FlushBuffer_def posix_contents_def split: option.splits dest!: WriteUnbuffered_written)

lemma posix_writable_file:
  "writable_file (PosixWritableFile_Append sys_write strerror) (PosixWritableFile_Flush sys_write strerror) (posix_contents written)"
proof
  fix data f st f'
  assume app: "PosixWritableFile_Append sys_write strerror data f = Some (st, f')" and ok: "Status_ok st"
  define n where "n = min (length data) (kWritableFileBufferSize - length (pw_buf f))"
  define f1 where "f1 = f\<lparr>pw_buf := pw_buf f @ take n data\<rparr>"
  have f1: "posix_contents written f1 = posix_contents written f @ take n data" by (simp add: f1_def posix_contents_def)
  show "posix_contents written f' = posix_contents written f @ data"
  proof (cases "drop n data = []")
    case True
    then show ?thesis using app f1 by (simp add: PosixWritableFile_Append_def n_def f1_def Let_def)
  next
    case False
    obtain st1 f2 where fl: "FlushBuffer sys_write strerror f1 = Some (st1, f2)"
      using app False by (auto simp: PosixWritableFile_Append_def n_def f1_def Let_def split: option.splits)
    note body = app[unfolded PosixWritableFile_Append_def Let_def, folded n_def, folded f1_def, simplified False if_False fl option.case prod.case]
    have st1: "Status_ok st1" using body ok by (auto split: if_splits)
    then have f2: "posix_contents written f2 = posix_contents written f @ take n data" "pw_buf f2 = []"
      using FlushBuffer_contents[OF fl] f1 by simp_all
    show ?thesis
    proof (cases "length (drop n data) < kWritableFileBufferSize")
      case True
      then have "f' = f2\<lparr>pw_buf := drop n data\<rparr>" using body st1 by simp
      then show ?thesis using f2 by (simp add: posix_contents_def)
    next
      case large: False
      then obtain fd where "WriteUnbuffered sys_write strerror (pw_filename f2) (drop n data) (pw_fd f2) = Some (st, fd)" "f' = f2\<lparr>pw_fd := fd\<rparr>"
        using body st1 by (auto split: option.splits)
      then show ?thesis using WriteUnbuffered_written ok f2 by (simp add: posix_contents_def)
    qed
  qed
next
  show "posix_contents written f' = posix_contents written f"
    if "PosixWritableFile_Flush sys_write strerror f = Some (st, f')" "Status_ok st" for f st f'
    using FlushBuffer_contents that by (simp add: PosixWritableFile_Flush_def)
qed

end

context read_call
begin

lemma posix_sequential_file: "sequential_file (PosixSequentialFile_Read sys_read strerror filename) unread"
proof
  define P where "P rd se fn n fd r \<longleftrightarrow> (\<forall>st bs fd'. r = (st, bs, fd') \<longrightarrow> rd = sys_read \<longrightarrow> Status_ok st \<longrightarrow>
      bs = take n (unread fd) \<and> unread fd' = drop n (unread fd))"
    for rd and se :: "int \<Rightarrow> slice" and fn :: slice and n fd r
  have P: "P rd se fn n fd r" if "PosixSequentialFile_Read rd se fn n fd = Some r" for rd se fn n fd r
  proof (rule PosixSequentialFile_Read.raw_induct[where P = P, OF _ that])
    fix rc rd se fn n fd r
    assume 1: "\<And>rd se fn n fd r. rc rd se fn n fd = Some r \<Longrightarrow> P rd se fn n fd r"
      and 2: "(case rd n fd of
        ((Bytes k, bs), fd) \<Rightarrow> Some (Status_OK, take k bs, fd)
      | ((Interrupted, bs), fd) \<Rightarrow> rc rd se fn n fd
      | ((Failed e, bs), fd) \<Rightarrow> Some (PosixError se fn e, [], fd)) = Some r"
    obtain c bs fd1 where c: "rd n fd = ((c, bs), fd1)" by (metis prod.exhaust)
    show "P rd se fn n fd r"
      unfolding P_def
    proof (intro allI impI)
      fix st bs' fd' assume r: "r = (st, bs', fd')" "rd = sys_read" "Status_ok st"
      show "bs' = take n (unread fd) \<and> unread fd' = drop n (unread fd)"
      proof (cases c)
        case (Bytes k)
        then show ?thesis using 2 c r read_Bytes by (simp add: Status_OK_def)
      next
        case Interrupted
        then have "rc sys_read se fn n fd1 = Some r" "unread fd1 = unread fd" using 2 c r(2) read_Interrupted by simp_all
        then show ?thesis using 1[unfolded P_def] r by metis
      qed (use 2 c r in auto)
    qed
  qed
  show "bs = take n (unread f) \<and> unread f' = drop n (unread f)"
    if "PosixSequentialFile_Read sys_read strerror filename n f = Some (st, bs, f')" "Status_ok st" for n f st bs f'
    using P[OF that(1)] that(2) by (simp add: P_def)
qed

end

context patient_read_call
begin

lemma posix_read_returns: "\<exists>st res fd'. PosixSequentialFile_Read sys_read strerror filename n fd = Some (st, res, fd')"
proof (induction "pending fd" arbitrary: fd rule: less_induct)
  case less
  obtain c bs fd1 where "sys_read n fd = ((c, bs), fd1)" by (metis prod.exhaust)
  then show ?case using less[of fd1] read_pending[of n fd bs fd1] by (subst PosixSequentialFile_Read.simps) (cases c; auto)
qed

lemma posix_returning_file: "returning_file (PosixSequentialFile_Read sys_read strerror filename) unread (\<lambda>_. True)"
  using posix_sequential_file posix_read_returns by (auto simp: returning_file_def returning_file_axioms_def)

end

context reliable_read_call
begin

lemma posix_read_ok: "healthy fd \<Longrightarrow> \<exists>res fd'. PosixSequentialFile_Read sys_read strerror filename n fd = Some (Status_OK, res, fd') \<and> healthy fd'"
proof (induction "pending fd" arbitrary: fd rule: less_induct)
  case less
  obtain c bs fd1 where "sys_read n fd = ((c, bs), fd1)" by (metis prod.exhaust)
  then show ?case using less(1)[of fd1] read_healthy[OF less(2), of n c bs fd1] read_pending[of n fd bs fd1]
    by (subst PosixSequentialFile_Read.simps) (cases c; auto)
qed

lemma posix_readable_file: "readable_file (PosixSequentialFile_Read sys_read strerror filename) unread healthy"
  using posix_sequential_file posix_read_ok by (auto simp: readable_file_def readable_file_axioms_def)

end

section \<open>A kernel that follows a script\<close>

text \<open>
  A model of the system calls for concrete runs: the file, the position of the reader, and what
  the next calls do. Without a script every call transfers all it can.
\<close>

record kernel =
  k_file :: "byte list"
  k_pos :: nat
  k_script :: "call_result list"

definition script_write :: "byte list \<Rightarrow> kernel \<Rightarrow> call_result \<times> kernel" where
  "script_write data w =
     (case k_script w of
        [] \<Rightarrow> (Bytes (length data), w\<lparr>k_file := k_file w @ data\<rparr>)
      | Bytes n # s \<Rightarrow> (Bytes (min n (length data)), w\<lparr>k_file := k_file w @ take n data, k_script := s\<rparr>)
      | r # s \<Rightarrow> (r, w\<lparr>k_script := s\<rparr>))"

definition script_read :: "nat \<Rightarrow> kernel \<Rightarrow> (call_result \<times> byte list) \<times> kernel" where
  "script_read n w =
     (let bs = take n (drop (k_pos w) (k_file w)); ok = ((Bytes (length bs), bs), w\<lparr>k_pos := k_pos w + n, k_script := tl (k_script w)\<rparr>) in
      case k_script w of
        [] \<Rightarrow> ok
      | Bytes _ # s \<Rightarrow> ok
      | r # s \<Rightarrow> ((r, []), w\<lparr>k_script := s\<rparr>))"

definition script_unread :: "kernel \<Rightarrow> byte list" where
  "script_unread w = drop (k_pos w) (k_file w)"

interpretation script: write_call script_write k_file
  by unfold_locales (auto simp: script_write_def min_def split: list.splits call_result.splits if_splits)

definition script_healthy :: "kernel \<Rightarrow> bool" where
  "script_healthy w \<longleftrightarrow> list_all (\<lambda>c. \<not> is_Failed c) (k_script w)"

interpretation script: reliable_read_call script_read script_unread "\<lambda>w. length (k_script w)" script_healthy
  by unfold_locales
    (auto simp: script_read_def script_unread_def script_healthy_def Let_def add.commute split: list.splits call_result.splits)

interpretation script_file: writable_file "PosixWritableFile_Append script_write strerror" "PosixWritableFile_Flush script_write strerror"
    "posix_contents k_file" for strerror
  by (rule script.posix_writable_file)

interpretation script_file: readable_file "PosixSequentialFile_Read script_read strerror filename" script_unread script_healthy
  for strerror filename
  by (rule script.posix_readable_file)

lemma WriteUnbuffered_script:
  "script_healthy w \<Longrightarrow> \<exists>w'. WriteUnbuffered script_write strerror filename data w = Some (Status_OK, w') \<and> script_healthy w'"
proof (induction "k_script w" arbitrary: w data)
  case Nil
  then show ?case
    by (subst WriteUnbuffered.simps) (auto simp: script_write_def script_healthy_def, subst WriteUnbuffered.simps, simp)
next
  case (Cons c s)
  obtain r w' where w': "script_write data w = (r, w')" by fastforce
  moreover from this have "k_script w' = s" "script_healthy w'" "\<not> is_Failed r"
    using Cons.hyps(2)[symmetric] Cons.prems by (auto simp: script_write_def script_healthy_def split: call_result.splits)
  ultimately show ?case
    using Cons.hyps(1)[of w'] Cons.prems by (subst WriteUnbuffered.simps) (cases r; auto)
qed

interpretation script_file: reliable_file "PosixWritableFile_Append script_write strerror" "PosixWritableFile_Flush script_write strerror"
    "posix_contents k_file" "\<lambda>f. script_healthy (pw_fd f)" for strerror
proof
  have flush: "\<exists>f'. FlushBuffer script_write strerror f = Some (Status_OK, f') \<and> script_healthy (pw_fd f')" if "script_healthy (pw_fd f)" for f
    using WriteUnbuffered_script[OF that, of strerror "pw_filename f" "pw_buf f"] by (auto simp: FlushBuffer_def)
  then show "\<exists>f'. PosixWritableFile_Flush script_write strerror f = Some (Status_OK, f') \<and> script_healthy (pw_fd f')"
    if "script_healthy (pw_fd f)" for f using that by (simp add: PosixWritableFile_Flush_def)
  show "\<exists>f'. PosixWritableFile_Append script_write strerror data f = Some (Status_OK, f') \<and> script_healthy (pw_fd f')"
    if "script_healthy (pw_fd f)" for data f
  proof -
    note good = that
    define n where "n = min (length data) (kWritableFileBufferSize - length (pw_buf f))"
    obtain f1 where f1: "FlushBuffer script_write strerror (f\<lparr>pw_buf := pw_buf f @ take n data\<rparr>) = Some (Status_OK, f1)" "script_healthy (pw_fd f1)"
      using flush[of "f\<lparr>pw_buf := pw_buf f @ take n data\<rparr>"] good by auto
    then show ?thesis
      using WriteUnbuffered_script[OF f1(2), of strerror "pw_filename f1" "drop n data"] good
      unfolding PosixWritableFile_Append_def Let_def n_def[symmetric] by (auto simp: Status_ok_def Status_OK_def)
  qed
qed

end
