(* ===== verification/Ldb_Log.thy ===== *)
theory Ldb_Log
  imports Ldb_File Ldb_Crc32c
begin

text \<open>
  LevelDB, the write-ahead log: \<^verbatim>\<open>db/log_format.h\<close>, \<^verbatim>\<open>db/log_writer.cc\<close> and \<^verbatim>\<open>db/log_reader.cc\<close>. The file operations
  are arguments. The address of the data that is summed plays no role for the checksum, so it is 0.
\<close>

section \<open>The format\<close>

definition kZeroType :: u32 where "kZeroType = 0"
definition kFullType :: u32 where "kFullType = 1"
definition kFirstType :: u32 where "kFirstType = 2"
definition kMiddleType :: u32 where "kMiddleType = 3"
definition kLastType :: u32 where "kLastType = 4"
definition kMaxRecordType :: u32 where "kMaxRecordType = kLastType"

lemmas record_types = kZeroType_def kFullType_def kFirstType_def kMiddleType_def kLastType_def kMaxRecordType_def

definition kBlockSize :: nat where "kBlockSize = 32768"
definition kHeaderSize :: nat where "kHeaderSize = 4 + 2 + 1"

lemmas block_sizes = kBlockSize_def kHeaderSize_def

section \<open>The writer\<close>

record 'f Writer =
  w_dest :: 'f
  w_block_offset :: nat
  w_type_crc :: "u32 list"

definition InitTypeCrc :: "u32 list" where
  "InitTypeCrc = map (\<lambda>i. Crc_Value 0 [word_of_nat i]) [0..<Suc (unat kMaxRecordType)]"

definition Writer_new :: "'f \<Rightarrow> 'f Writer" where
  "Writer_new dest = \<lparr>w_dest = dest, w_block_offset = 0, w_type_crc = InitTypeCrc\<rparr>"

definition Writer_reopen :: "'f \<Rightarrow> u64 \<Rightarrow> 'f Writer" where
  "Writer_reopen dest dest_length =
     \<lparr>w_dest = dest, w_block_offset = unat dest_length mod kBlockSize, w_type_crc = InitTypeCrc\<rparr>"

definition record_header :: "u32 list \<Rightarrow> u32 \<Rightarrow> slice \<Rightarrow> byte list" where
  "record_header type_crc t data =
     (let n = length data; crc = Crc_Mask (Extend (type_crc ! unat t) 0 data) in
      EncodeFixed32 crc @ [word_of_nat (n mod 256), word_of_nat (n div 256), ucast t])"

definition EmitPhysicalRecord ::
    "(slice \<Rightarrow> 'f \<Rightarrow> (Status \<times> 'f) option) \<Rightarrow> ('f \<Rightarrow> (Status \<times> 'f) option) \<Rightarrow> u32 \<Rightarrow> slice \<Rightarrow> 'f Writer \<Rightarrow> (Status \<times> 'f Writer) option" where
  "EmitPhysicalRecord fappend flush t data w =
     (let offset = w_block_offset w + kHeaderSize + length data in
      case fappend (record_header (w_type_crc w) t data) (w_dest w) of
        None \<Rightarrow> None
      | Some (s, f) \<Rightarrow>
          if \<not> Status_ok s then Some (s, w\<lparr>w_dest := f, w_block_offset := offset\<rparr>)
          else (case fappend data f of
                  None \<Rightarrow> None
                | Some (s, f) \<Rightarrow>
                    if \<not> Status_ok s then Some (s, w\<lparr>w_dest := f, w_block_offset := offset\<rparr>)
                    else (case flush f of
                            None \<Rightarrow> None
                          | Some (s, f) \<Rightarrow> Some (s, w\<lparr>w_dest := f, w_block_offset := offset\<rparr>))))"

text \<open>The first statements of the loop; the status of the padding is ignored.\<close>

definition switch_block :: "(slice \<Rightarrow> 'f \<Rightarrow> (Status \<times> 'f) option) \<Rightarrow> 'f Writer \<Rightarrow> 'f Writer option" where
  "switch_block fappend w =
     (let leftover = kBlockSize - w_block_offset w in
      if leftover < kHeaderSize then
        (if leftover > 0
         then map_option (\<lambda>(_, f). w\<lparr>w_dest := f, w_block_offset := 0\<rparr>) (fappend (replicate leftover 0) (w_dest w))
         else Some (w\<lparr>w_block_offset := 0\<rparr>))
      else Some w)"

definition fragment_type :: "bool \<Rightarrow> bool \<Rightarrow> u32" where
  "fragment_type is_begin is_end =
     (if is_begin \<and> is_end then kFullType else if is_begin then kFirstType else if is_end then kLastType else kMiddleType)"

definition fragment_length :: "'f Writer \<Rightarrow> slice \<Rightarrow> nat" where
  "fragment_length w data =
     (let avail = kBlockSize - w_block_offset w - kHeaderSize in if length data < avail then length data else avail)"

text \<open>
  The do-while loop. A fragment may be empty when exactly a header fits into the block; the next
  one then starts a new block, so the loop ends.
\<close>

function add_fragments ::
    "(slice \<Rightarrow> 'f \<Rightarrow> (Status \<times> 'f) option) \<Rightarrow> ('f \<Rightarrow> (Status \<times> 'f) option) \<Rightarrow> bool \<Rightarrow> slice \<Rightarrow> 'f Writer \<Rightarrow> (Status \<times> 'f Writer) option" where
  "add_fragments fappend flush is_begin data w =
     (case switch_block fappend w of
        None \<Rightarrow> None
      | Some w' \<Rightarrow>
          (case EmitPhysicalRecord fappend flush
              (fragment_type is_begin (length data = fragment_length w' data)) (take (fragment_length w' data) data) w' of
             None \<Rightarrow> None
           | Some (s, w'') \<Rightarrow>
               if Status_ok s \<and> drop (fragment_length w' data) data \<noteq> []
               then add_fragments fappend flush False (drop (fragment_length w' data) data) w''
               else Some (s, w'')))"
  by pat_completeness auto

lemma EmitPhysicalRecord_offset:
  "EmitPhysicalRecord fappend flush t data w = Some (s, w') \<Longrightarrow> w_block_offset w' = w_block_offset w + kHeaderSize + length data"
  by (auto simp: EmitPhysicalRecord_def Let_def split: option.splits if_splits)

lemma switch_block_offset:
  "switch_block fappend w = Some w' \<Longrightarrow>
     w_block_offset w' = (if kBlockSize - w_block_offset w < kHeaderSize then 0 else w_block_offset w)"
  by (auto simp: switch_block_def Let_def split: if_splits)

lemma add_fragments_decreases:
  assumes "switch_block fappend w = Some w'"
    and "EmitPhysicalRecord fappend flush t (take (fragment_length w' data) data) w' = Some (s, w'')"
    and "drop (fragment_length w' data) data \<noteq> []"
  shows "2 * length (drop (fragment_length w' data) data) + of_bool (kBlockSize - w_block_offset w'' = kHeaderSize)
    < 2 * length data + of_bool (kBlockSize - w_block_offset w = kHeaderSize)"
  using switch_block_offset[OF assms(1)] EmitPhysicalRecord_offset[OF assms(2)] assms(3)
  by (auto simp: fragment_length_def Let_def block_sizes split: if_splits)

termination add_fragments
proof (relation "measure (\<lambda>(fappend, flush, is_begin, data, w).
    2 * length data + of_bool (kBlockSize - w_block_offset w = kHeaderSize))", goal_cases)
  case (2 fappend flush is_begin data w w' sw s w'')
  then show ?case using add_fragments_decreases[of fappend w w' flush _ data s w''] by (simp del: length_drop drop_eq_Nil)
qed simp

declare add_fragments.simps [simp del]

definition AddRecord ::
    "(slice \<Rightarrow> 'f \<Rightarrow> (Status \<times> 'f) option) \<Rightarrow> ('f \<Rightarrow> (Status \<times> 'f) option) \<Rightarrow> slice \<Rightarrow> 'f Writer \<Rightarrow> (Status \<times> 'f Writer) option" where
  "AddRecord fappend flush data w = add_fragments fappend flush True data w"

section \<open>The reader\<close>

text \<open>
  \<open>r_buffer\<close> is the slice \<^verbatim>\<open>buffer_\<close> of the backing store, \<open>r_reporter\<close> tells that there is a reporter and
  \<open>r_reports\<close> collects the calls of its \<^verbatim>\<open>Corruption\<close>. The fragment a call returns is a slice of the backing
  store as well; when a later call returns no fragment only its size is looked at again, so it is passed on.
\<close>

record 'f Reader =
  r_file :: 'f
  r_reporter :: bool
  r_checksum :: bool
  r_buffer :: slice
  r_eof :: bool
  r_last_record_offset :: u64
  r_end_of_buffer_offset :: u64
  r_initial_offset :: u64
  r_resyncing :: bool
  r_reports :: "(u64 \<times> Status) list"

definition kEof :: u32 where "kEof = kMaxRecordType + 1"
definition kBadRecord :: u32 where "kBadRecord = kMaxRecordType + 2"

definition Reader_new :: "'f \<Rightarrow> bool \<Rightarrow> bool \<Rightarrow> u64 \<Rightarrow> 'f Reader" where
  "Reader_new file reporter checksum initial_offset =
     \<lparr>r_file = file, r_reporter = reporter, r_checksum = checksum, r_buffer = [], r_eof = False,
      r_last_record_offset = 0, r_end_of_buffer_offset = 0, r_initial_offset = initial_offset,
      r_resyncing = (initial_offset > 0), r_reports = []\<rparr>"

definition ReportDrop :: "u64 \<Rightarrow> Status \<Rightarrow> 'f Reader \<Rightarrow> 'f Reader" where
  "ReportDrop bytes reason r =
     (if r_reporter r \<and> r_end_of_buffer_offset r - word_of_nat (length (r_buffer r)) - bytes \<ge> r_initial_offset r
      then r\<lparr>r_reports := r_reports r @ [(bytes, reason)]\<rparr> else r)"

definition ReportCorruption :: "u64 \<Rightarrow> slice \<Rightarrow> 'f Reader \<Rightarrow> 'f Reader" where
  "ReportCorruption bytes reason r = ReportDrop bytes (Status_Corruption reason) r"

definition SkipToInitialBlock :: "(u64 \<Rightarrow> 'f \<Rightarrow> Status \<times> 'f) \<Rightarrow> 'f Reader \<Rightarrow> bool \<times> 'f Reader" where
  "SkipToInitialBlock fskip r =
     (let offset_in_block = unat (r_initial_offset r) mod kBlockSize;
          block_start_location = r_initial_offset r - word_of_nat offset_in_block;
          block_start_location =
            (if offset_in_block > kBlockSize - 6 then block_start_location + word_of_nat kBlockSize else block_start_location);
          r = r\<lparr>r_end_of_buffer_offset := block_start_location\<rparr>
      in if block_start_location > 0 then
           (case fskip block_start_location (r_file r) of
              (skip_status, file) \<Rightarrow>
                let r = r\<lparr>r_file := file\<rparr> in
                if \<not> Status_ok skip_status then (False, ReportDrop block_start_location skip_status r) else (True, r))
         else (True, r))"

text \<open>The part of \<^verbatim>\<open>ReadPhysicalRecord\<close> after the buffer has been filled.\<close>

definition header_length :: "slice \<Rightarrow> u32" where
  "header_length header =
     (let a = ucast (header ! 4) AND 0xff; b = ucast (header ! 5) AND 0xff in a OR push_bit 8 b)"

definition parse_record :: "slice \<Rightarrow> 'f Reader \<Rightarrow> u32 \<times> slice \<times> 'f Reader" where
  "parse_record fragment r =
     (let header = r_buffer r;
          record_type = scast (header ! 6) :: u32;
          len = header_length header;
          n = unat len
      in if kHeaderSize + n > length (r_buffer r) then
           (let drop_size = length (r_buffer r); r = r\<lparr>r_buffer := []\<rparr> in
            if \<not> r_eof r then (kBadRecord, fragment, ReportCorruption (word_of_nat drop_size) (lit ''bad record length'') r)
            else (kEof, fragment, r))
         else if record_type = kZeroType \<and> len = 0 then (kBadRecord, fragment, r\<lparr>r_buffer := []\<rparr>)
         else if r_checksum r \<and> Crc_Value 0 (take (1 + n) (drop 6 header)) \<noteq> Crc_Unmask (DecodeFixed32 header) then
           (let drop_size = length (r_buffer r); r = r\<lparr>r_buffer := []\<rparr> in
            (kBadRecord, fragment, ReportCorruption (word_of_nat drop_size) (lit ''checksum mismatch'') r))
         else
           (let r = r\<lparr>r_buffer := remove_prefix (kHeaderSize + n) (r_buffer r)\<rparr> in
            if r_end_of_buffer_offset r - word_of_nat (length (r_buffer r)) - word_of_nat kHeaderSize - ucast len < r_initial_offset r
            then (kBadRecord, [], r)
            else (record_type, take n (drop kHeaderSize header), r)))"

text \<open>The body of \<^verbatim>\<open>while (true)\<close> runs at most twice: a read that does not fill the buffer sets \<^verbatim>\<open>eof_\<close>.\<close>

function ReadPhysicalRecord ::
    "(nat \<Rightarrow> 'f \<Rightarrow> (Status \<times> slice \<times> 'f) option) \<Rightarrow> slice \<Rightarrow> 'f Reader \<Rightarrow> (u32 \<times> slice \<times> 'f Reader) option" where
  "ReadPhysicalRecord fread fragment r =
     (if length (r_buffer r) < kHeaderSize then
        if \<not> r_eof r then
          (case fread kBlockSize (r_file r) of
             None \<Rightarrow> None
           | Some (status, buf, file) \<Rightarrow>
               (let r = r\<lparr>r_file := file, r_buffer := buf,
                   r_end_of_buffer_offset := r_end_of_buffer_offset r + word_of_nat (length buf)\<rparr>
                in if \<not> Status_ok status then
                     (let r = ReportDrop (word_of_nat kBlockSize) status (r\<lparr>r_buffer := []\<rparr>) in
                      Some (kEof, fragment, r\<lparr>r_eof := True\<rparr>))
                   else ReadPhysicalRecord fread fragment
                     (if length (r_buffer r) < kBlockSize then r\<lparr>r_eof := True\<rparr> else r)))
        else Some (kEof, fragment, r\<lparr>r_buffer := []\<rparr>)
      else Some (parse_record fragment r))"
  by pat_completeness auto
termination
  by (relation "measure (\<lambda>(fread, fragment, r). of_bool (length (r_buffer r) < kHeaderSize \<and> \<not> r_eof r))")
    (auto simp: block_sizes)

declare ReadPhysicalRecord.simps [simp del]

text \<open>
  The body of the loop of \<^verbatim>\<open>ReadRecord\<close> after the physical record has been read: \<open>Inl\<close> are the local variables
  with which \<^verbatim>\<open>continue\<close> or \<^verbatim>\<open>break\<close> goes on to the next one, \<open>Inr\<close> is what the function returns.
\<close>

type_synonym 'f read_locals = "bool \<times> u64 \<times> slice \<times> 'f Reader"
type_synonym 'f read_result = "bool \<times> slice \<times> slice \<times> 'f Reader"

definition report_partial :: "bool \<Rightarrow> slice \<Rightarrow> slice \<Rightarrow> 'f Reader \<Rightarrow> 'f Reader" where
  "report_partial in_fragmented_record scratch reason r =
     (if in_fragmented_record \<and> scratch \<noteq> [] then ReportCorruption (word_of_nat (length scratch)) reason r else r)"

definition record_case ::
    "u32 \<Rightarrow> slice \<Rightarrow> u64 \<Rightarrow> bool \<Rightarrow> u64 \<Rightarrow> slice \<Rightarrow> 'f Reader \<Rightarrow> 'f read_locals + 'f read_result" where
  "record_case record_type fragment physical_record_offset in_fragmented_record prospective scratch r =
     (if record_type = kFullType then
        (let r = report_partial in_fragmented_record scratch (lit ''partial record without end(1)'') r in
         Inr (True, fragment, [], r\<lparr>r_last_record_offset := physical_record_offset\<rparr>))
      else if record_type = kFirstType then
        (let r = report_partial in_fragmented_record scratch (lit ''partial record without end(2)'') r in
         Inl (True, physical_record_offset, fragment, r))
      else if record_type = kMiddleType then
        (if \<not> in_fragmented_record then
           Inl (in_fragmented_record, prospective, scratch,
             ReportCorruption (word_of_nat (length fragment)) (lit ''missing start of fragmented record(1)'') r)
         else Inl (in_fragmented_record, prospective, scratch @ fragment, r))
      else if record_type = kLastType then
        (if \<not> in_fragmented_record then
           Inl (in_fragmented_record, prospective, scratch,
             ReportCorruption (word_of_nat (length fragment)) (lit ''missing start of fragmented record(2)'') r)
         else Inr (True, scratch @ fragment, scratch @ fragment, r\<lparr>r_last_record_offset := prospective\<rparr>))
      else if record_type = kEof then
        Inr (False, [], if in_fragmented_record then [] else scratch, r)
      else if record_type = kBadRecord then
        (if in_fragmented_record then
           Inl (False, prospective, [], ReportCorruption (word_of_nat (length scratch)) (lit ''error in middle of record'') r)
         else Inl (in_fragmented_record, prospective, scratch, r))
      else
        Inl (False, prospective, [],
          ReportCorruption (word_of_nat (length fragment + (if in_fragmented_record then length scratch else 0)))
            (lit ''unknown record type '' @ decimal (unat record_type)) r))"

definition record_step :: "u32 \<Rightarrow> slice \<Rightarrow> bool \<Rightarrow> u64 \<Rightarrow> slice \<Rightarrow> 'f Reader \<Rightarrow> 'f read_locals + 'f read_result" where
  "record_step record_type fragment in_fragmented_record prospective scratch r =
     (let physical_record_offset = r_end_of_buffer_offset r - word_of_nat (length (r_buffer r)) -
            word_of_nat kHeaderSize - word_of_nat (length fragment)
      in if r_resyncing r \<and> record_type = kMiddleType then Inl (in_fragmented_record, prospective, scratch, r)
         else if r_resyncing r \<and> record_type = kLastType then
           Inl (in_fragmented_record, prospective, scratch, r\<lparr>r_resyncing := False\<rparr>)
         else record_case record_type fragment physical_record_offset in_fragmented_record prospective scratch
                (r\<lparr>r_resyncing := False\<rparr>))"

partial_function (option) read_record_loop ::
    "(nat \<Rightarrow> 'f \<Rightarrow> (Status \<times> slice \<times> 'f) option) \<Rightarrow> slice \<Rightarrow> 'f read_locals \<Rightarrow> 'f read_result option" where
  [code]: "read_record_loop fread fragment l =
     (case l of (in_fragmented_record, prospective, scratch, r) \<Rightarrow>
        case ReadPhysicalRecord fread fragment r of
          None \<Rightarrow> None
        | Some (record_type, fragment, r) \<Rightarrow>
            (case record_step record_type fragment in_fragmented_record prospective scratch r of
               Inl l \<Rightarrow> read_record_loop fread fragment l
             | Inr result \<Rightarrow> Some result))"

text \<open>The result tells whether a record was found, the record and the contents of \<^verbatim>\<open>scratch\<close>.\<close>

definition ReadRecord ::
    "(nat \<Rightarrow> 'f \<Rightarrow> (Status \<times> slice \<times> 'f) option) \<Rightarrow> (u64 \<Rightarrow> 'f \<Rightarrow> Status \<times> 'f) \<Rightarrow> slice \<Rightarrow> slice \<Rightarrow> 'f Reader \<Rightarrow>
     (bool \<times> slice \<times> slice \<times> 'f Reader) option" where
  "ReadRecord fread fskip rec scratch r =
     (if r_last_record_offset r < r_initial_offset r then
        (case SkipToInitialBlock fskip r of
           (skipped, r) \<Rightarrow>
             if \<not> skipped then Some (False, rec, scratch, r) else read_record_loop fread [] (False, 0, [], r))
      else read_record_loop fread [] (False, 0, [], r))"

definition LastRecordOffset :: "'f Reader \<Rightarrow> u64" where
  "LastRecordOffset r = r_last_record_offset r"

end
