(* ===== verification/Ldb_Log_Laws.thy ===== *)
theory Ldb_Log_Laws
  imports Ldb_Log
begin

text \<open>
  LevelDB, the laws of the write-ahead log. The reference is the layout of \<^verbatim>\<open>doc/log_format.md\<close>: the list of the
  physical records of a log and the bytes they occupy, \<open>place\<close>. The writer produces it, the reader takes it
  apart; both are proved against contracts of the files and then put together on the POSIX files.
\<close>

section \<open>The layout of a log\<close>

definition phys :: "u32 \<Rightarrow> slice \<Rightarrow> byte list" where
  "phys t data = record_header InitTypeCrc t data @ data"

definition log_pad :: "nat \<Rightarrow> byte list" where
  "log_pad off = (if kBlockSize - off < kHeaderSize then replicate (kBlockSize - off) 0 else [])"

definition log_start :: "nat \<Rightarrow> nat" where
  "log_start off = (if kBlockSize - off < kHeaderSize then 0 else off)"

definition log_next :: "nat \<Rightarrow> slice \<Rightarrow> nat" where
  "log_next off data = log_start off + kHeaderSize + length data"

fun place :: "nat \<Rightarrow> (u32 \<times> slice) list \<Rightarrow> byte list" where
  "place _ [] = []"
| "place off ((t, data) # ps) = log_pad off @ phys t data @ place (log_next off data) ps"

fun place_end :: "nat \<Rightarrow> (u32 \<times> slice) list \<Rightarrow> nat" where
  "place_end off [] = off"
| "place_end off ((t, data) # ps) = place_end (log_next off data) ps"

fun fits :: "nat \<Rightarrow> (u32 \<times> slice) list \<Rightarrow> bool" where
  "fits off [] \<longleftrightarrow> off \<le> kBlockSize"
| "fits off ((t, data) # ps) \<longleftrightarrow> off \<le> kBlockSize \<and> log_next off data \<le> kBlockSize \<and> 0 < t \<and> t \<le> kMaxRecordType \<and> fits (log_next off data) ps"

definition log_frag :: "nat \<Rightarrow> slice \<Rightarrow> nat" where
  "log_frag off data = min (length data) (kBlockSize - log_start off - kHeaderSize)"

function fragments :: "bool \<Rightarrow> nat \<Rightarrow> slice \<Rightarrow> (u32 \<times> slice) list" where
  "fragments is_begin off data =
     (fragment_type is_begin (length data = log_frag off data), take (log_frag off data) data) #
     (if log_frag off data < length data
      then fragments False (log_next off (take (log_frag off data) data)) (drop (log_frag off data) data) else [])"
  by pat_completeness auto
termination
  by (relation "measure (\<lambda>(is_begin, off, data). 2 * length data + of_bool (kBlockSize - off = kHeaderSize))")
    (auto simp: log_frag_def log_next_def log_start_def block_sizes)

declare fragments.simps [simp del]

fun log_frames :: "nat \<Rightarrow> slice list \<Rightarrow> (u32 \<times> slice) list" where
  "log_frames off [] = []"
| "log_frames off (d # ds) = fragments True off d @ log_frames (place_end off (fragments True off d)) ds"

lemma place_append: "place off (ps @ qs) = place off ps @ place (place_end off ps) qs"
  by (induction off ps rule: place.induct) simp_all

lemma place_end_append: "place_end off (ps @ qs) = place_end (place_end off ps) qs"
  by (induction off ps rule: place.induct) simp_all

lemma fits_append: "fits off (ps @ qs) \<longleftrightarrow> fits off ps \<and> fits (place_end off ps) qs"
  by (induction off ps rule: fits.induct) (auto elim: fits.elims)

lemma fits_fragments: "off \<le> kBlockSize \<Longrightarrow> fits off (fragments b off data)"
proof (induction b off data rule: fragments.induct)
  case (1 b off data)
  have "log_next off (take (log_frag off data) data) \<le> kBlockSize"
    by (auto simp: log_next_def log_frag_def log_start_def block_sizes)
  then show ?case using 1 by (subst fragments.simps) (auto simp: fragment_type_def record_types)
qed

lemma fits_end: "fits off ps \<Longrightarrow> place_end off ps \<le> kBlockSize"
  by (induction off ps rule: fits.induct) simp_all

lemma fits_log_frames: "off \<le> kBlockSize \<Longrightarrow> fits off (log_frames off ds)"
  by (induction off ds rule: log_frames.induct) (auto simp: fits_append fits_fragments fits_end)

lemma log_frames_append: "log_frames off (ds @ es) = log_frames off ds @ log_frames (place_end off (log_frames off ds)) es"
  by (induction off ds rule: log_frames.induct) (simp_all add: place_end_append)

text \<open>A fragmented record: a first fragment, middle ones, and a last one.\<close>

inductive tail_frames :: "(u32 \<times> slice) list \<Rightarrow> slice \<Rightarrow> bool" where
  last: "tail_frames [(kLastType, d)] d"
| middle: "tail_frames ps d' \<Longrightarrow> tail_frames ((kMiddleType, d) # ps) (d @ d')"

inductive record_frames :: "(u32 \<times> slice) list \<Rightarrow> slice \<Rightarrow> bool" where
  full: "record_frames [(kFullType, d)] d"
| first: "tail_frames ps d' \<Longrightarrow> record_frames ((kFirstType, d) # ps) (d @ d')"

lemma tail_frames_fragments: "tail_frames (fragments False off data) data"
proof (induction "False" off data rule: fragments.induct)
  case (1 off data)
  show ?case
  proof (cases "log_frag off data < length data")
    case True
    then have "fragment_type False (length data = log_frag off data) = kMiddleType" by (simp add: fragment_type_def)
    then show ?thesis
      using 1 True tail_frames.middle[of _ "drop (log_frag off data) data" "take (log_frag off data) data"]
      by (subst fragments.simps) simp
  next
    case False
    then have "log_frag off data = length data" by (simp add: log_frag_def)
    then show ?thesis by (subst fragments.simps) (simp add: fragment_type_def tail_frames.last)
  qed
qed

lemma record_frames_fragments: "record_frames (fragments True off data) data"
proof (cases "log_frag off data < length data")
  case True
  then have "fragment_type True (length data = log_frag off data) = kFirstType" by (simp add: fragment_type_def)
  then show ?thesis
    using True record_frames.first[OF tail_frames_fragments[where data = "drop (log_frag off data) data"],
      where d = "take (log_frag off data) data"]
    by (subst fragments.simps) simp
next
  case False
  then have "log_frag off data = length data" by (simp add: log_frag_def)
  then show ?thesis by (subst fragments.simps) (simp add: fragment_type_def record_frames.full)
qed

section \<open>The writer\<close>

text \<open>Adding records until one fails.\<close>

fun add_records ::
    "(slice \<Rightarrow> 'f \<Rightarrow> (Status \<times> 'f) option) \<Rightarrow> ('f \<Rightarrow> (Status \<times> 'f) option) \<Rightarrow> slice list \<Rightarrow> 'f Writer \<Rightarrow> (Status \<times> 'f Writer) option" where
  "add_records fappend flush [] w = Some (Status_OK, w)"
| "add_records fappend flush (d # ds) w =
     (case AddRecord fappend flush d w of
        None \<Rightarrow> None
      | Some (s, w) \<Rightarrow> if Status_ok s then add_records fappend flush ds w else Some (s, w))"

text \<open>
  Besides the contract of \<^verbatim>\<open>WritableFile\<close> the writer relies on one more promise: it does not look at the
  status of the padding it appends, so appending fewer than \<open>kHeaderSize\<close> bytes right after a flush must not fail.
\<close>

locale log_file = writable_file +
  fixes flushed :: "'a \<Rightarrow> bool"
  assumes Flush_flushed: "Flush f = Some (st, f') \<Longrightarrow> flushed f'"
    and Append_small: "flushed f \<Longrightarrow> length data < kHeaderSize \<Longrightarrow> \<exists>f'. Append data f = Some (Status_OK, f')"
begin

lemma Flush_ok: "Flush f = Some (st, f') \<Longrightarrow> Status_ok st \<Longrightarrow> contents f' = contents f \<and> flushed f'"
  using Flush_contents Flush_flushed by blast

lemma switch_block_writes:
  assumes w: "w_type_crc w = InitTypeCrc" "flushed (w_dest w)" "w_block_offset w \<le> kBlockSize"
    and sw: "switch_block Append w = Some w'"
  shows "contents (w_dest w') = contents (w_dest w) @ log_pad (w_block_offset w) \<and>
    w_block_offset w' = log_start (w_block_offset w) \<and> w_type_crc w' = InitTypeCrc"
proof (cases "kBlockSize - w_block_offset w < kHeaderSize \<and> kBlockSize - w_block_offset w > 0")
  case True
  then obtain f where f: "Append (replicate (kBlockSize - w_block_offset w) 0) (w_dest w) = Some (Status_OK, f)"
    using Append_small[OF w(2), of "replicate (kBlockSize - w_block_offset w) 0"] by auto
  then have "contents f = contents (w_dest w) @ replicate (kBlockSize - w_block_offset w) 0"
    by (rule Append_contents) (simp add: Status_ok_def Status_OK_def)
  then show ?thesis using True sw w f by (auto simp: switch_block_def log_pad_def log_start_def)
next
  case False
  then show ?thesis using sw w by (auto simp: switch_block_def log_pad_def log_start_def split: if_splits)
qed

lemma EmitPhysicalRecord_writes:
  assumes "w_type_crc w = InitTypeCrc" "EmitPhysicalRecord Append Flush t data w = Some (s, w')" "Status_ok s"
  shows "contents (w_dest w') = contents (w_dest w) @ phys t data \<and> w_block_offset w' = w_block_offset w + kHeaderSize + length data \<and>
    w_type_crc w' = InitTypeCrc \<and> flushed (w_dest w')"
  using assms
  by (auto simp: EmitPhysicalRecord_def Let_def phys_def split: option.splits if_splits
      dest!: Append_contents Flush_ok)

lemma add_fragments_writes:
  assumes "w_type_crc w = InitTypeCrc" "flushed (w_dest w)" "w_block_offset w \<le> kBlockSize"
    and "add_fragments Append Flush b data w = Some (s, w')" "Status_ok s"
  shows "contents (w_dest w') = contents (w_dest w) @ place (w_block_offset w) (fragments b (w_block_offset w) data) \<and>
    w_block_offset w' = place_end (w_block_offset w) (fragments b (w_block_offset w) data) \<and>
    w_type_crc w' = InitTypeCrc \<and> flushed (w_dest w')"
  using assms
proof (induction b "w_block_offset w" data arbitrary: w rule: fragments.induct)
  case (1 b data w)
  obtain w1 where w1: "switch_block Append w = Some w1"
    using 1 by (subst (asm) (2) add_fragments.simps) (auto split: option.splits)
  note sw = switch_block_writes[OF 1(2,3,4) w1]
  define n where "n = log_frag (w_block_offset w) data"
  have n: "fragment_length w1 data = n" using sw by (simp add: n_def log_frag_def fragment_length_def min_def Let_def)
  define t where "t = fragment_type b (length data = n)"
  obtain s1 w2 where w2: "EmitPhysicalRecord Append Flush t (take n data) w1 = Some (s1, w2)"
    using 1(5) w1 by (subst (asm) add_fragments.simps) (auto simp: n t_def split: option.splits)
  have step: "Some (s, w') = (if Status_ok s1 \<and> drop n data \<noteq> [] then add_fragments Append Flush False (drop n data) w2 else Some (s1, w2))"
    using 1(5) w1 w2 by (subst (asm) add_fragments.simps) (simp add: n t_def cong: if_cong)
  then have s1: "Status_ok s1" using 1(6) by (auto split: if_splits)
  note em = EmitPhysicalRecord_writes[OF _ w2 s1]
  have w2o: "w_block_offset w2 = log_next (w_block_offset w) (take n data)" using em sw by (simp add: log_next_def)
  show ?case
  proof (cases "n < length data")
    case True
    then have rec: "add_fragments Append Flush False (drop n data) w2 = Some (s, w')" using step s1 by auto
    have le: "w_block_offset w2 \<le> kBlockSize"
      unfolding w2o by (auto simp: n_def log_next_def log_frag_def log_start_def block_sizes)
    show ?thesis
      using 1(1)[of w2] True rec le em sw 1(6) w2o
      by (subst (1 2) fragments.simps) (simp add: n_def[symmetric] t_def)
  next
    case False
    then show ?thesis using step em sw w2o by (subst (1 2) fragments.simps) (auto simp: n_def[symmetric] t_def)
  qed
qed

lemma add_records_writes:
  assumes "w_type_crc w = InitTypeCrc" "flushed (w_dest w)" "w_block_offset w \<le> kBlockSize"
    and "add_records Append Flush ds w = Some (s, w')" "Status_ok s"
  shows "contents (w_dest w') = contents (w_dest w) @ place (w_block_offset w) (log_frames (w_block_offset w) ds) \<and>
    w_block_offset w' = place_end (w_block_offset w) (log_frames (w_block_offset w) ds) \<and>
    w_type_crc w' = InitTypeCrc \<and> flushed (w_dest w') \<and> w_block_offset w' \<le> kBlockSize"
  using assms
proof (induction ds arbitrary: w)
  case (Cons d ds)
  obtain s1 w1 where s1: "add_fragments Append Flush True d w = Some (s1, w1)" "Status_ok s1" "add_records Append Flush ds w1 = Some (s, w')"
    using Cons.prems(4,5) by (auto simp: AddRecord_def split: option.splits if_splits)
  note aw = add_fragments_writes[OF Cons.prems(1-3) s1(1,2)]
  have "w_block_offset w1 \<le> kBlockSize" using aw fits_end[OF fits_fragments[OF Cons.prems(3)]] by simp
  then show ?case using Cons.IH[of w1] aw s1 Cons.prems(5) by (simp add: place_append place_end_append)
qed simp

end

section \<open>A physical record\<close>

lemma nth_InitTypeCrc: "t \<le> kMaxRecordType \<Longrightarrow> InitTypeCrc ! unat t = Crc_Value 0 [ucast t]"
proof -
  assume "t \<le> kMaxRecordType"
  then have "unat t < Suc (unat kMaxRecordType)" by (simp add: word_le_nat_alt less_Suc_eq_le)
  moreover have "word_of_nat (unat t) = (ucast t :: byte)" by simp
  ultimately show ?thesis by (simp add: InitTypeCrc_def del: upt_Suc)
qed

lemma phys_crc:
  assumes "t \<le> kMaxRecordType"
  shows "Extend (InitTypeCrc ! unat t) 0 data = Crc_Value 0 (ucast t # data)"
  by (simp add: assms nth_InitTypeCrc Extend_Value[where ?a3.0 = 0])

lemma length_header [simp]: "length (record_header crcs t data) = kHeaderSize"
  by (simp add: record_header_def Let_def kHeaderSize_def)

lemma length_phys [simp]: "length (phys t data) = kHeaderSize + length data"
  by (simp add: phys_def)

lemma record_type_cases: "t \<le> kMaxRecordType \<Longrightarrow> t = 0 \<or> t = kFullType \<or> t = kFirstType \<or> t = kMiddleType \<or> t = kLastType"
proof -
  assume "t \<le> kMaxRecordType"
  then have "unat t \<le> 4" by (simp add: record_types word_le_nat_alt)
  then have "unat t \<in> {0, 1, 2, 3, 4}" by auto
  moreover have "t = word_of_nat (unat t)" by simp
  ultimately show ?thesis by (auto simp: record_types simp del: of_nat_unat)
qed

lemma two_bytes:
  assumes "n < 65536"
  shows "(ucast (word_of_nat (n mod 256) :: byte) AND 0xff) OR push_bit 8 (ucast (word_of_nat (n div 256) :: byte) AND 0xff) = (word_of_nat n :: u32)"
proof (rule bit_word_eqI)
  fix i assume "i < LENGTH(32)"
  have m: "n mod 256 = take_bit 8 n" "n div 256 = drop_bit 8 n" by (simp_all add: take_bit_eq_mod drop_bit_eq_div)
  have n: "take_bit 16 n = n" using assms by (simp add: take_bit_eq_mod)
  have b: "bit n j \<longleftrightarrow> j < 16 \<and> bit n j" for j using n by (metis bit_take_bit_iff)
  show "bit ((ucast (word_of_nat (n mod 256) :: byte) AND 0xff) OR push_bit 8 (ucast (word_of_nat (n div 256) :: byte) AND 0xff) :: u32) i
    = bit (word_of_nat n :: u32) i"
    using b[of i] unfolding m low_mask by (auto simp: bit_simps)
qed

lemma record_header_fields:
  assumes t: "t \<le> kMaxRecordType" and data: "length data < 65536"
    and buf: "buf = record_header InitTypeCrc t data @ bs"
  shows "header_length buf = word_of_nat (length data)" "scast (buf ! 6) = t" "Crc_Unmask (DecodeFixed32 buf) = Crc_Value 0 (ucast t # data)"
    "buf ! 6 = ucast t"
proof -
  have i: "buf ! (4 + i) = [word_of_nat (length data mod 256), word_of_nat (length data div 256), ucast t] ! i" if "i < 3" for i
    using that by (auto simp: buf record_header_def Let_def nth_append nth_Cons' less_Suc_eq numeral_3_eq_3)
  show "buf ! 6 = ucast t" using i[of 2] by simp
  show "scast (buf ! 6) = t"
    using i[of 2] record_type_cases[OF t] by (auto simp: record_types)
  show "header_length buf = word_of_nat (length data)"
    using i[of 0] i[of 1] two_bytes[OF data] by (simp only: header_length_def Let_def) simp
  show "Crc_Unmask (DecodeFixed32 buf) = Crc_Value 0 (ucast t # data)"
    using t by (simp add: buf record_header_def Let_def DecodeFixed32_Encode Crc_Unmask_Mask phys_crc)
qed

lemma parse_phys:
  assumes t: "0 < t" "t \<le> kMaxRecordType" and data: "length data < 65536"
    and buf: "r_buffer r = phys t data @ bs" and init: "r_initial_offset r = 0"
  shows "parse_record fragment r = (t, data, r\<lparr>r_buffer := bs\<rparr>)"
proof -
  note f = record_header_fields[OF t(2) data buf[unfolded phys_def append.assoc]]
  have n: "unat (header_length (r_buffer r)) = length data" using data by (simp add: f unat_of_nat)
  have 6: "take (1 + length data) (drop 6 (r_buffer r)) = ucast t # data"
    using f(4) Cons_nth_drop_Suc[of 6 "r_buffer r", symmetric] by (simp add: buf phys_def kHeaderSize_def)
  show ?thesis
    unfolding parse_record_def Let_def n 6 f(2,3)
    using t word_neq_0_conv[of t] by (simp add: buf init kZeroType_def remove_prefix_def phys_def)
qed

lemma parse_truncated:
  assumes t: "t \<le> kMaxRecordType" and data: "length data < 65536"
    and buf: "r_buffer r = take k (phys t data)" "kHeaderSize \<le> k" "k < length (phys t data)" and eof: "r_eof r"
  shows "parse_record fragment r = (kEof, fragment, r\<lparr>r_buffer := []\<rparr>)"
proof -
  have "r_buffer r = record_header InitTypeCrc t data @ take (k - kHeaderSize) data" using buf by (simp add: phys_def)
  then have n: "unat (header_length (r_buffer r)) = length data"
    using record_header_fields(1)[OF t data] data by (simp add: unat_of_nat)
  show ?thesis unfolding parse_record_def Let_def n using buf eof by simp
qed

section \<open>The reader\<close>

text \<open>
  The reader stands at the offset \<open>off\<close> of a block and the bytes \<open>bs\<close> are to come, the first ones from the
  buffer. The reader that has just been made stands at the end of a block.
\<close>

definition reads_at :: "('f \<Rightarrow> byte list) \<Rightarrow> 'f Reader \<Rightarrow> nat \<Rightarrow> byte list \<Rightarrow> bool" where
  "reads_at rest r off bs \<longleftrightarrow> off \<le> kBlockSize \<and> r_buffer r = take (kBlockSize - off) bs \<and>
     rest (r_file r) = drop (kBlockSize - off) bs \<and> (r_eof r \<longleftrightarrow> length bs < kBlockSize - off) \<and>
     r_initial_offset r = 0 \<and> \<not> r_resyncing r"

text \<open>Reading records until there are no more.\<close>

partial_function (option) read_all ::
    "(nat \<Rightarrow> 'f \<Rightarrow> (Status \<times> slice \<times> 'f) option) \<Rightarrow> (u64 \<Rightarrow> 'f \<Rightarrow> Status \<times> 'f) \<Rightarrow> 'f Reader \<Rightarrow> (slice list \<times> 'f Reader) option" where
  [code]: "read_all fread fskip r =
     (case ReadRecord fread fskip [] [] r of
        None \<Rightarrow> None
      | Some (found, rec, scratch, r) \<Rightarrow>
          if found then Option.bind (read_all fread fskip r) (\<lambda>(recs, r). Some (rec # recs, r)) else Some ([], r))"

lemma reads_at_resynced: "reads_at rest r off bs \<Longrightarrow> reads_at rest (r\<lparr>r_resyncing := False\<rparr>) off bs"
  by (simp add: reads_at_def)

context readable_file
begin

lemma refill:
  assumes r: "reads_at rest r off bs" "readable (r_file r)" and off: "kBlockSize - off < kHeaderSize" "kBlockSize - off \<le> length bs"
  obtains r' where "ReadPhysicalRecord Read fragment r = ReadPhysicalRecord Read fragment r'"
    "reads_at rest r' 0 (drop (kBlockSize - off) bs)" "readable (r_file r')" "r_reports r' = r_reports r"
proof -
  obtain res f where f: "Read kBlockSize (r_file r) = Some (Status_OK, res, f)" "readable f"
    using Read_readable r(2) by blast
  then have res: "res = take kBlockSize (rest (r_file r))" "rest f = drop kBlockSize (rest (r_file r))"
    using Read_ok[OF f(1)] by (simp_all add: Status_ok_def Status_OK_def)
  define r1 where "r1 = r\<lparr>r_file := f, r_buffer := res, r_end_of_buffer_offset := r_end_of_buffer_offset r + word_of_nat (length res)\<rparr>"
  define r' where "r' = (if length res < kBlockSize then r1\<lparr>r_eof := True\<rparr> else r1)"
  have "length (r_buffer r) < kHeaderSize" "\<not> r_eof r" using r(1) off by (auto simp: reads_at_def)
  then have "ReadPhysicalRecord Read fragment r = ReadPhysicalRecord Read fragment r'"
    using f by (subst ReadPhysicalRecord.simps) (simp add: Let_def Status_ok_def Status_OK_def r'_def r1_def)
  moreover have "reads_at rest r' 0 (drop (kBlockSize - off) bs)"
    using r(1) res off by (auto simp: reads_at_def r'_def r1_def)
  ultimately show ?thesis using that f(2) by (simp add: r'_def r1_def)
qed

lemma at_end:
  assumes "reads_at rest r off bs" "length bs < kHeaderSize" "kBlockSize - off < kHeaderSize \<Longrightarrow> length bs < kBlockSize - off"
  shows "ReadPhysicalRecord Read fragment r = Some (kEof, fragment, r\<lparr>r_buffer := []\<rparr>)"
  using assms by (subst ReadPhysicalRecord.simps) (auto simp: reads_at_def not_less)

lemma at_record:
  assumes "reads_at rest r off bs" "kHeaderSize \<le> length bs" "kHeaderSize \<le> kBlockSize - off"
  shows "ReadPhysicalRecord Read fragment r = Some (parse_record fragment r)"
  using assms by (subst ReadPhysicalRecord.simps) (simp add: reads_at_def min_def)

lemma read_phys_in_block:
  assumes r: "reads_at rest r off (phys t data @ bs)" and off: "off + kHeaderSize + length data \<le> kBlockSize" and t: "0 < t" "t \<le> kMaxRecordType"
  shows "\<exists>r'. ReadPhysicalRecord Read fragment r = Some (t, data, r') \<and> reads_at rest r' (off + kHeaderSize + length data) bs \<and>
    r_file r' = r_file r \<and> r_reports r' = r_reports r"
proof -
  have buf: "r_buffer r = phys t data @ take (kBlockSize - (off + kHeaderSize + length data)) bs"
    using r off by (simp add: reads_at_def diff_diff_left add.assoc)
  have "length data < 65536" using off by (simp add: block_sizes)
  then have "ReadPhysicalRecord Read fragment r = Some (t, data, r\<lparr>r_buffer := take (kBlockSize - (off + kHeaderSize + length data)) bs\<rparr>)"
    using r off by (subst at_record[OF r]) (simp_all add: parse_phys[OF t _ buf] reads_at_def)
  then show ?thesis using r off by (auto simp: reads_at_def diff_diff_left add.assoc)
qed

text \<open>A physical record, with the padding before it.\<close>

lemma read_phys:
  assumes r: "reads_at rest r off (log_pad off @ phys t data @ bs)" "readable (r_file r)"
    and off: "log_next off data \<le> kBlockSize" and t: "0 < t" "t \<le> kMaxRecordType"
  obtains r' where "ReadPhysicalRecord Read fragment r = Some (t, data, r')" "reads_at rest r' (log_next off data) bs"
    "readable (r_file r')" "r_reports r' = r_reports r"
proof (cases "kBlockSize - off < kHeaderSize")
  case True
  then have pad: "length (log_pad off) = kBlockSize - off" "log_start off = 0" by (simp_all add: log_pad_def log_start_def)
  obtain r1 where r1: "ReadPhysicalRecord Read fragment r = ReadPhysicalRecord Read fragment r1"
      "reads_at rest r1 0 (drop (kBlockSize - off) (log_pad off @ phys t data @ bs))" "readable (r_file r1)" "r_reports r1 = r_reports r"
    using refill[OF r True] pad by auto
  have "reads_at rest r1 0 (phys t data @ bs)" using r1(2) pad(1) by simp
  from read_phys_in_block[OF this _ t, of fragment] off r1 pad that show ?thesis by (auto simp: log_next_def)
next
  case False
  then have "log_pad off = []" "log_start off = off" by (simp_all add: log_pad_def log_start_def)
  then show ?thesis using read_phys_in_block[of r off t data bs fragment] r off t that by (auto simp: log_next_def)
qed

text \<open>Any proper prefix of it is the end of the file.\<close>

lemma read_truncated:
  assumes r: "reads_at rest r off (take k (log_pad off @ phys t data))" "readable (r_file r)" "k < length (log_pad off @ phys t data)"
    and off: "log_next off data \<le> kBlockSize" and t: "t \<le> kMaxRecordType"
  obtains r' where "ReadPhysicalRecord Read fragment r = Some (kEof, fragment, r')" "r_reports r' = r_reports r"
proof -
  have len: "length data < 65536" using off by (simp add: block_sizes log_next_def)
  have in_block: "ReadPhysicalRecord Read fragment r = Some (kEof, fragment, r\<lparr>r_buffer := []\<rparr>)"
    if "reads_at rest r o' (take j (phys t data))" "j < length (phys t data)" "o' + kHeaderSize + length data \<le> kBlockSize" for r :: "'a Reader" and o' j
  proof (cases "j < kHeaderSize")
    case True
    then show ?thesis using that by (intro at_end[OF that(1)]) auto
  next
    case False
    have "r_buffer r = take j (phys t data)" "r_eof r" using that by (auto simp: reads_at_def min_def)
    then show ?thesis using that False parse_truncated[OF t len, of r j] by (subst at_record[OF that(1)]) auto
  qed
  show ?thesis
  proof (cases "kBlockSize - off < kHeaderSize")
    case True
    then have pad: "length (log_pad off) = kBlockSize - off" "log_start off = 0" by (simp_all add: log_pad_def log_start_def)
    show ?thesis
    proof (cases "k < kBlockSize - off")
      case less: True
      then show ?thesis using True pad that by (subst (asm) at_end[OF r(1)]) auto
    next
      case False
      then obtain r1 where r1: "ReadPhysicalRecord Read fragment r = ReadPhysicalRecord Read fragment r1"
        "reads_at rest r1 0 (drop (kBlockSize - off) (take k (log_pad off @ phys t data)))" "r_reports r1 = r_reports r"
        using refill[OF r(1,2) True] pad by auto
      have "reads_at rest r1 0 (take (k - (kBlockSize - off)) (phys t data))" using r1(2) pad(1) False by (simp add: drop_take min_absorb1)
      from in_block[OF this] show ?thesis using r1 that r(3) pad off False by (auto simp: log_next_def)
    qed
  next
    case False
    then have "log_pad off = []" "log_start off = off" by (simp_all add: log_pad_def log_start_def)
    then show ?thesis using in_block[of r off k] r off that by (auto simp: log_next_def)
  qed
qed

lemma record_loop_step:
  "ReadPhysicalRecord Read fragment r = Some (t, data, r') \<Longrightarrow>
     read_record_loop Read fragment (in_fragmented, pr, scratch, r) =
       (case record_step t data in_fragmented pr scratch r' of Inl l \<Rightarrow> read_record_loop Read data l | Inr res \<Rightarrow> Some res)"
  by (subst read_record_loop.simps) simp

lemma read_tail:
  assumes "tail_frames ps d" "reads_at rest r off (place off ps @ bs)" "readable (r_file r)" "fits off ps"
  shows "\<exists>r'. read_record_loop Read fragment (True, pr, scratch, r) = Some (True, scratch @ d, scratch @ d, r') \<and>
    reads_at rest r' (place_end off ps) bs \<and> readable (r_file r') \<and> r_reports r' = r_reports r"
  using assms
proof (induction arbitrary: r off scratch fragment rule: tail_frames.induct)
  case (last d)
  obtain r1 where r1: "ReadPhysicalRecord Read fragment r = Some (kLastType, d, r1)" "reads_at rest r1 (log_next off d) bs"
      "readable (r_file r1)" "r_reports r1 = r_reports r"
    using read_phys[of r off kLastType d bs fragment] last by auto
  then show ?case
    by (subst record_loop_step[OF r1(1)]) (simp add: record_step_def record_case_def Let_def reads_at_def record_types)
next
  case (middle ps d' d)
  obtain r1 where r1: "ReadPhysicalRecord Read fragment r = Some (kMiddleType, d, r1)"
      "reads_at rest r1 (log_next off d) (place (log_next off d) ps @ bs)" "readable (r_file r1)" "r_reports r1 = r_reports r"
    using read_phys[of r off kMiddleType d "place (log_next off d) ps @ bs" fragment] middle by auto
  have "record_step kMiddleType d True pr scratch r1 = Inl (True, pr, scratch @ d, r1\<lparr>r_resyncing := False\<rparr>)"
    using r1(2) by (simp add: record_step_def record_case_def Let_def reads_at_def record_types)
  then show ?case
    using middle.IH[of "r1\<lparr>r_resyncing := False\<rparr>" "log_next off d" d "scratch @ d"] r1 middle.prems
    by (subst record_loop_step[OF r1(1)]) (auto simp: reads_at_resynced)
qed

lemma read_record:
  assumes "record_frames ps d" and r: "reads_at rest r off (place off ps @ bs)" "readable (r_file r)" "fits off ps"
  shows "\<exists>scratch r'. read_record_loop Read fragment (False, pr, [], r) = Some (True, d, scratch, r') \<and>
    reads_at rest r' (place_end off ps) bs \<and> readable (r_file r') \<and> r_reports r' = r_reports r"
  using assms(1)
proof cases
  case full
  obtain r1 where r1: "ReadPhysicalRecord Read fragment r = Some (kFullType, d, r1)" "reads_at rest r1 (log_next off d) bs"
      "readable (r_file r1)" "r_reports r1 = r_reports r"
    using read_phys[of r off kFullType d bs fragment] full r by auto
  then show ?thesis
    using full by (subst record_loop_step[OF r1(1)]) (simp add: record_step_def record_case_def report_partial_def Let_def reads_at_def record_types)
next
  case (first qs d' d0)
  obtain r1 where r1: "ReadPhysicalRecord Read fragment r = Some (kFirstType, d0, r1)"
      "reads_at rest r1 (log_next off d0) (place (log_next off d0) qs @ bs)" "readable (r_file r1)" "r_reports r1 = r_reports r"
    using read_phys[of r off kFirstType d0 "place (log_next off d0) qs @ bs" fragment] first r by auto
  obtain pr' where "record_step kFirstType d0 False pr [] r1 = Inl (True, pr', d0, r1\<lparr>r_resyncing := False\<rparr>)"
    using r1(2) by (simp add: record_step_def record_case_def report_partial_def Let_def reads_at_def record_types)
  then show ?thesis
    using read_tail[OF first(3), of "r1\<lparr>r_resyncing := False\<rparr>" "log_next off d0" bs d0 pr' d0] r1 first r
    by (subst record_loop_step[OF r1(1)]) (auto simp: reads_at_resynced)
qed

text \<open>A log that ends within a record: the record is dropped without a report.\<close>

lemma eof_step: "record_step kEof data in_fragmented pr scratch r = Inr (False, [], if in_fragmented then [] else scratch, r\<lparr>r_resyncing := False\<rparr>)"
  by (simp add: record_step_def record_case_def Let_def kEof_def record_types)

lemma read_tail_truncated:
  assumes "tail_frames ps d" "reads_at rest r off (take k (place off ps))" "k < length (place off ps)" "readable (r_file r)" "fits off ps"
  shows "\<exists>r'. read_record_loop Read fragment (True, pr, scratch, r) = Some (False, [], [], r') \<and> r_reports r' = r_reports r"
  using assms
proof (induction arbitrary: r off scratch fragment k rule: tail_frames.induct)
  case (last d)
  then obtain r1 where r1: "ReadPhysicalRecord Read fragment r = Some (kEof, fragment, r1)" "r_reports r1 = r_reports r"
    using read_truncated[of r off k kLastType d fragment] by auto
  then show ?case by (subst record_loop_step[OF r1(1)]) (simp add: eof_step)
next
  case (middle ps d' d)
  let ?head = "log_pad off @ phys kMiddleType d"
  show ?case
  proof (cases "k < length ?head")
    case True
    then obtain r1 where r1: "ReadPhysicalRecord Read fragment r = Some (kEof, fragment, r1)" "r_reports r1 = r_reports r"
      using read_truncated[of r off k kMiddleType d fragment] middle.prems by auto
    then show ?thesis by (subst record_loop_step[OF r1(1)]) (simp add: eof_step)
  next
    case False
    define j where "j = k - length ?head"
    have take: "take k (place off ((kMiddleType, d) # ps)) = log_pad off @ phys kMiddleType d @ take j (place (log_next off d) ps)"
      using False by (simp add: j_def)
    obtain r1 where r1: "ReadPhysicalRecord Read fragment r = Some (kMiddleType, d, r1)"
        "reads_at rest r1 (log_next off d) (take j (place (log_next off d) ps))" "readable (r_file r1)" "r_reports r1 = r_reports r"
      using read_phys[of r off kMiddleType d "take j (place (log_next off d) ps)" fragment] middle.prems take by auto
    have "record_step kMiddleType d True pr scratch r1 = Inl (True, pr, scratch @ d, r1\<lparr>r_resyncing := False\<rparr>)"
      using r1(2) by (simp add: record_step_def record_case_def Let_def reads_at_def record_types)
    moreover have "j < length (place (log_next off d) ps)" using middle.prems(2) False by (simp add: j_def)
    ultimately show ?thesis
      using middle.IH[of "r1\<lparr>r_resyncing := False\<rparr>" "log_next off d" j d "scratch @ d"] r1 middle.prems
      by (subst record_loop_step[OF r1(1)]) (auto simp: reads_at_resynced)
  qed
qed

lemma read_record_truncated:
  assumes "record_frames ps d" and r: "reads_at rest r off (take k (place off ps))" "k < length (place off ps)" "readable (r_file r)" "fits off ps"
  shows "\<exists>scratch r'. read_record_loop Read fragment (False, pr, [], r) = Some (False, [], scratch, r') \<and> r_reports r' = r_reports r"
proof -
  obtain t d0 qs where ps: "ps = (t, d0) # qs" using assms(1) by cases auto
  let ?head = "log_pad off @ phys t d0"
  show ?thesis
  proof (cases "k < length ?head")
    case True
    then obtain r1 where r1: "ReadPhysicalRecord Read fragment r = Some (kEof, fragment, r1)" "r_reports r1 = r_reports r"
      using read_truncated[of r off k t d0 fragment] r ps by auto
    then show ?thesis by (subst record_loop_step[OF r1(1)]) (simp add: eof_step)
  next
    case False
    obtain d' where tl: "tail_frames qs d'" "t = kFirstType" using assms(1)[unfolded ps] False r(2) by cases (auto simp: ps)
    define j where "j = k - length ?head"
    have take: "take k (place off ps) = log_pad off @ phys t d0 @ take j (place (log_next off d0) qs)"
      using False by (simp add: j_def ps)
    obtain r1 where r1: "ReadPhysicalRecord Read fragment r = Some (kFirstType, d0, r1)"
        "reads_at rest r1 (log_next off d0) (take j (place (log_next off d0) qs))" "readable (r_file r1)" "r_reports r1 = r_reports r"
      using read_phys[of r off kFirstType d0 "take j (place (log_next off d0) qs)" fragment] r take ps tl by auto
    obtain pr' where "record_step kFirstType d0 False pr [] r1 = Inl (True, pr', d0, r1\<lparr>r_resyncing := False\<rparr>)"
      using r1(2) by (simp add: record_step_def record_case_def report_partial_def Let_def reads_at_def record_types)
    moreover have "j < length (place (log_next off d0) qs)" using r(2) False by (simp add: j_def ps)
    ultimately show ?thesis
      using read_tail_truncated[OF tl(1), of "r1\<lparr>r_resyncing := False\<rparr>" "log_next off d0" j d0 pr' d0] r1 r ps
      by (subst record_loop_step[OF r1(1)]) (auto simp: reads_at_resynced)
  qed
qed

lemma ReadRecord_loop: "reads_at rest r off bs \<Longrightarrow> ReadRecord Read fskip rec scratch r = read_record_loop Read [] (False, 0, [], r)"
  by (simp add: ReadRecord_def reads_at_def)

text \<open>
  A log that was cut off somewhere, or not at all: exactly the records that are complete are read, and nothing is reported.
\<close>

lemma read_all_prefix:
  assumes "reads_at rest r off (take k (place off (log_frames off ds)))" "readable (r_file r)"
  shows "\<exists>j r'. read_all Read fskip r = Some (take j ds, r') \<and> r_reports r' = r_reports r \<and> j \<le> length ds \<and>
    (\<forall>i\<le>length ds. i \<le> j \<longleftrightarrow> length (place off (log_frames off (take i ds))) \<le> k \<or> i = 0)"
  using assms
proof (induction ds arbitrary: r off k)
  case Nil
  have "\<exists>r'. ReadPhysicalRecord Read [] r = Some (kEof, [], r') \<and> r_reports r' = r_reports r"
  proof (cases "kBlockSize - off = 0")
    case True
    then obtain r' where r': "ReadPhysicalRecord Read [] r = ReadPhysicalRecord Read [] r'"
        "reads_at rest r' 0 (drop (kBlockSize - off) [])" "readable (r_file r')" "r_reports r' = r_reports r"
      using refill[of r off "[]" "[]"] Nil by (auto simp: kHeaderSize_def)
    then show ?thesis using at_end[OF r'(2), of "[]"] by (auto simp: block_sizes)
  next
    case False
    then show ?thesis using at_end[of r off "[]" "[]"] Nil by (auto simp: kHeaderSize_def)
  qed
  then obtain r' where r': "ReadPhysicalRecord Read [] r = Some (kEof, [], r')" "r_reports r' = r_reports r" by blast
  then have "ReadRecord Read fskip [] [] r = Some (False, [], [], r'\<lparr>r_resyncing := False\<rparr>)"
    by (subst ReadRecord_loop[OF Nil(1)], subst record_loop_step[OF r'(1)]) (simp add: eof_step)
  then show ?case using r' by (subst read_all.simps) simp
next
  case (Cons d ds)
  let ?ps = "fragments True off d"
  define e where "e = place_end off ?ps"
  have off: "off \<le> kBlockSize" using Cons.prems by (simp add: reads_at_def)
  have split: "place off (log_frames off (d # ds)) = place off ?ps @ place e (log_frames e ds)" by (simp add: place_append e_def)
  show ?case
  proof (cases "k < length (place off ?ps)")
    case True
    then obtain scratch r' where r': "read_record_loop Read [] (False, 0, [], r) = Some (False, [], scratch, r')" "r_reports r' = r_reports r"
      using read_record_truncated[OF record_frames_fragments, of r off k off d "[]" 0] Cons.prems fits_fragments[OF off]
      by (auto simp: place_append)
    have "read_all Read fskip r = Some ([], r')"
      using r' by (subst read_all.simps, subst ReadRecord_loop[OF Cons.prems(1)]) simp
    moreover have "length (place off (log_frames off (take i (d # ds)))) > k" if "0 < i" for i
      using that True by (cases i) (simp_all add: place_append)
    ultimately show ?thesis using r' by (intro exI[of _ 0] exI[of _ r']) (auto, meson gr_zeroI leD)
  next
    case False
    define k' where "k' = k - length (place off ?ps)"
    have take: "take k (place off (log_frames off (d # ds))) = place off ?ps @ take k' (place e (log_frames e ds))"
      using False unfolding split by (simp add: k'_def)
    obtain scratch r1 where r1: "read_record_loop Read [] (False, 0, [], r) = Some (True, d, scratch, r1)"
        "reads_at rest r1 e (take k' (place e (log_frames e ds)))" "readable (r_file r1)" "r_reports r1 = r_reports r"
      using read_record[OF record_frames_fragments, of r off off d "take k' (place e (log_frames e ds))" "[]" 0] Cons.prems fits_fragments[OF off]
      unfolding take e_def by auto
    obtain j r' where j: "read_all Read fskip r1 = Some (take j ds, r')" "r_reports r' = r_reports r1" "j \<le> length ds"
        "\<forall>i\<le>length ds. i \<le> j \<longleftrightarrow> length (place e (log_frames e (take i ds))) \<le> k' \<or> i = 0"
      using Cons.IH[OF r1(2,3)] by blast
    have "read_all Read fskip r = Some (take (Suc j) (d # ds), r')"
      using r1 j by (subst read_all.simps, subst ReadRecord_loop[OF Cons.prems(1)]) simp
    moreover have "i \<le> Suc j \<longleftrightarrow> length (place off (log_frames off (take i (d # ds)))) \<le> k \<or> i = 0" if "i \<le> length (d # ds)" for i
    proof (cases i)
      case (Suc n)
      then have "length (place off (log_frames off (take i (d # ds)))) = length (place off ?ps) + length (place e (log_frames e (take n ds)))"
        by (simp add: place_append e_def)
      then show ?thesis using j(4)[rule_format, of n] that Suc False by (cases n) (auto simp: k'_def)
    qed simp
    ultimately show ?thesis using r1 j by (intro exI[of _ "Suc j"] exI[of _ r']) auto
  qed
qed

end

section \<open>The reader comes to an end\<close>

text \<open>Whatever the file holds, every physical record that is not the end of the file uses up some of it.\<close>

definition remaining :: "('f \<Rightarrow> byte list) \<Rightarrow> 'f Reader \<Rightarrow> nat" where
  "remaining rest r = length (r_buffer r) + length (rest (r_file r))"

lemma ReportDrop_same [simp]: "r_file (ReportDrop n st r) = r_file r" "r_buffer (ReportDrop n st r) = r_buffer r"
  by (simp_all add: ReportDrop_def)

lemma ReportCorruption_same [simp]: "r_file (ReportCorruption n why r) = r_file r" "r_buffer (ReportCorruption n why r) = r_buffer r"
  by (simp_all add: ReportCorruption_def)

lemma parse_decreases:
  "kHeaderSize \<le> length (r_buffer r) \<Longrightarrow> parse_record fragment r = (t, data, r') \<Longrightarrow>
     r_file r' = r_file r \<and> (t = kEof \<or> length (r_buffer r') < length (r_buffer r))"
  by (auto simp: parse_record_def Let_def remove_prefix_def kHeaderSize_def split: if_splits)

lemma report_partial_same [simp]:
  "r_file (report_partial b s why r) = r_file r" "r_buffer (report_partial b s why r) = r_buffer r"
  by (simp_all add: report_partial_def)

lemma record_step_same:
  "case record_step t data in_fragmented pr scratch r of
     Inl (_, _, _, r') \<Rightarrow> r_file r' = r_file r \<and> r_buffer r' = r_buffer r \<and> t \<noteq> kEof
   | Inr (found, _, _, r') \<Rightarrow> r_file r' = r_file r \<and> r_buffer r' = r_buffer r \<and> (found \<longrightarrow> t \<noteq> kEof)"
  by (simp add: record_step_def record_case_def Let_def kEof_def record_types)

context returning_file
begin

lemma ReadPhysicalRecord_returns:
  assumes "returns (r_file r)"
  obtains t data r' where "ReadPhysicalRecord Read fragment r = Some (t, data, r')" "returns (r_file r')"
    "t = kEof \<or> remaining rest r' < remaining rest r"
proof -
  note goal = that
  have parse: thesis if "ReadPhysicalRecord Read fragment r = Some (parse_record fragment r1)" "kHeaderSize \<le> length (r_buffer r1)"
      "returns (r_file r1)" "remaining rest r1 \<le> remaining rest r" for r1 :: "'a Reader"
  proof -
    obtain t data r' where p: "parse_record fragment r1 = (t, data, r')" by (metis prod.exhaust)
    show thesis using goal[of t data r'] parse_decreases[OF that(2) p] that p by (auto simp: remaining_def)
  qed
  consider "\<not> length (r_buffer r) < kHeaderSize" | "length (r_buffer r) < kHeaderSize" "r_eof r"
    | "length (r_buffer r) < kHeaderSize" "\<not> r_eof r" by blast
  then show thesis
  proof cases
    case 1
    then show ?thesis using assms by (intro parse[of r]) (simp_all add: ReadPhysicalRecord.simps)
  next
    case 2
    then show ?thesis using assms that by (simp add: ReadPhysicalRecord.simps)
  next
    case 3
    obtain st res f where f: "Read kBlockSize (r_file r) = Some (st, res, f)" "returns f" using Read_returns[OF assms] by blast
    define r1 where "r1 = r\<lparr>r_file := f, r_buffer := res, r_end_of_buffer_offset := r_end_of_buffer_offset r + word_of_nat (length res)\<rparr>"
    define r2 where "r2 = (if length res < kBlockSize then r1\<lparr>r_eof := True\<rparr> else r1)"
    note unfold = ReadPhysicalRecord.simps[of Read fragment r]
    show ?thesis
    proof (cases "Status_ok st")
      case True
      then have loop: "ReadPhysicalRecord Read fragment r = ReadPhysicalRecord Read fragment r2"
        using 3 f by (simp add: unfold Let_def r2_def r1_def)
      have r2: "r_buffer r2 = res" "r_file r2 = f" by (simp_all add: r2_def r1_def)
      have rem: "remaining rest r2 \<le> remaining rest r"
        using Read_ok[OF f(1) True] by (simp add: remaining_def r2)
      show ?thesis
      proof (cases "length res < kHeaderSize")
        case True
        then have "r_eof r2" by (simp add: r2_def block_sizes)
        then show ?thesis using that[of kEof fragment "r2\<lparr>r_buffer := []\<rparr>"] loop True f r2 by (simp add: ReadPhysicalRecord.simps)
      next
        case False
        then show ?thesis using f r2 rem loop by (intro parse[of r2]) (simp_all add: ReadPhysicalRecord.simps)
      qed
    next
      case False
      then show ?thesis using 3 f that by (simp add: unfold Let_def)
    qed
  qed
qed

lemma read_record_loop_returns:
  assumes "returns (r_file r)"
  shows "\<exists>found rec scratch' r'. read_record_loop Read fragment (in_fragmented, pr, scratch, r) = Some (found, rec, scratch', r') \<and>
    returns (r_file r') \<and> (found \<longrightarrow> remaining rest r' < remaining rest r)"
  using assms
proof (induction "remaining rest r" arbitrary: r fragment in_fragmented pr scratch rule: less_induct)
  case less
  obtain t data r1 where r1: "ReadPhysicalRecord Read fragment r = Some (t, data, r1)" "returns (r_file r1)"
      "t = kEof \<or> remaining rest r1 < remaining rest r"
    using ReadPhysicalRecord_returns[OF less(2)] .
  have loop: "read_record_loop Read fragment (in_fragmented, pr, scratch, r) =
      (case record_step t data in_fragmented pr scratch r1 of Inl l \<Rightarrow> read_record_loop Read data l | Inr res \<Rightarrow> Some res)"
    using r1(1) by (subst read_record_loop.simps) simp
  show ?case
  proof (cases "record_step t data in_fragmented pr scratch r1")
    case (Inl l)
    obtain f' p' s' r2 where l: "l = (f', p', s', r2)" by (metis prod.exhaust)
    have "remaining rest r2 < remaining rest r" "returns (r_file r2)"
      using record_step_same[where t = t and data = data and in_fragmented = in_fragmented and pr = pr and scratch = scratch and r = r1, unfolded Inl l] r1 by (auto simp: remaining_def)
    from less(1)[OF this, of data f' p' s'] show ?thesis
      using \<open>remaining rest r2 < remaining rest r\<close> unfolding loop Inl l by fastforce
  next
    case (Inr res)
    obtain found rec s' r2 where res: "res = (found, rec, s', r2)" by (metis prod.exhaust)
    show ?thesis using record_step_same[where t = t and data = data and in_fragmented = in_fragmented and pr = pr and scratch = scratch and r = r1, unfolded Inr res] r1 unfolding loop Inr res by (auto simp: remaining_def)
  qed
qed

lemma ReadRecord_returns:
  assumes "returns (r_file r)" "\<And>n f. returns f \<Longrightarrow> returns (snd (fskip n f))"
  shows "\<exists>res. ReadRecord Read fskip rec scratch r = Some res"
proof (cases "r_last_record_offset r < r_initial_offset r")
  case True
  obtain ok r1 where r1: "SkipToInitialBlock fskip r = (ok, r1)" by fastforce
  then have "returns (r_file r1)"
    using assms by (auto simp: SkipToInitialBlock_def Let_def split: prod.splits if_splits) (metis snd_conv)+
  then show ?thesis using True r1 read_record_loop_returns[of r1 "[]" False 0 "[]"] by (auto simp: ReadRecord_def)
next
  case False
  then show ?thesis using read_record_loop_returns[OF assms(1), of "[]" False 0 "[]"] by (auto simp: ReadRecord_def)
qed

end

section \<open>The log on POSIX files\<close>

context write_call
begin

lemma posix_log_file:
  "log_file (PosixWritableFile_Append sys_write strerror) (PosixWritableFile_Flush sys_write strerror) (posix_contents written) (\<lambda>f. pw_buf f = [])"
proof (intro log_file.intro posix_writable_file log_file_axioms.intro)
  show "pw_buf f' = []" if "PosixWritableFile_Flush sys_write strerror f = Some (st, f')" for f st f'
    using that by (auto simp: PosixWritableFile_Flush_def FlushBuffer_def split: option.splits)
  show "\<exists>f'. PosixWritableFile_Append sys_write strerror data f = Some (Status_OK, f')"
    if "pw_buf f = []" "length data < kHeaderSize" for f data
    using that by (simp add: PosixWritableFile_Append_def kWritableFileBufferSize_def kHeaderSize_def Let_def)
qed

end

interpretation script_log: log_file "PosixWritableFile_Append script_write strerror" "PosixWritableFile_Flush script_write strerror"
    "posix_contents k_file" "\<lambda>f. pw_buf f = []" for strerror
  by (rule script.posix_log_file)

text \<open>Opening a log again: the end of a full block and the start of the next one are the same.\<close>

lemma fragments_mod: "place kBlockSize (fragments b kBlockSize d) = place 0 (fragments b 0 d)"
    "place_end kBlockSize (fragments b kBlockSize d) = place_end 0 (fragments b 0 d)"
proof -
  have "log_pad kBlockSize = log_pad 0" "log_start kBlockSize = log_start 0" by (simp_all add: log_pad_def log_start_def block_sizes)
  then have "log_pad kBlockSize = log_pad 0" "\<And>d. log_next kBlockSize d = log_next 0 d" "log_frag kBlockSize d = log_frag 0 d"
    by (simp_all add: log_next_def log_frag_def)
  then show "place kBlockSize (fragments b kBlockSize d) = place 0 (fragments b 0 d)"
    "place_end kBlockSize (fragments b kBlockSize d) = place_end 0 (fragments b 0 d)"
    by (subst (1 2) fragments.simps, simp)+
qed

lemma log_frames_mod:
  assumes "off \<le> kBlockSize"
  shows "place (off mod kBlockSize) (log_frames (off mod kBlockSize) ds) = place off (log_frames off ds)"
proof (cases "off = kBlockSize")
  case True
  then show ?thesis by (cases ds) (simp_all add: place_append fragments_mod)
qed (use assms in simp)

lemma place_end_mod: "fits off ps \<Longrightarrow> place_end off ps mod kBlockSize = (off + length (place off ps)) mod kBlockSize"
proof (induction off ps rule: place.induct)
  case (2 off t d ps)
  have "(off + length (log_pad off)) mod kBlockSize = log_start off mod kBlockSize"
    using 2(2) by (auto simp: log_pad_def log_start_def)
  then have "log_next off d mod kBlockSize = (off + length (log_pad off @ phys t d)) mod kBlockSize"
    unfolding log_next_def by (metis (no_types, opaque_lifting) add.assoc length_append length_phys mod_add_left_eq)
  then show ?case using 2 by (simp add: add.assoc[symmetric]) (metis mod_add_left_eq)
qed simp

end
