(* ===== verification/Ldb_Log_Props.thy ===== *)
theory Ldb_Log_Props
  imports Ldb_Log_Laws
begin

text \<open>LevelDB, what the write-ahead log promises on POSIX files.\<close>

section \<open>Writing on files that follow POSIX\<close>

lemma reads_at_new: "unread fd = bs \<Longrightarrow> reads_at unread (Reader_new fd b c 0) kBlockSize bs"
  by (simp add: reads_at_def Reader_new_def)

lemma posix_log_written:
  assumes "write_call sys_write written" "w_type_crc w = InitTypeCrc" "pw_buf (w_dest w) = []" "w_block_offset w \<le> kBlockSize"
    and "add_records (PosixWritableFile_Append sys_write strerror) (PosixWritableFile_Flush sys_write strerror) ds w = Some (s, w')" "Status_ok s"
  shows "written (pw_fd (w_dest w')) = written (pw_fd (w_dest w)) @ place (w_block_offset w) (log_frames (w_block_offset w) ds)"
    "w_block_offset w' = place_end (w_block_offset w) (log_frames (w_block_offset w) ds)"
    "w_type_crc w' = InitTypeCrc" "pw_buf (w_dest w') = []" "w_block_offset w' \<le> kBlockSize"
  using log_file.add_records_writes[OF write_call.posix_log_file[OF assms(1)] assms(2-6)] assms(3)
  by (auto simp: posix_contents_def)

lemma posix_log_read:
  assumes "reliable_read_call sys_read unread pending healthy" "healthy fd" "unread fd = take k (place 0 (log_frames 0 ds))"
  obtains j r where "read_all (PosixSequentialFile_Read sys_read strerror filename) fskip (Reader_new fd True checksum 0) = Some (take j ds, r)"
    "r_reports r = []" "\<forall>i\<le>length ds. i \<le> j \<longleftrightarrow> length (place 0 (log_frames 0 (take i ds))) \<le> k \<or> i = 0"
proof -
  have start: "place kBlockSize (log_frames kBlockSize xs) = place 0 (log_frames 0 xs)" for xs
    using log_frames_mod[of kBlockSize xs] by simp
  have r: "reads_at unread (Reader_new fd True checksum 0) kBlockSize (take k (place kBlockSize (log_frames kBlockSize ds)))"
    using reads_at_new[of unread fd, OF assms(3)] by (simp add: start)
  show thesis
    using readable_file.read_all_prefix[OF reliable_read_call.posix_readable_file[OF assms(1), of strerror filename] r, where fskip = fskip] assms(2) that
    by (auto simp: start Reader_new_def)
qed

section \<open>A run on the scripted kernel\<close>

text \<open>The first call is interrupted and the second one writes three bytes only.\<close>

definition new_log :: kernel where
  "new_log = \<lparr>k_file = [], k_pos = 0, k_script = [Interrupted, Bytes 3]\<rparr>"

lemma header_not_Nil: "record_header crcs t data \<noteq> []"
  by (simp add: record_header_def Let_def)

lemmas writer_run = AddRecord_def add_fragments.simps switch_block_def Writer_new_def Writer_reopen_def block_sizes fragment_length_def
  EmitPhysicalRecord_def Let_def PosixWritableFile_Append_def PosixWritableFile_new_def kWritableFileBufferSize_def
  Status_ok_def Status_OK_def PosixWritableFile_Flush_def FlushBuffer_def WriteUnbuffered.simps script_write_def header_not_Nil

lemma new_log_run:
  "\<exists>w. add_records (PosixWritableFile_Append script_write strerror) (PosixWritableFile_Flush script_write strerror) [[97]]
     (Writer_new (PosixWritableFile_new [] new_log)) = Some (Status_OK, w) \<and>
     length (k_file (pw_fd (w_dest w))) = 8 \<and> w_block_offset w = 8 \<and> pw_buf (w_dest w) = [] \<and> k_script (pw_fd (w_dest w)) = []"
  by (simp add: writer_run new_log_def)

lemma old_log_run:
  "w_block_offset w = 8 \<Longrightarrow> pw_buf (w_dest w) = [] \<Longrightarrow> k_script (pw_fd (w_dest w)) = [] \<Longrightarrow>
    \<exists>w'. add_records (PosixWritableFile_Append script_write strerror) (PosixWritableFile_Flush script_write strerror) [[], [98]] w = Some (Status_OK, w')"
  by (simp add: writer_run)

section \<open>Properties\<close>

text \<open>C6: whatever sequence of records is added to a new log, and then to the log opened again at its length, all of
  them are read back, in order, and no corruption is reported; here on POSIX files. A write may
  transfer less than asked for, and both calls may be interrupted; a read of a regular file gives what was asked for or all
  that is left.\<close>

theorem log_round_trip:
  assumes "write_call sys_write written" "reliable_read_call sys_read unread pending healthy"
    and "written fd0 = []"
    and "add_records (PosixWritableFile_Append sys_write strerror) (PosixWritableFile_Flush sys_write strerror) xs
           (Writer_new (PosixWritableFile_new filename fd0)) = Some (s1, w1)" "Status_ok s1"
    and "length (written (pw_fd (w_dest w1))) < 2 ^ 64"
    and "add_records (PosixWritableFile_Append sys_write strerror) (PosixWritableFile_Flush sys_write strerror) ys
           (Writer_reopen (PosixWritableFile_new filename (pw_fd (w_dest w1))) (word_of_nat (length (written (pw_fd (w_dest w1))))))
           = Some (s2, w2)" "Status_ok s2"
    and "unread fd = written (pw_fd (w_dest w2))" "healthy fd"
  shows "\<exists>r. read_all (PosixSequentialFile_Read sys_read strerror filename) fskip (Reader_new fd True checksum 0) = Some (xs @ ys, r) \<and>
    r_reports r = []"
proof -
  define w where "w = Writer_new (PosixWritableFile_new filename fd0)"
  have w: "w_type_crc w = InitTypeCrc" "pw_buf (w_dest w) = []" "w_block_offset w = 0" "written (pw_fd (w_dest w)) = []"
    using assms(3) by (simp_all add: w_def Writer_new_def PosixWritableFile_new_def)
  note 1 = posix_log_written[OF assms(1) w(1,2) _ assms(4)[folded w_def] assms(5), unfolded w(3,4), simplified]
  define len where "len = length (written (pw_fd (w_dest w1)))"
  define v where "v = Writer_reopen (PosixWritableFile_new filename (pw_fd (w_dest w1))) (word_of_nat len)"
  have off: "w_block_offset v = w_block_offset w1 mod kBlockSize"
    using place_end_mod[OF fits_log_frames[of 0 xs]] assms(6)
    by (simp add: v_def Writer_reopen_def len_def 1(1) 1(2) unat_of_nat)
  have v: "w_type_crc v = InitTypeCrc" "pw_buf (w_dest v) = []" "w_block_offset v \<le> kBlockSize" "pw_fd (w_dest v) = pw_fd (w_dest w1)"
    by (simp_all add: off) (simp_all add: v_def Writer_reopen_def PosixWritableFile_new_def kBlockSize_def)
  have "written (pw_fd (w_dest w2)) = place 0 (log_frames 0 (xs @ ys))"
    using posix_log_written(1)[OF assms(1) v(1-3) assms(7)[folded len_def, folded v_def] assms(8)] 1(5)
    by (simp add: v(4) off 1(1) log_frames_mod log_frames_append place_append 1(2)[symmetric])
  then have "unread fd = take (length (place 0 (log_frames 0 (xs @ ys)))) (place 0 (log_frames 0 (xs @ ys)))" using assms(9) by simp
  then obtain j r where j: "read_all (PosixSequentialFile_Read sys_read strerror filename) fskip (Reader_new fd True checksum 0) = Some (take j (xs @ ys), r)"
      "r_reports r = []" "\<forall>i\<le>length (xs @ ys). i \<le> j \<longleftrightarrow>
        length (place 0 (log_frames 0 (take i (xs @ ys)))) \<le> length (place 0 (log_frames 0 (xs @ ys))) \<or> i = 0"
    by (rule posix_log_read[OF assms(2,10), of _ "xs @ ys" strerror filename fskip checksum])
  have "length (xs @ ys) \<le> j" using j(3)[rule_format, of "length (xs @ ys)"] by simp
  then have "take j (xs @ ys) = xs @ ys" by (rule take_all)
  then show ?thesis using j by simp
qed

theorem log_round_trip_witness:
  "\<exists>w1 w2 r.
    add_records (PosixWritableFile_Append script_write (\<lambda>_. [])) (PosixWritableFile_Flush script_write (\<lambda>_. [])) [[97]]
      (Writer_new (PosixWritableFile_new [] new_log)) = Some (Status_OK, w1) \<and>
    add_records (PosixWritableFile_Append script_write (\<lambda>_. [])) (PosixWritableFile_Flush script_write (\<lambda>_. [])) [[], [98]]
      (Writer_reopen (PosixWritableFile_new [] (pw_fd (w_dest w1))) 8) = Some (Status_OK, w2) \<and>
    read_all (PosixSequentialFile_Read script_read (\<lambda>_. []) []) (\<lambda>n f. (Status_OK, f))
      (Reader_new \<lparr>k_file = k_file (pw_fd (w_dest w2)), k_pos = 0, k_script = [Interrupted]\<rparr> True True 0) = Some ([[97], [], [98]], r) \<and>
    r_reports r = []"
proof -
  obtain w1 where w1: "add_records (PosixWritableFile_Append script_write (\<lambda>_. [])) (PosixWritableFile_Flush script_write (\<lambda>_. [])) [[97]]
      (Writer_new (PosixWritableFile_new [] new_log)) = Some (Status_OK, w1)" "length (k_file (pw_fd (w_dest w1))) = 8"
      "k_script (pw_fd (w_dest w1)) = []"
    using new_log_run by blast
  define w where "w = Writer_reopen (PosixWritableFile_new [] (pw_fd (w_dest w1))) 8"
  have "w_block_offset w = 8" "pw_buf (w_dest w) = []" "k_script (pw_fd (w_dest w)) = []"
    using w1 by (simp_all add: w_def Writer_reopen_def PosixWritableFile_new_def kBlockSize_def)
  then obtain w2 where w2: "add_records (PosixWritableFile_Append script_write (\<lambda>_. [])) (PosixWritableFile_Flush script_write (\<lambda>_. [])) [[], [98]]
      (Writer_reopen (PosixWritableFile_new [] (pw_fd (w_dest w1))) 8) = Some (Status_OK, w2)"
    using old_log_run unfolding w_def by blast
  have len: "word_of_nat (length (k_file (pw_fd (w_dest w1)))) = (8 :: u64)" using w1(2) by simp
  define fd where "fd = \<lparr>k_file = k_file (pw_fd (w_dest w2)), k_pos = 0, k_script = [Interrupted]\<rparr>"
  have "\<exists>r. read_all (PosixSequentialFile_Read script_read (\<lambda>_. []) []) (\<lambda>n f. (Status_OK, f)) (Reader_new fd True True 0)
      = Some ([[97]] @ [[], [98]], r) \<and> r_reports r = []"
    by (rule log_round_trip[OF script.write_call_axioms script.reliable_read_call_axioms _ w1(1) _ _ w2[folded len]])
      (simp_all add: new_log_def Status_ok_def Status_OK_def w1 fd_def script_unread_def script_healthy_def)
  then show ?thesis using w1(1) w2 unfolding fd_def by auto
qed

text \<open>C8: after a crash a log loses only what had not reached the file: when the file is cut off anywhere behind the bytes of the
  records \<open>xs\<close>, reading it returns all of \<open>xs\<close> and then some of the records added after them, in order, and
  an incomplete record at the end is not reported as a corruption.\<close>

theorem log_survives_crash:
  assumes "write_call sys_write written" "reliable_read_call sys_read unread pending healthy"
    and "written fd0 = []"
    and "add_records (PosixWritableFile_Append sys_write strerror) (PosixWritableFile_Flush sys_write strerror) xs
           (Writer_new (PosixWritableFile_new filename fd0)) = Some (s1, w1)" "Status_ok s1"
    and "add_records (PosixWritableFile_Append sys_write strerror) (PosixWritableFile_Flush sys_write strerror) ys w1 = Some (s2, w2)" "Status_ok s2"
    and "unread fd = take k (written (pw_fd (w_dest w2)))" "length (written (pw_fd (w_dest w1))) \<le> k" "healthy fd"
  shows "\<exists>j r. read_all (PosixSequentialFile_Read sys_read strerror filename) fskip (Reader_new fd True checksum 0) = Some (xs @ take j ys, r) \<and>
    r_reports r = []"
proof -
  define w where "w = Writer_new (PosixWritableFile_new filename fd0)"
  have w: "w_type_crc w = InitTypeCrc" "pw_buf (w_dest w) = []" "w_block_offset w = 0" "written (pw_fd (w_dest w)) = []"
    using assms(3) by (simp_all add: w_def Writer_new_def PosixWritableFile_new_def)
  note 1 = posix_log_written[OF assms(1) w(1,2) _ assms(4)[folded w_def] assms(5), unfolded w(3,4), simplified]
  have "written (pw_fd (w_dest w2)) = place 0 (log_frames 0 (xs @ ys))"
    using posix_log_written(1)[OF assms(1) 1(3-5) assms(6,7)] by (simp add: 1(1) log_frames_append place_append 1(2)[symmetric])
  then obtain j r where j: "read_all (PosixSequentialFile_Read sys_read strerror filename) fskip (Reader_new fd True checksum 0) = Some (take j (xs @ ys), r)"
      "r_reports r = []" "\<forall>i\<le>length (xs @ ys). i \<le> j \<longleftrightarrow> length (place 0 (log_frames 0 (take i (xs @ ys)))) \<le> k \<or> i = 0"
    using posix_log_read[OF assms(2,10), of k "xs @ ys" strerror filename fskip checksum] assms(8) by auto
  have "length xs \<le> j" using j(3)[rule_format, of "length xs"] assms(9) by (simp add: 1(1))
  then show ?thesis using j(1,2) by (intro exI[of _ "j - length xs"] exI[of _ r]) simp
qed

theorem log_survives_crash_witness:
  "\<exists>w1 w2 j r.
    add_records (PosixWritableFile_Append script_write (\<lambda>_. [])) (PosixWritableFile_Flush script_write (\<lambda>_. [])) [[97]]
      (Writer_new (PosixWritableFile_new [] new_log)) = Some (Status_OK, w1) \<and>
    add_records (PosixWritableFile_Append script_write (\<lambda>_. [])) (PosixWritableFile_Flush script_write (\<lambda>_. [])) [[], [98]] w1 = Some (Status_OK, w2) \<and>
    read_all (PosixSequentialFile_Read script_read (\<lambda>_. []) []) (\<lambda>n f. (Status_OK, f))
      (Reader_new \<lparr>k_file = take 10 (k_file (pw_fd (w_dest w2))), k_pos = 0, k_script = []\<rparr> True True 0) = Some ([[97]] @ take j [[], [98]], r) \<and>
    r_reports r = []"
proof -
  obtain w1 where w1: "add_records (PosixWritableFile_Append script_write (\<lambda>_. [])) (PosixWritableFile_Flush script_write (\<lambda>_. [])) [[97]]
      (Writer_new (PosixWritableFile_new [] new_log)) = Some (Status_OK, w1)" "length (k_file (pw_fd (w_dest w1))) = 8"
      "w_block_offset w1 = 8" "pw_buf (w_dest w1) = []" "k_script (pw_fd (w_dest w1)) = []"
    using new_log_run by blast
  then obtain w2 where w2: "add_records (PosixWritableFile_Append script_write (\<lambda>_. [])) (PosixWritableFile_Flush script_write (\<lambda>_. [])) [[], [98]] w1
      = Some (Status_OK, w2)"
    using old_log_run by blast
  define fd where "fd = \<lparr>k_file = take 10 (k_file (pw_fd (w_dest w2))), k_pos = 0, k_script = []\<rparr>"
  have "\<exists>j r. read_all (PosixSequentialFile_Read script_read (\<lambda>_. []) []) (\<lambda>n f. (Status_OK, f)) (Reader_new fd True True 0)
      = Some ([[97]] @ take j [[], [98]], r) \<and> r_reports r = []"
    by (rule log_survives_crash[OF script.write_call_axioms script.reliable_read_call_axioms _ w1(1) _ w2, where k = 10])
      (simp_all add: new_log_def Status_ok_def Status_OK_def w1 fd_def script_unread_def script_healthy_def)
  then show ?thesis using w1(1) w2 unfolding fd_def by blast
qed

text \<open>C16: the reader comes to an end on any file, whatever bytes it holds, from any state, with any initial offset, and also when reads fail:
  it never loops on a damaged log. Of the system call only one thing is assumed, that it is not interrupted by signals
  infinitely often, since the source repeats an interrupted read.\<close>

theorem log_reader_terminates:
  assumes "patient_read_call sys_read unread pending"
  shows "\<exists>res. ReadRecord (PosixSequentialFile_Read sys_read strerror filename) fskip rec scratch r = Some res"
  using returning_file.ReadRecord_returns[OF patient_read_call.posix_returning_file[OF assms]] by simp

theorem log_reader_terminates_witness:
  "\<exists>res. ReadRecord (PosixSequentialFile_Read script_read (\<lambda>_. []) []) (\<lambda>n f. (Status_OK, f)) [] []
    (Reader_new \<lparr>k_file = [1, 2, 3], k_pos = 0, k_script = [Interrupted, Failed 5]\<rparr> True True 0) = Some res"
  by (rule log_reader_terminates[OF script.patient_read_call_axioms])

end
