(* ===== verification/Ldb_Block.thy ===== *)
theory Ldb_Block
  imports Ldb_Comparator Ldb_Status
begin

text \<open>
  LevelDB, \<^verbatim>\<open>table/block_builder.cc\<close> and \<^verbatim>\<open>table/block.cc\<close>: a block of sorted entries with prefix-compressed keys, and
  the iterator over it. Offsets into a block are natural numbers; where the source stores one in 32 bits it is taken
  modulo \<open>2 ^ 32\<close>. An operation is \<open>None\<close> when it would read outside the block or use a slice that
  does not point into it. The comparator and the restart interval are arguments.
\<close>

section \<open>The builder\<close>

record BlockBuilder =
  bb_buffer :: "byte list"
  bb_restarts :: "u32 list"
  bb_counter :: nat
  bb_finished :: bool
  bb_last_key :: slice

definition BlockBuilder_new :: BlockBuilder where
  "BlockBuilder_new = \<lparr>bb_buffer = [], bb_restarts = [0], bb_counter = 0, bb_finished = False, bb_last_key = []\<rparr>"

definition BlockBuilder_Reset :: "BlockBuilder \<Rightarrow> BlockBuilder" where
  "BlockBuilder_Reset b = b\<lparr>bb_buffer := [], bb_restarts := [0], bb_counter := 0, bb_finished := False, bb_last_key := []\<rparr>"

definition CurrentSizeEstimate :: "BlockBuilder \<Rightarrow> nat" where
  "CurrentSizeEstimate b = length (bb_buffer b) + length (bb_restarts b) * 4 + 4"

definition BlockBuilder_Finish :: "BlockBuilder \<Rightarrow> slice \<times> BlockBuilder" where
  "BlockBuilder_Finish b =
     (let buffer = fold (\<lambda>x dst. PutFixed32 dst x) (bb_restarts b) (bb_buffer b);
          buffer = PutFixed32 buffer (word_of_nat (length (bb_restarts b)))
      in (buffer, b\<lparr>bb_buffer := buffer, bb_finished := True\<rparr>))"

text \<open>The loop that counts the bytes two keys share.\<close>

fun shared_loop :: "slice \<Rightarrow> slice \<Rightarrow> nat" where
  "shared_loop (a # as) (b # bs) = (if a = b then Suc (shared_loop as bs) else 0)"
| "shared_loop _ _ = 0"

definition BlockBuilder_Add :: "nat \<Rightarrow> slice \<Rightarrow> slice \<Rightarrow> BlockBuilder \<Rightarrow> BlockBuilder" where
  "BlockBuilder_Add block_restart_interval key val b =
     (let (shared, b) =
            (if bb_counter b < block_restart_interval then (shared_loop (bb_last_key b) key, b)
             else (0, b\<lparr>bb_restarts := bb_restarts b @ [word_of_nat (length (bb_buffer b))], bb_counter := 0\<rparr>));
          non_shared = length key - shared;
          buffer = PutVarint32 (bb_buffer b) (word_of_nat shared);
          buffer = PutVarint32 buffer (word_of_nat non_shared);
          buffer = PutVarint32 buffer (word_of_nat (length val));
          buffer = buffer @ drop shared key;
          buffer = buffer @ val
      in b\<lparr>bb_buffer := buffer, bb_last_key := take shared (bb_last_key b) @ drop shared key, bb_counter := bb_counter b + 1\<rparr>)"

section \<open>The block\<close>

record Block =
  b_data :: "byte list"
  b_size :: nat
  b_restart_offset :: nat

definition NumRestarts :: "slice \<Rightarrow> u32" where
  "NumRestarts data = DecodeFixed32 (drop (length data - 4) data)"

definition Block_new :: "slice \<Rightarrow> Block" where
  "Block_new contents =
     (let size = length contents in
      if size < 4 then \<lparr>b_data = contents, b_size = 0, b_restart_offset = 0\<rparr>
      else
        (let max_restarts_allowed = (size - 4) div 4 in
         if unat (NumRestarts contents) > max_restarts_allowed then \<lparr>b_data = contents, b_size = 0, b_restart_offset = 0\<rparr>
         else \<lparr>b_data = contents, b_size = size,
               b_restart_offset = (size - unat (1 + NumRestarts contents) * 4) mod 2 ^ 32\<rparr>))"

text \<open>\<open>p\<close> are the bytes from \<^verbatim>\<open>p\<close> to \<^verbatim>\<open>limit\<close>; the result has those from the returned pointer on. The sum of the two
  lengths wraps at 32 bits.\<close>

definition DecodeEntry :: "byte list \<Rightarrow> (u32 \<times> u32 \<times> u32 \<times> byte list) option" where
  "DecodeEntry p =
     (if length p < 3 then None
      else
        (case (let shared = ucast (p ! 0); non_shared = ucast (p ! 1); value_length = ucast (p ! 2) in
               if shared OR non_shared OR value_length < 128 then Some (shared, non_shared, value_length, drop 3 p)
               else
                 (case GetVarint32Ptr p of
                    None \<Rightarrow> None
                  | Some (shared, p) \<Rightarrow>
                      (case GetVarint32Ptr p of
                         None \<Rightarrow> None
                       | Some (non_shared, p) \<Rightarrow>
                           (case GetVarint32Ptr p of
                              None \<Rightarrow> None
                            | Some (value_length, p) \<Rightarrow> Some (shared, non_shared, value_length, p))))) of
           None \<Rightarrow> None
         | Some (shared, non_shared, value_length, p) \<Rightarrow>
             if (word_of_nat (length p) :: u32) < non_shared + value_length then None
             else Some (shared, non_shared, value_length, p)))"

section \<open>The iterator\<close>

text \<open>\<open>bi_value\<close> is the slice \<^verbatim>\<open>value_\<close>, as offset and length in the block, or \<open>None\<close> when it points elsewhere.\<close>

record BlockIter =
  bi_data :: "byte list"
  bi_restarts :: nat
  bi_num_restarts :: nat
  bi_current :: nat
  bi_restart_index :: nat
  bi_key :: slice
  bi_value :: "(nat \<times> nat) option"
  bi_status :: Status

definition BlockIter_new :: "byte list \<Rightarrow> nat \<Rightarrow> nat \<Rightarrow> BlockIter" where
  "BlockIter_new data restarts num_restarts =
     \<lparr>bi_data = data, bi_restarts = restarts, bi_num_restarts = num_restarts, bi_current = restarts,
      bi_restart_index = num_restarts, bi_key = [], bi_value = None, bi_status = Status_OK\<rparr>"

definition sub_slice :: "byte list \<Rightarrow> nat \<Rightarrow> nat \<Rightarrow> slice option" where
  "sub_slice data off n = (if off + n \<le> length data then Some (take n (drop off data)) else None)"

definition BlockIter_Valid :: "BlockIter \<Rightarrow> bool" where
  "BlockIter_Valid it \<longleftrightarrow> bi_current it < bi_restarts it"

definition BlockIter_value :: "BlockIter \<Rightarrow> slice option" where
  "BlockIter_value it = (case bi_value it of None \<Rightarrow> None | Some (off, n) \<Rightarrow> sub_slice (bi_data it) off n)"

definition NextEntryOffset :: "BlockIter \<Rightarrow> nat option" where
  "NextEntryOffset it = map_option (\<lambda>(off, n). (off + n) mod 2 ^ 32) (bi_value it)"

definition GetRestartPoint :: "BlockIter \<Rightarrow> nat \<Rightarrow> nat option" where
  "GetRestartPoint it index =
     map_option (\<lambda>bs. unat (DecodeFixed32 bs)) (sub_slice (bi_data it) (bi_restarts it + index * 4) 4)"

definition SeekToRestartPoint :: "nat \<Rightarrow> BlockIter \<Rightarrow> BlockIter option" where
  "SeekToRestartPoint index it =
     (case GetRestartPoint it index of
        None \<Rightarrow> None
      | Some offset \<Rightarrow> Some (it\<lparr>bi_key := [], bi_restart_index := index, bi_value := Some (offset, 0)\<rparr>))"

definition CorruptionError :: "BlockIter \<Rightarrow> BlockIter" where
  "CorruptionError it =
     it\<lparr>bi_current := bi_restarts it, bi_restart_index := bi_num_restarts it,
        bi_status := Status_Corruption (lit ''bad entry in block''), bi_key := [], bi_value := None\<rparr>"

function restart_loop :: "BlockIter \<Rightarrow> nat \<Rightarrow> nat \<Rightarrow> nat option" where
  "restart_loop it current restart_index =
     (if restart_index + 1 < bi_num_restarts it then
        (case GetRestartPoint it (restart_index + 1) of
           None \<Rightarrow> None
         | Some offset \<Rightarrow> if offset < current then restart_loop it current (restart_index + 1) else Some restart_index)
      else Some restart_index)"
  by pat_completeness auto
termination by (relation "measure (\<lambda>(it, current, restart_index). bi_num_restarts it - restart_index)") auto

declare restart_loop.simps [simp del]

definition ParseNextKey :: "BlockIter \<Rightarrow> (bool \<times> BlockIter) option" where
  "ParseNextKey it =
     (case NextEntryOffset it of
        None \<Rightarrow> None
      | Some current \<Rightarrow>
          if current \<ge> bi_restarts it then
            Some (False, it\<lparr>bi_current := bi_restarts it, bi_restart_index := bi_num_restarts it\<rparr>)
          else
            (case DecodeEntry (take (bi_restarts it - current) (drop current (bi_data it))) of
               None \<Rightarrow> Some (False, CorruptionError it)
             | Some (shared, non_shared, value_length, p) \<Rightarrow>
                 if length (bi_key it) < unat shared then Some (False, CorruptionError it)
                 else
                   (let off = bi_restarts it - length p in
                    case sub_slice (bi_data it) off (unat non_shared) of
                      None \<Rightarrow> None
                    | Some delta \<Rightarrow>
                        (case restart_loop it current (bi_restart_index it) of
                           None \<Rightarrow> None
                         | Some restart_index \<Rightarrow>
                             Some (True, it\<lparr>bi_current := current, bi_key := take (unat shared) (bi_key it) @ delta,
                               bi_value := Some (off + unat non_shared, unat value_length), bi_restart_index := restart_index\<rparr>)))))"

definition BlockIter_Next :: "BlockIter \<Rightarrow> BlockIter option" where
  "BlockIter_Next it = map_option snd (ParseNextKey it)"

text \<open>The search for a restart point before the entry \<open>original\<close>: \<open>Some None\<close> when there is none.\<close>

fun prev_restart :: "BlockIter \<Rightarrow> nat \<Rightarrow> nat \<Rightarrow> nat option option" where
  "prev_restart it original restart_index =
     (case GetRestartPoint it restart_index of
        None \<Rightarrow> None
      | Some offset \<Rightarrow>
          if offset \<ge> original then
            (case restart_index of 0 \<Rightarrow> Some None | Suc i \<Rightarrow> prev_restart it original i)
          else Some (Some restart_index))"

declare prev_restart.simps [simp del]

text \<open>\<^verbatim>\<open>do {} while (ParseNextKey() && NextEntryOffset() < limit)\<close>\<close>

partial_function (option) parse_until :: "nat \<Rightarrow> BlockIter \<Rightarrow> BlockIter option" where
  [code]: "parse_until limit it =
     (case ParseNextKey it of
        None \<Rightarrow> None
      | Some (ok, it) \<Rightarrow>
          (if \<not> ok then Some it
           else case NextEntryOffset it of
                  None \<Rightarrow> None
                | Some next \<Rightarrow> if next < limit then parse_until limit it else Some it))"

definition BlockIter_Prev :: "BlockIter \<Rightarrow> BlockIter option" where
  "BlockIter_Prev it =
     (let original = bi_current it in
      case prev_restart it original (bi_restart_index it) of
        None \<Rightarrow> None
      | Some None \<Rightarrow> Some (it\<lparr>bi_current := bi_restarts it, bi_restart_index := bi_num_restarts it\<rparr>)
      | Some (Some restart_index) \<Rightarrow> Option.bind (SeekToRestartPoint restart_index it) (parse_until original))"

text \<open>The binary search in the restart array: \<open>Some None\<close> is a corruption.\<close>

function seek_restart :: "(slice \<Rightarrow> slice \<Rightarrow> int) \<Rightarrow> BlockIter \<Rightarrow> slice \<Rightarrow> nat \<Rightarrow> nat \<Rightarrow> nat option option" where
  "seek_restart cmp it target left right =
     (if left < right then
        (let mid = (left + right + 1) div 2 in
         case GetRestartPoint it mid of
           None \<Rightarrow> None
         | Some region_offset \<Rightarrow>
             (case DecodeEntry (take (bi_restarts it - region_offset) (drop region_offset (bi_data it))) of
                None \<Rightarrow> Some None
              | Some (shared, non_shared, value_length, p) \<Rightarrow>
                  if shared \<noteq> 0 then Some None
                  else
                    (case sub_slice (bi_data it) (bi_restarts it - length p) (unat non_shared) of
                       None \<Rightarrow> None
                     | Some mid_key \<Rightarrow>
                         if cmp mid_key target < 0 then seek_restart cmp it target mid right
                         else seek_restart cmp it target left (mid - 1))))
      else Some (Some left))"
  by pat_completeness auto
termination by (relation "measure (\<lambda>(cmp, it, target, left, right). right - left)") auto

declare seek_restart.simps [simp del]

partial_function (option) seek_scan :: "(slice \<Rightarrow> slice \<Rightarrow> int) \<Rightarrow> slice \<Rightarrow> BlockIter \<Rightarrow> BlockIter option" where
  [code]: "seek_scan cmp target it =
     (case ParseNextKey it of
        None \<Rightarrow> None
      | Some (ok, it) \<Rightarrow>
          (if \<not> ok then Some it else if cmp (bi_key it) target \<ge> 0 then Some it else seek_scan cmp target it))"

definition BlockIter_Seek :: "(slice \<Rightarrow> slice \<Rightarrow> int) \<Rightarrow> slice \<Rightarrow> BlockIter \<Rightarrow> BlockIter option" where
  "BlockIter_Seek cmp target it =
     (case seek_restart cmp it target 0 (bi_num_restarts it - 1) of
        None \<Rightarrow> None
      | Some None \<Rightarrow> Some (CorruptionError it)
      | Some (Some left) \<Rightarrow> Option.bind (SeekToRestartPoint left it) (seek_scan cmp target))"

definition BlockIter_SeekToFirst :: "BlockIter \<Rightarrow> BlockIter option" where
  "BlockIter_SeekToFirst it = Option.bind (SeekToRestartPoint 0 it) (\<lambda>it. map_option snd (ParseNextKey it))"

definition BlockIter_SeekToLast :: "BlockIter \<Rightarrow> BlockIter option" where
  "BlockIter_SeekToLast it = Option.bind (SeekToRestartPoint (bi_num_restarts it - 1) it) (parse_until (bi_restarts it))"

datatype block_iterator = ErrorIterator Status | EmptyIterator | BlockIterator BlockIter

definition Block_NewIterator :: "Block \<Rightarrow> block_iterator" where
  "Block_NewIterator b =
     (if b_size b < 4 then ErrorIterator (Status_Corruption (lit ''bad block contents''))
      else
        (let num_restarts = unat (NumRestarts (b_data b)) in
         if num_restarts = 0 then EmptyIterator
         else BlockIterator (BlockIter_new (b_data b) (b_restart_offset b) num_restarts)))"

end
