(* ===== verification/Ldb_Format.thy ===== *)
theory Ldb_Format
  imports Ldb_File Ldb_Crc32c Ldb_Block
begin

text \<open>
  LevelDB, \<^verbatim>\<open>table/format.h\<close> and \<^verbatim>\<open>table/format.cc\<close>: where the blocks of a table file are, and how one is read. The
  file is an argument: \<^verbatim>\<open>Read(offset, n)\<close> gives a status, the bytes, and whether they are in the buffer the
  caller offered; \<open>None\<close> is an access to memory outside the file or the result. The two
  classes of files that \<^verbatim>\<open>util/env_posix.cc\<close> has for this are modelled as well.
\<close>

section \<open>Files with random access\<close>

type_synonym random_access = "u64 \<Rightarrow> u64 \<Rightarrow> (Status \<times> slice \<times> bool) option"

text \<open>The mapped file is the list of its bytes. The sum of offset and length wraps. \<^verbatim>\<open>EINVAL\<close> is 22.\<close>

definition PosixMmapReadableFile_Read :: "(int \<Rightarrow> slice) \<Rightarrow> slice \<Rightarrow> byte list \<Rightarrow> random_access" where
  "PosixMmapReadableFile_Read strerror filename mmap offset n =
     (if unat (offset + n) > length mmap then Some (PosixError strerror filename 22, [], False)
      else map_option (\<lambda>result. (Status_OK, result, False)) (sub_slice mmap (unat offset) (unat n)))"

text \<open>
  The descriptor is kept open or the file is opened for every read; \<open>opened\<close> is what \<^verbatim>\<open>open\<close> gives, a
  descriptor or an error number, and so is \<open>pread\<close>.
\<close>

definition PosixRandomAccessFile_Read ::
    "(int \<Rightarrow> slice) \<Rightarrow> slice \<Rightarrow> 'd option \<Rightarrow> int + 'd \<Rightarrow> ('d \<Rightarrow> nat \<Rightarrow> nat \<Rightarrow> int + byte list) \<Rightarrow> random_access" where
  "PosixRandomAccessFile_Read strerror filename permanent_fd opened pread offset n =
     (case (case permanent_fd of Some fd \<Rightarrow> Inr fd | None \<Rightarrow> opened) of
        Inl errno \<Rightarrow> Some (PosixError strerror filename errno, [], True)
      | Inr fd \<Rightarrow>
          (case pread fd (unat n) (unat offset) of
             Inl errno \<Rightarrow> Some (PosixError strerror filename errno, [], True)
           | Inr bs \<Rightarrow> Some (Status_OK, bs, True)))"

section \<open>Handles and footer\<close>

record BlockHandle =
  bh_offset :: u64
  bh_size :: u64

definition kMaxEncodedLength :: nat where "kMaxEncodedLength = 10 + 10"

definition BlockHandle_new :: BlockHandle where
  "BlockHandle_new = \<lparr>bh_offset = NOT 0, bh_size = NOT 0\<rparr>"

definition BlockHandle_EncodeTo :: "BlockHandle \<Rightarrow> byte list \<Rightarrow> byte list" where
  "BlockHandle_EncodeTo h dst = PutVarint64 (PutVarint64 dst (bh_offset h)) (bh_size h)"

text \<open>The status, the input that is left and the handle.\<close>

definition BlockHandle_DecodeFrom :: "slice \<Rightarrow> BlockHandle \<Rightarrow> Status \<times> slice \<times> BlockHandle" where
  "BlockHandle_DecodeFrom input h =
     (case GetVarint64 input of
        None \<Rightarrow> (Status_Corruption (lit ''bad block handle''), input, h)
      | Some (offset, input) \<Rightarrow>
          (case GetVarint64 input of
             None \<Rightarrow> (Status_Corruption (lit ''bad block handle''), input, h\<lparr>bh_offset := offset\<rparr>)
           | Some (sz, input) \<Rightarrow> (Status_OK, input, \<lparr>bh_offset = offset, bh_size = sz\<rparr>)))"

record Footer =
  metaindex_handle :: BlockHandle
  index_handle :: BlockHandle

definition kEncodedLength :: nat where "kEncodedLength = 2 * kMaxEncodedLength + 8"

definition kTableMagicNumber :: u64 where "kTableMagicNumber = 0xdb4775248b80fb57"

text \<open>\<^verbatim>\<open>std::string::resize\<close>\<close>

definition resize :: "nat \<Rightarrow> byte list \<Rightarrow> byte list" where
  "resize n s = take n s @ replicate (n - length s) 0"

definition Footer_EncodeTo :: "Footer \<Rightarrow> byte list \<Rightarrow> byte list" where
  "Footer_EncodeTo f dst =
     (let dst = BlockHandle_EncodeTo (metaindex_handle f) dst;
          dst = BlockHandle_EncodeTo (index_handle f) dst;
          dst = resize (2 * kMaxEncodedLength) dst;
          dst = PutFixed32 dst (ucast (kTableMagicNumber AND 0xffffffff))
      in PutFixed32 dst (ucast (drop_bit 32 kTableMagicNumber)))"

text \<open>\<open>None\<close> when the input is shorter than a footer: the magic number is read first.\<close>

definition Footer_DecodeFrom :: "slice \<Rightarrow> Footer \<Rightarrow> (Status \<times> slice \<times> Footer) option" where
  "Footer_DecodeFrom input f =
     (if length input < kEncodedLength then None
      else
        (let magic_ptr = drop (kEncodedLength - 8) input;
             magic_lo = DecodeFixed32 magic_ptr;
             magic_hi = DecodeFixed32 (drop 4 magic_ptr);
             magic = push_bit 32 (ucast magic_hi) OR ucast magic_lo
         in if magic \<noteq> kTableMagicNumber then Some (Status_Corruption (lit ''not an sstable (bad magic number)''), input, f)
            else
              (case BlockHandle_DecodeFrom input (metaindex_handle f) of
                 (result, rest, h) \<Rightarrow>
                   if \<not> Status_ok result then Some (result, rest, f\<lparr>metaindex_handle := h\<rparr>)
                   else
                     (case BlockHandle_DecodeFrom rest (index_handle f) of
                        (result, rest, h') \<Rightarrow>
                          Some (result, if Status_ok result then drop 8 magic_ptr else rest, \<lparr>metaindex_handle = h, index_handle = h'\<rparr>)))))"

section \<open>Reading a block\<close>

definition kNoCompression :: byte where "kNoCompression = 0"
definition kSnappyCompression :: byte where "kSnappyCompression = 1"

text \<open>The wrappers of \<^verbatim>\<open>port/port_stdcxx.h\<close>; this build does not define \<^verbatim>\<open>HAVE_SNAPPY\<close>.\<close>

definition Snappy_Compress :: "slice \<Rightarrow> slice option" where "Snappy_Compress input = None"
definition Snappy_GetUncompressedLength :: "slice \<Rightarrow> nat option" where "Snappy_GetUncompressedLength input = None"
definition Snappy_Uncompress :: "slice \<Rightarrow> slice option" where "Snappy_Uncompress input = None"

definition kBlockTrailerSize :: u64 where "kBlockTrailerSize = 5"

record BlockContents =
  bc_data :: slice
  bc_cachable :: bool
  bc_heap_allocated :: bool

definition ReadBlock :: "random_access \<Rightarrow> bool \<Rightarrow> BlockHandle \<Rightarrow> (Status \<times> BlockContents) option" where
  "ReadBlock Read verify_checksums handle =
     (let result = \<lparr>bc_data = [], bc_cachable = False, bc_heap_allocated = False\<rparr>; n = bh_size handle in
      case Read (bh_offset handle) (n + kBlockTrailerSize) of
        None \<Rightarrow> None
      | Some (s, contents, in_buf) \<Rightarrow>
          if \<not> Status_ok s then Some (s, result)
          else if length contents \<noteq> unat (n + kBlockTrailerSize) then Some (Status_Corruption (lit ''truncated block read''), result)
          else if length contents \<le> unat n then None
          else if verify_checksums \<and>
            Crc_Value 0 (take (unat n + 1) contents) \<noteq> Crc_Unmask (DecodeFixed32 (drop (unat n + 1) contents))
          then Some (Status_Corruption (lit ''block checksum mismatch''), result)
          else if contents ! unat n = kNoCompression then
            Some (Status_OK, \<lparr>bc_data = take (unat n) contents, bc_cachable = in_buf, bc_heap_allocated = in_buf\<rparr>)
          else if contents ! unat n = kSnappyCompression then
            (case Snappy_GetUncompressedLength (take (unat n) contents) of
               None \<Rightarrow> Some (Status_Corruption (lit ''corrupted compressed block contents''), result)
             | Some ulength \<Rightarrow>
                 (case Snappy_Uncompress (take (unat n) contents) of
                    None \<Rightarrow> Some (Status_Corruption (lit ''corrupted compressed block contents''), result)
                  | Some ubuf \<Rightarrow> Some (Status_OK, \<lparr>bc_data = take ulength ubuf, bc_cachable = True, bc_heap_allocated = True\<rparr>)))
          else Some (Status_Corruption (lit ''bad block type''), result))"

section \<open>Round trips\<close>

lemma BlockHandle_EncodeTo_append: "BlockHandle_EncodeTo h dst = dst @ BlockHandle_EncodeTo h []"
  by (simp add: BlockHandle_EncodeTo_def PutVarint64_def)

lemma BlockHandle_Decode_Encode [simp]: "BlockHandle_DecodeFrom (BlockHandle_EncodeTo h [] @ rest) h' = (Status_OK, rest, h)"
  by (simp add: BlockHandle_EncodeTo_def BlockHandle_DecodeFrom_def GetVarint64_def PutVarint64_def EncodeVarint64_leb128 GetVarint64Ptr_leb128)

lemma length_EncodeVarint64: "length (EncodeVarint64 v) \<le> 10"
  using leb128_length[of 10 "unat v"] unat_less_two_power[of v] by (simp add: EncodeVarint64_leb128)

lemma length_BlockHandle_EncodeTo: "length (BlockHandle_EncodeTo h []) \<le> kMaxEncodedLength"
  using length_EncodeVarint64[of "bh_offset h"] length_EncodeVarint64[of "bh_size h"]
  by (simp add: BlockHandle_EncodeTo_def PutVarint64_def kMaxEncodedLength_def)

lemma BlockHandle_EncodeTo_not_Nil [simp]: "BlockHandle_EncodeTo h [] \<noteq> []"
  by (simp add: BlockHandle_EncodeTo_def PutVarint64_def EncodeVarint64_leb128)

lemma Footer_EncodeTo_bytes:
  "\<exists>pad. Footer_EncodeTo f [] = BlockHandle_EncodeTo (metaindex_handle f) [] @ BlockHandle_EncodeTo (index_handle f) [] @ pad @
     [0x57, 0xfb, 0x80, 0x8b, 0x24, 0x75, 0x47, 0xdb] \<and> length (Footer_EncodeTo f []) = kEncodedLength"
proof -
  let ?h = "BlockHandle_EncodeTo (metaindex_handle f) [] @ BlockHandle_EncodeTo (index_handle f) []"
  have n: "length ?h \<le> 2 * kMaxEncodedLength"
    using length_BlockHandle_EncodeTo[of "metaindex_handle f"] length_BlockHandle_EncodeTo[of "index_handle f"] by simp
  have magic: "EncodeFixed32 (ucast (kTableMagicNumber AND 0xffffffff)) @ EncodeFixed32 (ucast (drop_bit 32 kTableMagicNumber)) =
      [0x57, 0xfb, 0x80, 0x8b, 0x24, 0x75, 0x47, 0xdb]"
    by code_simp
  have "Footer_EncodeTo f [] = ?h @ replicate (2 * kMaxEncodedLength - length ?h) 0 @ [0x57, 0xfb, 0x80, 0x8b, 0x24, 0x75, 0x47, 0xdb]"
    using n unfolding Footer_EncodeTo_def Let_def PutFixed32_def resize_def append_assoc magic
    by (subst (1 2 3) BlockHandle_EncodeTo_append) simp
  then show ?thesis using n by (auto simp: kEncodedLength_def)
qed

lemma Footer_Decode_Encode: "Footer_DecodeFrom (Footer_EncodeTo f [] @ rest) f' = Some (Status_OK, rest, f)"
proof -
  obtain pad where f: "Footer_EncodeTo f [] = BlockHandle_EncodeTo (metaindex_handle f) [] @ BlockHandle_EncodeTo (index_handle f) [] @ pad @
     [0x57, 0xfb, 0x80, 0x8b, 0x24, 0x75, 0x47, 0xdb]" and n: "length (Footer_EncodeTo f []) = kEncodedLength"
    using Footer_EncodeTo_bytes by blast
  have m: "drop (kEncodedLength - 8) (Footer_EncodeTo f [] @ rest) = [0x57, 0xfb, 0x80, 0x8b, 0x24, 0x75, 0x47, 0xdb] @ rest"
    using n by (simp add: f)
  have d: "DecodeFixed32 ([0x57, 0xfb, 0x80, 0x8b, 0x24, 0x75, 0x47, 0xdb] @ rest) = 0x8b80fb57"
    "DecodeFixed32 (drop 4 ([0x57, 0xfb, 0x80, 0x8b, 0x24, 0x75, 0x47, 0xdb] @ rest)) = 0xdb477524"
    by (simp_all add: DecodeFixed32_def)
  have k: "push_bit 32 (ucast (0xdb477524 :: u32)) OR ucast (0x8b80fb57 :: u32) = kTableMagicNumber"
    by (simp add: kTableMagicNumber_def)
  have h: "BlockHandle_DecodeFrom (Footer_EncodeTo f [] @ rest) (metaindex_handle f') =
      (Status_OK, BlockHandle_EncodeTo (index_handle f) [] @ pad @ [0x57, 0xfb, 0x80, 0x8b, 0x24, 0x75, 0x47, 0xdb] @ rest, metaindex_handle f)"
    by (simp add: f)
  show ?thesis
    unfolding Footer_DecodeFrom_def Let_def m d k h prod.case
    using n by (simp add: Status_ok_def Status_OK_def)
qed

section \<open>The contract of the files\<close>

text \<open>A file that does not change: what lies inside it can be read.\<close>

locale random_access_file =
  fixes Read :: random_access and contents :: "byte list"
  assumes Read_inside: "unat offset + unat n \<le> length contents \<Longrightarrow>
    \<exists>in_buf. Read offset n = Some (Status_OK, take (unat n) (drop (unat offset) contents), in_buf)"

definition block_trailer :: "byte \<Rightarrow> slice \<Rightarrow> byte list" where
  "block_trailer t data = t # EncodeFixed32 (Crc_Mask (Extend (Crc_Value 0 data) 0 [t]))"

lemma length_block_trailer [simp]: "length (block_trailer t data) = 5"
  by (simp add: block_trailer_def)

definition stored_at :: "byte list \<Rightarrow> BlockHandle \<Rightarrow> slice \<Rightarrow> bool" where
  "stored_at contents h data \<longleftrightarrow> length contents < 2 ^ 63 \<and> unat (bh_size h) = length data \<and>
     (\<exists>post. drop (unat (bh_offset h)) contents = data @ block_trailer kNoCompression data @ post)"

context random_access_file
begin

lemma ReadBlock_stored:
  assumes "stored_at contents h data"
  shows "\<exists>c. ReadBlock Read verify h = Some (Status_OK, c) \<and> bc_data c = data"
proof -
  obtain post where post: "drop (unat (bh_offset h)) contents = data @ block_trailer kNoCompression data @ post"
    and n: "unat (bh_size h) = length data" and len: "length contents < 2 ^ 63"
    using assms by (auto simp: stored_at_def)
  have total: "unat (bh_offset h) + length data + 5 \<le> length contents"
    using arg_cong[OF post, of length] by simp
  have n5: "unat (bh_size h + kBlockTrailerSize) = length data + 5"
    using n total len by (simp add: kBlockTrailerSize_def unat_word_ariths)
  have "take (length data + 5) (drop (unat (bh_offset h)) contents) = data @ block_trailer kNoCompression data"
    unfolding post by simp
  then obtain in_buf where r: "Read (bh_offset h) (bh_size h + kBlockTrailerSize) =
      Some (Status_OK, data @ block_trailer kNoCompression data, in_buf)"
    using Read_inside[of "bh_offset h" "bh_size h + kBlockTrailerSize"] total unfolding n5 by auto
  have crc: "Crc_Value 0 (take (length data + 1) (data @ block_trailer kNoCompression data)) =
      Crc_Unmask (DecodeFixed32 (drop (length data + 1) (data @ block_trailer kNoCompression data)))"
    using DecodeFixed32_Encode[of _ "[]"] Extend_Value[of 0 data 0 "[kNoCompression]" 0]
    by (simp add: block_trailer_def Crc_Unmask_Mask)
  show ?thesis
    unfolding ReadBlock_def Let_def r option.case prod.case n n5 crc
    by (simp add: Status_ok_def Status_OK_def block_trailer_def nth_append)
qed

end

lemma mmap_random_access_file: "random_access_file (PosixMmapReadableFile_Read strerror filename mmap) mmap"
proof
  fix offset n :: u64 assume "unat offset + unat n \<le> length mmap"
  then show "\<exists>in_buf. PosixMmapReadableFile_Read strerror filename mmap offset n =
      Some (Status_OK, take (unat n) (drop (unat offset) mmap), in_buf)"
    by (auto simp: PosixMmapReadableFile_Read_def sub_slice_def unat_word_ariths intro: order.trans[OF mod_less_eq_dividend])
qed

interpretation mmap: random_access_file "PosixMmapReadableFile_Read strerror filename mmap" mmap
  by (rule mmap_random_access_file)

text \<open>With \<^verbatim>\<open>pread\<close> the same holds when opening and reading do not fail.\<close>

lemma pread_random_access_file:
  assumes "fd = Some d \<or> fd = None \<and> opened = Inr d" "\<And>n off. pread d n off = Inr (take n (drop off contents))"
  shows "random_access_file (PosixRandomAccessFile_Read strerror filename fd opened pread) contents"
  by unfold_locales (use assms in \<open>auto simp: PosixRandomAccessFile_Read_def\<close>)

end
