(* ===== verification/Ldb_Table_Builder.thy ===== *)
theory Ldb_Table_Builder
  imports Ldb_Format Ldb_Filter_Block
begin

text \<open>
  LevelDB, \<^verbatim>\<open>table/table_builder.cc\<close>: writing a table file. The file operations \<^verbatim>\<open>Append\<close> and \<^verbatim>\<open>Flush\<close> are arguments;
  \<open>None\<close> means that they do not return, or that a null pointer is used. A filter block builder keeps the policy it was made with. The \<^verbatim>\<open>assert\<close>s are requirements on the caller: no call after \<^verbatim>\<open>Finish\<close> or \<^verbatim>\<open>Abandon\<close>,
  keys in increasing order. \<^verbatim>\<open>compressed_output\<close> is local to one call.
\<close>

section \<open>Options\<close>

text \<open>A comparator is an object: two are the same when their addresses are.\<close>

record Comparator =
  cmp_address :: nat
  cmp_Compare :: "slice \<Rightarrow> slice \<Rightarrow> int"
  cmp_FindShortestSeparator :: "slice \<Rightarrow> slice \<Rightarrow> slice"
  cmp_FindShortSuccessor :: "slice \<Rightarrow> slice"

record FilterPolicy =
  fp_Name :: slice
  fp_CreateFilter :: "slice list \<Rightarrow> byte list \<Rightarrow> byte list"
  fp_KeyMayMatch :: "slice \<Rightarrow> slice \<Rightarrow> bool"

text \<open>The members of \<^verbatim>\<open>Options\<close> that tables use.\<close>

record Options =
  opt_comparator :: Comparator
  opt_paranoid_checks :: bool
  opt_block_size :: nat
  opt_block_restart_interval :: nat
  opt_compression :: byte
  opt_filter_policy :: "FilterPolicy option"

definition BytewiseComparator :: Comparator where
  "BytewiseComparator =
     \<lparr>cmp_address = 1, cmp_Compare = bytewise_Compare, cmp_FindShortestSeparator = bytewise_FindShortestSeparator,
      cmp_FindShortSuccessor = bytewise_FindShortSuccessor\<rparr>"

definition Options_new :: Options where
  "Options_new =
     \<lparr>opt_comparator = BytewiseComparator, opt_paranoid_checks = False, opt_block_size = 4 * 1024, opt_block_restart_interval = 16,
      opt_compression = kSnappyCompression, opt_filter_policy = None\<rparr>"

section \<open>The builder\<close>

record 'f TableBuilder =
  tb_options :: Options
  tb_index_block_options :: Options
  tb_file :: 'f
  tb_offset :: u64
  tb_status :: Status
  tb_data_block :: BlockBuilder
  tb_index_block :: BlockBuilder
  tb_last_key :: slice
  tb_num_entries :: nat
  tb_closed :: bool
  tb_filter_block :: "(FilterPolicy \<times> FilterBlockBuilder) option"
  tb_pending_index_entry :: bool
  tb_pending_handle :: BlockHandle

definition TableBuilder_new :: "Options \<Rightarrow> 'f \<Rightarrow> 'f TableBuilder" where
  "TableBuilder_new options file =
     \<lparr>tb_options = options, tb_index_block_options = options\<lparr>opt_block_restart_interval := 1\<rparr>, tb_file = file, tb_offset = 0,
      tb_status = Status_OK, tb_data_block = BlockBuilder_new, tb_index_block = BlockBuilder_new, tb_last_key = [], tb_num_entries = 0,
      tb_closed = False,
      tb_filter_block = map_option (\<lambda>p. (p, StartBlock (fp_CreateFilter p) 0 FilterBlockBuilder_new)) (opt_filter_policy options),
      tb_pending_index_entry = False, tb_pending_handle = BlockHandle_new\<rparr>"

definition ChangeOptions :: "Options \<Rightarrow> 'f TableBuilder \<Rightarrow> Status \<times> 'f TableBuilder" where
  "ChangeOptions options r =
     (if cmp_address (opt_comparator options) \<noteq> cmp_address (opt_comparator (tb_options r))
      then (Status_InvalidArgument (lit ''changing comparator while building table'') [], r)
      else (Status_OK, r\<lparr>tb_options := options, tb_index_block_options := options\<lparr>opt_block_restart_interval := 1\<rparr>\<rparr>))"

definition TableBuilder_ok :: "'f TableBuilder \<Rightarrow> bool" where
  "TableBuilder_ok r \<longleftrightarrow> Status_ok (tb_status r)"

definition WriteRawBlock ::
    "(slice \<Rightarrow> 'f \<Rightarrow> (Status \<times> 'f) option) \<Rightarrow> slice \<Rightarrow> byte \<Rightarrow> 'f TableBuilder \<Rightarrow> (BlockHandle \<times> 'f TableBuilder) option" where
  "WriteRawBlock fappend block_contents t r =
     (let handle = \<lparr>bh_offset = tb_offset r, bh_size = word_of_nat (length block_contents)\<rparr> in
      case fappend block_contents (tb_file r) of
        None \<Rightarrow> None
      | Some (s, f) \<Rightarrow>
          if \<not> Status_ok s then Some (handle, r\<lparr>tb_status := s, tb_file := f\<rparr>)
          else
            (let crc = Crc_Value 0 block_contents;
                 crc = Extend crc 0 [t];
                 trailer = [t] @ EncodeFixed32 (Crc_Mask crc)
             in case fappend trailer f of
                  None \<Rightarrow> None
                | Some (s, f) \<Rightarrow>
                    Some (handle, r\<lparr>tb_status := s, tb_file := f,
                      tb_offset := (if Status_ok s then tb_offset r + (word_of_nat (length block_contents) + kBlockTrailerSize) else tb_offset r)\<rparr>)))"

text \<open>The handle of the block, the block builder afterwards, and the table builder.\<close>

definition WriteBlock ::
    "(slice \<Rightarrow> 'f \<Rightarrow> (Status \<times> 'f) option) \<Rightarrow> BlockBuilder \<Rightarrow> 'f TableBuilder \<Rightarrow> (BlockHandle \<times> BlockBuilder \<times> 'f TableBuilder) option" where
  "WriteBlock fappend b r =
     (let (raw, b) = BlockBuilder_Finish b;
          t = opt_compression (tb_options r);
          (block_contents, t) =
            (if t = kNoCompression then (raw, t)
             else if t = kSnappyCompression then
               (case Snappy_Compress raw of
                  Some compressed \<Rightarrow>
                    if length compressed < length raw - length raw div 8 then (compressed, t) else (raw, kNoCompression)
                | None \<Rightarrow> (raw, kNoCompression))
             else ([], t))
      in map_option (\<lambda>(handle, r). (handle, BlockBuilder_Reset b, r)) (WriteRawBlock fappend block_contents t r))"

definition TableBuilder_Flush ::
    "(slice \<Rightarrow> 'f \<Rightarrow> (Status \<times> 'f) option) \<Rightarrow> ('f \<Rightarrow> (Status \<times> 'f) option) \<Rightarrow> 'f TableBuilder \<Rightarrow> 'f TableBuilder option" where
  "TableBuilder_Flush fappend fflush r =
     (if \<not> TableBuilder_ok r then Some r
      else if bb_buffer (tb_data_block r) = [] then Some r
      else
        (case WriteBlock fappend (tb_data_block r) r of
           None \<Rightarrow> None
         | Some (handle, b, r) \<Rightarrow>
             (let r = r\<lparr>tb_data_block := b, tb_pending_handle := handle\<rparr> in
              case (if TableBuilder_ok r
                    then map_option (\<lambda>(s, f). r\<lparr>tb_pending_index_entry := True, tb_status := s, tb_file := f\<rparr>) (fflush (tb_file r))
                    else Some r) of
                None \<Rightarrow> None
              | Some r \<Rightarrow>
                  Some (r\<lparr>tb_filter_block := map_option (\<lambda>(p, fb). (p, StartBlock (fp_CreateFilter p) (tb_offset r) fb)) (tb_filter_block r)\<rparr>))))"

text \<open>The index entry of the last block, once a key that separates it from what follows is known.\<close>

definition add_index_entry :: "slice \<Rightarrow> 'f TableBuilder \<Rightarrow> 'f TableBuilder" where
  "add_index_entry k r =
     r\<lparr>tb_last_key := k,
       tb_index_block := BlockBuilder_Add (opt_block_restart_interval (tb_index_block_options r)) k (BlockHandle_EncodeTo (tb_pending_handle r) []) (tb_index_block r),
       tb_pending_index_entry := False\<rparr>"

definition TableBuilder_Add ::
    "(slice \<Rightarrow> 'f \<Rightarrow> (Status \<times> 'f) option) \<Rightarrow> ('f \<Rightarrow> (Status \<times> 'f) option) \<Rightarrow> slice \<Rightarrow> slice \<Rightarrow> 'f TableBuilder \<Rightarrow> 'f TableBuilder option" where
  "TableBuilder_Add fappend fflush k v r =
     (if \<not> TableBuilder_ok r then Some r
      else
        (let r = (if tb_pending_index_entry r
                  then add_index_entry (cmp_FindShortestSeparator (opt_comparator (tb_options r)) (tb_last_key r) k) r else r);
             r = r\<lparr>tb_filter_block := map_option (\<lambda>(p, fb). (p, AddKey k fb)) (tb_filter_block r), tb_last_key := k, tb_num_entries := tb_num_entries r + 1,
                   tb_data_block := BlockBuilder_Add (opt_block_restart_interval (tb_options r)) k v (tb_data_block r)\<rparr>;
             estimated_block_size = CurrentSizeEstimate (tb_data_block r)
         in if estimated_block_size \<ge> opt_block_size (tb_options r) then TableBuilder_Flush fappend fflush r else Some r))"

text \<open>The four parts of \<^verbatim>\<open>Finish\<close>.\<close>

definition finish_filter ::
    "(slice \<Rightarrow> 'f \<Rightarrow> (Status \<times> 'f) option) \<Rightarrow> 'f TableBuilder \<Rightarrow> (BlockHandle \<times> 'f TableBuilder) option" where
  "finish_filter fappend r =
     (if TableBuilder_ok r then
        (case tb_filter_block r of
           Some (p, fb) \<Rightarrow> WriteRawBlock fappend (FilterBlockBuilder_Finish (fp_CreateFilter p) fb) kNoCompression r
         | None \<Rightarrow> Some (BlockHandle_new, r))
      else Some (BlockHandle_new, r))"

definition finish_metaindex ::
    "(slice \<Rightarrow> 'f \<Rightarrow> (Status \<times> 'f) option) \<Rightarrow> BlockHandle \<Rightarrow> 'f TableBuilder \<Rightarrow> (BlockHandle \<times> 'f TableBuilder) option" where
  "finish_metaindex fappend filter_block_handle r =
     (if TableBuilder_ok r then
        (case (case tb_filter_block r of
                 Some _ \<Rightarrow>
                   map_option (\<lambda>p. BlockBuilder_Add (opt_block_restart_interval (tb_options r)) (lit ''filter.'' @ fp_Name p)
                     (BlockHandle_EncodeTo filter_block_handle []) BlockBuilder_new) (opt_filter_policy (tb_options r))
               | None \<Rightarrow> Some BlockBuilder_new) of
           None \<Rightarrow> None
         | Some b \<Rightarrow> map_option (\<lambda>(handle, b, r). (handle, r)) (WriteBlock fappend b r))
      else Some (BlockHandle_new, r))"

definition finish_index :: "(slice \<Rightarrow> 'f \<Rightarrow> (Status \<times> 'f) option) \<Rightarrow> 'f TableBuilder \<Rightarrow> (BlockHandle \<times> 'f TableBuilder) option" where
  "finish_index fappend r =
     (if TableBuilder_ok r then
        (let r = (if tb_pending_index_entry r
                  then add_index_entry (cmp_FindShortSuccessor (opt_comparator (tb_options r)) (tb_last_key r)) r else r)
         in map_option (\<lambda>(handle, b, r). (handle, r\<lparr>tb_index_block := b\<rparr>)) (WriteBlock fappend (tb_index_block r) r))
      else Some (BlockHandle_new, r))"

definition finish_footer :: "(slice \<Rightarrow> 'f \<Rightarrow> (Status \<times> 'f) option) \<Rightarrow> BlockHandle \<Rightarrow> BlockHandle \<Rightarrow> 'f TableBuilder \<Rightarrow> 'f TableBuilder option" where
  "finish_footer fappend metaindex_block_handle index_block_handle r =
     (if TableBuilder_ok r then
        (let footer_encoding = Footer_EncodeTo \<lparr>metaindex_handle = metaindex_block_handle, index_handle = index_block_handle\<rparr> [] in
         case fappend footer_encoding (tb_file r) of
           None \<Rightarrow> None
         | Some (s, f) \<Rightarrow>
             Some (r\<lparr>tb_status := s, tb_file := f,
                     tb_offset := (if Status_ok s then tb_offset r + word_of_nat (length footer_encoding) else tb_offset r)\<rparr>))
      else Some r)"

definition TableBuilder_Finish ::
    "(slice \<Rightarrow> 'f \<Rightarrow> (Status \<times> 'f) option) \<Rightarrow> ('f \<Rightarrow> (Status \<times> 'f) option) \<Rightarrow> 'f TableBuilder \<Rightarrow> (Status \<times> 'f TableBuilder) option" where
  "TableBuilder_Finish fappend fflush r =
     (case TableBuilder_Flush fappend fflush r of
        None \<Rightarrow> None
      | Some r \<Rightarrow>
          (case finish_filter fappend (r\<lparr>tb_closed := True\<rparr>) of
             None \<Rightarrow> None
           | Some (filter_block_handle, r) \<Rightarrow>
               (case finish_metaindex fappend filter_block_handle r of
                  None \<Rightarrow> None
                | Some (metaindex_block_handle, r) \<Rightarrow>
                    (case finish_index fappend r of
                       None \<Rightarrow> None
                     | Some (index_block_handle, r) \<Rightarrow>
                         map_option (\<lambda>r. (tb_status r, r)) (finish_footer fappend metaindex_block_handle index_block_handle r)))))"

definition Abandon :: "'f TableBuilder \<Rightarrow> 'f TableBuilder" where
  "Abandon r = r\<lparr>tb_closed := True\<rparr>"

definition NumEntries :: "'f TableBuilder \<Rightarrow> nat" where
  "NumEntries r = tb_num_entries r"

definition FileSize :: "'f TableBuilder \<Rightarrow> u64" where
  "FileSize r = tb_offset r"

end
