(* ===== verification/Ldb_Iterator.thy ===== *)
theory Ldb_Iterator
  imports Ldb_Status
begin

text \<open>
  LevelDB, \<^verbatim>\<open>include/leveldb/iterator.h\<close>: the contract of the abstract class \<^verbatim>\<open>Iterator\<close>. An iterator over the entries
  \<open>es\<close>, sorted by \<open>cmp\<close>, has a position: the index of an entry, or \<open>length es\<close> when it is not valid.
  Operations are \<open>None\<close> when they leave memory they may use or do not return.
\<close>

type_synonym entries = "(slice \<times> slice) list"

text \<open>What a client may do, and where that leads.\<close>

datatype cursor_op = To_First | To_Last | To_Key slice | To_Next | To_Prev

definition seek_index :: "(slice \<Rightarrow> slice \<Rightarrow> int) \<Rightarrow> entries \<Rightarrow> slice \<Rightarrow> nat" where
  "seek_index cmp es target = length (takeWhile (\<lambda>(k, _). cmp k target < 0) es)"

lemma seek_index_props:
  "seek_index cmp es t \<le> length es" "i < seek_index cmp es t \<Longrightarrow> cmp (fst (es ! i)) t < 0"
  "seek_index cmp es t < length es \<Longrightarrow> \<not> cmp (fst (es ! seek_index cmp es t)) t < 0"
proof -
  let ?P = "\<lambda>(k, _). cmp k t < 0"
  show "seek_index cmp es t \<le> length es" by (simp add: seek_index_def length_takeWhile_le)
  show "cmp (fst (es ! i)) t < 0" if "i < seek_index cmp es t"
    using nth_mem[of i "takeWhile ?P es"] takeWhile_nth[of i ?P es] set_takeWhileD[of "es ! i" ?P es] that
    by (auto simp: seek_index_def case_prod_beta)
  show "\<not> cmp (fst (es ! seek_index cmp es t)) t < 0" if "seek_index cmp es t < length es"
    using nth_length_takeWhile[of ?P es] that by (auto simp: seek_index_def case_prod_beta)
qed

fun cursor_step :: "(slice \<Rightarrow> slice \<Rightarrow> int) \<Rightarrow> entries \<Rightarrow> cursor_op \<Rightarrow> nat \<Rightarrow> nat option" where
  "cursor_step cmp es To_First p = Some 0"
| "cursor_step cmp es To_Last p = Some (length es - 1)"
| "cursor_step cmp es (To_Key target) p = Some (seek_index cmp es target)"
| "cursor_step cmp es To_Next p = (if p < length es then Some (Suc p) else None)"
| "cursor_step cmp es To_Prev p = (if p < length es then Some (if p = 0 then length es else p - 1) else None)"

fun cursor_run :: "(slice \<Rightarrow> slice \<Rightarrow> int) \<Rightarrow> entries \<Rightarrow> cursor_op list \<Rightarrow> nat \<Rightarrow> nat option" where
  "cursor_run cmp es [] p = Some p"
| "cursor_run cmp es (a # as) p = Option.bind (cursor_step cmp es a p) (cursor_run cmp es as)"

text \<open>The same on an iterator, given its operations.\<close>

record 'i Iterator =
  SeekToFirst :: "'i \<Rightarrow> 'i option"
  SeekToLast :: "'i \<Rightarrow> 'i option"
  Seek :: "slice \<Rightarrow> 'i \<Rightarrow> 'i option"
  Next :: "'i \<Rightarrow> 'i option"
  Prev :: "'i \<Rightarrow> 'i option"
  Valid :: "'i \<Rightarrow> bool"
  key :: "'i \<Rightarrow> slice"
  val :: "'i \<Rightarrow> slice option"
  Iterator_status :: "'i \<Rightarrow> Status"

fun iterator_step :: "'i Iterator \<Rightarrow> cursor_op \<Rightarrow> 'i \<Rightarrow> 'i option" where
  "iterator_step I To_First it = SeekToFirst I it"
| "iterator_step I To_Last it = SeekToLast I it"
| "iterator_step I (To_Key target) it = Seek I target it"
| "iterator_step I To_Next it = Next I it"
| "iterator_step I To_Prev it = Prev I it"

fun iterator_run :: "'i Iterator \<Rightarrow> cursor_op list \<Rightarrow> 'i \<Rightarrow> 'i option" where
  "iterator_run I [] it = Some it"
| "iterator_run I (a # as) it = Option.bind (iterator_step I a it) (iterator_run I as)"

text \<open>What the client sees at a position.\<close>

definition shows_entry :: "'i Iterator \<Rightarrow> entries \<Rightarrow> nat \<Rightarrow> 'i \<Rightarrow> bool" where
  "shows_entry I es p it \<longleftrightarrow>
     (if p < length es then Valid I it \<and> key I it = fst (es ! p) \<and> val I it = Some (snd (es ! p)) else \<not> Valid I it)"

definition op_valid :: "(slice \<Rightarrow> bool) \<Rightarrow> cursor_op \<Rightarrow> bool" where
  "op_valid valid a \<longleftrightarrow> (case a of To_Key target \<Rightarrow> valid target | _ \<Rightarrow> True)"

locale iterator =
  fixes valid :: "slice \<Rightarrow> bool" and cmp :: "slice \<Rightarrow> slice \<Rightarrow> int" and es :: entries
    and I :: "'i Iterator" and stands :: "nat \<Rightarrow> 'i \<Rightarrow> bool"
  assumes stands_shows: "stands p it \<Longrightarrow> shows_entry I es p it"
    and stands_ok: "stands p it \<Longrightarrow> Status_ok (Iterator_status I it)"
    and step: "stands p it \<Longrightarrow> op_valid valid a \<Longrightarrow> cursor_step cmp es a p = Some p' \<Longrightarrow> \<exists>it'. iterator_step I a it = Some it' \<and> stands p' it'"
begin

text \<open>Every sequence of operations is that of the position.\<close>

lemma run:
  assumes "stands p it" "list_all (op_valid valid) as" "cursor_run cmp es as p = Some p'"
  shows "\<exists>it'. iterator_run I as it = Some it' \<and> stands p' it'"
  using assms
proof (induction as arbitrary: p it)
  case (Cons a as)
  obtain p1 where p1: "cursor_step cmp es a p = Some p1" "cursor_run cmp es as p1 = Some p'"
    using Cons.prems(3) by (auto simp: Option.bind_eq_Some_conv)
  obtain it1 where "iterator_step I a it = Some it1" "stands p1 it1" using step[OF Cons.prems(1) _ p1(1)] Cons.prems(2) by auto
  then show ?case using Cons.IH[of p1 it1] p1 Cons.prems by simp
qed simp

lemma run_shows:
  assumes "stands p it" "list_all (op_valid valid) as" "cursor_run cmp es as p = Some p'"
  shows "\<exists>it'. iterator_run I as it = Some it' \<and> shows_entry I es p' it'"
  using run[OF assms] stands_shows by blast

end

end
