(* ===== verification/Ldb_Two_Level.thy ===== *)
theory Ldb_Two_Level
  imports Ldb_Iterator Ldb_Comparator
begin

text \<open>
  LevelDB, \<^verbatim>\<open>table/iterator_wrapper.h\<close> and \<^verbatim>\<open>table/two_level_iterator.cc\<close>: an iterator over an index whose values
  name blocks, and over the blocks. The operations of the two kinds of iterators and the function that opens a
  block are arguments; \<open>'s\<close> is the state this function works on, the \<^verbatim>\<open>arg\<close> of the source.
\<close>

section \<open>The wrapper\<close>

record 'i IteratorWrapper =
  iw_iter :: "'i option"
  iw_valid :: bool
  iw_key :: slice

definition Wrapper_Update :: "'i Iterator \<Rightarrow> 'i \<Rightarrow> 'i IteratorWrapper \<Rightarrow> 'i IteratorWrapper" where
  "Wrapper_Update I it w =
     w\<lparr>iw_iter := Some it, iw_valid := Valid I it, iw_key := (if Valid I it then key I it else iw_key w)\<rparr>"

definition Wrapper_Set :: "'i Iterator \<Rightarrow> 'i option \<Rightarrow> 'i IteratorWrapper \<Rightarrow> 'i IteratorWrapper" where
  "Wrapper_Set I iter w = (case iter of None \<Rightarrow> w\<lparr>iw_iter := None, iw_valid := False\<rparr> | Some it \<Rightarrow> Wrapper_Update I it w)"

definition Wrapper_new :: "'i Iterator \<Rightarrow> 'i option \<Rightarrow> 'i IteratorWrapper" where
  "Wrapper_new I iter = Wrapper_Set I iter \<lparr>iw_iter = None, iw_valid = False, iw_key = []\<rparr>"

definition Wrapper_value :: "'i Iterator \<Rightarrow> 'i IteratorWrapper \<Rightarrow> slice option" where
  "Wrapper_value I w = Option.bind (iw_iter w) (val I)"

text \<open>\<^verbatim>\<open>assert(iter_)\<close>, a move of the iterator, \<^verbatim>\<open>Update()\<close>\<close>

definition wrapper_move :: "'i Iterator \<Rightarrow> ('i \<Rightarrow> 'i option) \<Rightarrow> 'i IteratorWrapper \<Rightarrow> 'i IteratorWrapper option" where
  "wrapper_move I move w = Option.bind (iw_iter w) (\<lambda>it. map_option (\<lambda>it. Wrapper_Update I it w) (move it))"

definition Wrapper_Next :: "'i Iterator \<Rightarrow> 'i IteratorWrapper \<Rightarrow> 'i IteratorWrapper option" where
  "Wrapper_Next I = wrapper_move I (Next I)"

definition Wrapper_Prev :: "'i Iterator \<Rightarrow> 'i IteratorWrapper \<Rightarrow> 'i IteratorWrapper option" where
  "Wrapper_Prev I = wrapper_move I (Prev I)"

definition Wrapper_Seek :: "'i Iterator \<Rightarrow> slice \<Rightarrow> 'i IteratorWrapper \<Rightarrow> 'i IteratorWrapper option" where
  "Wrapper_Seek I k = wrapper_move I (Seek I k)"

definition Wrapper_SeekToFirst :: "'i Iterator \<Rightarrow> 'i IteratorWrapper \<Rightarrow> 'i IteratorWrapper option" where
  "Wrapper_SeekToFirst I = wrapper_move I (SeekToFirst I)"

definition Wrapper_SeekToLast :: "'i Iterator \<Rightarrow> 'i IteratorWrapper \<Rightarrow> 'i IteratorWrapper option" where
  "Wrapper_SeekToLast I = wrapper_move I (SeekToLast I)"

lemmas Wrapper_moves = Wrapper_Next_def Wrapper_Prev_def Wrapper_Seek_def Wrapper_SeekToFirst_def Wrapper_SeekToLast_def

section \<open>The two-level iterator\<close>

record ('i, 'd, 's) TwoLevelIterator =
  tl_arg :: 's
  tl_status :: Status
  tl_index_iter :: "'i IteratorWrapper"
  tl_data_iter :: "'d IteratorWrapper"
  tl_data_block_handle :: slice

type_synonym ('d, 's) block_function = "slice \<Rightarrow> 's \<Rightarrow> ('d \<times> 's) option"

definition TwoLevelIterator_new :: "'i Iterator \<Rightarrow> 'd Iterator \<Rightarrow> 'i \<Rightarrow> 's \<Rightarrow> ('i, 'd, 's) TwoLevelIterator" where
  "TwoLevelIterator_new I D index_iter arg =
     \<lparr>tl_arg = arg, tl_status = Status_OK, tl_index_iter = Wrapper_new I (Some index_iter), tl_data_iter = Wrapper_new D None,
      tl_data_block_handle = []\<rparr>"

definition SaveError :: "Status \<Rightarrow> ('i, 'd, 's) TwoLevelIterator \<Rightarrow> ('i, 'd, 's) TwoLevelIterator" where
  "SaveError s t = (if Status_ok (tl_status t) \<and> \<not> Status_ok s then t\<lparr>tl_status := s\<rparr> else t)"

definition SetDataIterator :: "'d Iterator \<Rightarrow> 'd option \<Rightarrow> ('i, 'd, 's) TwoLevelIterator \<Rightarrow> ('i, 'd, 's) TwoLevelIterator" where
  "SetDataIterator D data_iter t =
     (let t = (case iw_iter (tl_data_iter t) of None \<Rightarrow> t | Some it \<Rightarrow> SaveError (Iterator_status D it) t)
      in t\<lparr>tl_data_iter := Wrapper_Set D data_iter (tl_data_iter t)\<rparr>)"

definition InitDataBlock ::
    "'i Iterator \<Rightarrow> 'd Iterator \<Rightarrow> ('d, 's) block_function \<Rightarrow> ('i, 'd, 's) TwoLevelIterator \<Rightarrow> ('i, 'd, 's) TwoLevelIterator option" where
  "InitDataBlock I D block_function t =
     (if \<not> iw_valid (tl_index_iter t) then Some (SetDataIterator D None t)
      else
        (case Wrapper_value I (tl_index_iter t) of
           None \<Rightarrow> None
         | Some handle \<Rightarrow>
             if iw_iter (tl_data_iter t) \<noteq> None \<and> slice_compare handle (tl_data_block_handle t) = 0 then Some t
             else
               (case block_function handle (tl_arg t) of
                  None \<Rightarrow> None
                | Some (iter, arg) \<Rightarrow> Some (SetDataIterator D (Some iter) (t\<lparr>tl_arg := arg, tl_data_block_handle := handle\<rparr>)))))"

text \<open>\<^verbatim>\<open>if (data_iter_.iter() != nullptr) data_iter_.f()\<close>\<close>

definition if_data ::
    "('d IteratorWrapper \<Rightarrow> 'd IteratorWrapper option) \<Rightarrow> ('i, 'd, 's) TwoLevelIterator \<Rightarrow> ('i, 'd, 's) TwoLevelIterator option" where
  "if_data move t =
     (if iw_iter (tl_data_iter t) \<noteq> None then map_option (\<lambda>w. t\<lparr>tl_data_iter := w\<rparr>) (move (tl_data_iter t)) else Some t)"

text \<open>A move of the index, \<^verbatim>\<open>InitDataBlock()\<close>, a move of the new data iterator: the statements five routines share.\<close>

definition move_block ::
    "'i Iterator \<Rightarrow> 'd Iterator \<Rightarrow> ('d, 's) block_function \<Rightarrow> ('i IteratorWrapper \<Rightarrow> 'i IteratorWrapper option) \<Rightarrow>
     ('d IteratorWrapper \<Rightarrow> 'd IteratorWrapper option) \<Rightarrow> ('i, 'd, 's) TwoLevelIterator \<Rightarrow> ('i, 'd, 's) TwoLevelIterator option" where
  "move_block I D block_function index_move data_move t =
     Option.bind (index_move (tl_index_iter t)) (\<lambda>w.
     Option.bind (InitDataBlock I D block_function (t\<lparr>tl_index_iter := w\<rparr>)) (if_data data_move))"

partial_function (option) SkipEmptyDataBlocksForward ::
    "'i Iterator \<Rightarrow> 'd Iterator \<Rightarrow> ('d, 's) block_function \<Rightarrow> ('i, 'd, 's) TwoLevelIterator \<Rightarrow> ('i, 'd, 's) TwoLevelIterator option" where
  [code]: "SkipEmptyDataBlocksForward I D block_function t =
     (if iw_iter (tl_data_iter t) = None \<or> \<not> iw_valid (tl_data_iter t) then
        (if \<not> iw_valid (tl_index_iter t) then Some (SetDataIterator D None t)
         else Option.bind (move_block I D block_function (Wrapper_Next I) (Wrapper_SeekToFirst D) t)
                (SkipEmptyDataBlocksForward I D block_function))
      else Some t)"

partial_function (option) SkipEmptyDataBlocksBackward ::
    "'i Iterator \<Rightarrow> 'd Iterator \<Rightarrow> ('d, 's) block_function \<Rightarrow> ('i, 'd, 's) TwoLevelIterator \<Rightarrow> ('i, 'd, 's) TwoLevelIterator option" where
  [code]: "SkipEmptyDataBlocksBackward I D block_function t =
     (if iw_iter (tl_data_iter t) = None \<or> \<not> iw_valid (tl_data_iter t) then
        (if \<not> iw_valid (tl_index_iter t) then Some (SetDataIterator D None t)
         else Option.bind (move_block I D block_function (Wrapper_Prev I) (Wrapper_SeekToLast D) t)
                (SkipEmptyDataBlocksBackward I D block_function))
      else Some t)"

definition TwoLevelIterator_Seek where
  "TwoLevelIterator_Seek I D block_function target t =
     Option.bind (move_block I D block_function (Wrapper_Seek I target) (Wrapper_Seek D target) t)
       (SkipEmptyDataBlocksForward I D block_function)"

definition TwoLevelIterator_SeekToFirst where
  "TwoLevelIterator_SeekToFirst I D block_function t =
     Option.bind (move_block I D block_function (Wrapper_SeekToFirst I) (Wrapper_SeekToFirst D) t)
       (SkipEmptyDataBlocksForward I D block_function)"

definition TwoLevelIterator_SeekToLast where
  "TwoLevelIterator_SeekToLast I D block_function t =
     Option.bind (move_block I D block_function (Wrapper_SeekToLast I) (Wrapper_SeekToLast D) t)
       (SkipEmptyDataBlocksBackward I D block_function)"

definition TwoLevelIterator_Next where
  "TwoLevelIterator_Next I D block_function t =
     Option.bind (Wrapper_Next D (tl_data_iter t)) (\<lambda>w. SkipEmptyDataBlocksForward I D block_function (t\<lparr>tl_data_iter := w\<rparr>))"

definition TwoLevelIterator_Prev where
  "TwoLevelIterator_Prev I D block_function t =
     Option.bind (Wrapper_Prev D (tl_data_iter t)) (\<lambda>w. SkipEmptyDataBlocksBackward I D block_function (t\<lparr>tl_data_iter := w\<rparr>))"

definition TwoLevelIterator_status :: "'i Iterator \<Rightarrow> 'd Iterator \<Rightarrow> ('i, 'd, 's) TwoLevelIterator \<Rightarrow> Status" where
  "TwoLevelIterator_status I D t =
     (case iw_iter (tl_index_iter t) of
        Some it \<Rightarrow>
          if \<not> Status_ok (Iterator_status I it) then Iterator_status I it
          else (case iw_iter (tl_data_iter t) of
                  Some d \<Rightarrow> if \<not> Status_ok (Iterator_status D d) then Iterator_status D d else tl_status t
                | None \<Rightarrow> tl_status t)
      | None \<Rightarrow> tl_status t)"

definition TwoLevel_Iterator :: "'i Iterator \<Rightarrow> 'd Iterator \<Rightarrow> ('d, 's) block_function \<Rightarrow> ('i, 'd, 's) TwoLevelIterator Iterator" where
  "TwoLevel_Iterator I D block_function =
     \<lparr>SeekToFirst = TwoLevelIterator_SeekToFirst I D block_function, SeekToLast = TwoLevelIterator_SeekToLast I D block_function,
      Seek = TwoLevelIterator_Seek I D block_function, Next = TwoLevelIterator_Next I D block_function,
      Prev = TwoLevelIterator_Prev I D block_function, Valid = (\<lambda>t. iw_valid (tl_data_iter t)), key = (\<lambda>t. iw_key (tl_data_iter t)),
      val = (\<lambda>t. Wrapper_value D (tl_data_iter t)), Iterator_status = TwoLevelIterator_status I D\<rparr>"

end
