(* ===== verification/Ldb_Block_Laws.thy ===== *)
theory Ldb_Block_Laws
  imports Ldb_Block Ldb_Iterator
begin

text \<open>
  LevelDB, the laws of blocks: the bytes a builder produces for a list of entries, and what the iterator does on them.
  An item is an entry with the number of bytes its key shares with the one before.
\<close>

section \<open>The layout of a block\<close>

type_synonym item = "nat \<times> slice \<times> slice"

fun enc_item :: "item \<Rightarrow> byte list" where
  "enc_item (s, k, v) =
     EncodeVarint32 (word_of_nat s) @ EncodeVarint32 (word_of_nat (length k - s)) @ EncodeVarint32 (word_of_nat (length v)) @ drop s k @ v"

definition items_bytes :: "item list \<Rightarrow> byte list" where
  "items_bytes ts = concat (map enc_item ts)"

definition item_pos :: "item list \<Rightarrow> nat \<Rightarrow> nat" where
  "item_pos ts i = length (items_bytes (take i ts))"

definition block_bytes :: "item list \<Rightarrow> nat list \<Rightarrow> byte list" where
  "block_bytes ts rs =
     items_bytes ts @ fixed32_array (map (\<lambda>r. word_of_nat (item_pos ts r)) rs) @ EncodeFixed32 (word_of_nat (length rs))"

fun chained :: "slice \<Rightarrow> item list \<Rightarrow> bool" where
  "chained prev [] \<longleftrightarrow> True"
| "chained prev ((s, k, v) # ts) \<longleftrightarrow> s \<le> length prev \<and> s \<le> length k \<and> take s prev = take s k \<and> chained k ts"

definition well_laid :: "item list \<Rightarrow> nat list \<Rightarrow> bool" where
  "well_laid ts rs \<longleftrightarrow> chained [] ts \<and> rs \<noteq> [] \<and> hd rs = 0 \<and> sorted_wrt (<) rs \<and>
     (\<forall>r\<in>set rs. r < length ts \<longrightarrow> fst (ts ! r) = 0) \<and> (\<forall>r\<in>set rs. r < length ts \<or> r = 0) \<and> length (block_bytes ts rs) < 2 ^ 32"

lemma items_bytes_append: "items_bytes (xs @ ys) = items_bytes xs @ items_bytes ys"
  by (simp add: items_bytes_def)

lemma EncodeVarint32_not_Nil [simp]: "EncodeVarint32 v \<noteq> []"
  by (simp add: EncodeVarint32_leb128)

lemma enc_item_length: "3 \<le> length (enc_item t)"
proof (cases t)
  case (fields s k v)
  have "1 \<le> length (EncodeVarint32 w)" for w by (simp add: Suc_le_eq)
  from this[of "word_of_nat s"] this[of "word_of_nat (length k - s)"] this[of "word_of_nat (length v)"] show ?thesis
    by (simp add: fields)
qed

lemma items_split: "i < length ts \<Longrightarrow> items_bytes ts = items_bytes (take i ts) @ enc_item (ts ! i) @ items_bytes (drop (Suc i) ts)"
  by (subst id_take_nth_drop[of i ts]) (simp_all add: items_bytes_def)

lemma item_pos_Suc: "i < length ts \<Longrightarrow> item_pos ts (Suc i) = item_pos ts i + length (enc_item (ts ! i))"
  by (simp add: item_pos_def items_bytes_def take_Suc_conv_app_nth)

lemma item_pos_end [simp]: "item_pos ts (length ts) = length (items_bytes ts)" "item_pos ts 0 = 0"
  by (simp_all add: item_pos_def items_bytes_def)

lemma item_pos_less: "i < j \<Longrightarrow> j \<le> length ts \<Longrightarrow> item_pos ts i < item_pos ts j"
proof (induction j)
  case (Suc j)
  have "0 < length (enc_item (ts ! j))" using enc_item_length[of "ts ! j"] by linarith
  then have "item_pos ts j < item_pos ts (Suc j)" using Suc.prems by (simp add: item_pos_Suc)
  then show ?case using Suc by (cases "i = j") auto
qed simp

lemma item_pos_less_iff: "i \<le> length ts \<Longrightarrow> j \<le> length ts \<Longrightarrow> item_pos ts i < item_pos ts j \<longleftrightarrow> i < j"
  by (metis item_pos_less linorder_neqE_nat order_less_asym order_less_irrefl)

lemma drop_item_pos: "i < length ts \<Longrightarrow> drop (item_pos ts i) (items_bytes ts) = enc_item (ts ! i) @ items_bytes (drop (Suc i) ts)"
  by (simp add: items_split[of i ts] item_pos_def)

lemma chained_nth:
  assumes "chained prev ts" "i < length ts" "ts ! i = (s, k, v)"
  shows "s \<le> length k" "i = 0 \<Longrightarrow> s \<le> length prev \<and> take s prev = take s k"
    "0 < i \<Longrightarrow> s \<le> length (fst (snd (ts ! (i - 1)))) \<and> take s (fst (snd (ts ! (i - 1)))) = take s k"
  using assms
proof (induction prev ts arbitrary: i rule: chained.induct)
  case (2 prev s' k' v' ts)
  {
    case 1
    then show ?case using 2(1)[of "i - 1"] 2 by (cases i) auto
  next
    case 2
    then show ?case by auto
  next
    case 3
    show ?case
    proof (cases "i - 1")
      case 0
      then show ?thesis using 2(2)[of 0] 3 by (cases i) auto
    next
      case (Suc j)
      then show ?thesis using 2(3)[of "Suc j"] 3 by (cases i) auto
    qed
  }
qed simp_all

lemma key_bound: "chained [] ts \<Longrightarrow> i < length ts \<Longrightarrow> length (fst (snd (ts ! i))) \<le> item_pos ts (Suc i)"
proof (induction i)
  case (Suc i)
  obtain s k v where t: "ts ! Suc i = (s, k, v)" by (metis prod.exhaust)
  have "s \<le> length (fst (snd (ts ! i)))" using chained_nth(3)[OF Suc.prems t] by simp
  then have "s \<le> item_pos ts (Suc i)" using Suc by simp
  then show ?case using Suc.prems by (simp add: t item_pos_Suc[of "Suc i"])
next
  case 0
  obtain s k v where t: "ts ! 0 = (s, k, v)" by (metis prod.exhaust)
  then show ?case using 0 chained_nth(2)[OF 0 t] by (simp add: item_pos_Suc)
qed

section \<open>Reading an entry\<close>

lemma GetVarint32Ptr_Encode: "GetVarint32Ptr (EncodeVarint32 v @ rest) = Some (v, rest)"
  by (simp add: EncodeVarint32_leb128 GetVarint32Ptr_leb128)

lemma EncodeVarint32_small: "v < 128 \<Longrightarrow> EncodeVarint32 v = [ucast v]"
  by (simp add: EncodeVarint32_def)

lemma EncodeVarint32_large: "\<not> v < 128 \<Longrightarrow> \<exists>bs. EncodeVarint32 v = ucast (v OR 128) # bs"
  by (auto simp: EncodeVarint32_def Let_def)

lemma less_128_iff: "x < 128 \<longleftrightarrow> take_bit 7 x = (x :: u32)"
proof -
  have "take_bit 7 x = x \<longleftrightarrow> unat (take_bit 7 x) = unat x" by (metis unsigned_word_eqI)
  also have "\<dots> \<longleftrightarrow> unat x mod 128 = unat x" by (simp only: unsigned_take_bit_eq) (simp add: take_bit_eq_mod)
  finally show ?thesis by (simp add: word_less_nat_alt mod_eq_self_iff_div_eq_0 div_eq_0_iff)
qed

lemma or3_less_128: "(x OR y OR z :: u32) < 128 \<longleftrightarrow> x < 128 \<and> y < 128 \<and> z < 128"
proof
  show "x OR y OR z < 128" if "x < 128 \<and> y < 128 \<and> z < 128"
    using that by (simp add: less_128_iff take_bit_or)
  assume "x OR y OR z < 128"
  then have b: "bit (x OR y OR z) n \<Longrightarrow> n < 7" for n unfolding less_128_iff by (metis bit_take_bit_iff)
  have "take_bit 7 w = w" if "\<And>n. bit w n \<Longrightarrow> n < 7" for w :: u32
    using that by (intro bit_eqI) (auto simp: bit_take_bit_iff)
  then show "x < 128 \<and> y < 128 \<and> z < 128" using b by (auto simp: less_128_iff bit_or_iff)
qed

lemma high_byte: "\<not> (ucast (ucast (v OR 128 :: u32) :: byte) :: u32) < 128"
proof -
  have "bit (ucast (ucast (v OR 128 :: u32) :: byte) :: u32) 7"
    using bit_exp_iff[of 7 7, where 'a = u32] by (auto simp: bit_simps)
  then show ?thesis unfolding less_128_iff by (metis bit_take_bit_iff less_irrefl)
qed

lemma low_byte_same: "v < 128 \<Longrightarrow> ucast (ucast (v :: u32) :: byte) = v"
proof (rule bit_word_eqI)
  assume "v < 128"
  then have b: "bit v n \<Longrightarrow> n < 7" for n unfolding less_128_iff by (metis bit_take_bit_iff)
  show "bit (ucast (ucast v :: byte) :: u32) n = bit v n" if "n < LENGTH(32)" for n
    using that b[of n] by (auto simp: bit_simps)
qed

text \<open>On any encoded header \<^verbatim>\<open>DecodeEntry\<close> gives the three numbers, unless their sum, in 32 bits, is more than the bytes
  that are left.\<close>

lemma DecodeEntry_header:
  "DecodeEntry (EncodeVarint32 a @ EncodeVarint32 b @ EncodeVarint32 c @ q) =
     (if (word_of_nat (length q) :: u32) < b + c then None else Some (a, b, c, q))"
proof -
  define p where "p = EncodeVarint32 a @ EncodeVarint32 b @ EncodeVarint32 c @ q"
  have "0 < length (EncodeVarint32 v)" for v by (cases "v < 128") (auto simp: EncodeVarint32_small dest: EncodeVarint32_large)
  from this[of a] this[of b] this[of c] have len: "\<not> length p < 3" unfolding p_def length_append by linarith
  have slow: "GetVarint32Ptr p = Some (a, EncodeVarint32 b @ EncodeVarint32 c @ q)"
    "GetVarint32Ptr (EncodeVarint32 b @ EncodeVarint32 c @ q) = Some (b, EncodeVarint32 c @ q)"
    "GetVarint32Ptr (EncodeVarint32 c @ q) = Some (c, q)"
    by (simp_all add: p_def GetVarint32Ptr_Encode)
  let ?o = "ucast (p ! 0) OR ucast (p ! 1) OR ucast (p ! 2) :: u32"
  have fast: "ucast (p ! 0) = a \<and> ucast (p ! 1) = b \<and> ucast (p ! 2) = c \<and> drop 3 p = q" if "?o < 128"
  proof -
    have o: "(ucast (p ! 0) :: u32) < 128" "(ucast (p ! 1) :: u32) < 128" "(ucast (p ! 2) :: u32) < 128" using that unfolding or3_less_128 by auto
    have a: "a < 128" using o(1) EncodeVarint32_large[of a] high_byte[of a] by (cases "a < 128") (auto simp: p_def)
    have b: "b < 128" using o(2) a EncodeVarint32_large[of b] high_byte[of b] by (cases "b < 128") (auto simp: p_def EncodeVarint32_small)
    have c: "c < 128" using o(3) a b EncodeVarint32_large[of c] high_byte[of c] by (cases "c < 128") (auto simp: p_def EncodeVarint32_small)
    show ?thesis using a b c by (simp add: p_def EncodeVarint32_small low_byte_same)
  qed
  show ?thesis
    unfolding p_def[symmetric] DecodeEntry_def Let_def
    using len slow fast by (cases "?o < 128") simp_all
qed

lemma DecodeEntry_item:
  assumes "length (enc_item (s, k, v) @ rest) < 2 ^ 32"
  shows "DecodeEntry (enc_item (s, k, v) @ rest) =
    Some (word_of_nat s, word_of_nat (length k - s), word_of_nat (length v), drop s k @ v @ rest)"
proof -
  have "length (drop s k @ v @ rest) < 2 ^ 32" using assms by simp
  then have "\<not> (word_of_nat (length (drop s k @ v @ rest)) :: u32) < word_of_nat (length k - s) + word_of_nat (length v)"
    by (simp add: word_less_nat_alt unat_word_of_nat flip: of_nat_add)
  then show ?thesis using DecodeEntry_header by simp
qed

section \<open>The iterator on a well laid block\<close>

definition over :: "item list \<Rightarrow> nat list \<Rightarrow> BlockIter \<Rightarrow> bool" where
  "over ts rs it \<longleftrightarrow> bi_data it = block_bytes ts rs \<and> bi_restarts it = length (items_bytes ts) \<and> bi_num_restarts it = length rs \<and>
     bi_status it = Status_OK"

text \<open>The iterator is about to parse item \<open>i\<close>; it stands at item \<open>i\<close>; it is exhausted.\<close>

definition ready_at :: "item list \<Rightarrow> nat list \<Rightarrow> nat \<Rightarrow> BlockIter \<Rightarrow> bool" where
  "ready_at ts rs i it \<longleftrightarrow> over ts rs it \<and> i \<le> length ts \<and> bi_restart_index it < length rs \<and> rs ! bi_restart_index it \<le> i \<and>
     NextEntryOffset it = Some (item_pos ts i) \<and>
     (i < length ts \<longrightarrow> fst (ts ! i) \<le> length (bi_key it) \<and> take (fst (ts ! i)) (bi_key it) = take (fst (ts ! i)) (fst (snd (ts ! i))))"

definition stands_at :: "item list \<Rightarrow> nat list \<Rightarrow> nat \<Rightarrow> BlockIter \<Rightarrow> bool" where
  "stands_at ts rs i it \<longleftrightarrow> over ts rs it \<and> i < length ts \<and> bi_restart_index it < length rs \<and> rs ! bi_restart_index it \<le> i \<and>
     bi_current it = item_pos ts i \<and> bi_key it = fst (snd (ts ! i)) \<and>
     bi_value it = Some (item_pos ts (Suc i) - length (snd (snd (ts ! i))), length (snd (snd (ts ! i))))"

definition exhausted :: "item list \<Rightarrow> nat list \<Rightarrow> BlockIter \<Rightarrow> bool" where
  "exhausted ts rs it \<longleftrightarrow> over ts rs it \<and> bi_current it = bi_restarts it"

lemma sub_slice_append: "off + n \<le> length xs \<Longrightarrow> sub_slice (xs @ ys) off n = Some (take n (drop off xs))"
  by (simp add: sub_slice_def)

lemma well_laid_pos:
  assumes "well_laid ts rs" "i \<le> length ts"
  shows "item_pos ts i \<le> length (items_bytes ts)" "item_pos ts i < 2 ^ 32" "item_pos ts i + 4 * length rs + 4 \<le> length (block_bytes ts rs)"
proof -
  show "item_pos ts i \<le> length (items_bytes ts)"
    using item_pos_less[of i "length ts" ts] assms(2) by (cases "i = length ts") auto
  moreover have "length (block_bytes ts rs) < 2 ^ 32" using assms(1) by (simp add: well_laid_def)
  ultimately show "item_pos ts i < 2 ^ 32" "item_pos ts i + 4 * length rs + 4 \<le> length (block_bytes ts rs)"
    by (simp_all add: block_bytes_def)
qed

lemma restart_le: "well_laid ts rs \<Longrightarrow> r < length rs \<Longrightarrow> rs ! r \<le> length ts"
proof -
  assume "well_laid ts rs" "r < length rs"
  then have "rs ! r < length ts \<or> rs ! r = 0" unfolding well_laid_def by (meson nth_mem)
  then show ?thesis by auto
qed

lemma restart_less: "well_laid ts rs \<Longrightarrow> r < length rs \<Longrightarrow> rs ! r \<noteq> 0 \<Longrightarrow> rs ! r < length ts"
  unfolding well_laid_def by (meson nth_mem)

lemma GetRestartPoint_over:
  assumes "well_laid ts rs" "over ts rs it" "r < length rs"
  shows "GetRestartPoint it r = Some (item_pos ts (rs ! r))"
proof -
  let ?xs = "map (\<lambda>r. word_of_nat (item_pos ts r) :: u32) rs"
  have "bi_restarts it + r * 4 + 4 \<le> length (bi_data it)"
    using assms by (simp add: over_def block_bytes_def)
  moreover have "DecodeFixed32 (take 4 (drop (bi_restarts it + r * 4) (bi_data it))) = ?xs ! r"
    using assms DecodeFixed32_array[of r ?xs "EncodeFixed32 (word_of_nat (length rs))"]
    by (simp add: over_def block_bytes_def DecodeFixed32_def mult.commute)
  moreover have "unat (?xs ! r) = item_pos ts (rs ! r)"
    using well_laid_pos(2)[OF assms(1) restart_le[OF assms(1,3)]] assms(3) by (simp add: unat_word_of_nat)
  ultimately show ?thesis by (simp add: GetRestartPoint_def sub_slice_def)
qed

lemma restart_loop_over:
  assumes "well_laid ts rs" "over ts rs it" "r < length rs" "rs ! r \<le> i" "i \<le> length ts"
  shows "\<exists>r'. restart_loop it (item_pos ts i) r = Some r' \<and> r' < length rs \<and> rs ! r' \<le> i"
  using assms(3,4)
proof (induction "length rs - r" arbitrary: r)
  case (Suc x)
  show ?case
  proof (cases "r + 1 < length rs \<and> rs ! (r + 1) < i")
    case True
    then show ?thesis
      using Suc.hyps(1)[of "r + 1"] Suc.hyps(2) assms restart_le[OF assms(1)] item_pos_less[of "rs ! (r + 1)" i ts]
      by (subst restart_loop.simps) (auto simp: GetRestartPoint_over over_def)
  next
    case False
    then show ?thesis
      using Suc.prems assms restart_le[OF assms(1)] item_pos_less_iff[of "rs ! (r + 1)" ts i]
      by (subst restart_loop.simps) (auto simp: GetRestartPoint_over over_def)
  qed
qed simp

lemma stands_ready: "well_laid ts rs \<Longrightarrow> stands_at ts rs i it \<Longrightarrow> ready_at ts rs (Suc i) it"
proof -
  assume wl: "well_laid ts rs" and st: "stands_at ts rs i it"
  obtain s k v where t: "ts ! i = (s, k, v)" by (metis prod.exhaust)
  have i: "i < length ts" using st by (simp add: stands_at_def)
  have "length v \<le> item_pos ts (Suc i)" using i t by (simp add: item_pos_Suc)
  then have next_off: "NextEntryOffset it = Some (item_pos ts (Suc i))"
    using st t well_laid_pos(2)[OF wl, of "Suc i"] i by (simp add: stands_at_def NextEntryOffset_def)
  have "fst (ts ! Suc i) \<le> length k \<and> take (fst (ts ! Suc i)) k = take (fst (ts ! Suc i)) (fst (snd (ts ! Suc i)))" if "Suc i < length ts"
    using chained_nth(3)[of "[]" ts "Suc i" "fst (ts ! Suc i)" "fst (snd (ts ! Suc i))" "snd (snd (ts ! Suc i))"] wl that t by (simp add: well_laid_def)
  then show ?thesis using st next_off t by (auto simp: ready_at_def stands_at_def)
qed

lemma decode_region:
  assumes wl: "well_laid ts rs" and ov: "over ts rs it" and i: "i < length ts" and t: "ts ! i = (s, k, v)"
  obtains q where
    "DecodeEntry (take (bi_restarts it - item_pos ts i) (drop (item_pos ts i) (bi_data it))) =
       Some (word_of_nat s, word_of_nat (length k - s), word_of_nat (length v), q)"
    "unat (word_of_nat s :: u32) = s" "unat (word_of_nat (length k - s) :: u32) = length k - s" "unat (word_of_nat (length v) :: u32) = length v"
    "sub_slice (bi_data it) (bi_restarts it - length q) (length k - s) = Some (drop s k)"
    "bi_restarts it - length q + (length k - s) = item_pos ts (Suc i) - length v"
proof -
  let ?B = "items_bytes ts" and ?rest = "items_bytes (drop (Suc i) ts)"
  have data: "bi_data it = ?B @ drop (length ?B) (bi_data it)" and R: "bi_restarts it = length ?B" using ov by (simp_all add: over_def block_bytes_def)
  have len: "length (bi_data it) < 2 ^ 32" using ov wl by (simp add: over_def well_laid_def)
  have lt: "item_pos ts i < length ?B" using item_pos_less[of i "length ts" ts] i by simp
  have split: "?B = items_bytes (take i ts) @ enc_item (ts ! i) @ ?rest" using items_split[OF i] .
  have region: "take (bi_restarts it - item_pos ts i) (drop (item_pos ts i) (bi_data it)) = enc_item (s, k, v) @ ?rest"
  proof -
    have "take (bi_restarts it - item_pos ts i) (drop (item_pos ts i) (bi_data it)) = drop (item_pos ts i) ?B"
      using lt by (subst data) (simp add: R)
    then show ?thesis using drop_item_pos[OF i] t by simp
  qed
  have sk: "s \<le> length k" using chained_nth(1)[OF _ i t, of "[]"] wl by (simp add: well_laid_def)
  have "length k \<le> item_pos ts (Suc i)" using key_bound[of ts i] wl i t by (simp add: well_laid_def)
  then have k32: "length k < 2 ^ 32" using well_laid_pos(2)[OF wl, of "Suc i"] i by simp
  have "length (enc_item (s, k, v) @ ?rest) \<le> length (bi_data it)" by (subst data, subst split) (simp add: t)
  then have small: "length (enc_item (s, k, v) @ ?rest) < 2 ^ 32" using len by simp
  then have v32: "length v < 2 ^ 32" by simp
  let ?q = "drop s k @ v @ ?rest"
  have B: "length ?B = item_pos ts (Suc i) + length ?rest" by (subst split) (simp add: item_pos_Suc[OF i], simp add: item_pos_def)
  have off: "bi_restarts it - length ?q = item_pos ts (Suc i) - length v - (length k - s)" "length v + (length k - s) \<le> item_pos ts (Suc i)"
    using sk by (simp_all add: R B item_pos_Suc[OF i] t)
  have "drop (item_pos ts (Suc i) - length v - (length k - s)) ?B = ?q"
  proof -
    let ?h = "EncodeVarint32 (word_of_nat s) @ EncodeVarint32 (word_of_nat (length k - s)) @ EncodeVarint32 (word_of_nat (length v))"
    have "?B = (items_bytes (take i ts) @ ?h) @ ?q" by (subst split) (simp add: t)
    moreover have "item_pos ts (Suc i) - length v - (length k - s) = length (items_bytes (take i ts) @ ?h)"
      unfolding item_pos_Suc[OF i] using sk by (simp add: t item_pos_def del: of_nat_diff)
    ultimately show ?thesis by (metis append_eq_conv_conj)
  qed
  then have delta: "sub_slice (bi_data it) (bi_restarts it - length ?q) (length k - s) = Some (drop s k)"
    unfolding off(1) using off(2) B sk by (subst data, subst sub_slice_append) simp_all
  have u: "unat (word_of_nat s :: u32) = s" "unat (word_of_nat (length k - s) :: u32) = length k - s" "unat (word_of_nat (length v) :: u32) = length v"
    using sk k32 v32 by (auto intro: unat_word_of_nat simp del: of_nat_diff)
  have "bi_restarts it - length ?q + (length k - s) = item_pos ts (Suc i) - length v" using off by simp
  with DecodeEntry_item[OF small] u delta show thesis unfolding region[symmetric] by (rule that)
qed

lemma ParseNextKey_ready:
  assumes wl: "well_laid ts rs" and r: "ready_at ts rs i it" and i: "i < length ts"
  shows "\<exists>it'. ParseNextKey it = Some (True, it') \<and> stands_at ts rs i it'"
proof -
  obtain s k v where t: "ts ! i = (s, k, v)" by (metis prod.exhaust)
  have ov: "over ts rs it" and nx: "NextEntryOffset it = Some (item_pos ts i)"
    and key: "s \<le> length (bi_key it)" "take s (bi_key it) = take s k"
    using r i t by (simp_all add: ready_at_def)
  have lt: "\<not> bi_restarts it \<le> item_pos ts i" using item_pos_less[of i "length ts" ts] i ov by (simp add: over_def)
  obtain q where q: "DecodeEntry (take (bi_restarts it - item_pos ts i) (drop (item_pos ts i) (bi_data it))) =
       Some (word_of_nat s, word_of_nat (length k - s), word_of_nat (length v), q)"
    and u: "unat (word_of_nat s :: u32) = s" "unat (word_of_nat (length k - s) :: u32) = length k - s" "unat (word_of_nat (length v) :: u32) = length v"
    and delta: "sub_slice (bi_data it) (bi_restarts it - length q) (length k - s) = Some (drop s k)"
    and off: "bi_restarts it - length q + (length k - s) = item_pos ts (Suc i) - length v"
    by (rule decode_region[OF wl ov i t])
  obtain r' where r': "restart_loop it (item_pos ts i) (bi_restart_index it) = Some r'" "r' < length rs" "rs ! r' \<le> i"
    using restart_loop_over[OF wl ov, of "bi_restart_index it" i] r i by (auto simp: ready_at_def)
  have "ParseNextKey it = Some (True, it\<lparr>bi_current := item_pos ts i, bi_key := take s (bi_key it) @ drop s k,
      bi_value := Some (bi_restarts it - length q + (length k - s), length v), bi_restart_index := r'\<rparr>)"
    unfolding ParseNextKey_def nx q option.case prod.case u Let_def delta r'(1) using lt key(1) by simp
  then show ?thesis using off ov r' i key(2) by (simp add: stands_at_def over_def t)
qed

lemma ParseNextKey_end:
  assumes "well_laid ts rs" "ready_at ts rs (length ts) it"
  shows "\<exists>it'. ParseNextKey it = Some (False, it') \<and> exhausted ts rs it'"
  using assms by (auto simp: ready_at_def ParseNextKey_def over_def exhausted_def)

lemma SeekToRestartPoint_over:
  assumes "well_laid ts rs" "over ts rs it" "r < length rs"
  shows "\<exists>it'. SeekToRestartPoint r it = Some it' \<and> ready_at ts rs (rs ! r) it' \<and> bi_restart_index it' = r"
  using assms GetRestartPoint_over[OF assms] restart_le[OF assms(1,3)] well_laid_pos(2)[OF assms(1), of "rs ! r"]
  by (auto simp: SeekToRestartPoint_def ready_at_def over_def NextEntryOffset_def well_laid_def)

text \<open>Scanning forward: to a given item, and to the first one that is not smaller than a key.\<close>

lemma parse_until_over:
  assumes "well_laid ts rs" "ready_at ts rs i it" "i \<le> j" "j < length ts" "limit = item_pos ts (Suc j)"
  shows "\<exists>it'. parse_until limit it = Some it' \<and> stands_at ts rs j it'"
  using assms(2,3)
proof (induction "j - i" arbitrary: i it)
  case (0)
  then have ij: "i = j" by simp
  obtain it1 where it1: "ParseNextKey it = Some (True, it1)" "stands_at ts rs i it1"
    using ParseNextKey_ready[OF assms(1) 0(2)] ij assms(4) by auto
  then have "NextEntryOffset it1 = Some limit" using stands_ready[OF assms(1) it1(2)] ij assms(5) by (simp add: ready_at_def)
  then show ?case using it1 ij by (subst parse_until.simps) simp
next
  case (Suc x)
  obtain it1 where it1: "ParseNextKey it = Some (True, it1)" "stands_at ts rs i it1"
    using ParseNextKey_ready[OF assms(1) Suc(3)] Suc assms(4) by auto
  note rd = stands_ready[OF assms(1) it1(2)]
  have "NextEntryOffset it1 = Some (item_pos ts (Suc i))" "item_pos ts (Suc i) < limit"
    using rd Suc assms(4,5) item_pos_less[of "Suc i" "Suc j" ts] by (simp_all add: ready_at_def)
  then show ?case using Suc.hyps(1)[OF _ rd] Suc.hyps(2) it1 by (subst parse_until.simps) simp
qed

lemma seek_scan_over:
  assumes "well_laid ts rs" "ready_at ts rs i it" "i \<le> j" "j \<le> length ts"
    and "\<And>m. i \<le> m \<Longrightarrow> m < j \<Longrightarrow> cmp (fst (snd (ts ! m))) target < 0"
    and "j < length ts \<Longrightarrow> \<not> cmp (fst (snd (ts ! j))) target < 0"
  shows "\<exists>it'. seek_scan cmp target it = Some it' \<and> (if j < length ts then stands_at ts rs j it' else exhausted ts rs it')"
  using assms(2,3,5)
proof (induction "j - i" arbitrary: i it)
  case (0)
  then have ij: "i = j" by simp
  show ?case
  proof (cases "j < length ts")
    case True
    then obtain it1 where it1: "ParseNextKey it = Some (True, it1)" "stands_at ts rs i it1"
      using ParseNextKey_ready[OF assms(1) 0(2)] ij by auto
    then show ?thesis using assms(6) True ij by (subst seek_scan.simps) (auto simp: stands_at_def)
  next
    case False
    then obtain it1 where "ParseNextKey it = Some (False, it1)" "exhausted ts rs it1"
      using ParseNextKey_end[of ts rs it] 0 ij assms(1,4) by auto
    then show ?thesis using False by (subst seek_scan.simps) simp
  qed
next
  case (Suc x)
  have "i < length ts" using Suc.hyps(2) assms(4) by linarith
  then obtain it1 where it1: "ParseNextKey it = Some (True, it1)" "stands_at ts rs i it1"
    using ParseNextKey_ready[OF assms(1) Suc(3)] by auto
  note rd = stands_ready[OF assms(1) it1(2)]
  have "cmp (bi_key it1) target < 0" using it1(2) Suc by (simp add: stands_at_def)
  then show ?case using Suc.hyps(1)[OF _ rd] Suc.hyps(2) Suc.prems it1 by (subst seek_scan.simps) simp
qed

lemma prev_restart_over:
  assumes "well_laid ts rs" "over ts rs it" "r < length rs" "i < length ts"
  shows "prev_restart it (item_pos ts i) r = Some None \<and> i = 0 \<or>
    (\<exists>r'. prev_restart it (item_pos ts i) r = Some (Some r') \<and> r' < length rs \<and> rs ! r' < i)"
  using assms(3)
proof (induction r)
  case 0
  have "rs ! 0 = 0" using assms(1) unfolding well_laid_def by (metis hd_conv_nth)
  then show ?case using GetRestartPoint_over[OF assms(1,2) 0] item_pos_less[of 0 i ts] assms(4) 0
    by (subst (1 2) prev_restart.simps) (cases "i = 0"; simp)
next
  case (Suc r)
  show ?case
  proof (cases "rs ! Suc r < i")
    case True
    then show ?thesis using GetRestartPoint_over[OF assms(1,2) Suc.prems] item_pos_less[of "rs ! Suc r" i ts] assms(4) Suc.prems
      by (subst (2) prev_restart.simps) auto
  next
    case False
    then have "\<not> item_pos ts (rs ! Suc r) < item_pos ts i"
      using item_pos_less_iff[of "rs ! Suc r" ts i] restart_le[OF assms(1) Suc.prems] assms(4) by simp
    then have "prev_restart it (item_pos ts i) (Suc r) = prev_restart it (item_pos ts i) r"
      using GetRestartPoint_over[OF assms(1,2) Suc.prems] by (subst prev_restart.simps) simp
    then show ?thesis using Suc by simp
  qed
qed

lemma seek_restart_over:
  assumes wl: "well_laid ts rs" and ov: "over ts rs it"
    and "left \<le> right" "right < length rs" "left = 0 \<or> cmp (fst (snd (ts ! (rs ! left)))) target < 0"
  shows "\<exists>l. seek_restart cmp it target left right = Some (Some l) \<and> l < length rs \<and> (l = 0 \<or> cmp (fst (snd (ts ! (rs ! l)))) target < 0)"
  using assms(3-5)
proof (induction "right - left" arbitrary: left right rule: less_induct)
  case less
  show ?case
  proof (cases "left < right")
    case True
    define mid where "mid = (left + right + 1) div 2"
    have mid: "left < mid" "mid \<le> right" "mid < length rs" using True less.prems by (auto simp: mid_def)
    have "rs ! 0 < rs ! mid" using wl mid by (auto simp: well_laid_def sorted_wrt_iff_nth_less)
    then have i: "rs ! mid < length ts" "rs ! mid \<in> set rs" using wl mid nth_mem[of mid rs] unfolding well_laid_def by (metis not_less0, simp)
    obtain k v where t: "ts ! (rs ! mid) = (0, k, v)" using wl i unfolding well_laid_def by (metis prod.exhaust fst_conv)
    obtain q where q: "DecodeEntry (take (bi_restarts it - item_pos ts (rs ! mid)) (drop (item_pos ts (rs ! mid)) (bi_data it))) =
         Some (word_of_nat 0, word_of_nat (length k - 0), word_of_nat (length v), q)"
      and u: "unat (word_of_nat (length k - 0) :: u32) = length k - 0"
      and delta: "sub_slice (bi_data it) (bi_restarts it - length q) (length k - 0) = Some (drop 0 k)"
      by (rule decode_region[OF wl ov i(1) t])
    have step: "seek_restart cmp it target left right =
        (if cmp k target < 0 then seek_restart cmp it target mid right else seek_restart cmp it target left (mid - 1))"
      unfolding seek_restart.simps[of cmp it target left right] Let_def mid_def[symmetric] GetRestartPoint_over[OF wl ov mid(3)]
        option.case q prod.case u delta using True by simp
    show ?thesis
      unfolding step using less.hyps[of right mid] less.hyps[of "mid - 1" left] less.prems mid t by (cases "cmp k target < 0") auto
  next
    case False
    then show ?thesis using less.prems by (subst seek_restart.simps) auto
  qed
qed

section \<open>The contract of an iterator\<close>

definition Block_Iterator :: "(slice \<Rightarrow> slice \<Rightarrow> int) \<Rightarrow> BlockIter Iterator" where
  "Block_Iterator cmp =
     \<lparr>SeekToFirst = BlockIter_SeekToFirst, SeekToLast = BlockIter_SeekToLast, Seek = BlockIter_Seek cmp, Next = BlockIter_Next,
      Prev = BlockIter_Prev, Valid = BlockIter_Valid, key = bi_key, val = BlockIter_value, Iterator_status = bi_status\<rparr>"

definition block_stands :: "(slice \<Rightarrow> bool) \<Rightarrow> (slice \<Rightarrow> slice \<Rightarrow> int) \<Rightarrow> item list \<Rightarrow> nat list \<Rightarrow> nat \<Rightarrow> BlockIter \<Rightarrow> bool" where
  "block_stands valid cmp ts rs p it \<longleftrightarrow> well_laid ts rs \<and> list_all (\<lambda>(_, k, _). valid k) ts \<and>
     sorted_wrt (\<lambda>(_, a, _) (_, b, _). cmp a b < 0) ts \<and>
     (if p < length ts then stands_at ts rs p it else p = length ts \<and> exhausted ts rs it)"

lemma BlockIter_value_stands:
  assumes wl: "well_laid ts rs" and st: "stands_at ts rs i it"
  shows "BlockIter_value it = Some (snd (snd (ts ! i)))"
proof -
  obtain s k v where t: "ts ! i = (s, k, v)" by (metis prod.exhaust)
  have i: "i < length ts" and ov: "over ts rs it" using st by (simp_all add: stands_at_def)
  let ?h = "items_bytes (take i ts) @ EncodeVarint32 (word_of_nat s) @ EncodeVarint32 (word_of_nat (length k - s)) @ EncodeVarint32 (word_of_nat (length v)) @ drop s k"
  have B: "items_bytes ts = ?h @ v @ items_bytes (drop (Suc i) ts)" using items_split[OF i] by (simp add: t)
  have pos: "item_pos ts (Suc i) = length ?h + length v"
    unfolding item_pos_Suc[OF i] by (simp add: t item_pos_def del: of_nat_diff)
  have data: "bi_data it = (?h @ v) @ (items_bytes (drop (Suc i) ts) @ drop (length (items_bytes ts)) (bi_data it))"
    using ov B by (simp add: over_def block_bytes_def)
  have "bi_value it = Some (length ?h, length v)" using st t pos by (simp add: stands_at_def)
  moreover have "sub_slice (bi_data it) (length ?h) (length v) = Some v" by (subst data, subst sub_slice_append) simp_all
  ultimately show ?thesis by (simp add: BlockIter_value_def t)
qed

lemma BlockIter_Next_stands:
  assumes "well_laid ts rs" "stands_at ts rs i it"
  shows "\<exists>it'. BlockIter_Next it = Some it' \<and> (if Suc i < length ts then stands_at ts rs (Suc i) it' else exhausted ts rs it')"
proof (cases "Suc i < length ts")
  case True
  then show ?thesis using ParseNextKey_ready[OF assms(1) stands_ready[OF assms]] by (auto simp: BlockIter_Next_def)
next
  case False
  then have "Suc i = length ts" using assms(2) by (simp add: stands_at_def)
  then show ?thesis using ParseNextKey_end[OF assms(1), of it] stands_ready[OF assms] by (auto simp: BlockIter_Next_def)
qed

lemma BlockIter_Prev_stands:
  assumes wl: "well_laid ts rs" and st: "stands_at ts rs i it"
  shows "\<exists>it'. BlockIter_Prev it = Some it' \<and> (if i = 0 then exhausted ts rs it' else stands_at ts rs (i - 1) it')"
proof -
  have ov: "over ts rs it" and i: "i < length ts" and r: "bi_restart_index it < length rs" and cur: "bi_current it = item_pos ts i"
    using st by (simp_all add: stands_at_def)
  consider "prev_restart it (item_pos ts i) (bi_restart_index it) = Some None" "i = 0"
    | r' where "prev_restart it (item_pos ts i) (bi_restart_index it) = Some (Some r')" "r' < length rs" "rs ! r' < i"
    using prev_restart_over[OF wl ov r i] by blast
  then show ?thesis
  proof cases
    case 1
    then show ?thesis using ov cur by (simp add: BlockIter_Prev_def exhausted_def over_def)
  next
    case 2
    obtain it1 where it1: "SeekToRestartPoint r' it = Some it1" "ready_at ts rs (rs ! r') it1"
      using SeekToRestartPoint_over[OF wl ov 2(2)] by blast
    have "\<exists>it'. parse_until (item_pos ts i) it1 = Some it' \<and> stands_at ts rs (i - 1) it'"
      using 2 i by (intro parse_until_over[OF wl it1(2)]) auto
    then show ?thesis using 2 it1 cur by (auto simp: BlockIter_Prev_def)
  qed
qed

lemma BlockIter_SeekToFirst_over:
  assumes wl: "well_laid ts rs" and ov: "over ts rs it"
  shows "\<exists>it'. BlockIter_SeekToFirst it = Some it' \<and> (if ts = [] then exhausted ts rs it' else stands_at ts rs 0 it')"
proof -
  have r: "0 < length rs" "rs ! 0 = 0" using wl unfolding well_laid_def by (simp, metis hd_conv_nth)
  then obtain it1 where it1: "SeekToRestartPoint 0 it = Some it1" "ready_at ts rs 0 it1"
    using SeekToRestartPoint_over[OF wl ov, of 0] by auto
  then show ?thesis using ParseNextKey_ready[OF wl it1(2)] ParseNextKey_end[OF wl, of it1]
    by (cases "ts = []") (auto simp: BlockIter_SeekToFirst_def)
qed

lemma BlockIter_SeekToLast_over:
  assumes wl: "well_laid ts rs" and ov: "over ts rs it"
  shows "\<exists>it'. BlockIter_SeekToLast it = Some it' \<and> (if ts = [] then exhausted ts rs it' else stands_at ts rs (length ts - 1) it')"
proof -
  let ?l = "length rs - 1"
  have r: "?l < length rs" "bi_num_restarts it = length rs" using wl ov by (simp_all add: well_laid_def over_def)
  obtain it1 where it1: "SeekToRestartPoint ?l it = Some it1" "ready_at ts rs (rs ! ?l) it1"
    using SeekToRestartPoint_over[OF wl ov r(1)] by blast
  show ?thesis
  proof (cases "ts = []")
    case True
    then have "rs ! ?l = length ts" using restart_le[OF wl r(1)] by simp
    then obtain it2 where "ParseNextKey it1 = Some (False, it2)" "exhausted ts rs it2" using ParseNextKey_end[OF wl, of it1] it1 by auto
    then show ?thesis using True it1 r by (simp add: BlockIter_SeekToLast_def parse_until.simps[of _ it1])
  next
    case False
    have "rs ! ?l < length ts" using wl r nth_mem[OF r(1)] False unfolding well_laid_def by fastforce
    then have "\<exists>it'. parse_until (bi_restarts it) it1 = Some it' \<and> stands_at ts rs (length ts - 1) it'"
      using False ov by (intro parse_until_over[OF wl it1(2)]) (auto simp: over_def)
    then show ?thesis using False it1 r by (simp add: BlockIter_SeekToLast_def)
  qed
qed

lemma BlockIter_Seek_over:
  assumes ord: "key_order valid cmp" and wl: "well_laid ts rs" and ov: "over ts rs it"
    and ks: "list_all (\<lambda>(_, k, _). valid k) ts" "sorted_wrt (\<lambda>(_, a, _) (_, b, _). cmp a b < 0) ts" and tv: "valid target"
    and j: "j = seek_index cmp (map snd ts) target"
  shows "\<exists>it'. BlockIter_Seek cmp target it = Some it' \<and> (if j < length ts then stands_at ts rs j it' else exhausted ts rs it')"
proof -
  let ?k = "\<lambda>i. fst (snd (ts ! i))"
  have vk: "valid (?k i)" if "i < length ts" for i using ks(1) that by (auto simp: list_all_length case_prod_beta)
  have less: "cmp (?k i) (?k m) < 0" if "i < m" "m < length ts" for i m
    using ks(2) that by (auto simp: sorted_wrt_iff_nth_less case_prod_beta)
  have rs: "0 < length rs" "bi_num_restarts it = length rs" "rs ! 0 = 0"
    using wl ov unfolding well_laid_def over_def by (simp, simp, metis hd_conv_nth)
  then obtain l where l: "seek_restart cmp it target 0 (length rs - 1) = Some (Some l)" "l < length rs"
      "l = 0 \<or> cmp (?k (rs ! l)) target < 0"
    using seek_restart_over[OF wl ov, of 0 "length rs - 1" cmp target] by auto
  obtain it1 where it1: "SeekToRestartPoint l it = Some it1" "ready_at ts rs (rs ! l) it1"
    using SeekToRestartPoint_over[OF wl ov l(2)] by blast
  note si = seek_index_props[where cmp = cmp and es = "map snd ts" and t = target, folded j, simplified]
  have before: "cmp (?k m) target < 0" if "m < j" for m using si(2)[OF that] si(1) that by simp
  have after: "\<not> cmp (?k j) target < 0" if "j < length ts" using si(3) that by simp
  have "rs ! l \<le> j"
  proof (rule ccontr)
    assume "\<not> rs ! l \<le> j"
    then have lt: "j < rs ! l" by simp
    then have lt: "j < rs ! l" "rs ! l < length ts" "l \<noteq> 0" using rs(3) restart_less[OF wl l(2)] by (auto intro: gr0I)
    then have "cmp (?k j) target < 0"
      using key_order.Compare_trans[OF ord vk[of j] vk[of "rs ! l"] tv] less[of j "rs ! l"] l(3) by simp
    then show False using after lt by simp
  qed
  then have "\<exists>it'. seek_scan cmp target it1 = Some it' \<and> (if j < length ts then stands_at ts rs j it' else exhausted ts rs it')"
    using before after si(1) by (intro seek_scan_over[OF wl it1(2)]) auto
  then show ?thesis using rs l it1 by (simp add: BlockIter_Seek_def)
qed

lemma block_iterator_contract:
  assumes ord: "key_order valid cmp"
  shows "iterator valid cmp (map snd ts) (Block_Iterator cmp) (block_stands valid cmp ts rs)"
proof
  fix p it assume st: "block_stands valid cmp ts rs p it"
  then have wl: "well_laid ts rs" by (simp add: block_stands_def)
  have "item_pos ts p < length (items_bytes ts)" if "p < length ts" using item_pos_less[of p "length ts" ts] that by simp
  then show "shows_entry (Block_Iterator cmp) (map snd ts) p it"
    using st BlockIter_value_stands[OF wl, of p it]
    by (auto simp: block_stands_def shows_entry_def Block_Iterator_def BlockIter_Valid_def stands_at_def exhausted_def over_def)
  show "Status_ok (Iterator_status (Block_Iterator cmp) it)"
    using st by (auto simp: block_stands_def stands_at_def exhausted_def over_def Block_Iterator_def Status_ok_def Status_OK_def split: if_splits)
  fix a p' assume a: "op_valid valid a" "cursor_step cmp (map snd ts) a p = Some p'"
  have ov: "over ts rs it" using st by (auto simp: block_stands_def stands_at_def exhausted_def split: if_splits)
  show "\<exists>it'. iterator_step (Block_Iterator cmp) a it = Some it' \<and> block_stands valid cmp ts rs p' it'"
  proof (cases a)
    case To_First
    then show ?thesis using a st BlockIter_SeekToFirst_over[OF wl ov] by (auto simp: Block_Iterator_def block_stands_def)
  next
    case To_Last
    then show ?thesis using a st BlockIter_SeekToLast_over[OF wl ov] by (cases "ts = []") (auto simp: Block_Iterator_def block_stands_def)
  next
    case (To_Key target)
    then have "valid target" "p' = seek_index cmp (map snd ts) target" using a by (simp_all add: op_valid_def)
    then show ?thesis
      using To_Key st BlockIter_Seek_over[OF ord wl ov _ _ \<open>valid target\<close>, of p'] seek_index_props(1)[of cmp "map snd ts" target]
      by (auto simp: Block_Iterator_def block_stands_def)
  next
    case To_Next
    then show ?thesis using a st BlockIter_Next_stands[OF wl, of p it]
      by (auto simp: Block_Iterator_def block_stands_def split: if_splits)
  next
    case To_Prev
    then show ?thesis using a st BlockIter_Prev_stands[OF wl, of p it]
      by (auto simp: Block_Iterator_def block_stands_def split: if_splits)
  qed
qed

interpretation bytewise_block: iterator "\<lambda>_. True" bytewise_Compare "map snd ts" "Block_Iterator bytewise_Compare"
    "block_stands (\<lambda>_. True) bytewise_Compare ts rs" for ts rs
  by (rule block_iterator_contract[OF bytewise.key_order_axioms])

end
