(* ===== verification/Ldb_Table.thy ===== *)
theory Ldb_Table
  imports Ldb_Table_Builder Ldb_Two_Level Ldb_Block_Laws
begin

text \<open>
  LevelDB, \<^verbatim>\<open>table/table.cc\<close>, and the empty iterator of \<^verbatim>\<open>table/iterator.cc\<close>: reading a table file. The file is the function that
  reads it. Tables without a block cache are modelled: \<^verbatim>\<open>options.block_cache\<close> is null, and a block lives as long as the
  iterator over it. \<open>None\<close> is an access outside of what was read.
\<close>

section \<open>Iterators over blocks\<close>

text \<open>
  The iterators \<^verbatim>\<open>Block::NewIterator\<close> and \<^verbatim>\<open>NewErrorIterator\<close> return. \<^verbatim>\<open>Next\<close>, \<^verbatim>\<open>Prev\<close>, \<^verbatim>\<open>key\<close> and \<^verbatim>\<open>value\<close> of an empty iterator are
  \<^verbatim>\<open>assert(false)\<close>.
\<close>

fun on_block :: "(BlockIter \<Rightarrow> BlockIter option) \<Rightarrow> block_iterator option \<Rightarrow> block_iterator \<Rightarrow> block_iterator option" where
  "on_block move other (BlockIterator it) = map_option BlockIterator (move it)"
| "on_block move other _ = other"

fun any_key :: "block_iterator \<Rightarrow> slice" where
  "any_key (BlockIterator it) = bi_key it"
| "any_key _ = []"

fun any_value :: "block_iterator \<Rightarrow> slice option" where
  "any_value (BlockIterator it) = BlockIter_value it"
| "any_value _ = None"

fun any_valid :: "block_iterator \<Rightarrow> bool" where
  "any_valid (BlockIterator it) = BlockIter_Valid it"
| "any_valid _ = False"

fun any_status :: "block_iterator \<Rightarrow> Status" where
  "any_status (BlockIterator it) = bi_status it"
| "any_status (ErrorIterator s) = s"
| "any_status EmptyIterator = Status_OK"

definition Any_Iterator :: "(slice \<Rightarrow> slice \<Rightarrow> int) \<Rightarrow> block_iterator Iterator" where
  "Any_Iterator cmp =
     \<lparr>SeekToFirst = (\<lambda>it. on_block BlockIter_SeekToFirst (Some it) it), SeekToLast = (\<lambda>it. on_block BlockIter_SeekToLast (Some it) it),
      Seek = (\<lambda>target it. on_block (BlockIter_Seek cmp target) (Some it) it), Next = on_block BlockIter_Next None,
      Prev = on_block BlockIter_Prev None, Valid = any_valid, key = any_key, val = any_value, Iterator_status = any_status\<rparr>"

section \<open>Tables\<close>

record Table =
  t_options :: Options
  t_filter :: "FilterBlockReader option"
  t_metaindex_handle :: BlockHandle
  t_index_block :: Block

definition ReadFilter :: "random_access \<Rightarrow> slice \<Rightarrow> Table \<Rightarrow> Table option" where
  "ReadFilter Read filter_handle_value t =
     (case BlockHandle_DecodeFrom filter_handle_value BlockHandle_new of
        (s, _, filter_handle) \<Rightarrow>
          if \<not> Status_ok s then Some t
          else
            (case ReadBlock Read (opt_paranoid_checks (t_options t)) filter_handle of
               None \<Rightarrow> None
             | Some (s, block) \<Rightarrow>
                 if \<not> Status_ok s then Some t else Some (t\<lparr>t_filter := Some (FilterBlockReader_new (bc_data block))\<rparr>)))"

definition ReadMeta :: "random_access \<Rightarrow> Footer \<Rightarrow> Table \<Rightarrow> Table option" where
  "ReadMeta Read footer t =
     (case opt_filter_policy (t_options t) of
        None \<Rightarrow> Some t
      | Some p \<Rightarrow>
          (case ReadBlock Read (opt_paranoid_checks (t_options t)) (metaindex_handle footer) of
             None \<Rightarrow> None
           | Some (s, contents) \<Rightarrow>
               if \<not> Status_ok s then Some t
               else
                 (let k = lit ''filter.'' @ fp_Name p in
                  case Seek (Any_Iterator bytewise_Compare) k (Block_NewIterator (Block_new (bc_data contents))) of
                    None \<Rightarrow> None
                  | Some iter \<Rightarrow>
                      if any_valid iter \<and> slice_eq (any_key iter) k
                      then Option.bind (any_value iter) (\<lambda>v. ReadFilter Read v t)
                      else Some t)))"

definition Table_Open :: "Options \<Rightarrow> random_access \<Rightarrow> u64 \<Rightarrow> (Status \<times> Table option) option" where
  "Table_Open options Read filesize =
     (if unat filesize < kEncodedLength then Some (Status_Corruption (lit ''file is too short to be an sstable''), None)
      else
        (case Read (filesize - word_of_nat kEncodedLength) (word_of_nat kEncodedLength) of
           None \<Rightarrow> None
         | Some (s, footer_input, _) \<Rightarrow>
             if \<not> Status_ok s then Some (s, None)
             else
               (case Footer_DecodeFrom footer_input \<lparr>metaindex_handle = BlockHandle_new, index_handle = BlockHandle_new\<rparr> of
                  None \<Rightarrow> None
                | Some (s, _, footer) \<Rightarrow>
                    if \<not> Status_ok s then Some (s, None)
                    else
                      (case ReadBlock Read (opt_paranoid_checks options) (index_handle footer) of
                         None \<Rightarrow> None
                       | Some (s, index_block_contents) \<Rightarrow>
                           if \<not> Status_ok s then Some (s, None)
                           else map_option (\<lambda>t. (s, Some t))
                             (ReadMeta Read footer
                               \<lparr>t_options = options, t_filter = None, t_metaindex_handle = metaindex_handle footer,
                                t_index_block = Block_new (bc_data index_block_contents)\<rparr>)))))"

definition Table_BlockReader :: "random_access \<Rightarrow> bool \<Rightarrow> slice \<Rightarrow> block_iterator option" where
  "Table_BlockReader Read verify_checksums index_value =
     (case BlockHandle_DecodeFrom index_value BlockHandle_new of
        (s, _, handle) \<Rightarrow>
          if \<not> Status_ok s then Some (ErrorIterator s)
          else
            (case ReadBlock Read verify_checksums handle of
               None \<Rightarrow> None
             | Some (s, contents) \<Rightarrow>
                 Some (if Status_ok s then Block_NewIterator (Block_new (bc_data contents)) else ErrorIterator s)))"

text \<open>The block function of a table's iterator; its \<^verbatim>\<open>arg\<close>, the table, does not change.\<close>

definition Table_block_function :: "random_access \<Rightarrow> bool \<Rightarrow> (block_iterator, Table) block_function" where
  "Table_block_function Read verify_checksums index_value t = map_option (\<lambda>it. (it, t)) (Table_BlockReader Read verify_checksums index_value)"

definition Table_Compare :: "Table \<Rightarrow> slice \<Rightarrow> slice \<Rightarrow> int" where
  "Table_Compare t = cmp_Compare (opt_comparator (t_options t))"

definition Table_NewIterator :: "Table \<Rightarrow> (block_iterator, block_iterator, Table) TwoLevelIterator" where
  "Table_NewIterator t =
     TwoLevelIterator_new (Any_Iterator (Table_Compare t)) (Any_Iterator (Table_Compare t)) (Block_NewIterator (t_index_block t)) t"

text \<open>The status, and what \<^verbatim>\<open>handle_result\<close> is called with.\<close>

definition InternalGet :: "random_access \<Rightarrow> bool \<Rightarrow> slice \<Rightarrow> Table \<Rightarrow> (Status \<times> (slice \<times> slice) option) option" where
  "InternalGet Read verify_checksums k t =
     (case Seek (Any_Iterator (Table_Compare t)) k (Block_NewIterator (t_index_block t)) of
        None \<Rightarrow> None
      | Some iiter \<Rightarrow>
          (case (if any_valid iiter then
                   (case any_value iiter of
                      None \<Rightarrow> None
                    | Some handle_value \<Rightarrow>
                        if (case (t_filter t, opt_filter_policy (t_options t)) of
                              (Some fr, Some p) \<Rightarrow>
                                (case BlockHandle_DecodeFrom handle_value BlockHandle_new of
                                   (s, _, handle) \<Rightarrow> Status_ok s \<and> \<not> FilterBlockReader_KeyMayMatch (fp_KeyMayMatch p) fr (bh_offset handle) k)
                            | _ \<Rightarrow> False)
                        then Some (Status_OK, None)
                        else
                          (case Option.bind (Table_BlockReader Read verify_checksums handle_value) (Seek (Any_Iterator (Table_Compare t)) k) of
                             None \<Rightarrow> None
                           | Some block_iter \<Rightarrow>
                               if any_valid block_iter
                               then map_option (\<lambda>v. (any_status block_iter, Some (any_key block_iter, v))) (any_value block_iter)
                               else Some (any_status block_iter, None)))
                 else Some (Status_OK, None)) of
             None \<Rightarrow> None
           | Some (s, result) \<Rightarrow> Some (if Status_ok s then any_status iiter else s, result)))"

definition ApproximateOffsetOf :: "slice \<Rightarrow> Table \<Rightarrow> u64 option" where
  "ApproximateOffsetOf k t =
     (case Seek (Any_Iterator (Table_Compare t)) k (Block_NewIterator (t_index_block t)) of
        None \<Rightarrow> None
      | Some index_iter \<Rightarrow>
          if any_valid index_iter then
            map_option (\<lambda>input.
              (case BlockHandle_DecodeFrom input BlockHandle_new of
                 (s, _, handle) \<Rightarrow> if Status_ok s then bh_offset handle else bh_offset (t_metaindex_handle t)))
              (any_value index_iter)
          else Some (bh_offset (t_metaindex_handle t)))"

end
