(* ===== verification/Ldb_Block_Props.thy ===== *)
theory Ldb_Block_Props
  imports Ldb_Block_Laws
begin

text \<open>LevelDB, what a builder and an iterator of blocks promise together.\<close>

section \<open>What the builder builds\<close>

definition builds :: "item list \<Rightarrow> nat list \<Rightarrow> BlockBuilder \<Rightarrow> bool" where
  "builds ts rs b \<longleftrightarrow> bb_buffer b = items_bytes ts \<and> bb_restarts b = map (\<lambda>r. word_of_nat (item_pos ts r)) rs \<and>
     bb_last_key b = (if ts = [] then [] else fst (snd (last ts))) \<and> (ts = [] \<longrightarrow> bb_counter b = 0) \<and>
     chained [] ts \<and> rs \<noteq> [] \<and> hd rs = 0 \<and> sorted_wrt (<) rs \<and>
     (\<forall>r\<in>set rs. r < length ts \<longrightarrow> fst (ts ! r) = 0) \<and> (\<forall>r\<in>set rs. r < length ts \<or> r = 0)"

lemma shared_loop_props: "shared_loop a b \<le> length a" "shared_loop a b \<le> length b" "take (shared_loop a b) a = take (shared_loop a b) b"
  by (induction a b rule: shared_loop.induct) auto

lemma chained_append:
  "chained prev (ts @ [(s, k, v)]) \<longleftrightarrow> chained prev ts \<and> (let l = (if ts = [] then prev else fst (snd (last ts))) in
     s \<le> length l \<and> s \<le> length k \<and> take s l = take s k)"
  by (induction prev ts rule: chained.induct) (auto simp: Let_def)

lemma item_pos_append: "r \<le> length ts \<Longrightarrow> item_pos (ts @ us) r = item_pos ts r"
  by (simp add: item_pos_def)

lemma builds_new: "builds [] [0] BlockBuilder_new"
  by (simp add: builds_def BlockBuilder_new_def items_bytes_def item_pos_def)

lemma builds_Add:
  assumes b: "builds ts rs b" and "0 < interval"
  shows "\<exists>s rs'. builds (ts @ [(s, k, v)]) rs' (BlockBuilder_Add interval k v b)"
proof -
  let ?l = "bb_last_key b"
  have r: "r < length ts \<or> r = 0" if "r \<in> set rs" for r using b that by (auto simp: builds_def)
  have enc: "items_bytes (ts @ [(s, k, v)]) = items_bytes ts @ enc_item (s, k, v)" for s by (simp add: items_bytes_def)
  have pos: "map (\<lambda>r. word_of_nat (item_pos (ts @ [(s, k, v)]) r)) rs = (map (\<lambda>r. word_of_nat (item_pos ts r)) rs :: u32 list)" for s
  proof -
    have "x \<le> length ts" if "x \<in> set rs" for x using r[OF that] by auto
    then show ?thesis by (simp add: item_pos_append)
  qed
  show ?thesis
  proof (cases "bb_counter b < interval")
    case True
    let ?s = "shared_loop ?l k"
    have add: "BlockBuilder_Add interval k v b = b\<lparr>bb_buffer := bb_buffer b @ enc_item (?s, k, v),
        bb_last_key := take ?s ?l @ drop ?s k, bb_counter := bb_counter b + 1\<rparr>"
      using True by (simp add: BlockBuilder_Add_def Let_def PutVarint32_def)
    have key: "take ?s ?l @ drop ?s k = k" by (simp add: shared_loop_props(3))
    have "ts = [] \<Longrightarrow> ?s = 0" using b by (simp add: builds_def)
    then have "\<forall>r\<in>set rs. r < length (ts @ [(?s, k, v)]) \<longrightarrow> fst ((ts @ [(?s, k, v)]) ! r) = 0"
      using b r by (auto simp: builds_def nth_append)
    moreover have r1: "\<forall>r\<in>set rs. r < length (ts @ [(?s, k, v)]) \<or> r = 0" using r by fastforce
    ultimately have "builds (ts @ [(?s, k, v)]) rs (BlockBuilder_Add interval k v b)"
      unfolding add key using b r1 shared_loop_props[of ?l k]
      by (auto simp: builds_def enc pos chained_append Let_def)
    then show ?thesis by blast
  next
    case False
    then have ts: "ts \<noteq> []" using b assms(2) by (auto simp: builds_def)
    have add: "BlockBuilder_Add interval k v b = b\<lparr>bb_buffer := bb_buffer b @ enc_item (0, k, v),
        bb_restarts := bb_restarts b @ [word_of_nat (length (bb_buffer b))], bb_last_key := k, bb_counter := 1\<rparr>"
      using False by (simp add: BlockBuilder_Add_def Let_def PutVarint32_def)
    have new: "item_pos (ts @ [(0, k, v)]) (length ts) = length (items_bytes ts)" by (simp add: item_pos_append)
    have "\<forall>r\<in>set rs. r < length ts" using r ts by auto
    then have "builds (ts @ [(0, k, v)]) (rs @ [length ts]) (BlockBuilder_Add interval k v b)"
      unfolding add using b ts by (auto simp: builds_def enc pos new chained_append Let_def sorted_wrt_append nth_append)
    then show ?thesis by blast
  qed
qed

lemma builds_fold:
  assumes "0 < interval" "builds ts rs b"
  shows "\<exists>ts' rs'. builds (ts @ ts') rs' (fold (\<lambda>(k, v). BlockBuilder_Add interval k v) es b) \<and> map snd ts' = es"
  using assms(2)
proof (induction es arbitrary: ts rs b)
  case Nil
  then show ?case by (intro exI[of _ "[]"] exI[of _ rs]) simp
next
  case (Cons e es)
  obtain k v where e: "e = (k, v)" by fastforce
  obtain s rs1 where b1: "builds (ts @ [(s, k, v)]) rs1 (BlockBuilder_Add interval k v b)"
    using builds_Add[OF Cons.prems assms(1)] by blast
  obtain ts' rs' where "builds ((ts @ [(s, k, v)]) @ ts') rs' (fold (\<lambda>(k, v). BlockBuilder_Add interval k v) es (BlockBuilder_Add interval k v b))"
      "map snd ts' = es"
    using Cons.IH[OF b1] by blast
  then show ?case by (intro exI[of _ "(s, k, v) # ts'"] exI[of _ rs']) (simp add: e)
qed

lemma Finish_builds: "builds ts rs b \<Longrightarrow> fst (BlockBuilder_Finish b) = block_bytes ts rs"
  unfolding BlockBuilder_Finish_def Let_def fold_PutFixed32 by (simp add: PutFixed32_def builds_def block_bytes_def)

lemma build_well_laid:
  assumes "0 < interval" "contents = fst (BlockBuilder_Finish (fold (\<lambda>(k, v). BlockBuilder_Add interval k v) es BlockBuilder_new))"
    and "length contents < 2 ^ 32"
  obtains ts rs where "well_laid ts rs" "contents = block_bytes ts rs" "map snd ts = es"
proof -
  obtain ts rs where "builds ts rs (fold (\<lambda>(k, v). BlockBuilder_Add interval k v) es BlockBuilder_new)" "map snd ts = es"
    using builds_fold[OF assms(1) builds_new, of es] by auto
  then show thesis using that[of ts rs] Finish_builds[of ts rs] assms(2,3) by (simp add: well_laid_def builds_def)
qed

section \<open>Opening a block\<close>

lemma Block_NewIterator_laid:
  assumes wl: "well_laid ts rs"
  shows "\<exists>it. Block_NewIterator (Block_new (block_bytes ts rs)) = BlockIterator it \<and> exhausted ts rs it"
proof -
  let ?c = "block_bytes ts rs" and ?n = "length rs"
  have len: "length ?c = length (items_bytes ts) + 4 * ?n + 4" by (simp add: block_bytes_def)
  have c32: "length ?c < 2 ^ 32" and n0: "?n \<noteq> 0" using wl by (simp_all add: well_laid_def)
  have "drop (length ?c - 4) ?c = EncodeFixed32 (word_of_nat ?n)" by (simp add: len) (simp add: block_bytes_def)
  then have num: "NumRestarts ?c = word_of_nat ?n" using DecodeFixed32_Encode[of "word_of_nat ?n" "[]"] by (simp add: NumRestarts_def)
  have u: "unat (word_of_nat ?n :: u32) = ?n" "unat (1 + word_of_nat ?n :: u32) = ?n + 1"
    using c32 len unat_word_of_nat[of ?n, where 'a = 32] unat_word_of_nat[of "1 + ?n", where 'a = 32] by simp_all
  have "(length ?c - (?n + 1) * 4) mod 2 ^ 32 = length (items_bytes ts)" using len c32 by simp
  then have "Block_NewIterator (Block_new ?c) = BlockIterator (BlockIter_new ?c (length (items_bytes ts)) ?n)"
    using n0 len by (simp add: Block_new_def Block_NewIterator_def Let_def num u)
  then show ?thesis by (simp add: exhausted_def over_def BlockIter_new_def)
qed

lemma built_block_opens:
  assumes "0 < interval" and es: "list_all (\<lambda>(k, _). valid k) es" "sorted_wrt (\<lambda>(a, _) (b, _). cmp a b < 0) es"
    and c: "contents = fst (BlockBuilder_Finish (fold (\<lambda>(k, v). BlockBuilder_Add interval k v) es BlockBuilder_new))" "length contents < 2 ^ 32"
  obtains ts rs it where "map snd ts = es" "Block_NewIterator (Block_new contents) = BlockIterator it"
    "block_stands valid cmp ts rs (length es) it"
proof -
  obtain ts rs where laid: "well_laid ts rs" "contents = block_bytes ts rs" "map snd ts = es"
    using build_well_laid[OF assms(1) c] .
  obtain it where it: "Block_NewIterator (Block_new contents) = BlockIterator it" "exhausted ts rs it"
    using Block_NewIterator_laid[OF laid(1)] laid(2) by blast
  have "length es = length ts" "list_all (\<lambda>(_, k, _). valid k) ts" "sorted_wrt (\<lambda>(_, a, _) (_, b, _). cmp a b < 0) ts"
    using es unfolding laid(3)[symmetric] by (simp_all add: list_all_iff sorted_wrt_map case_prod_unfold)
  then have "block_stands valid cmp ts rs (length es) it" using it laid by (simp add: block_stands_def)
  then show thesis using that it(1) laid(3) by blast
qed

lemma block_run:
  assumes ord: "key_order valid cmp" and "0 < interval"
    and es: "list_all (\<lambda>(k, _). valid k) es" "sorted_wrt (\<lambda>(a, _) (b, _). cmp a b < 0) es"
    and c: "contents = fst (BlockBuilder_Finish (fold (\<lambda>(k, v). BlockBuilder_Add interval k v) es BlockBuilder_new))" "length contents < 2 ^ 32"
    and ops: "list_all (op_valid valid) ops" "cursor_run cmp es ops (length es) = Some p"
  shows "\<exists>it it'. Block_NewIterator (Block_new contents) = BlockIterator it \<and> iterator_run (Block_Iterator cmp) ops it = Some it' \<and>
    shows_entry (Block_Iterator cmp) es p it' \<and> Status_ok (bi_status it')"
proof -
  obtain ts rs it where it: "map snd ts = es" "Block_NewIterator (Block_new contents) = BlockIterator it" "block_stands valid cmp ts rs (length es) it"
    using built_block_opens[OF assms(2) es c] .
  note contract = block_iterator_contract[OF ord, of ts rs]
  obtain it' where it': "iterator_run (Block_Iterator cmp) ops it = Some it'" "block_stands valid cmp ts rs p it'"
    using iterator.run[OF contract it(3) ops(1)] ops(2) it(1) by blast
  moreover have "shows_entry (Block_Iterator cmp) es p it'" using iterator.stands_shows[OF contract it'(2)] it(1) by simp
  moreover have "Status_ok (bi_status it')" using iterator.stands_ok[OF contract it'(2)] by (simp add: Block_Iterator_def)
  ultimately show ?thesis using it(2) by blast
qed

section \<open>Properties\<close>

text \<open>C7: a block refines the sorted list of its entries: whatever \<^verbatim>\<open>SeekToFirst\<close>, \<^verbatim>\<open>SeekToLast\<close>, \<^verbatim>\<open>Seek\<close>, \<^verbatim>\<open>Next\<close> and \<^verbatim>\<open>Prev\<close> a client calls on
  an iterator over a block that was built from sorted entries, the iterator shows the entry at which the same
  operations on the list arrive, and reports no corruption; with any comparator and restart interval.\<close>

theorem block_refines_entries:
  assumes "key_order valid cmp" "0 < interval"
    and "list_all (\<lambda>(k, _). valid k) es" "sorted_wrt (\<lambda>(a, _) (b, _). cmp a b < 0) es"
    and "contents = fst (BlockBuilder_Finish (fold (\<lambda>(k, v). BlockBuilder_Add interval k v) es BlockBuilder_new))" "length contents < 2 ^ 32"
    and "list_all (op_valid valid) ops" "cursor_run cmp es ops (length es) = Some p"
  shows "\<exists>it it'. Block_NewIterator (Block_new contents) = BlockIterator it \<and> iterator_run (Block_Iterator cmp) ops it = Some it' \<and>
    shows_entry (Block_Iterator cmp) es p it' \<and> Status_ok (bi_status it')"
  by (rule block_run[OF assms])

lemma built_abc:
  "fst (BlockBuilder_Finish (fold (\<lambda>(k, v). BlockBuilder_Add 2 k v) [([97], [1]), ([97, 98], [2]), ([99], [3])] BlockBuilder_new)) =
    [0, 1, 1, 97, 1, 1, 1, 1, 98, 2, 0, 1, 1, 99, 3, 0, 0, 0, 0, 10, 0, 0, 0, 2, 0, 0, 0]"
  by code_simp

lemma cursor_abc:
  "cursor_run bytewise_Compare [([97], [1]), ([97, 98], [2]), ([99], [3])] [To_Key [97, 97], To_Next, To_Prev]
    (length [([97 :: byte], [1 :: byte]), ([97, 98], [2]), ([99], [3])]) = Some 1"
  by code_simp

theorem block_refines_entries_witness:
  "\<exists>it it'. Block_NewIterator (Block_new [0, 1, 1, 97, 1, 1, 1, 1, 98, 2, 0, 1, 1, 99, 3, 0, 0, 0, 0, 10, 0, 0, 0, 2, 0, 0, 0]) = BlockIterator it \<and>
    iterator_run (Block_Iterator bytewise_Compare) [To_Key [97, 97], To_Next, To_Prev] it = Some it' \<and>
    shows_entry (Block_Iterator bytewise_Compare) [([97], [1]), ([97, 98], [2]), ([99], [3])] 1 it' \<and> Status_ok (bi_status it')"
  by (rule block_refines_entries[OF bytewise.key_order_axioms _ _ _ built_abc[symmetric] _ _ cursor_abc])
    (simp_all add: op_valid_def bytewise_Compare_def slice_compare_def)

section \<open>Damaged blocks\<close>

text \<open>
  A block of one entry with the header \<open>(0, non_shared, value_length)\<close>, whatever the two lengths are, the bytes
  \<open>rest\<close>, and a restart array of one restart point.
\<close>

definition one_entry_block :: "u32 \<Rightarrow> u32 \<Rightarrow> byte list \<Rightarrow> slice" where
  "one_entry_block non_shared value_length rest =
     EncodeVarint32 0 @ EncodeVarint32 non_shared @ EncodeVarint32 value_length @ rest @ EncodeFixed32 0 @ EncodeFixed32 1"

lemma one_entry_iterator:
  assumes "length (one_entry_block ns vl rest) < 2 ^ 32"
  shows "Block_NewIterator (Block_new (one_entry_block ns vl rest)) =
    BlockIterator (BlockIter_new (one_entry_block ns vl rest) (length (one_entry_block ns vl rest) - 8) 1)"
proof -
  let ?b = "one_entry_block ns vl rest"
  have "drop (length ?b - 4) ?b = EncodeFixed32 1 @ []" by (simp add: one_entry_block_def)
  then have n: "NumRestarts ?b = 1" unfolding NumRestarts_def by (simp only: DecodeFixed32_Encode)
  have "8 \<le> length ?b" by (simp add: one_entry_block_def)
  then show ?thesis using assms n by (simp add: Block_new_def Block_NewIterator_def Let_def)
qed

text \<open>C38: \<^verbatim>\<open>DecodeEntry\<close> adds the two lengths of an entry in 32 bits. On a block of one entry, whatever its lengths are,
  \<^verbatim>\<open>SeekToFirst\<close> reads outside the block exactly if the key that the header announces is longer than all that is left of
  the block and the sum, having wrapped, still passes the check.
\<close>

theorem damaged_block_read_past_end:
  assumes "length (one_entry_block non_shared value_length rest) < 2 ^ 32"
  shows "\<exists>it. Block_NewIterator (Block_new (one_entry_block non_shared value_length rest)) = BlockIterator it \<and>
    (BlockIter_SeekToFirst it = None \<longleftrightarrow>
       unat (non_shared + value_length) \<le> length rest \<and> length rest + 8 < unat non_shared)"
proof -
  let ?b = "one_entry_block non_shared value_length rest" and ?r = "length (one_entry_block non_shared value_length rest) - 8"
  define it where "it = BlockIter_new ?b ?r 1"
  let ?h = "EncodeVarint32 0 @ EncodeVarint32 non_shared @ EncodeVarint32 value_length"
  have b: "?b = (?h @ rest) @ EncodeFixed32 0 @ EncodeFixed32 1" "?r = length (?h @ rest)" "length ?b = length ?h + length rest + 8"
    by (simp_all add: one_entry_block_def)
  have "EncodeVarint32 (0 :: u32) = [0]" by (simp add: EncodeVarint32_small)
  then have pos: "0 < ?r" "?r - length rest = length ?h" "length rest \<le> ?r" using b(2) by simp_all
  have "sub_slice ?b ?r 4 = Some (EncodeFixed32 0)" unfolding b(2) by (simp add: sub_slice_def b(1))
  then have "SeekToRestartPoint 0 it = Some (it\<lparr>bi_key := [], bi_restart_index := 0, bi_value := Some (0, 0)\<rparr>)"
    using DecodeFixed32_Encode[of 0 "[]"] by (simp add: SeekToRestartPoint_def GetRestartPoint_def it_def BlockIter_new_def)
  then have first: "BlockIter_SeekToFirst it = map_option snd (ParseNextKey (it\<lparr>bi_key := [], bi_restart_index := 0, bi_value := Some (0, 0)\<rparr>))"
    by (simp add: BlockIter_SeekToFirst_def)
  have "take ?r ?b = ?h @ rest" unfolding b(2) by (simp add: b(1))
  then have entry: "DecodeEntry (take ?r ?b) =
      (if length rest < unat (non_shared + value_length) then None else Some (0, non_shared, value_length, rest))"
    using DecodeEntry_header[of 0 non_shared value_length rest] assms b(3) by (simp add: word_less_nat_alt unat_word_of_nat)
  have "restart_loop it' 0 0 = Some 0" if "bi_num_restarts it' = 1" for it'
    using that by (subst restart_loop.simps) simp
  then have "BlockIter_SeekToFirst it = None \<longleftrightarrow>
      unat (non_shared + value_length) \<le> length rest \<and> sub_slice ?b (length ?h) (unat non_shared) = None"
    using pos entry unfolding first
    by (auto simp: ParseNextKey_def NextEntryOffset_def it_def BlockIter_new_def Let_def split: option.splits)
  then show ?thesis using one_entry_iterator[OF assms] b(3) by (auto simp: it_def sub_slice_def)
qed

theorem damaged_block_read_past_end_witness:
  "\<exists>it. Block_NewIterator (Block_new [0, 255, 255, 255, 255, 15, 2, 7, 0, 0, 0, 0, 1, 0, 0, 0]) = BlockIterator it \<and>
    BlockIter_SeekToFirst it = None"
proof -
  have "one_entry_block 0xffffffff 2 [7] = [0, 255, 255, 255, 255, 15, 2, 7, 0, 0, 0, 0, 1, 0, 0, 0]" by code_simp
  then show ?thesis using damaged_block_read_past_end[of "0xffffffff" 2 "[7]"] by simp
qed

end
