(* ===== verification/Ldb_Table_Builder_Laws.thy ===== *)
theory Ldb_Table_Builder_Laws
  imports Ldb_Table_Builder Ldb_Block_Props
begin

text \<open>
  The laws of \<^verbatim>\<open>table/table_builder.cc\<close>: what a table file holds when the builder has not failed. The builder splits the
  entries into blocks; \<open>ess\<close> are the blocks written so far and \<open>cur\<close> the entries of the next one.
\<close>

section \<open>The layout of a table\<close>

definition block_of :: "nat \<Rightarrow> entries \<Rightarrow> byte list" where
  "block_of interval es = fst (BlockBuilder_Finish (fold (\<lambda>(k, v). BlockBuilder_Add interval k v) es BlockBuilder_new))"

definition raw_block :: "byte list \<Rightarrow> byte list" where
  "raw_block data = data @ block_trailer kNoCompression data"

definition blocks_bytes :: "nat \<Rightarrow> entries list \<Rightarrow> byte list" where
  "blocks_bytes interval ess = concat (map (\<lambda>es. raw_block (block_of interval es)) ess)"

definition handle_of :: "byte list \<Rightarrow> byte list \<Rightarrow> BlockHandle" where
  "handle_of pre data = \<lparr>bh_offset = word_of_nat (length pre), bh_size = word_of_nat (length data)\<rparr>"

definition block_handle :: "nat \<Rightarrow> entries list \<Rightarrow> nat \<Rightarrow> BlockHandle" where
  "block_handle interval ess i = handle_of (blocks_bytes interval (take i ess)) (block_of interval (ess ! i))"

definition index_entries :: "nat \<Rightarrow> entries list \<Rightarrow> slice list \<Rightarrow> entries" where
  "index_entries interval ess ks = map (\<lambda>i. (ks ! i, BlockHandle_EncodeTo (block_handle interval ess i) [])) [0..<length ks]"

definition filter_blocks :: "nat \<Rightarrow> entries list \<Rightarrow> (u64 \<times> slice list) list" where
  "filter_blocks interval ess = map (\<lambda>i. (word_of_nat (length (blocks_bytes interval (take i ess))), map fst (ess ! i))) [0..<length ess]"

text \<open>The keys of the index separate the blocks.\<close>

definition separates :: "(slice \<Rightarrow> bool) \<Rightarrow> (slice \<Rightarrow> slice \<Rightarrow> int) \<Rightarrow> slice list \<Rightarrow> entries list \<Rightarrow> bool" where
  "separates valid cmp ks ess \<longleftrightarrow>
     (\<forall>i < length ks. valid (ks ! i) \<and> (\<forall>(k, _) \<in> set (ess ! i). cmp k (ks ! i) \<le> 0) \<and>
       (\<forall>j < length ess. i < j \<longrightarrow> (\<forall>(k, _) \<in> set (ess ! j). cmp (ks ! i) k < 0)))"

lemma separatesD:
  assumes "separates valid cmp ks ess" "i < length ks"
  shows separates_valid: "valid (ks ! i)"
    and separates_upper: "(k, v) \<in> set (ess ! i) \<Longrightarrow> cmp k (ks ! i) \<le> 0"
    and separates_lower: "i < j \<Longrightarrow> j < length ess \<Longrightarrow> (k, v) \<in> set (ess ! j) \<Longrightarrow> cmp (ks ! i) k < 0"
  using assms unfolding separates_def by blast+

definition tb_inv :: "Options \<Rightarrow> ('f \<Rightarrow> byte list) \<Rightarrow> entries list \<Rightarrow> entries \<Rightarrow> slice list \<Rightarrow> 'f TableBuilder \<Rightarrow> bool" where
  "tb_inv opts ct ess cur ks r \<longleftrightarrow> (let interval = opt_block_restart_interval opts in
     tb_options r = opts \<and> tb_index_block_options r = opts\<lparr>opt_block_restart_interval := 1\<rparr> \<and> TableBuilder_ok r \<and>
     ct (tb_file r) = blocks_bytes interval ess \<and> tb_offset r = word_of_nat (length (blocks_bytes interval ess)) \<and>
     tb_data_block r = fold (\<lambda>(k, v). BlockBuilder_Add interval k v) cur BlockBuilder_new \<and>
     tb_index_block r = fold (\<lambda>(k, v). BlockBuilder_Add 1 k v) (index_entries interval ess ks) BlockBuilder_new \<and>
     (concat ess @ cur \<noteq> [] \<longrightarrow> tb_last_key r = fst (last (concat ess @ cur))) \<and> [] \<notin> set ess \<and>
     tb_filter_block r = map_option (\<lambda>p. (p, fold (add_block (fp_CreateFilter p)) (filter_blocks interval (ess @ [cur])) FilterBlockBuilder_new))
       (opt_filter_policy opts) \<and>
     (if tb_pending_index_entry r
      then cur = [] \<and> length ess = Suc (length ks) \<and> tb_pending_handle r = block_handle interval ess (length ks)
      else length ess = length ks \<and> (cur = [] \<longrightarrow> ess = [])))"

lemma blocks_bytes_simps [simp]:
  "blocks_bytes interval [] = []" "blocks_bytes interval (ess @ [es]) = blocks_bytes interval ess @ raw_block (block_of interval es)"
  by (simp_all add: blocks_bytes_def)

lemma index_entries_more:
  "length ks \<le> length ess \<Longrightarrow> index_entries interval (ess @ [es]) ks = index_entries interval ess ks"
  by (auto simp: index_entries_def block_handle_def nth_append)

lemma index_entries_snoc:
  "index_entries interval ess (ks @ [k]) = index_entries interval ess ks @ [(k, BlockHandle_EncodeTo (block_handle interval ess (length ks)) [])]"
  by (auto simp: index_entries_def nth_append)

lemma filter_blocks_snoc:
  "filter_blocks interval (ess @ [es]) = filter_blocks interval ess @ [(word_of_nat (length (blocks_bytes interval ess)), map fst es)]"
  by (auto simp: filter_blocks_def nth_append)

lemma BlockBuilder_Reset_new: "BlockBuilder_Reset b = BlockBuilder_new"
  by (cases b) (simp add: BlockBuilder_Reset_def BlockBuilder_new_def)

lemma fold_Add_buffer: "bb_buffer (fold (\<lambda>(k, v). BlockBuilder_Add interval k v) es BlockBuilder_new) = [] \<longleftrightarrow> es = []"
proof (cases es rule: rev_cases)
  case (snoc xs x)
  obtain k v where "x = (k, v)" by fastforce
  moreover have "bb_buffer (BlockBuilder_Add interval k v b) \<noteq> []" for b
    by (auto simp: BlockBuilder_Add_def Let_def PutVarint32_def EncodeVarint32_leb128)
  ultimately show ?thesis using snoc by simp
qed (simp add: BlockBuilder_new_def)

lemma TableBuilder_new_inv: "ct f = [] \<Longrightarrow> tb_inv opts ct [] [] [] (TableBuilder_new opts f)"
  by (cases "opt_filter_policy opts")
    (simp_all add: tb_inv_def TableBuilder_new_def TableBuilder_ok_def Status_ok_def Status_OK_def index_entries_def filter_blocks_def add_block_def)

section \<open>Writing a block\<close>

context writable_file
begin

lemma WriteRawBlock_ok:
  assumes w: "WriteRawBlock Append data t r = Some (h, r')" and ok: "TableBuilder_ok r'" and off: "tb_offset r = word_of_nat (length (contents (tb_file r)))"
  obtains f where "r' = r\<lparr>tb_status := Status_OK, tb_file := f, tb_offset := word_of_nat (length (contents f))\<rparr>"
    "contents f = contents (tb_file r) @ data @ block_trailer t data" "h = handle_of (contents (tb_file r)) data"
proof -
  obtain s1 f1 where 1: "Append data (tb_file r) = Some (s1, f1)" "Status_ok s1"
    using w ok by (auto simp: WriteRawBlock_def Let_def TableBuilder_ok_def split: option.splits if_splits)
  obtain s2 f2 where 2: "Append (block_trailer t data) f1 = Some (s2, f2)" "Status_ok s2"
    and h: "h = \<lparr>bh_offset = tb_offset r, bh_size = word_of_nat (length data)\<rparr>"
    and r': "r' = r\<lparr>tb_status := s2, tb_file := f2, tb_offset := tb_offset r + (word_of_nat (length data) + kBlockTrailerSize)\<rparr>"
    using w ok 1 by (auto simp: WriteRawBlock_def Let_def TableBuilder_ok_def block_trailer_def split: option.splits if_splits)
  have c: "contents f2 = contents (tb_file r) @ data @ block_trailer t data"
    using Append_contents[OF 1] Append_contents[OF 2] by simp
  have "tb_offset r + (word_of_nat (length data) + kBlockTrailerSize) = word_of_nat (length (contents f2))"
    using off by (simp add: c kBlockTrailerSize_def)
  then show thesis using that[of f2] c r' h off 2(2) by (simp add: handle_of_def Status_ok_def Status_OK_def)
qed

lemma WriteBlock_ok:
  assumes w: "WriteBlock Append b r = Some (h, b', r')" and ok: "TableBuilder_ok r'" and off: "tb_offset r = word_of_nat (length (contents (tb_file r)))"
    and compression: "opt_compression (tb_options r) = kNoCompression \<or> opt_compression (tb_options r) = kSnappyCompression"
  obtains f where "r' = r\<lparr>tb_status := Status_OK, tb_file := f, tb_offset := word_of_nat (length (contents f))\<rparr>"
    "contents f = contents (tb_file r) @ raw_block (fst (BlockBuilder_Finish b))" "h = handle_of (contents (tb_file r)) (fst (BlockBuilder_Finish b))"
    "b' = BlockBuilder_new"
proof -
  have raw: "WriteRawBlock Append (fst (BlockBuilder_Finish b)) kNoCompression r = Some (h, r')" and b': "b' = BlockBuilder_new"
    using w compression
    by (auto simp: WriteBlock_def Snappy_Compress_def BlockBuilder_Reset_new Let_def case_prod_unfold kNoCompression_def kSnappyCompression_def)
  show thesis using WriteRawBlock_ok[OF raw ok off] that b' by (metis raw_block_def)
qed

end

section \<open>Adding entries\<close>

text \<open>The statements of \<^verbatim>\<open>Add\<close> before the block may be flushed.\<close>

definition add_entry :: "slice \<Rightarrow> slice \<Rightarrow> 'f TableBuilder \<Rightarrow> 'f TableBuilder" where
  "add_entry k v r =
     (let r = (if tb_pending_index_entry r
               then add_index_entry (cmp_FindShortestSeparator (opt_comparator (tb_options r)) (tb_last_key r) k) r else r)
      in r\<lparr>tb_filter_block := map_option (\<lambda>(p, fb). (p, AddKey k fb)) (tb_filter_block r), tb_last_key := k, tb_num_entries := tb_num_entries r + 1,
           tb_data_block := BlockBuilder_Add (opt_block_restart_interval (tb_options r)) k v (tb_data_block r)\<rparr>)"

lemma TableBuilder_Add_entry:
  "TableBuilder_ok r \<Longrightarrow> TableBuilder_Add fappend fflush k v r =
     (if CurrentSizeEstimate (tb_data_block (add_entry k v r)) \<ge> opt_block_size (tb_options (add_entry k v r))
      then TableBuilder_Flush fappend fflush (add_entry k v r) else Some (add_entry k v r))"
  by (simp add: TableBuilder_Add_def add_entry_def Let_def)

definition new_keys :: "slice \<Rightarrow> 'f TableBuilder \<Rightarrow> slice list \<Rightarrow> slice list" where
  "new_keys k r ks = (if tb_pending_index_entry r then ks @ [cmp_FindShortestSeparator (opt_comparator (tb_options r)) (tb_last_key r) k] else ks)"

definition all_keys :: "'f TableBuilder \<Rightarrow> slice list \<Rightarrow> slice list" where
  "all_keys r ks = (if tb_pending_index_entry r then ks @ [cmp_FindShortSuccessor (opt_comparator (tb_options r)) (tb_last_key r)] else ks)"

definition ordered :: "(slice \<Rightarrow> bool) \<Rightarrow> (slice \<Rightarrow> slice \<Rightarrow> int) \<Rightarrow> entries \<Rightarrow> bool" where
  "ordered valid cmp es \<longleftrightarrow> list_all (\<lambda>(k, _). valid k) es \<and> sorted_wrt (\<lambda>(a, _) (b, _). cmp a b < 0) es"

lemma ordered_snoc: "ordered valid cmp (es @ [(k, v)]) \<longleftrightarrow> ordered valid cmp es \<and> valid k \<and> (\<forall>(a, _) \<in> set es. cmp a k < 0)"
  by (auto simp: ordered_def sorted_wrt_append)

lemma ordered_append: "ordered valid cmp (xs @ ys) \<Longrightarrow> ordered valid cmp xs \<and> ordered valid cmp ys"
  by (auto simp: ordered_def sorted_wrt_append)

text \<open>The calls of a client before \<^verbatim>\<open>Finish\<close>.\<close>

datatype table_call = Add_Call slice slice | Flush_Call

fun call_step :: "(slice \<Rightarrow> 'f \<Rightarrow> (Status \<times> 'f) option) \<Rightarrow> ('f \<Rightarrow> (Status \<times> 'f) option) \<Rightarrow> table_call \<Rightarrow> 'f TableBuilder \<Rightarrow> 'f TableBuilder option" where
  "call_step fappend fflush (Add_Call k v) r = TableBuilder_Add fappend fflush k v r"
| "call_step fappend fflush Flush_Call r = TableBuilder_Flush fappend fflush r"

fun run_calls :: "(slice \<Rightarrow> 'f \<Rightarrow> (Status \<times> 'f) option) \<Rightarrow> ('f \<Rightarrow> (Status \<times> 'f) option) \<Rightarrow> table_call list \<Rightarrow> 'f TableBuilder \<Rightarrow> 'f TableBuilder option" where
  "run_calls fappend fflush [] r = Some r"
| "run_calls fappend fflush (c # cs) r = Option.bind (call_step fappend fflush c r) (run_calls fappend fflush cs)"

fun call_entries :: "table_call list \<Rightarrow> entries" where
  "call_entries [] = []"
| "call_entries (Add_Call k v # cs) = (k, v) # call_entries cs"
| "call_entries (Flush_Call # cs) = call_entries cs"

lemma call_entries_Cons: "call_entries (c # cs) = call_entries [c] @ call_entries cs"
  by (cases c) simp_all

definition holds_entries :: "Options \<Rightarrow> ('f \<Rightarrow> byte list) \<Rightarrow> (slice \<Rightarrow> bool) \<Rightarrow> entries \<Rightarrow> 'f TableBuilder \<Rightarrow> bool" where
  "holds_entries opts ct valid es r \<longleftrightarrow> (\<exists>ess cur ks. tb_inv opts ct ess cur ks r \<and> concat ess @ cur = es \<and>
     separates valid (cmp_Compare (opt_comparator opts)) ks (ess @ [cur]))"

section \<open>The finished file\<close>

definition filter_contents :: "nat \<Rightarrow> entries list \<Rightarrow> FilterPolicy \<Rightarrow> byte list" where
  "filter_contents interval ess p =
     FilterBlockBuilder_Finish (fp_CreateFilter p) (fold (add_block (fp_CreateFilter p)) (filter_blocks interval (ess @ [[]])) FilterBlockBuilder_new)"

definition filter_part :: "Options \<Rightarrow> entries list \<Rightarrow> byte list" where
  "filter_part opts ess =
     (case opt_filter_policy opts of None \<Rightarrow> [] | Some p \<Rightarrow> raw_block (filter_contents (opt_block_restart_interval opts) ess p))"

definition meta_entries :: "Options \<Rightarrow> entries list \<Rightarrow> entries" where
  "meta_entries opts ess =
     (let interval = opt_block_restart_interval opts in
      case opt_filter_policy opts of
        None \<Rightarrow> []
      | Some p \<Rightarrow> [(lit ''filter.'' @ fp_Name p, BlockHandle_EncodeTo (handle_of (blocks_bytes interval ess) (filter_contents interval ess p)) [])])"

definition table_footer :: "Options \<Rightarrow> entries list \<Rightarrow> slice list \<Rightarrow> Footer" where
  "table_footer opts ess ks =
     (let interval = opt_block_restart_interval opts;
          data = blocks_bytes interval ess @ filter_part opts ess;
          meta = block_of interval (meta_entries opts ess)
      in \<lparr>metaindex_handle = handle_of data meta, index_handle = handle_of (data @ raw_block meta) (block_of 1 (index_entries interval ess ks))\<rparr>)"

definition table_bytes :: "Options \<Rightarrow> entries list \<Rightarrow> slice list \<Rightarrow> byte list" where
  "table_bytes opts ess ks =
     (let interval = opt_block_restart_interval opts in
      blocks_bytes interval ess @ filter_part opts ess @ raw_block (block_of interval (meta_entries opts ess)) @
      raw_block (block_of 1 (index_entries interval ess ks)) @ Footer_EncodeTo (table_footer opts ess ks) [])"

definition wrote :: "('f \<Rightarrow> byte list) \<Rightarrow> byte list \<Rightarrow> 'f TableBuilder \<Rightarrow> 'f TableBuilder \<Rightarrow> bool" where
  "wrote ct data r r' \<longleftrightarrow> (\<exists>f. r' = r\<lparr>tb_status := Status_OK, tb_file := f, tb_offset := word_of_nat (length (ct f))\<rparr> \<and> ct f = ct (tb_file r) @ data)"

lemma wroteD:
  assumes "wrote ct data r r'"
  shows "tb_options r' = tb_options r" "tb_index_block_options r' = tb_index_block_options r" "tb_filter_block r' = tb_filter_block r"
    "tb_pending_index_entry r' = tb_pending_index_entry r" "tb_pending_handle r' = tb_pending_handle r" "tb_last_key r' = tb_last_key r"
    "tb_index_block r' = tb_index_block r" "TableBuilder_ok r'" "ct (tb_file r') = ct (tb_file r) @ data"
    "tb_offset r' = word_of_nat (length (ct (tb_file r')))"
  using assms by (auto simp: wrote_def TableBuilder_ok_def Status_ok_def Status_OK_def)

lemma wrote_nothing: "TableBuilder_ok r \<Longrightarrow> tb_offset r = word_of_nat (length (ct (tb_file r))) \<Longrightarrow> wrote ct [] r r"
  unfolding wrote_def by (intro exI[of _ "tb_file r"]) (cases r, simp add: TableBuilder_ok_def Status_ok_def Status_OK_def)

text \<open>A builder on a file that keeps the contract, with a comparator that keeps its contract.\<close>

locale table_writer = writable_file Append Flush contents +
    comparator valid "cmp_Compare (opt_comparator opts)" "cmp_FindShortestSeparator (opt_comparator opts)" "cmp_FindShortSuccessor (opt_comparator opts)"
  for Append :: "slice \<Rightarrow> 'f \<Rightarrow> (Status \<times> 'f) option" and Flush :: "'f \<Rightarrow> (Status \<times> 'f) option" and contents :: "'f \<Rightarrow> byte list"
    and valid :: "slice \<Rightarrow> bool" and opts :: Options +
  assumes interval: "0 < opt_block_restart_interval opts"
    and compression: "opt_compression opts = kNoCompression \<or> opt_compression opts = kSnappyCompression"
begin

lemma Flush_inv:
  assumes inv: "tb_inv opts contents ess cur ks r" and fl: "TableBuilder_Flush Append Flush r = Some r'" and ok: "TableBuilder_ok r'"
  shows "if cur = [] then r' = r else tb_inv opts contents (ess @ [cur]) [] ks r' \<and> tb_pending_index_entry r'"
proof (cases "cur = []")
  case True
  then have "TableBuilder_ok r" "bb_buffer (tb_data_block r) = []" using inv by (simp_all add: tb_inv_def Let_def BlockBuilder_new_def)
  then show ?thesis using fl True by (simp add: TableBuilder_Flush_def)
next
  case False
  let ?i = "opt_block_restart_interval opts"
  have r: "TableBuilder_ok r" "bb_buffer (tb_data_block r) \<noteq> []" "\<not> tb_pending_index_entry r" "tb_options r = opts"
    "tb_offset r = word_of_nat (length (contents (tb_file r)))" "contents (tb_file r) = blocks_bytes ?i ess"
    "fst (BlockBuilder_Finish (tb_data_block r)) = block_of ?i cur" "length ess = length ks"
    using inv False by (auto simp: tb_inv_def Let_def fold_Add_buffer block_of_def split: if_splits)
  obtain h b r1 where w: "WriteBlock Append (tb_data_block r) r = Some (h, b, r1)"
    using fl r by (auto simp: TableBuilder_Flush_def split: option.splits)
  have ok1: "TableBuilder_ok r1"
    using fl r w ok by (auto simp: TableBuilder_Flush_def Let_def TableBuilder_ok_def split: option.splits if_splits)
  obtain f where f: "r1 = r\<lparr>tb_status := Status_OK, tb_file := f, tb_offset := word_of_nat (length (contents f))\<rparr>"
      "contents f = blocks_bytes ?i (ess @ [cur])" "h = handle_of (blocks_bytes ?i ess) (block_of ?i cur)" "b = BlockBuilder_new"
    using WriteBlock_ok[OF w ok1 r(5)] compression r by (metis blocks_bytes_simps(2))
  obtain s f2 where f2: "Flush f = Some (s, f2)" "Status_ok s"
    and r': "r' = r1\<lparr>tb_data_block := b, tb_pending_handle := h, tb_pending_index_entry := True, tb_status := s, tb_file := f2,
      tb_filter_block := map_option (\<lambda>(p, fb). (p, StartBlock (fp_CreateFilter p) (tb_offset r1) fb)) (tb_filter_block r1)\<rparr>"
    using fl r w ok ok1 f(1) by (auto simp: TableBuilder_Flush_def Let_def TableBuilder_ok_def split: option.splits if_splits)
  have "contents f2 = blocks_bytes ?i (ess @ [cur])" using Flush_contents[OF f2] f(2) by simp
  moreover have "h = block_handle ?i (ess @ [cur]) (length ks)" using f(3) by (simp add: block_handle_def flip: r(8))
  ultimately have "tb_inv opts contents (ess @ [cur]) [] ks r'"
    using inv False f(2,4) f2(2) r(8) filter_blocks_snoc[of ?i "ess @ [cur]" "[]"] unfolding r' f(1)
    by (auto simp: tb_inv_def Let_def TableBuilder_ok_def index_entries_more filter_blocks_snoc add_block_def
        last_append option.map_comp o_def intro!: option.map_cong0)
  then show ?thesis using False r' by simp
qed

lemma add_entry_inv:
  assumes inv: "tb_inv opts contents ess cur ks r"
  shows "tb_inv opts contents ess (cur @ [(k, v)]) (new_keys k r ks) (add_entry k v r)"
proof -
  let ?i = "opt_block_restart_interval opts"
  have fb: "map_option (\<lambda>(p, fb). (p, AddKey k fb)) (tb_filter_block r) =
      map_option (\<lambda>p. (p, fold (add_block (fp_CreateFilter p)) (filter_blocks ?i (ess @ [cur @ [(k, v)]])) FilterBlockBuilder_new)) (opt_filter_policy opts)"
    using inv by (auto simp: tb_inv_def Let_def filter_blocks_snoc add_block_def option.map_comp o_def intro!: option.map_cong0)
  show ?thesis
  proof (cases "tb_pending_index_entry r")
    case True
    then show ?thesis using inv fb
      by (simp add: tb_inv_def Let_def add_entry_def add_index_entry_def new_keys_def TableBuilder_ok_def index_entries_snoc)
  next
    case False
    then show ?thesis using inv fb by (simp add: tb_inv_def Let_def add_entry_def new_keys_def TableBuilder_ok_def)
  qed
qed

lemma separates_Nil: "separates valid cmp ks ess \<Longrightarrow> length ks \<le> length ess \<Longrightarrow> separates valid cmp ks (ess @ [[]])"
  unfolding separates_def by (auto simp: nth_append less_Suc_eq)

lemma ordered_last:
  assumes "ordered valid (cmp_Compare (opt_comparator opts)) es" "(k, v) \<in> set es"
  shows "cmp_Compare (opt_comparator opts) k (fst (last es)) \<le> 0"
proof (cases es rule: rev_cases)
  case (snoc xs x)
  obtain a b where "x = (a, b)" by fastforce
  then show ?thesis using assms snoc Compare_refl[of a] by (fastforce simp: ordered_snoc)
qed (use assms in simp)

lemma add_entry_separates:
  assumes inv: "tb_inv opts contents ess cur ks r" and sep: "separates valid (cmp_Compare (opt_comparator opts)) ks (ess @ [cur])"
    and ord: "ordered valid (cmp_Compare (opt_comparator opts)) (concat ess @ cur @ [(k, v)])"
  shows "separates valid (cmp_Compare (opt_comparator opts)) (new_keys k r ks) (ess @ [cur @ [(k, v)]])"
proof -
  let ?cmp = "cmp_Compare (opt_comparator opts)" and ?blocks = "ess @ [cur]"
  have old: "ordered valid ?cmp (concat ess @ cur)" "valid k" "\<And>a b. (a, b) \<in> set (concat ess @ cur) \<Longrightarrow> valid a \<and> ?cmp a k < 0"
    using ord ordered_snoc[of valid ?cmp "concat ess @ cur" k v] by (auto simp: ordered_def list_all_iff)
  have less: "?cmp (ks ! i) k < 0" if "i < length ks" for i
  proof -
    have "\<exists>j. i < j \<and> j < length ?blocks \<and> ?blocks ! j \<noteq> []"
    proof (cases "tb_pending_index_entry r")
      case True
      then have "length ess = Suc (length ks)" "[] \<notin> set ess" using inv by (simp_all add: tb_inv_def Let_def)
      then show ?thesis using that by (intro exI[of _ "Suc i"]) (auto simp: nth_append in_set_conv_nth)
    next
      case False
      then have "length ess = length ks" "cur \<noteq> []" using inv that by (auto simp: tb_inv_def Let_def)
      then show ?thesis using that by (intro exI[of _ "length ess"]) (simp add: nth_append)
    qed
    then obtain j where j: "i < j" "j < length ?blocks" "?blocks ! j \<noteq> []" by blast
    obtain a b where e: "(a, b) \<in> set (?blocks ! j)" using last_in_set[OF j(3)] prod.collapse[of "last (?blocks ! j)"] by metis
    then have "(a, b) \<in> set (concat ?blocks)" using nth_mem[OF j(2)] unfolding set_concat by blast
    moreover have "?cmp (ks ! i) a < 0" "valid (ks ! i)" using separatesD[OF sep that] j e by auto
    ultimately show ?thesis using old(3)[of a b] old(2) Compare_trans[of "ks ! i" a k] by simp
  qed
  have ks: "length ks \<le> length ess" using inv by (auto simp: tb_inv_def Let_def split: if_splits)
  have was: "separates valid ?cmp ks (ess @ [cur @ [(k, v)]])"
    using sep less ks unfolding separates_def by (auto simp: nth_append less_Suc_eq split: if_splits)
  show ?thesis
  proof (cases "tb_pending_index_entry r")
    case True
    let ?l = "tb_last_key r"
    let ?s = "cmp_FindShortestSeparator (opt_comparator opts) ?l k"
    have opt: "tb_options r = opts" using inv by (simp add: tb_inv_def Let_def)
    have p: "cur = []" "length ess = Suc (length ks)" "[] \<notin> set ess" using inv True by (simp_all add: tb_inv_def Let_def)
    then have ne: "concat ess \<noteq> []" by (cases ess) auto
    then have l: "?l = fst (last (concat ess))" using inv p by (simp add: tb_inv_def Let_def)
    have lv: "valid ?l" "?cmp ?l k < 0" using old(3)[of "fst (last (concat ess))" "snd (last (concat ess))"] last_in_set[OF ne] l p(1) by simp_all
    have s: "valid ?s" "?cmp ?s k < 0" using separator[OF lv(1) old(2) lv(2)] by simp_all
    have "?cmp a ?s \<le> 0" if "(a, b) \<in> set (ess ! length ks)" for a b
    proof -
      have "(a, b) \<in> set (concat ess)" using that p(2) nth_mem[of "length ks" ess] by auto
      then show ?thesis using ordered_last[of "concat ess" a b] old p(1) l separator_separates(1)[OF lv(1) old(2) _ lv(2), of a] by simp
    qed
    then show ?thesis using was True s p unfolding separates_def new_keys_def opt by (auto simp: nth_append less_Suc_eq split: if_splits)
  qed (use was in \<open>simp add: new_keys_def\<close>)
qed

lemma Flush_flushes:
  assumes h: "holds_entries opts contents valid es r" and fl: "TableBuilder_Flush Append Flush r = Some r'" "TableBuilder_ok r'"
  obtains ess ks where "tb_inv opts contents ess [] ks r'" "concat ess = es" "separates valid (cmp_Compare (opt_comparator opts)) ks (ess @ [[]])"
proof -
  obtain ess cur ks where inv: "tb_inv opts contents ess cur ks r" and es: "concat ess @ cur = es"
    and sep: "separates valid (cmp_Compare (opt_comparator opts)) ks (ess @ [cur])" using h by (auto simp: holds_entries_def)
  show thesis
  proof (cases "cur = []")
    case True
    then show ?thesis using that Flush_inv[OF inv fl] inv es sep by simp
  next
    case False
    have "length ks \<le> length ess" using inv by (auto simp: tb_inv_def Let_def split: if_splits)
    then have "separates valid (cmp_Compare (opt_comparator opts)) ks ((ess @ [cur]) @ [[]])" by (intro separates_Nil[OF sep]) simp
    then show ?thesis using that[of "ess @ [cur]" ks] Flush_inv[OF inv fl] False es by simp
  qed
qed

lemma Flush_holds:
  assumes "holds_entries opts contents valid es r" "TableBuilder_Flush Append Flush r = Some r'" "TableBuilder_ok r'"
  shows "holds_entries opts contents valid es r'"
proof -
  obtain ess ks where "tb_inv opts contents ess [] ks r'" "concat ess = es" "separates valid (cmp_Compare (opt_comparator opts)) ks (ess @ [[]])"
    using Flush_flushes[OF assms] .
  then show ?thesis unfolding holds_entries_def by (intro exI[of _ ess] exI[of _ "[]"] exI[of _ ks]) simp
qed

lemma Add_holds:
  assumes h: "holds_entries opts contents valid es r" and add: "TableBuilder_Add Append Flush k v r = Some r'" "TableBuilder_ok r'"
    and ord: "ordered valid (cmp_Compare (opt_comparator opts)) (es @ [(k, v)])"
  shows "holds_entries opts contents valid (es @ [(k, v)]) r'"
proof -
  obtain ess cur ks where inv: "tb_inv opts contents ess cur ks r" and es: "concat ess @ cur = es"
    and sep: "separates valid (cmp_Compare (opt_comparator opts)) ks (ess @ [cur])" using h by (auto simp: holds_entries_def)
  have ord': "ordered valid (cmp_Compare (opt_comparator opts)) (concat ess @ cur @ [(k, v)])" using ord es by (metis append_assoc)
  have new: "holds_entries opts contents valid (es @ [(k, v)]) (add_entry k v r)"
    unfolding holds_entries_def
    using add_entry_inv[OF inv] add_entry_separates[OF inv sep ord'] es
    by (intro exI[of _ ess] exI[of _ "cur @ [(k, v)]"] exI[of _ "new_keys k r ks"]) (metis append_assoc)
  have "TableBuilder_ok r" using inv by (simp add: tb_inv_def Let_def)
  then have "r' = add_entry k v r \<or> TableBuilder_Flush Append Flush (add_entry k v r) = Some r'"
    using add(1) by (auto simp: TableBuilder_Add_entry split: if_splits)
  then show ?thesis using new Flush_holds[OF new _ add(2)] by blast
qed

lemma call_step_ok: "call_step Append Flush c r = Some r' \<Longrightarrow> TableBuilder_ok r' \<Longrightarrow> TableBuilder_ok r"
  by (cases c) (auto simp: TableBuilder_Add_def TableBuilder_Flush_def split: if_splits)

lemma run_calls_ok: "run_calls Append Flush cs r = Some r' \<Longrightarrow> TableBuilder_ok r' \<Longrightarrow> TableBuilder_ok r"
  by (induction cs arbitrary: r) (auto simp: Option.bind_eq_Some_conv dest: call_step_ok)

lemma run_calls_holds:
  assumes "holds_entries opts contents valid es r" "run_calls Append Flush cs r = Some r'" "TableBuilder_ok r'"
    and "ordered valid (cmp_Compare (opt_comparator opts)) (es @ call_entries cs)"
  shows "holds_entries opts contents valid (es @ call_entries cs) r'"
  using assms
proof (induction cs arbitrary: es r)
  case (Cons c cs)
  obtain r1 where r1: "call_step Append Flush c r = Some r1" "run_calls Append Flush cs r1 = Some r'"
    using Cons.prems(2) by (auto simp: Option.bind_eq_Some_conv)
  have ok: "TableBuilder_ok r1" by (rule run_calls_ok[OF r1(2) Cons.prems(3)])
  have e: "es @ call_entries (c # cs) = (es @ call_entries [c]) @ call_entries cs" using call_entries_Cons[of c cs] by simp
  have "ordered valid (cmp_Compare (opt_comparator opts)) (es @ call_entries [c])"
    using Cons.prems(4) ordered_append unfolding e by blast
  then have "holds_entries opts contents valid (es @ call_entries [c]) r1"
    using r1(1) ok Cons.prems(1) by (cases c) (auto intro: Add_holds Flush_holds)
  from Cons.IH[OF this r1(2) Cons.prems(3) Cons.prems(4)[unfolded e]] show ?case unfolding e .
qed simp

lemma WriteRawBlock_wrote:
  assumes "WriteRawBlock Append data kNoCompression r = Some (h, r')" "TableBuilder_ok r'" "tb_offset r = word_of_nat (length (contents (tb_file r)))"
  shows "wrote contents (raw_block data) r r' \<and> h = handle_of (contents (tb_file r)) data"
  unfolding wrote_def raw_block_def by (rule WriteRawBlock_ok[OF assms]) blast

lemma WriteBlock_wrote:
  assumes "WriteBlock Append (fold (\<lambda>(k, v). BlockBuilder_Add interval k v) es BlockBuilder_new) r = Some (h, b', r')" "TableBuilder_ok r'"
    "tb_offset r = word_of_nat (length (contents (tb_file r)))" "tb_options r = opts"
  shows "wrote contents (raw_block (block_of interval es)) r r' \<and> h = handle_of (contents (tb_file r)) (block_of interval es)"
  unfolding wrote_def block_of_def by (rule WriteBlock_ok[OF assms(1-3)]) (use compression assms(4) in blast)+

lemma finish_filter_ok:
  assumes "finish_filter Append r = Some (h, r')" "TableBuilder_ok r'" and off: "tb_offset r = word_of_nat (length (contents (tb_file r)))"
  shows "case tb_filter_block r of
      None \<Rightarrow> wrote contents [] r r'
    | Some (p, fb) \<Rightarrow> (let data = FilterBlockBuilder_Finish (fp_CreateFilter p) fb in wrote contents (raw_block data) r r' \<and> h = handle_of (contents (tb_file r)) data)"
proof -
  have ok: "TableBuilder_ok r" using assms(1,2) by (auto simp: finish_filter_def split: if_splits)
  show ?thesis
  proof (cases "tb_filter_block r")
    case None
    then show ?thesis using assms ok wrote_nothing[OF ok, of contents] off by (simp add: finish_filter_def)
  next
    case (Some a)
    obtain p fb where a: "a = (p, fb)" by fastforce
    have "WriteRawBlock Append (FilterBlockBuilder_Finish (fp_CreateFilter p) fb) kNoCompression r = Some (h, r')"
      using assms(1) ok Some a by (simp add: finish_filter_def)
    from WriteRawBlock_wrote[OF this assms(2) off] show ?thesis using Some a by (simp add: Let_def)
  qed
qed

lemma finish_metaindex_ok:
  assumes m: "finish_metaindex Append fh r = Some (h, r')" "TableBuilder_ok r'" and off: "tb_offset r = word_of_nat (length (contents (tb_file r)))"
    and opts: "tb_options r = opts" "map_option fst (tb_filter_block r) = opt_filter_policy opts"
  shows "let data = block_of (opt_block_restart_interval opts)
      (case opt_filter_policy opts of None \<Rightarrow> [] | Some p \<Rightarrow> [(lit ''filter.'' @ fp_Name p, BlockHandle_EncodeTo fh [])]) in
    wrote contents (raw_block data) r r' \<and> h = handle_of (contents (tb_file r)) data"
proof -
  have ok: "TableBuilder_ok r" using m by (auto simp: finish_metaindex_def split: if_splits)
  let ?es = "case opt_filter_policy opts of None \<Rightarrow> [] | Some p \<Rightarrow> [(lit ''filter.'' @ fp_Name p, BlockHandle_EncodeTo fh [])]"
  obtain b' where "WriteBlock Append (fold (\<lambda>(k, v). BlockBuilder_Add (opt_block_restart_interval opts) k v) ?es BlockBuilder_new) r = Some (h, b', r')"
    using m(1) ok opts by (cases "tb_filter_block r"; cases "opt_filter_policy opts") (auto simp: finish_metaindex_def)
  from WriteBlock_wrote[OF this m(2) off opts(1)] show ?thesis by (simp only: Let_def)
qed

lemma finish_index_ok:
  assumes w: "finish_index Append r = Some (h, r')" "TableBuilder_ok r'" and off: "tb_offset r = word_of_nat (length (contents (tb_file r)))"
    and opts: "tb_options r = opts" "tb_index_block_options r = opts\<lparr>opt_block_restart_interval := 1\<rparr>"
    and index: "tb_index_block r = fold (\<lambda>(k, v). BlockBuilder_Add 1 k v) es BlockBuilder_new"
  shows "let k = cmp_FindShortSuccessor (opt_comparator opts) (tb_last_key r);
      data = block_of 1 (es @ (if tb_pending_index_entry r then [(k, BlockHandle_EncodeTo (tb_pending_handle r) [])] else [])) in
    TableBuilder_ok r' \<and> contents (tb_file r') = contents (tb_file r) @ raw_block data \<and> h = handle_of (contents (tb_file r)) data \<and>
    tb_offset r' = word_of_nat (length (contents (tb_file r')))"
proof -
  have ok: "TableBuilder_ok r" using w by (auto simp: finish_index_def split: if_splits)
  let ?k = "cmp_FindShortSuccessor (opt_comparator opts) (tb_last_key r)"
  let ?es = "es @ (if tb_pending_index_entry r then [(?k, BlockHandle_EncodeTo (tb_pending_handle r) [])] else [])"
  let ?r = "if tb_pending_index_entry r then add_index_entry ?k r else r"
  obtain b' r1 where w1: "WriteBlock Append (fold (\<lambda>(k, v). BlockBuilder_Add 1 k v) ?es BlockBuilder_new) ?r = Some (h, b', r1)" "r' = r1\<lparr>tb_index_block := b'\<rparr>"
    using w(1) ok opts index by (auto simp: finish_index_def Let_def add_index_entry_def split: if_splits)
  have r: "tb_offset ?r = tb_offset r" "tb_file ?r = tb_file r" "tb_options ?r = opts" using opts by (simp_all add: add_index_entry_def)
  have "TableBuilder_ok r1" using w(2) w1(2) by (simp add: TableBuilder_ok_def)
  moreover have "tb_offset ?r = word_of_nat (length (contents (tb_file ?r)))" using r off by simp
  ultimately have wr: "wrote contents (raw_block (block_of 1 ?es)) ?r r1" and h: "h = handle_of (contents (tb_file r)) (block_of 1 ?es)"
    using WriteBlock_wrote[OF w1(1) _ _ r(3)] r(2) by auto
  show ?thesis using wroteD(8-10)[OF wr] h w1(2) r(2) by (simp add: Let_def TableBuilder_ok_def)
qed

lemma finish_footer_ok:
  assumes "finish_footer Append mh ih r = Some r'" "TableBuilder_ok r'"
  shows "contents (tb_file r') = contents (tb_file r) @ Footer_EncodeTo \<lparr>metaindex_handle = mh, index_handle = ih\<rparr> []"
proof -
  have ok: "TableBuilder_ok r" using assms by (auto simp: finish_footer_def split: if_splits)
  then show ?thesis using assms by (auto simp: finish_footer_def Let_def TableBuilder_ok_def split: option.splits if_splits dest!: Append_contents)
qed

lemma all_keys_separates:
  assumes inv: "tb_inv opts contents ess [] ks r" and sep: "separates valid (cmp_Compare (opt_comparator opts)) ks (ess @ [[]])"
    and ord: "ordered valid (cmp_Compare (opt_comparator opts)) (concat ess)"
  shows "separates valid (cmp_Compare (opt_comparator opts)) (all_keys r ks) ess"
proof -
  let ?cmp = "cmp_Compare (opt_comparator opts)" and ?l = "tb_last_key r"
  have opt: "tb_options r = opts" "length ks \<le> length ess" using inv by (auto simp: tb_inv_def Let_def split: if_splits)
  have was: "separates valid ?cmp ks ess" using sep opt(2) unfolding separates_def by (auto simp: nth_append less_Suc_eq split: if_splits)
  show ?thesis
  proof (cases "tb_pending_index_entry r")
    case True
    then have p: "length ess = Suc (length ks)" "[] \<notin> set ess" using inv by (simp_all add: tb_inv_def Let_def)
    then have ne: "concat ess \<noteq> []" by (cases ess) auto
    then have l: "?l = fst (last (concat ess))" using inv by (simp add: tb_inv_def Let_def)
    have v: "valid k" if "(k, v) \<in> set (concat ess)" for k v using that ord unfolding ordered_def list_all_iff by blast
    have "valid ?l" using v[of ?l "snd (last (concat ess))"] last_in_set[OF ne] l by simp
    note s = successor[OF this] and lv = this
    have "?cmp a (cmp_FindShortSuccessor (opt_comparator opts) ?l) \<le> 0" if "(a, b) \<in> set (ess ! length ks)" for a b
    proof -
      have "(a, b) \<in> set (concat ess)" using that p(1) nth_mem[of "length ks" ess] by auto
      then show ?thesis using ordered_last[OF ord] l s lv v Compare_le_trans[of a ?l "cmp_FindShortSuccessor (opt_comparator opts) ?l"] by auto
    qed
    then show ?thesis using was True s p unfolding separates_def all_keys_def opt by (auto simp: nth_append less_Suc_eq split: if_splits)
  qed (use was in \<open>simp add: all_keys_def\<close>)
qed

lemma Finish_steps:
  assumes fin: "TableBuilder_Finish Append Flush r = Some (st, r')" "Status_ok st"
  obtains r0 fh r1 mh r2 ih r3 where "TableBuilder_Flush Append Flush r = Some r0" "TableBuilder_ok r0"
    "finish_filter Append (r0\<lparr>tb_closed := True\<rparr>) = Some (fh, r1)" "TableBuilder_ok r1"
    "finish_metaindex Append fh r1 = Some (mh, r2)" "TableBuilder_ok r2" "finish_index Append r2 = Some (ih, r3)" "TableBuilder_ok r3"
    "finish_footer Append mh ih r3 = Some r'" "TableBuilder_ok r'"
proof -
  obtain r0 where r0: "TableBuilder_Flush Append Flush r = Some r0" using fin(1) by (auto simp: TableBuilder_Finish_def split: option.splits)
  obtain fh r1 where r1: "finish_filter Append (r0\<lparr>tb_closed := True\<rparr>) = Some (fh, r1)"
    using fin(1) r0 by (auto simp: TableBuilder_Finish_def split: option.splits)
  obtain mh r2 where r2: "finish_metaindex Append fh r1 = Some (mh, r2)"
    using fin(1) r0 r1 by (auto simp: TableBuilder_Finish_def split: option.splits)
  obtain ih r3 where r3: "finish_index Append r2 = Some (ih, r3)" and r': "finish_footer Append mh ih r3 = Some r'" "TableBuilder_ok r'"
    using fin r0 r1 r2 by (auto simp: TableBuilder_Finish_def TableBuilder_ok_def split: option.splits)
  have ok3: "TableBuilder_ok r3" using r' by (auto simp: finish_footer_def split: if_splits)
  have ok2: "TableBuilder_ok r2" using r3 ok3 by (auto simp: finish_index_def split: if_splits)
  have ok1: "TableBuilder_ok r1" using r2 ok2 by (auto simp: finish_metaindex_def split: if_splits)
  have ok0: "TableBuilder_ok r0" using r1 ok1 by (auto simp: finish_filter_def TableBuilder_ok_def split: if_splits)
  show thesis by (rule that[OF r0 ok0 r1 ok1 r2 ok2 r3 ok3 r'])
qed

lemma Finish_bytes:
  assumes h: "holds_entries opts contents valid es r" and fin: "TableBuilder_Finish Append Flush r = Some (st, r')" "Status_ok st"
    and ord: "ordered valid (cmp_Compare (opt_comparator opts)) es"
  obtains ess ks where "concat ess = es" "[] \<notin> set ess" "length ks = length ess" "separates valid (cmp_Compare (opt_comparator opts)) ks ess"
    "contents (tb_file r') = table_bytes opts ess ks"
proof -
  let ?i = "opt_block_restart_interval opts" and ?cmp = "cmp_Compare (opt_comparator opts)"
  obtain r0 fh r1 mh r2 ih r3 where r0: "TableBuilder_Flush Append Flush r = Some r0" and ok0: "TableBuilder_ok r0"
    and r1: "finish_filter Append (r0\<lparr>tb_closed := True\<rparr>) = Some (fh, r1)" and ok1: "TableBuilder_ok r1"
    and r2: "finish_metaindex Append fh r1 = Some (mh, r2)" and ok2: "TableBuilder_ok r2"
    and r3: "finish_index Append r2 = Some (ih, r3)" and ok3: "TableBuilder_ok r3"
    and r': "finish_footer Append mh ih r3 = Some r'" "TableBuilder_ok r'"
    using Finish_steps[OF fin] .
  obtain ess ks where inv: "tb_inv opts contents ess [] ks r0" and es: "concat ess = es" and sep: "separates valid ?cmp ks (ess @ [[]])"
    using Flush_flushes[OF h r0 ok0] .
  let ?D = "blocks_bytes ?i ess" and ?F = "filter_part opts ess" and ?M = "block_of ?i (meta_entries opts ess)"
  define ks' where "ks' = all_keys r0 ks"
  let ?I = "block_of 1 (index_entries ?i ess ks')"
  note i0 = inv[unfolded tb_inv_def Let_def]
  have off0: "tb_offset (r0\<lparr>tb_closed := True\<rparr>) = word_of_nat (length (contents (tb_file (r0\<lparr>tb_closed := True\<rparr>))))" using i0 by simp
  have fb: "tb_filter_block r0 = map_option (\<lambda>p. (p, fold (add_block (fp_CreateFilter p)) (filter_blocks ?i (ess @ [[]])) FilterBlockBuilder_new)) (opt_filter_policy opts)"
    using i0 by simp
  have w1: "wrote contents ?F (r0\<lparr>tb_closed := True\<rparr>) r1"
    and fh: "case opt_filter_policy opts of None \<Rightarrow> True | Some p \<Rightarrow> fh = handle_of ?D (filter_contents ?i ess p)"
    using finish_filter_ok[OF r1 ok1 off0] fb i0 by (cases "opt_filter_policy opts"; simp add: filter_part_def filter_contents_def Let_def)+
  have meta: "(case opt_filter_policy opts of None \<Rightarrow> [] | Some p \<Rightarrow> [(lit ''filter.'' @ fp_Name p, BlockHandle_EncodeTo fh [])]) = meta_entries opts ess"
    using fh by (simp add: meta_entries_def Let_def split: option.splits)
  have c1: "contents (tb_file r1) = ?D @ ?F" "tb_options r1 = opts" "map_option fst (tb_filter_block r1) = opt_filter_policy opts"
    using wroteD[OF w1] i0 fb by (simp_all add: option.map_comp o_def option.map_ident)
  have w2: "wrote contents (raw_block ?M) r1 r2" and mh: "mh = handle_of (?D @ ?F) ?M"
    using finish_metaindex_ok[OF r2 ok2 wroteD(10)[OF w1] c1(2,3)] c1(1) unfolding meta Let_def by simp_all
  have c2: "contents (tb_file r2) = ?D @ ?F @ raw_block ?M" "tb_options r2 = opts" "tb_index_block_options r2 = opts\<lparr>opt_block_restart_interval := 1\<rparr>"
    "tb_index_block r2 = fold (\<lambda>(k, v). BlockBuilder_Add 1 k v) (index_entries ?i ess ks) BlockBuilder_new"
    "tb_pending_index_entry r2 = tb_pending_index_entry r0" "tb_last_key r2 = tb_last_key r0" "tb_pending_handle r2 = tb_pending_handle r0"
    using wroteD[OF w2] wroteD[OF w1] c1 i0 by simp_all
  have "index_entries ?i ess ks' = index_entries ?i ess ks @ (if tb_pending_index_entry r0
      then [(cmp_FindShortSuccessor (opt_comparator opts) (tb_last_key r0), BlockHandle_EncodeTo (tb_pending_handle r0) [])] else [])"
    using i0 by (auto simp: ks'_def all_keys_def index_entries_snoc)
  then have c3: "contents (tb_file r3) = ?D @ ?F @ raw_block ?M @ raw_block ?I" and ih: "ih = handle_of (?D @ ?F @ raw_block ?M) ?I"
    using finish_index_ok[OF r3 ok3 wroteD(10)[OF w2] c2(2-4)] unfolding Let_def c2 by simp_all
  have "contents (tb_file r') = table_bytes opts ess ks'"
    using finish_footer_ok[OF r'] c3 mh ih by (simp add: table_bytes_def table_footer_def Let_def)
  moreover have "length ks' = length ess" "[] \<notin> set ess" using i0 by (auto simp: ks'_def all_keys_def split: if_splits)
  moreover have "separates valid ?cmp ks' ess" unfolding ks'_def using all_keys_separates[OF inv sep] es ord by simp
  ultimately show thesis using that es by blast
qed

end

end
