(* ===== verification/Ldb_Two_Level_Laws.thy ===== *)
theory Ldb_Two_Level_Laws
  imports Ldb_Two_Level
begin

text \<open>
  The laws of \<^verbatim>\<open>table/two_level_iterator.cc\<close>: if the index and the blocks keep the contract of an iterator, and the keys of
  the index separate the blocks, the two-level iterator keeps it for the concatenation of the blocks.
\<close>

section \<open>Wrapped iterators\<close>

definition wrapped :: "'i Iterator \<Rightarrow> (nat \<Rightarrow> 'i \<Rightarrow> bool) \<Rightarrow> nat \<Rightarrow> 'i IteratorWrapper \<Rightarrow> bool" where
  "wrapped I stands p w \<longleftrightarrow> (\<exists>it. iw_iter w = Some it \<and> stands p it \<and> iw_valid w = Valid I it \<and> (Valid I it \<longrightarrow> iw_key w = key I it))"

lemma wrapped_Update: "stands p it \<Longrightarrow> wrapped I stands p (Wrapper_Update I it w)"
  by (simp add: wrapped_def Wrapper_Update_def)

lemma iterator_step_moves:
  "iterator_step I To_First = SeekToFirst I" "iterator_step I To_Last = SeekToLast I" "iterator_step I (To_Key target) = Seek I target"
  "iterator_step I To_Next = Next I" "iterator_step I To_Prev = Prev I"
  by (rule ext, simp)+

context iterator
begin

lemma wrapped_step:
  assumes "wrapped I stands p w" "op_valid valid a" "cursor_step cmp es a p = Some p'"
  shows "\<exists>w'. wrapper_move I (iterator_step I a) w = Some w' \<and> wrapped I stands p' w'"
proof -
  obtain it where it: "iw_iter w = Some it" "stands p it" using assms(1) by (auto simp: wrapped_def)
  then show ?thesis using step[OF it(2) assms(2,3)] wrapped_Update[of stands p' _ I w] by (auto simp: wrapper_move_def)
qed

lemma wrapped_moves:
  assumes "wrapped I stands p w"
  shows wrapped_First: "\<exists>w'. Wrapper_SeekToFirst I w = Some w' \<and> wrapped I stands 0 w'"
    and wrapped_Last: "\<exists>w'. Wrapper_SeekToLast I w = Some w' \<and> wrapped I stands (length es - 1) w'"
    and wrapped_Key: "valid target \<Longrightarrow> \<exists>w'. Wrapper_Seek I target w = Some w' \<and> wrapped I stands (seek_index cmp es target) w'"
    and wrapped_Next: "p < length es \<Longrightarrow> \<exists>w'. Wrapper_Next I w = Some w' \<and> wrapped I stands (Suc p) w'"
    and wrapped_Prev: "p < length es \<Longrightarrow> \<exists>w'. Wrapper_Prev I w = Some w' \<and> wrapped I stands (if p = 0 then length es else p - 1) w'"
  using wrapped_step[OF assms, of To_First] wrapped_step[OF assms, of To_Last] wrapped_step[OF assms, of "To_Key target"]
    wrapped_step[OF assms, of To_Next] wrapped_step[OF assms, of To_Prev]
  by (simp_all add: Wrapper_moves op_valid_def iterator_step_moves)

lemma wrapped_valid: "wrapped I stands p w \<Longrightarrow> iw_valid w \<longleftrightarrow> p < length es"
  using stands_shows by (fastforce simp: wrapped_def shows_entry_def split: if_splits)

lemma wrapped_entry: "wrapped I stands p w \<Longrightarrow> p < length es \<Longrightarrow> iw_key w = fst (es ! p) \<and> Wrapper_value I w = Some (snd (es ! p))"
  using stands_shows by (fastforce simp: wrapped_def shows_entry_def Wrapper_value_def split: if_splits)

lemma wrapped_status: "wrapped I stands p w \<Longrightarrow> iw_iter w = Some it \<Longrightarrow> Status_ok (Iterator_status I it)"
  using stands_ok by (auto simp: wrapped_def)

end

section \<open>Positions in a concatenation\<close>

definition concat_pos :: "'a list list \<Rightarrow> nat \<Rightarrow> nat \<Rightarrow> nat" where
  "concat_pos xss i q = length (concat (take i xss)) + q"

lemma concat_pos_Suc: "i < length xss \<Longrightarrow> concat_pos xss i (length (xss ! i)) = concat_pos xss (Suc i) 0"
  by (simp add: concat_pos_def take_Suc_conv_app_nth)

lemma concat_pos_end: "concat_pos xss (length xss) 0 = length (concat xss)"
  by (simp add: concat_pos_def)

lemma concat_split: "i < length xss \<Longrightarrow> concat xss = concat (take i xss) @ xss ! i @ concat (drop (Suc i) xss)"
  by (metis append_assoc concat.simps(2) concat_append id_take_nth_drop append_Cons append_Nil)

lemma nth_concat_pos: "i < length xss \<Longrightarrow> q < length (xss ! i) \<Longrightarrow> concat_pos xss i q < length (concat xss) \<and> concat xss ! concat_pos xss i q = xss ! i ! q"
  using concat_split[of i xss] by (simp add: concat_pos_def nth_append)

text \<open>Seeking in a concatenation whose parts are separated by keys.\<close>

lemma takeWhile_concat_split:
  assumes "i \<le> length xss" "\<forall>x \<in> set (concat (take i xss)). P x"
    and "i < length xss \<Longrightarrow> \<forall>x \<in> set (concat (drop (Suc i) xss)). \<not> P x"
  shows "length (takeWhile P (concat xss)) = concat_pos xss i (if i < length xss then length (takeWhile P (xss ! i)) else 0)"
proof (cases "i < length xss")
  case True
  have "takeWhile P (concat (drop (Suc i) xss)) = []" using assms(3)[OF True] hd_in_set unfolding takeWhile_eq_Nil_iff by blast
  then have "length (takeWhile P (xss ! i @ concat (drop (Suc i) xss))) = length (takeWhile P (xss ! i))"
    by (cases "\<forall>x \<in> set (xss ! i). P x") (auto simp: takeWhile_append takeWhile_eq_all_conv[THEN iffD2])
  moreover have "takeWhile P (concat (take i xss) @ zs) = concat (take i xss) @ takeWhile P zs" for zs
    using assms(2) by (intro takeWhile_append2) blast
  ultimately show ?thesis unfolding concat_split[OF True] using True by (simp add: concat_pos_def)
next
  case False
  then have "takeWhile P (concat xss) = concat xss" "i = length xss" using assms(1,2) by (simp_all add: takeWhile_eq_all_conv)
  then show ?thesis using concat_pos_end[of xss] by (simp only: less_irrefl if_False)
qed

section \<open>The contract\<close>

definition data_at :: "entries \<Rightarrow> 'd Iterator \<Rightarrow> (nat \<Rightarrow> nat \<Rightarrow> 'd \<Rightarrow> bool) \<Rightarrow> nat \<Rightarrow> nat \<Rightarrow> ('i, 'd, 's) TwoLevelIterator \<Rightarrow> bool" where
  "data_at ies D dstands i q t \<longleftrightarrow> i < length ies \<and> wrapped D (dstands i) q (tl_data_iter t) \<and> tl_data_block_handle t = snd (ies ! i)"

definition no_data :: "('i, 'd, 's) TwoLevelIterator \<Rightarrow> bool" where
  "no_data t \<longleftrightarrow> iw_iter (tl_data_iter t) = None \<and> \<not> iw_valid (tl_data_iter t)"

definition index_at :: "'i Iterator \<Rightarrow> (nat \<Rightarrow> 'i \<Rightarrow> bool) \<Rightarrow> ('s \<Rightarrow> bool) \<Rightarrow> nat \<Rightarrow> ('i, 'd, 's) TwoLevelIterator \<Rightarrow> bool" where
  "index_at I istands arg_ok i t \<longleftrightarrow> arg_ok (tl_arg t) \<and> Status_ok (tl_status t) \<and> wrapped I istands i (tl_index_iter t)"

definition at_block where
  "at_block ies I istands D dstands arg_ok i q t \<longleftrightarrow>
     index_at I istands arg_ok i t \<and> (if i < length ies then data_at ies D dstands i q t else no_data t)"

definition tl_stands where
  "tl_stands ies ess I istands D dstands arg_ok p t \<longleftrightarrow>
     (\<exists>i q. at_block ies I istands D dstands arg_ok i q t \<and> p = concat_pos ess i q \<and>
       (if i < length ies then q < length (ess ! i) else i = length ies \<and> q = 0))"

locale two_level = key_order valid cmp + index: iterator valid cmp ies I istands
  for valid :: "slice \<Rightarrow> bool" and cmp :: "slice \<Rightarrow> slice \<Rightarrow> int" and ies :: entries and I :: "'i Iterator" and istands :: "nat \<Rightarrow> 'i \<Rightarrow> bool" +
  fixes D :: "'d Iterator" and dstands :: "nat \<Rightarrow> nat \<Rightarrow> 'd \<Rightarrow> bool" and block_function :: "('d, 's) block_function"
    and arg_ok :: "'s \<Rightarrow> bool" and ess :: "entries list"
  assumes blocks: "length ess = length ies"
    and data: "i < length ess \<Longrightarrow> iterator valid cmp (ess ! i) D (dstands i)"
    and open_block: "i < length ess \<Longrightarrow> arg_ok s \<Longrightarrow>
      \<exists>d s'. block_function (snd (ies ! i)) s = Some (d, s') \<and> dstands i (length (ess ! i)) d \<and> arg_ok s'"
    and handles: "distinct (map snd ies)"
    and index_valid: "(k, v) \<in> set ies \<Longrightarrow> valid k"
    and data_valid: "es \<in> set ess \<Longrightarrow> (k, v) \<in> set es \<Longrightarrow> valid k"
    and upper: "i < length ess \<Longrightarrow> (k, v) \<in> set (ess ! i) \<Longrightarrow> cmp k (fst (ies ! i)) \<le> 0"
    and lower: "i < j \<Longrightarrow> j < length ess \<Longrightarrow> (k, v) \<in> set (ess ! j) \<Longrightarrow> cmp (fst (ies ! i)) k < 0"
begin

lemma data_status:
  assumes "no_data t \<or> data_at ies D dstands i q t" "iw_iter (tl_data_iter t) = Some it"
  shows "Status_ok (Iterator_status D it)"
  using assms iterator.wrapped_status[OF data, of i q "tl_data_iter t" it] blocks by (auto simp: no_data_def data_at_def)

lemma SetDataIterator_ok:
  assumes "Status_ok (tl_status t)" "\<And>it. iw_iter (tl_data_iter t) = Some it \<Longrightarrow> Status_ok (Iterator_status D it)"
  shows "SetDataIterator D x t = t\<lparr>tl_data_iter := Wrapper_Set D x (tl_data_iter t)\<rparr>"
  using assms by (auto simp: SetDataIterator_def SaveError_def split: option.splits)

lemma InitDataBlock_at:
  assumes at: "index_at I istands arg_ok i t" and some: "no_data t \<or> data_at ies D dstands j q t"
  shows "\<exists>t' q'. InitDataBlock I D block_function t = Some t' \<and> at_block ies I istands D dstands arg_ok i q' t'"
proof (cases "i < length ies")
  case False
  then have "\<not> iw_valid (tl_index_iter t)" using at index.wrapped_valid by (auto simp: index_at_def)
  moreover have "SetDataIterator D None t = t\<lparr>tl_data_iter := Wrapper_Set D None (tl_data_iter t)\<rparr>"
    using SetDataIterator_ok[of t] data_status[OF some] at by (simp add: index_at_def)
  ultimately show ?thesis using at False by (simp add: InitDataBlock_def at_block_def index_at_def no_data_def Wrapper_Set_def)
next
  case True
  let ?h = "snd (ies ! i)"
  have v: "iw_valid (tl_index_iter t)" "Wrapper_value I (tl_index_iter t) = Some ?h"
    using at True index.wrapped_valid index.wrapped_entry by (auto simp: index_at_def)
  show ?thesis
  proof (cases "iw_iter (tl_data_iter t) \<noteq> None \<and> slice_compare ?h (tl_data_block_handle t) = 0")
    case same: True
    then have "data_at ies D dstands j q t" "?h = snd (ies ! j)"
      using some by (auto simp: no_data_def data_at_def slice_compare_eq)
    moreover from this have "j = i" using handles True nth_eq_iff_index_eq[of "map snd ies" i j] by (simp add: data_at_def)
    ultimately show ?thesis using same v at True by (auto simp: InitDataBlock_def at_block_def)
  next
    case False
    obtain d s where d: "block_function ?h (tl_arg t) = Some (d, s)" "dstands i (length (ess ! i)) d" "arg_ok s"
      using open_block[of i "tl_arg t"] at True blocks by (auto simp: index_at_def)
    let ?t = "t\<lparr>tl_arg := s, tl_data_block_handle := ?h\<rparr>"
    have "SetDataIterator D (Some d) ?t = ?t\<lparr>tl_data_iter := Wrapper_Update D d (tl_data_iter t)\<rparr>"
      using SetDataIterator_ok[of ?t "Some d"] data_status[OF some] at by (simp add: index_at_def Wrapper_Set_def)
    then have "InitDataBlock I D block_function t = Some (?t\<lparr>tl_data_iter := Wrapper_Update D d (tl_data_iter t)\<rparr>)"
      using v False d(1) by (auto simp: InitDataBlock_def)
    then show ?thesis using at True d(2,3) wrapped_Update[of "dstands i" _ d D] by (auto simp: at_block_def index_at_def data_at_def)
  qed
qed

lemma move_block_at:
  assumes at: "at_block ies I istands D dstands arg_ok i q t"
    and index_move: "\<And>w. wrapped I istands i w \<Longrightarrow> \<exists>w'. index_move w = Some w' \<and> wrapped I istands i' w'"
    and data_move: "\<And>w q. i' < length ies \<Longrightarrow> wrapped D (dstands i') q w \<Longrightarrow> \<exists>w'. data_move w = Some w' \<and> wrapped D (dstands i') q' w'"
  shows "\<exists>t'. move_block I D block_function index_move data_move t = Some t' \<and> at_block ies I istands D dstands arg_ok i' q' t'"
proof -
  obtain w where w: "index_move (tl_index_iter t) = Some w" "wrapped I istands i' w"
    using index_move[of "tl_index_iter t"] at by (auto simp: at_block_def index_at_def)
  let ?t = "t\<lparr>tl_index_iter := w\<rparr>"
  have "no_data ?t \<or> data_at ies D dstands i q ?t" "index_at I istands arg_ok i' ?t"
    using at w(2) by (auto simp: at_block_def index_at_def no_data_def data_at_def split: if_splits)
  then obtain t1 q1 where t1: "InitDataBlock I D block_function ?t = Some t1" "at_block ies I istands D dstands arg_ok i' q1 t1"
    using InitDataBlock_at[of i' ?t i q] by blast
  show ?thesis
  proof (cases "i' < length ies")
    case True
    then have "wrapped D (dstands i') q1 (tl_data_iter t1)" using t1(2) by (simp add: at_block_def data_at_def)
    moreover from this obtain w' where "data_move (tl_data_iter t1) = Some w'" "wrapped D (dstands i') q' w'" using data_move[OF True] by blast
    ultimately show ?thesis using w t1 True
      by (auto simp: move_block_def if_data_def at_block_def index_at_def data_at_def wrapped_def)
  next
    case False
    then show ?thesis using w t1 by (auto simp: move_block_def if_data_def at_block_def no_data_def)
  qed
qed

lemma data_valid_iff:
  assumes "at_block ies I istands D dstands arg_ok i q t" "i < length ies"
  shows "iw_iter (tl_data_iter t) \<noteq> None" "iw_valid (tl_data_iter t) \<longleftrightarrow> q < length (ess ! i)"
  using assms iterator.wrapped_valid[OF data, of i q "tl_data_iter t"] blocks by (auto simp: at_block_def data_at_def wrapped_def)

lemma index_valid_iff: "at_block ies I istands D dstands arg_ok i q t \<Longrightarrow> iw_valid (tl_index_iter t) \<longleftrightarrow> i < length ies"
  using index.wrapped_valid by (auto simp: at_block_def index_at_def)

lemma at_end_stands:
  assumes "at_block ies I istands D dstands arg_ok (length ies) q t"
  shows "tl_stands ies ess I istands D dstands arg_ok (length (concat ess)) (SetDataIterator D None t)"
proof -
  have "SetDataIterator D None t = t\<lparr>tl_data_iter := Wrapper_Set D None (tl_data_iter t)\<rparr>"
    using SetDataIterator_ok[of t None] assms by (simp add: at_block_def index_at_def no_data_def)
  then have "at_block ies I istands D dstands arg_ok (length ies) 0 (SetDataIterator D None t)"
    using assms by (simp add: at_block_def index_at_def no_data_def Wrapper_Set_def)
  then show ?thesis using concat_pos_end[of ess] blocks unfolding tl_stands_def by fastforce
qed

lemma Skip_stop:
  assumes "at_block ies I istands D dstands arg_ok i q t" "i < length ies" "q < length (ess ! i)"
  shows "SkipEmptyDataBlocksForward I D block_function t = Some t" "SkipEmptyDataBlocksBackward I D block_function t = Some t"
    "tl_stands ies ess I istands D dstands arg_ok (concat_pos ess i q) t"
proof -
  show "SkipEmptyDataBlocksForward I D block_function t = Some t" "SkipEmptyDataBlocksBackward I D block_function t = Some t"
    using assms data_valid_iff[OF assms(1,2)]
    by (auto simp: SkipEmptyDataBlocksForward.simps[of I D block_function t] SkipEmptyDataBlocksBackward.simps[of I D block_function t])
  show "tl_stands ies ess I istands D dstands arg_ok (concat_pos ess i q) t"
    unfolding tl_stands_def using assms by (intro exI[of _ i] exI[of _ q]) simp
qed

lemma Skip_end:
  assumes "at_block ies I istands D dstands arg_ok (length ies) q t"
  shows "SkipEmptyDataBlocksForward I D block_function t = Some (SetDataIterator D None t)"
    "SkipEmptyDataBlocksBackward I D block_function t = Some (SetDataIterator D None t)"
  using assms index_valid_iff[OF assms]
  by (simp_all add: SkipEmptyDataBlocksForward.simps[of I D block_function t] SkipEmptyDataBlocksBackward.simps[of I D block_function t]
      at_block_def no_data_def)

lemma SkipForward_stands:
  assumes "at_block ies I istands D dstands arg_ok i q t" "i < length ies \<and> q \<le> length (ess ! i) \<or> i = length ies \<and> q = 0"
  shows "\<exists>t'. SkipEmptyDataBlocksForward I D block_function t = Some t' \<and>
    tl_stands ies ess I istands D dstands arg_ok (concat_pos ess i q) t'"
  using assms
proof (induction "length ies - i" arbitrary: i q t rule: less_induct)
  case less
  consider "i = length ies" "q = 0" | "i < length ies" "q < length (ess ! i)" | "i < length ies" "q = length (ess ! i)"
    using less.prems(2) by linarith
  then show ?case
  proof cases
    case 1
    then show ?thesis using less.prems(1) Skip_end at_end_stands concat_pos_end[of ess] blocks by simp
  next
    case 2
    then show ?thesis using Skip_stop[OF less.prems(1)] by simp
  next
    case 3
    have "\<exists>t'. move_block I D block_function (Wrapper_Next I) (Wrapper_SeekToFirst D) t = Some t' \<and>
        at_block ies I istands D dstands arg_ok (Suc i) 0 t'"
      using 3(1) index.wrapped_Next iterator.wrapped_First[OF data] blocks by (intro move_block_at[OF less.prems(1)]) auto
    then obtain t' where t': "move_block I D block_function (Wrapper_Next I) (Wrapper_SeekToFirst D) t = Some t'"
        "at_block ies I istands D dstands arg_ok (Suc i) 0 t'" by blast
    have "SkipEmptyDataBlocksForward I D block_function t = SkipEmptyDataBlocksForward I D block_function t'"
      using data_valid_iff[OF less.prems(1) 3(1)] index_valid_iff[OF less.prems(1)] t'(1) 3
      by (subst SkipEmptyDataBlocksForward.simps) simp
    moreover have "Suc i < length ies \<and> 0 \<le> length (ess ! Suc i) \<or> Suc i = length ies \<and> (0 :: nat) = 0" using 3 by auto
    ultimately show ?thesis using less.hyps[OF _ t'(2)] 3 concat_pos_Suc[of i ess] blocks by simp
  qed
qed

lemma SkipBackward_stands:
  assumes "at_block ies I istands D dstands arg_ok i q t" "i < length ies" "\<not> q < length (ess ! i)"
  shows "\<exists>t'. SkipEmptyDataBlocksBackward I D block_function t = Some t' \<and>
    tl_stands ies ess I istands D dstands arg_ok (if concat_pos ess i 0 = 0 then length (concat ess) else concat_pos ess i 0 - 1) t'"
  using assms
proof (induction i arbitrary: q t)
  case 0
  have "\<exists>t'. move_block I D block_function (Wrapper_Prev I) (Wrapper_SeekToLast D) t = Some t' \<and>
      at_block ies I istands D dstands arg_ok (length ies) 0 t'"
    using 0 index.wrapped_Prev[of 0] by (intro move_block_at[OF 0(1)]) auto
  then obtain t' where t': "move_block I D block_function (Wrapper_Prev I) (Wrapper_SeekToLast D) t = Some t'"
      "at_block ies I istands D dstands arg_ok (length ies) 0 t'" by blast
  then have "SkipEmptyDataBlocksBackward I D block_function t = SkipEmptyDataBlocksBackward I D block_function t'"
    using data_valid_iff[OF 0(1,2)] index_valid_iff[OF 0(1)] 0 by (subst SkipEmptyDataBlocksBackward.simps) simp
  then show ?case using t'(2) Skip_end at_end_stands by (simp add: concat_pos_def)
next
  case (Suc i)
  have i: "i < length ies" using Suc.prems by simp
  let ?q = "length (ess ! i) - 1"
  have "\<exists>t'. move_block I D block_function (Wrapper_Prev I) (Wrapper_SeekToLast D) t = Some t' \<and>
      at_block ies I istands D dstands arg_ok i ?q t'"
    using Suc.prems index.wrapped_Prev[of "Suc i"] iterator.wrapped_Last[OF data, of i] blocks by (intro move_block_at[OF Suc.prems(1)]) auto
  then obtain t' where t': "move_block I D block_function (Wrapper_Prev I) (Wrapper_SeekToLast D) t = Some t'"
      "at_block ies I istands D dstands arg_ok i ?q t'" by blast
  have skip: "SkipEmptyDataBlocksBackward I D block_function t = SkipEmptyDataBlocksBackward I D block_function t'"
    using data_valid_iff[OF Suc.prems(1,2)] index_valid_iff[OF Suc.prems(1)] Suc.prems t'(1) by (subst SkipEmptyDataBlocksBackward.simps) simp
  have pos: "concat_pos ess (Suc i) 0 = concat_pos ess i 0 + length (ess ! i)"
    using concat_pos_Suc[of i ess] i blocks by (simp add: concat_pos_def)
  show ?case
  proof (cases "ess ! i = []")
    case True
    then have "\<not> ?q < length (ess ! i)" by simp
    moreover have "concat_pos ess (Suc i) 0 = concat_pos ess i 0" using pos True by simp
    ultimately show ?thesis using Suc.IH[OF t'(2) i] unfolding skip by (simp only: simp_thms)
  next
    case False
    then have "?q < length (ess ! i)" by simp
    then show ?thesis using Skip_stop[OF t'(2) i] skip pos by (auto simp: concat_pos_def)
  qed
qed

lemma seek_concat:
  assumes "valid target"
  shows "seek_index cmp (concat ess) target =
    (let i = seek_index cmp ies target in concat_pos ess i (if i < length ess then seek_index cmp (ess ! i) target else 0))"
proof -
  let ?P = "\<lambda>(k, _). cmp k target < 0"
  define i where "i = seek_index cmp ies target"
  have i: "i \<le> length ess" using blocks length_takeWhile_le by (simp add: i_def seek_index_def)
  have valid: "valid (fst (ies ! j))" if "j < length ies" for j using that index_valid[of "fst (ies ! j)" "snd (ies ! j)"] by simp
  have small: "\<forall>x \<in> set (concat (take i ess)). ?P x"
  proof
    fix x assume "x \<in> set (concat (take i ess))"
    then obtain es where es: "es \<in> set (take i ess)" "x \<in> set es" by auto
    then obtain j where j: "j < i" "j < length ess" "x \<in> set (ess ! j)" using in_set_conv_nth[of es "take i ess"] by auto
    obtain k v where x: "x = (k, v)" by fastforce
    have "cmp (fst (ies ! j)) target < 0"
      using seek_index_props(2)[of j cmp ies target] j(1) by (simp add: i_def)
    then show "?P x"
      using Compare_le_less_trans[of k "fst (ies ! j)" target] upper[OF j(2), of k v] valid[of j] data_valid[of "ess ! j" k v] j blocks assms x
      by simp
  qed
  have large: "\<forall>x \<in> set (concat (drop (Suc i) ess)). \<not> ?P x" if lt: "i < length ess"
  proof
    fix x assume "x \<in> set (concat (drop (Suc i) ess))"
    then obtain es where es: "es \<in> set (drop (Suc i) ess)" "x \<in> set es" by auto
    then obtain n where "n < length ess - Suc i" "es = ess ! (Suc i + n)" using in_set_conv_nth[of es "drop (Suc i) ess"] by auto
    then obtain j where j: "i < j" "j < length ess" "x \<in> set (ess ! j)" using es(2) by (intro that[of "Suc i + n"]) auto
    obtain k v where x: "x = (k, v)" by fastforce
    have "\<not> cmp (fst (ies ! i)) target < 0"
      using seek_index_props(3)[of cmp ies target] lt blocks by (simp add: i_def)
    then show "\<not> ?P x"
      using Compare_trans[of "fst (ies ! i)" k target] lower[OF j(1,2), of k v] valid[of i] data_valid[of "ess ! j" k v] j lt blocks assms x
      by auto
  qed
  show ?thesis using takeWhile_concat_split[OF i small large] unfolding Let_def i_def[symmetric] by (simp add: seek_index_def)
qed

lemma two_level_step:
  assumes st: "tl_stands ies ess I istands D dstands arg_ok p t" and a: "op_valid valid a" "cursor_step cmp (concat ess) a p = Some p'"
  shows "\<exists>t'. iterator_step (TwoLevel_Iterator I D block_function) a t = Some t' \<and> tl_stands ies ess I istands D dstands arg_ok p' t'"
proof -
  obtain i q where at: "at_block ies I istands D dstands arg_ok i q t" and p: "p = concat_pos ess i q"
    and iq: "if i < length ies then q < length (ess ! i) else i = length ies \<and> q = 0"
    using st by (auto simp: tl_stands_def)
  note data' = data[folded blocks]
  show ?thesis
  proof (cases a)
    case To_First
    have "\<exists>t'. move_block I D block_function (Wrapper_SeekToFirst I) (Wrapper_SeekToFirst D) t = Some t' \<and> at_block ies I istands D dstands arg_ok 0 0 t'"
      using index.wrapped_First iterator.wrapped_First[OF data'] blocks by (intro move_block_at[OF at]) auto
    then show ?thesis
      using SkipForward_stands[of 0 0] a To_First by (fastforce simp: TwoLevel_Iterator_def TwoLevelIterator_SeekToFirst_def concat_pos_def)
  next
    case (To_Key target)
    let ?i = "seek_index cmp ies target"
    let ?q = "if ?i < length ies then seek_index cmp (ess ! ?i) target else 0"
    have t: "valid target" using a To_Key by (simp add: op_valid_def)
    have "\<exists>t'. move_block I D block_function (Wrapper_Seek I target) (Wrapper_Seek D target) t = Some t' \<and> at_block ies I istands D dstands arg_ok ?i ?q t'"
      using index.wrapped_Key t iterator.wrapped_Key[OF data'] blocks by (intro move_block_at[OF at]) auto
    moreover have "?i < length ies \<and> ?q \<le> length (ess ! ?i) \<or> ?i = length ies \<and> ?q = 0"
      by (auto simp: seek_index_def length_takeWhile_le nless_le)
    ultimately show ?thesis
      using SkipForward_stands[of ?i ?q] a To_Key seek_concat[OF t] blocks by (fastforce simp: TwoLevel_Iterator_def TwoLevelIterator_Seek_def Let_def)
  next
    case To_Next
    then have i: "i < length ies" and p': "p' = Suc p" using a p iq concat_pos_end[of ess] blocks by (auto split: if_splits)
    then obtain w where "Wrapper_Next D (tl_data_iter t) = Some w" "wrapped D (dstands i) (Suc q) w"
      using iterator.wrapped_Next[OF data, of i q "tl_data_iter t"] at iq blocks by (auto simp: at_block_def data_at_def)
    moreover from this have "at_block ies I istands D dstands arg_ok i (Suc q) (t\<lparr>tl_data_iter := w\<rparr>)"
      using at i by (simp add: at_block_def index_at_def data_at_def)
    ultimately show ?thesis
      using SkipForward_stands[of i "Suc q"] i iq p p' To_Next by (fastforce simp: TwoLevel_Iterator_def TwoLevelIterator_Next_def concat_pos_def)
  next
    case To_Last
    show ?thesis
    proof (cases "ies = []")
      case True
      then have "\<exists>t'. move_block I D block_function (Wrapper_SeekToLast I) (Wrapper_SeekToLast D) t = Some t' \<and> at_block ies I istands D dstands arg_ok 0 0 t'"
        using index.wrapped_Last by (intro move_block_at[OF at]) auto
      then show ?thesis using Skip_end at_end_stands True a To_Last blocks by (fastforce simp: TwoLevel_Iterator_def TwoLevelIterator_SeekToLast_def)
    next
      case False
      let ?i = "length ies - 1"
      let ?q = "length (ess ! ?i) - 1"
      have i: "?i < length ies" using False by simp
      have "\<exists>t'. move_block I D block_function (Wrapper_SeekToLast I) (Wrapper_SeekToLast D) t = Some t' \<and> at_block ies I istands D dstands arg_ok ?i ?q t'"
        using index.wrapped_Last iterator.wrapped_Last[OF data'] blocks by (intro move_block_at[OF at]) auto
      then obtain t' where t': "move_block I D block_function (Wrapper_SeekToLast I) (Wrapper_SeekToLast D) t = Some t'"
          "at_block ies I istands D dstands arg_ok ?i ?q t'" by blast
      have n: "length (concat ess) = concat_pos ess ?i 0 + length (ess ! ?i)"
        using concat_pos_Suc[of ?i ess] concat_pos_end[of ess] i blocks by (simp add: concat_pos_def)
      show ?thesis
      proof (cases "?q < length (ess ! ?i)")
        case True
        then have "concat_pos ess ?i ?q = p'" using a To_Last n by (auto simp: concat_pos_def)
        then show ?thesis using Skip_stop[OF t'(2) i True] t'(1) To_Last by (auto simp: TwoLevel_Iterator_def TwoLevelIterator_SeekToLast_def)
      next
        case False
        then have "ess ! ?i = []" by (metis diff_less length_greater_0_conv zero_less_one)
        then have "(if concat_pos ess ?i 0 = 0 then length (concat ess) else concat_pos ess ?i 0 - 1) = p'" using a To_Last n by auto
        then show ?thesis using SkipBackward_stands[OF t'(2) i False] t'(1) To_Last by (auto simp: TwoLevel_Iterator_def TwoLevelIterator_SeekToLast_def)
      qed
    qed
  next
    case To_Prev
    then have i: "i < length ies" and p': "p' = (if p = 0 then length (concat ess) else p - 1)"
      using a p iq concat_pos_end[of ess] blocks by (auto split: if_splits)
    let ?q = "if q = 0 then length (ess ! i) else q - 1"
    obtain w where w: "Wrapper_Prev D (tl_data_iter t) = Some w" "wrapped D (dstands i) ?q w"
      using iterator.wrapped_Prev[OF data, of i q "tl_data_iter t"] at i iq blocks by (auto simp: at_block_def data_at_def)
    then have at': "at_block ies I istands D dstands arg_ok i ?q (t\<lparr>tl_data_iter := w\<rparr>)"
      using at i by (simp add: at_block_def index_at_def data_at_def)
    show ?thesis
    proof (cases "q = 0")
      case True
      then have "p' = (if concat_pos ess i 0 = 0 then length (concat ess) else concat_pos ess i 0 - 1)" using p p' by simp
      then show ?thesis using SkipBackward_stands[OF at' i] True w(1) To_Prev by (auto simp: TwoLevel_Iterator_def TwoLevelIterator_Prev_def)
    next
      case False
      then have "?q < length (ess ! i)" "p' = concat_pos ess i ?q" using p p' iq i by (auto simp: concat_pos_def)
      then show ?thesis using Skip_stop[OF at' i] w(1) To_Prev by (auto simp: TwoLevel_Iterator_def TwoLevelIterator_Prev_def)
    qed
  qed
qed

lemma two_level_iterator:
  "iterator valid cmp (concat ess) (TwoLevel_Iterator I D block_function) (tl_stands ies ess I istands D dstands arg_ok)"
proof
  fix p t assume st: "tl_stands ies ess I istands D dstands arg_ok p t"
  then obtain i q where at: "at_block ies I istands D dstands arg_ok i q t" and p: "p = concat_pos ess i q"
    and iq: "if i < length ies then q < length (ess ! i) else i = length ies \<and> q = 0"
    by (auto simp: tl_stands_def)
  show "shows_entry (TwoLevel_Iterator I D block_function) (concat ess) p t"
  proof (cases "i < length ies")
    case True
    then have "wrapped D (dstands i) q (tl_data_iter t)" "q < length (ess ! i)" using at iq by (simp_all add: at_block_def data_at_def)
    then show ?thesis
      using iterator.wrapped_valid[OF data] iterator.wrapped_entry[OF data] nth_concat_pos[of i ess q] True p blocks
      by (simp add: shows_entry_def TwoLevel_Iterator_def)
  next
    case False
    then show ?thesis using at iq p concat_pos_end[of ess] blocks by (simp add: shows_entry_def TwoLevel_Iterator_def at_block_def no_data_def)
  qed
  have "no_data t \<or> data_at ies D dstands i q t" using at by (simp add: at_block_def split: if_splits)
  then show "Status_ok (Iterator_status (TwoLevel_Iterator I D block_function) t)"
    using data_status at index.wrapped_status
    by (auto simp: TwoLevel_Iterator_def TwoLevelIterator_status_def at_block_def index_at_def split: option.splits)
qed (rule two_level_step)

text \<open>A new iterator is not valid.\<close>

lemma TwoLevelIterator_new_stands:
  assumes "istands (length ies) it" "arg_ok s"
  shows "tl_stands ies ess I istands D dstands arg_ok (length (concat ess)) (TwoLevelIterator_new I D it s)"
proof -
  have "at_block ies I istands D dstands arg_ok (length ies) 0 (TwoLevelIterator_new I D it s)"
    using assms wrapped_Update[of istands "length ies" it I]
    by (simp add: at_block_def index_at_def no_data_def TwoLevelIterator_new_def Wrapper_new_def Wrapper_Set_def Status_ok_def Status_OK_def)
  then show ?thesis using concat_pos_end[of ess] blocks unfolding tl_stands_def by fastforce
qed

end

end
