(* ===== verification/Ldb_Table_Laws.thy ===== *)
theory Ldb_Table_Laws
  imports Ldb_Table Ldb_Table_Builder_Laws Ldb_Two_Level_Laws
begin

text \<open>
  The laws of \<^verbatim>\<open>table/table.cc\<close>: opening a file that a table builder has written gives a table whose iterator moves over all
  its entries, and whose lookup finds them.
\<close>

section \<open>Iterators over blocks\<close>

definition opened :: "(slice \<Rightarrow> bool) \<Rightarrow> (slice \<Rightarrow> slice \<Rightarrow> int) \<Rightarrow> entries \<Rightarrow> nat \<Rightarrow> block_iterator \<Rightarrow> bool" where
  "opened valid cmp es p x \<longleftrightarrow> (\<exists>ts rs it. x = BlockIterator it \<and> map snd ts = es \<and> block_stands valid cmp ts rs p it)"

lemma Any_Iterator_step:
  "iterator_step (Any_Iterator cmp) a (BlockIterator it) = map_option BlockIterator (iterator_step (Block_Iterator cmp) a it)"
  by (cases a) (simp_all add: Any_Iterator_def Block_Iterator_def)

lemma opened_iterator:
  assumes "key_order valid cmp"
  shows "iterator valid cmp es (Any_Iterator cmp) (opened valid cmp es)"
proof
  fix p x assume "opened valid cmp es p x"
  then obtain ts rs it where x: "x = BlockIterator it" "map snd ts = es" "block_stands valid cmp ts rs p it" by (auto simp: opened_def)
  note c = block_iterator_contract[OF assms, of ts rs]
  show "shows_entry (Any_Iterator cmp) es p x"
    using iterator.stands_shows[OF c x(3)] x by (auto simp: shows_entry_def Any_Iterator_def Block_Iterator_def split: if_splits)
  show "Status_ok (Iterator_status (Any_Iterator cmp) x)"
    using iterator.stands_ok[OF c x(3)] x by (simp add: Any_Iterator_def Block_Iterator_def)
  fix a p' assume "op_valid valid a" "cursor_step cmp es a p = Some p'"
  then show "\<exists>x'. iterator_step (Any_Iterator cmp) a x = Some x' \<and> opened valid cmp es p' x'"
    using iterator.step[OF c x(3), of a p'] x by (auto simp: Any_Iterator_step opened_def)
qed

lemma opened_new:
  assumes "0 < interval" "ordered valid cmp es" "length (block_of interval es) < 2 ^ 32"
  shows "opened valid cmp es (length es) (Block_NewIterator (Block_new (block_of interval es)))"
proof -
  obtain ts rs it where "map snd ts = es" "Block_NewIterator (Block_new (block_of interval es)) = BlockIterator it"
      "block_stands valid cmp ts rs (length es) it"
    using built_block_opens[OF assms(1) _ _ block_of_def assms(3)] assms(2) unfolding ordered_def by blast
  then show ?thesis unfolding opened_def by blast
qed

lemma opened_seek:
  assumes ord: "key_order valid cmp" and st: "opened valid cmp es p x" and "valid k"
  obtains x' where "Seek (Any_Iterator cmp) k x = Some x'" "any_valid x' \<longleftrightarrow> seek_index cmp es k < length es" "any_status x' = Status_OK"
    "seek_index cmp es k < length es \<Longrightarrow> any_key x' = fst (es ! seek_index cmp es k) \<and> any_value x' = Some (snd (es ! seek_index cmp es k))"
proof -
  note c = opened_iterator[OF ord, of es]
  obtain x' where x': "Seek (Any_Iterator cmp) k x = Some x'" "opened valid cmp es (seek_index cmp es k) x'"
    using iterator.step[OF c st, of "To_Key k"] assms(3) by (auto simp: op_valid_def)
  show thesis
    by (rule that[OF x'(1)])
      (use iterator.stands_shows[OF c x'(2)] iterator.stands_ok[OF c x'(2)] in
        \<open>auto simp: shows_entry_def Any_Iterator_def Status_ok_def Status_OK_def split: if_splits\<close>)
qed

section \<open>Handles\<close>

lemma BlockHandle_Decode [simp]: "BlockHandle_DecodeFrom (BlockHandle_EncodeTo h []) h' = (Status_OK, [], h)"
  using BlockHandle_Decode_Encode[of h "[]" h'] by simp

lemma BlockHandle_EncodeTo_inj: "BlockHandle_EncodeTo h [] = BlockHandle_EncodeTo h' [] \<Longrightarrow> h = h'"
  using BlockHandle_Decode[of h h] BlockHandle_Decode[of h' h] by (metis prod.inject)

lemma length_raw_block [simp]: "length (raw_block data) = length data + 5"
  by (simp add: raw_block_def)

lemma stored_at_handle:
  assumes "contents = pre @ raw_block data @ post" "length contents < 2 ^ 32"
  shows "stored_at contents (handle_of pre data) data"
proof -
  have "length pre < 2 ^ 64" "length data < 2 ^ 64" using assms by simp_all
  then have "unat (word_of_nat (length pre) :: u64) = length pre" "unat (word_of_nat (length data) :: u64) = length data"
    using unat_word_of_nat[where 'a = 64] by simp_all
  then show ?thesis using assms by (simp add: stored_at_def handle_of_def raw_block_def)
qed

lemma blocks_bytes_split:
  "i < length ess \<Longrightarrow> blocks_bytes interval ess =
     blocks_bytes interval (take i ess) @ raw_block (block_of interval (ess ! i)) @ blocks_bytes interval (drop (Suc i) ess)"
  unfolding blocks_bytes_def
  using concat_split[of i "map (\<lambda>es. raw_block (block_of interval es)) ess"] by (simp add: take_map drop_map)

lemma blocks_bytes_append: "blocks_bytes interval (xss @ yss) = blocks_bytes interval xss @ blocks_bytes interval yss"
  by (simp add: blocks_bytes_def)

lemma blocks_bytes_take_le: "length (blocks_bytes interval (take j ess)) \<le> length (blocks_bytes interval ess)"
  using blocks_bytes_append[of interval "take j ess" "drop j ess"] by simp

lemma blocks_bytes_take_less:
  assumes "i < j" "j \<le> length ess"
  shows "length (blocks_bytes interval (take i ess)) < length (blocks_bytes interval (take j ess))"
  using blocks_bytes_split[of i "take j ess" interval] assms by (simp add: take_take min_def)

section \<open>Opening a table\<close>

text \<open>The file holds the table with the blocks \<open>ess\<close> and the index keys \<open>ks\<close>, as a table builder leaves it.\<close>

definition table_stored :: "(slice \<Rightarrow> bool) \<Rightarrow> Options \<Rightarrow> random_access \<Rightarrow> entries list \<Rightarrow> slice list \<Rightarrow> bool" where
  "table_stored valid opts Read ess ks \<longleftrightarrow>
     key_order valid (cmp_Compare (opt_comparator opts)) \<and> random_access_file Read (table_bytes opts ess ks) \<and>
     0 < opt_block_restart_interval opts \<and> [] \<notin> set ess \<and> length ks = length ess \<and>
     separates valid (cmp_Compare (opt_comparator opts)) ks ess \<and> ordered valid (cmp_Compare (opt_comparator opts)) (concat ess) \<and>
     length (table_bytes opts ess ks) < 2 ^ 32"

definition the_table :: "Options \<Rightarrow> entries list \<Rightarrow> slice list \<Rightarrow> Table" where
  "the_table opts ess ks =
     \<lparr>t_options = opts,
      t_filter = map_option (\<lambda>p. FilterBlockReader_new (filter_contents (opt_block_restart_interval opts) ess p)) (opt_filter_policy opts),
      t_metaindex_handle = metaindex_handle (table_footer opts ess ks),
      t_index_block = Block_new (block_of 1 (index_entries (opt_block_restart_interval opts) ess ks))\<rparr>"

lemma stored_parts:
  assumes "table_stored valid opts Read ess ks"
  shows stored_block: "i < length ess \<Longrightarrow> stored_at (table_bytes opts ess ks) (block_handle (opt_block_restart_interval opts) ess i) (block_of (opt_block_restart_interval opts) (ess ! i))"
    and stored_filter: "opt_filter_policy opts = Some p \<Longrightarrow> stored_at (table_bytes opts ess ks)
      (handle_of (blocks_bytes (opt_block_restart_interval opts) ess) (filter_contents (opt_block_restart_interval opts) ess p)) (filter_contents (opt_block_restart_interval opts) ess p)"
    and stored_meta: "stored_at (table_bytes opts ess ks) (metaindex_handle (table_footer opts ess ks)) (block_of (opt_block_restart_interval opts) (meta_entries opts ess))"
    and stored_index: "stored_at (table_bytes opts ess ks) (index_handle (table_footer opts ess ks)) (block_of 1 (index_entries (opt_block_restart_interval opts) ess ks))"
proof -
  have len: "length (table_bytes opts ess ks) < 2 ^ 32" using assms by (simp add: table_stored_def)
  note S = stored_at_handle[OF _ len]
  show "stored_at (table_bytes opts ess ks) (block_handle (opt_block_restart_interval opts) ess i) (block_of (opt_block_restart_interval opts) (ess ! i))"
    if "i < length ess"
    unfolding block_handle_def
    by (rule S[where post = "blocks_bytes (opt_block_restart_interval opts) (drop (Suc i) ess) @ filter_part opts ess @
        raw_block (block_of (opt_block_restart_interval opts) (meta_entries opts ess)) @
        raw_block (block_of 1 (index_entries (opt_block_restart_interval opts) ess ks)) @ Footer_EncodeTo (table_footer opts ess ks) []"])
      (use blocks_bytes_split[OF that, of "opt_block_restart_interval opts"] in \<open>simp add: table_bytes_def Let_def\<close>)
  show "stored_at (table_bytes opts ess ks)
      (handle_of (blocks_bytes (opt_block_restart_interval opts) ess) (filter_contents (opt_block_restart_interval opts) ess p)) (filter_contents (opt_block_restart_interval opts) ess p)"
    if "opt_filter_policy opts = Some p"
    by (rule S) (use that in \<open>simp add: table_bytes_def Let_def filter_part_def\<close>)
  show "stored_at (table_bytes opts ess ks) (metaindex_handle (table_footer opts ess ks)) (block_of (opt_block_restart_interval opts) (meta_entries opts ess))"
    unfolding table_footer_def Let_def Footer.simps by (rule S) (simp add: table_bytes_def Let_def)
  show "stored_at (table_bytes opts ess ks) (index_handle (table_footer opts ess ks)) (block_of 1 (index_entries (opt_block_restart_interval opts) ess ks))"
    unfolding table_footer_def Let_def Footer.simps by (rule S) (simp add: table_bytes_def Let_def)
qed

lemma stored_read:
  assumes "table_stored valid opts Read ess ks" "stored_at (table_bytes opts ess ks) h data"
  obtains c where "ReadBlock Read verify h = Some (Status_OK, c)" "bc_data c = data"
  using random_access_file.ReadBlock_stored[OF _ assms(2)] assms(1) unfolding table_stored_def by blast

lemma stored_at_length: "stored_at contents h data \<Longrightarrow> length data \<le> length contents"
  unfolding stored_at_def by (metis add_leD1 le_add1 length_append length_drop diff_le_self order.trans)

lemma Status_ok_OK [simp]: "Status_ok Status_OK"
  by (simp add: Status_ok_def Status_OK_def)

lemma ReadFilter_stored:
  assumes st: "table_stored valid opts Read ess ks" and p: "opt_filter_policy opts = Some p"
  shows "ReadFilter Read (BlockHandle_EncodeTo (handle_of (blocks_bytes (opt_block_restart_interval opts) ess) (filter_contents (opt_block_restart_interval opts) ess p)) []) t =
    Some (t\<lparr>t_filter := Some (FilterBlockReader_new (filter_contents (opt_block_restart_interval opts) ess p))\<rparr>)"
proof -
  obtain c where "ReadBlock Read (opt_paranoid_checks (t_options t))
      (handle_of (blocks_bytes (opt_block_restart_interval opts) ess) (filter_contents (opt_block_restart_interval opts) ess p)) = Some (Status_OK, c)"
      "bc_data c = filter_contents (opt_block_restart_interval opts) ess p"
    using stored_read[OF st stored_filter[OF st p]] .
  then show ?thesis by (simp add: ReadFilter_def)
qed

lemma slice_eq_refl: "slice_eq x x"
proof -
  have "memcmp n x x = 0" for n
  proof (induction x arbitrary: n)
    case (Cons a x)
    then show ?case by (cases n) simp_all
  qed simp
  then show ?thesis by (simp add: slice_eq_def)
qed

lemma ReadMeta_stored:
  assumes st: "table_stored valid opts Read ess ks"
  shows "ReadMeta Read (table_footer opts ess ks) ((the_table opts ess ks)\<lparr>t_filter := None\<rparr>) = Some (the_table opts ess ks)"
proof (cases "opt_filter_policy opts")
  case None
  then show ?thesis by (simp add: ReadMeta_def the_table_def)
next
  case (Some p)
  let ?i = "opt_block_restart_interval opts" and ?k = "lit ''filter.'' @ fp_Name p"
  let ?t = "(the_table opts ess ks)\<lparr>t_filter := None\<rparr>"
  let ?v = "BlockHandle_EncodeTo (handle_of (blocks_bytes ?i ess) (filter_contents ?i ess p)) []"
  have es: "meta_entries opts ess = [(?k, ?v)]" using Some by (simp add: meta_entries_def Let_def)
  obtain c where c: "ReadBlock Read (opt_paranoid_checks opts) (metaindex_handle (table_footer opts ess ks)) = Some (Status_OK, c)"
      "bc_data c = block_of ?i (meta_entries opts ess)"
    using stored_read[OF st stored_meta[OF st]] .
  have "length (block_of ?i (meta_entries opts ess)) < 2 ^ 32"
    using stored_at_length[OF stored_meta[OF st]] st by (simp add: table_stored_def)
  then have op: "opened (\<lambda>_. True) bytewise_Compare (meta_entries opts ess) 1 (Block_NewIterator (Block_new (bc_data c)))"
    using opened_new[of ?i "\<lambda>_. True" bytewise_Compare "meta_entries opts ess"] st c(2) by (simp add: table_stored_def ordered_def es)
  have k: "bytewise_Compare ?k ?k = 0" by (simp add: bytewise_Compare_def slice_compare_eq)
  then have "seek_index bytewise_Compare (meta_entries opts ess) ?k = 0" by (simp add: seek_index_def es)
  then obtain x where x: "Seek (Any_Iterator bytewise_Compare) ?k (Block_NewIterator (Block_new (bc_data c))) = Some x"
      "any_valid x" "any_key x = ?k" "any_value x = Some ?v"
    using opened_seek[OF bytewise.key_order_axioms op TrueI, of ?k] by (auto simp: es)
  have "ReadMeta Read (table_footer opts ess ks) ?t = ReadFilter Read ?v ?t"
    using Some c(1) x slice_eq_refl by (simp add: ReadMeta_def the_table_def Let_def)
  then show ?thesis using ReadFilter_stored[OF st Some, of ?t] Some by (simp add: the_table_def)
qed

lemma Table_Open_stored:
  assumes st: "table_stored valid opts Read ess ks"
  shows "Table_Open opts Read (word_of_nat (length (table_bytes opts ess ks))) = Some (Status_OK, Some (the_table opts ess ks))"
proof -
  let ?c = "table_bytes opts ess ks" and ?f = "table_footer opts ess ks"
  have len: "length ?c < 2 ^ 32" using st by (simp add: table_stored_def)
  then have n: "unat (word_of_nat (length ?c) :: u64) = length ?c" by (intro unat_word_of_nat) simp
  have f: "length (Footer_EncodeTo ?f []) = kEncodedLength" using Footer_EncodeTo_bytes by blast
  obtain pre where c: "?c = pre @ Footer_EncodeTo ?f []" unfolding table_bytes_def Let_def by (metis append_assoc)
  have k: "unat (word_of_nat kEncodedLength :: u64) = kEncodedLength" by (simp add: kEncodedLength_def kMaxEncodedLength_def)
  have le: "kEncodedLength \<le> length ?c" using f by (simp add: c)
  have off: "unat (word_of_nat (length ?c) - word_of_nat kEncodedLength :: u64) = length ?c - kEncodedLength"
    using unat_diff_le[of "word_of_nat kEncodedLength" "word_of_nat (length ?c) :: u64"] le n k by (simp add: word_le_nat_alt)
  have "take kEncodedLength (drop (length ?c - kEncodedLength) ?c) = Footer_EncodeTo ?f []" using f by (simp add: c)
  then obtain b where r: "Read (word_of_nat (length ?c) - word_of_nat kEncodedLength) (word_of_nat kEncodedLength) = Some (Status_OK, Footer_EncodeTo ?f [], b)"
    using random_access_file.Read_inside[of Read ?c "word_of_nat (length ?c) - word_of_nat kEncodedLength" "word_of_nat kEncodedLength"] st le
    f unfolding off k table_stored_def by auto
  obtain i where i: "ReadBlock Read (opt_paranoid_checks opts) (index_handle ?f) = Some (Status_OK, i)"
      "bc_data i = block_of 1 (index_entries (opt_block_restart_interval opts) ess ks)"
    using stored_read[OF st stored_index[OF st]] .
  have t: "\<lparr>t_options = opts, t_filter = None, t_metaindex_handle = metaindex_handle ?f, t_index_block = Block_new (bc_data i)\<rparr> =
      (the_table opts ess ks)\<lparr>t_filter := None\<rparr>" by (simp add: the_table_def i(2))
  have "\<not> unat (word_of_nat (length ?c) :: u64) < kEncodedLength" using le n by simp
  then show ?thesis
    unfolding Table_Open_def r option.case prod.case Footer_Decode_Encode[of ?f "[]", simplified append_Nil2] i(1) t ReadMeta_stored[OF st]
    by simp
qed

section \<open>Reading a table\<close>

lemma nth_index_entries:
  "i < length ks \<Longrightarrow> index_entries interval ess ks ! i = (ks ! i, BlockHandle_EncodeTo (block_handle interval ess i) [])"
  by (simp add: index_entries_def)

lemma length_index_entries [simp]: "length (index_entries interval ess ks) = length ks"
  by (simp add: index_entries_def)

lemma index_entries_ordered:
  assumes st: "table_stored valid opts Read ess ks"
  shows "ordered valid (cmp_Compare (opt_comparator opts)) (index_entries (opt_block_restart_interval opts) ess ks)"
proof -
  let ?cmp = "cmp_Compare (opt_comparator opts)"
  have ko: "key_order valid ?cmp" and sep: "separates valid ?cmp ks ess" and ne: "[] \<notin> set ess" and n: "length ks = length ess"
    and ord: "ordered valid ?cmp (concat ess)" using st by (simp_all add: table_stored_def)
  have "?cmp (ks ! i) (ks ! j) < 0" if ij: "i < j" "j < length ks" for i j
  proof -
    have j: "j < length ess" "ess ! j \<noteq> []" using ij n ne nth_mem[of j ess] by (simp, metis)
    obtain k v where e: "(k, v) \<in> set (ess ! j)" using last_in_set[OF j(2)] prod.collapse[of "last (ess ! j)"] by metis
    then have "valid k" using ord j(1) nth_mem[of j ess] by (fastforce simp: ordered_def list_all_iff)
    then show ?thesis
      using key_order.Compare_less_le_trans[OF ko, of "ks ! i" k "ks ! j"] separates_lower[OF sep, of i j k v] separates_upper[OF sep, of j k v]
        separates_valid[OF sep, of i] separates_valid[OF sep, of j] ij j(1) e by simp
  qed
  then show ?thesis
    using separates_valid[OF sep]
    by (auto simp: ordered_def list_all_length nth_index_entries sorted_wrt_iff_nth_less)
qed

lemma block_ordered: "ordered valid cmp (concat ess) \<Longrightarrow> i < length ess \<Longrightarrow> ordered valid cmp (ess ! i)"
  using concat_split[of i ess] ordered_append by metis

lemma block_handles_distinct:
  assumes st: "table_stored valid opts Read ess ks"
  shows "distinct (map snd (index_entries (opt_block_restart_interval opts) ess ks))"
proof -
  let ?i = "opt_block_restart_interval opts"
  have n: "length ks = length ess" and len: "length (table_bytes opts ess ks) < 2 ^ 32" using st by (simp_all add: table_stored_def)
  have small: "length (blocks_bytes ?i (take a ess)) < 2 ^ 32" if "a < length ess" for a
    using blocks_bytes_split[OF that, of ?i] len by (simp add: table_bytes_def Let_def)
  have "a = b" if ab: "a < length ess" "b < length ess" "block_handle ?i ess a = block_handle ?i ess b" for a b
  proof -
    have "word_of_nat (length (blocks_bytes ?i (take a ess))) = (word_of_nat (length (blocks_bytes ?i (take b ess))) :: u64)"
      using ab(3) by (simp add: block_handle_def handle_of_def)
    then have "length (blocks_bytes ?i (take a ess)) = length (blocks_bytes ?i (take b ess))"
      using small[OF ab(1)] small[OF ab(2)] by (simp add: word_of_nat_eq_iff take_bit_nat_eq_self)
    then show ?thesis using blocks_bytes_take_less[of a b ess ?i] blocks_bytes_take_less[of b a ess ?i] ab by (metis less_imp_le nat_neq_iff)
  qed
  then show ?thesis by (auto simp: distinct_conv_nth nth_index_entries n dest!: BlockHandle_EncodeTo_inj)
qed

lemma BlockReader_stored:
  assumes st: "table_stored valid opts Read ess ks" and i: "i < length ess"
  obtains x where "Table_BlockReader Read verify (BlockHandle_EncodeTo (block_handle (opt_block_restart_interval opts) ess i) []) = Some x"
    "opened valid (cmp_Compare (opt_comparator opts)) (ess ! i) (length (ess ! i)) x"
proof -
  obtain c where c: "ReadBlock Read verify (block_handle (opt_block_restart_interval opts) ess i) = Some (Status_OK, c)"
      "bc_data c = block_of (opt_block_restart_interval opts) (ess ! i)"
    using stored_read[OF st stored_block[OF st i]] .
  have "length (block_of (opt_block_restart_interval opts) (ess ! i)) < 2 ^ 32"
    using stored_at_length[OF stored_block[OF st i]] st by (simp add: table_stored_def)
  then have "opened valid (cmp_Compare (opt_comparator opts)) (ess ! i) (length (ess ! i)) (Block_NewIterator (Block_new (bc_data c)))"
    using opened_new block_ordered[OF _ i] st c(2) by (simp add: table_stored_def)
  then show thesis using that c(1) by (simp add: Table_BlockReader_def)
qed

lemma index_opened:
  assumes st: "table_stored valid opts Read ess ks"
  shows "opened valid (cmp_Compare (opt_comparator opts)) (index_entries (opt_block_restart_interval opts) ess ks) (length ess)
    (Block_NewIterator (t_index_block (the_table opts ess ks)))"
proof -
  have "length (block_of 1 (index_entries (opt_block_restart_interval opts) ess ks)) < 2 ^ 32"
    using stored_at_length[OF stored_index[OF st]] st by (simp add: table_stored_def)
  then show ?thesis using opened_new[of 1, OF _ index_entries_ordered[OF st]] st by (simp add: the_table_def table_stored_def)
qed

lemma stored_two_level:
  assumes st: "table_stored valid opts Read ess ks"
  defines "cmp \<equiv> cmp_Compare (opt_comparator opts)" and "ies \<equiv> index_entries (opt_block_restart_interval opts) ess ks"
  shows "two_level valid cmp ies (Any_Iterator cmp) (opened valid cmp ies) (Any_Iterator cmp) (\<lambda>i. opened valid cmp (ess ! i))
    (Table_block_function Read verify) (\<lambda>_ :: Table. True) ess"
proof -
  have ko: "key_order valid cmp" and sep: "separates valid cmp ks ess" and n: "length ks = length ess"
    and ord: "ordered valid cmp (concat ess)" using st by (simp_all add: table_stored_def cmp_def)
  have ies: "ies ! i = (ks ! i, BlockHandle_EncodeTo (block_handle (opt_block_restart_interval opts) ess i) [])" if "i < length ess" for i
    using that n by (simp add: ies_def nth_index_entries)
  show ?thesis
  proof (intro two_level.intro ko opened_iterator two_level_axioms.intro)
    show "length ess = length ies" by (simp add: ies_def n)
    show "\<exists>d s'. Table_block_function Read verify (snd (ies ! i)) s = Some (d, s') \<and> opened valid cmp (ess ! i) (length (ess ! i)) d \<and> True"
      if "i < length ess" for i s
      using BlockReader_stored[OF st that] ies[OF that] unfolding Table_block_function_def cmp_def by (metis option.map(2) snd_conv)
    show "distinct (map snd ies)" unfolding ies_def by (rule block_handles_distinct[OF st])
    show "valid k" if "(k, v) \<in> set ies" for k v
      using index_entries_ordered[OF st] that unfolding ordered_def list_all_iff ies_def by blast
    show "valid k" if "es \<in> set ess" "(k, v) \<in> set es" for es k v
      using ord that unfolding ordered_def list_all_iff by fastforce
    show "cmp k (fst (ies ! i)) \<le> 0" if "i < length ess" "(k, v) \<in> set (ess ! i)" for i k v
      using separates_upper[OF sep] that ies n by simp
    show "cmp (fst (ies ! i)) k < 0" if "i < j" "j < length ess" "(k, v) \<in> set (ess ! j)" for i j k v
      using separates_lower[OF sep] that ies[of i] n by simp
  qed
qed

definition Table_Iterator :: "random_access \<Rightarrow> bool \<Rightarrow> Table \<Rightarrow> (block_iterator, block_iterator, Table) TwoLevelIterator Iterator" where
  "Table_Iterator Read verify t = TwoLevel_Iterator (Any_Iterator (Table_Compare t)) (Any_Iterator (Table_Compare t)) (Table_block_function Read verify)"

lemma table_iterator_run:
  assumes st: "table_stored valid opts Read ess ks"
    and ops: "list_all (op_valid valid) ops" "cursor_run (cmp_Compare (opt_comparator opts)) (concat ess) ops (length (concat ess)) = Some p"
  shows "\<exists>it. iterator_run (Table_Iterator Read verify (the_table opts ess ks)) ops (Table_NewIterator (the_table opts ess ks)) = Some it \<and>
    shows_entry (Table_Iterator Read verify (the_table opts ess ks)) (concat ess) p it \<and>
    Status_ok (Iterator_status (Table_Iterator Read verify (the_table opts ess ks)) it)"
proof -
  let ?cmp = "cmp_Compare (opt_comparator opts)" and ?t = "the_table opts ess ks"
  let ?ies = "index_entries (opt_block_restart_interval opts) ess ks"
  let ?I = "Any_Iterator ?cmp"
  let ?stands = "tl_stands ?ies ess ?I (opened valid ?cmp ?ies) ?I (\<lambda>i. opened valid ?cmp (ess ! i)) (\<lambda>_ :: Table. True)"
  note T = stored_two_level[OF st, of verify]
  have c: "Table_Compare ?t = ?cmp" by (simp add: Table_Compare_def the_table_def)
  have "length ks = length ess" using st by (simp add: table_stored_def)
  then have new: "?stands (length (concat ess)) (Table_NewIterator ?t)"
    using two_level.TwoLevelIterator_new_stands[OF T, of "Block_NewIterator (t_index_block ?t)" ?t] index_opened[OF st]
    unfolding Table_NewIterator_def c by simp
  note it = two_level.two_level_iterator[OF T]
  obtain it' where it': "iterator_run (TwoLevel_Iterator ?I ?I (Table_block_function Read verify)) ops (Table_NewIterator ?t) = Some it'" "?stands p it'"
    using iterator.run[OF it new ops] by blast
  then show ?thesis unfolding Table_Iterator_def c using iterator.stands_shows[OF it it'(2)] iterator.stands_ok[OF it it'(2)] by blast
qed

text \<open>A key that is there is where seeking arrives.\<close>

lemma seek_present:
  assumes ko: "key_order valid cmp" and ord: "ordered valid cmp es" and k: "(k, v) \<in> set es"
  shows "seek_index cmp es k < length es \<and> es ! seek_index cmp es k = (k, v)"
proof -
  obtain q where q: "q < length es" "es ! q = (k, v)" using k by (auto simp: in_set_conv_nth)
  have v: "valid k" using ord k unfolding ordered_def list_all_iff by blast
  have "\<not> q < seek_index cmp es k" using seek_index_props(2)[of q cmp es k] q key_order.Compare_refl[OF ko v] by auto
  moreover have "\<not> seek_index cmp es k < q"
    using seek_index_props(3)[of cmp es k] q sorted_wrt_nth_less[of "\<lambda>(a, _) (b, _). cmp a b < 0" es "seek_index cmp es k" q] ord
    by (auto simp: ordered_def case_prod_unfold)
  ultimately show ?thesis using q by (metis nat_neq_iff)
qed

lemma key_in_block:
  assumes st: "table_stored valid opts Read ess ks" and k: "(k, v) \<in> set (concat ess)"
  defines "cmp \<equiv> cmp_Compare (opt_comparator opts)"
  defines "i \<equiv> seek_index cmp (index_entries (opt_block_restart_interval opts) ess ks) k"
  shows "i < length ess \<and> (k, v) \<in> set (ess ! i)"
proof -
  let ?ies = "index_entries (opt_block_restart_interval opts) ess ks"
  have ko: "key_order valid cmp" and sep: "separates valid cmp ks ess" and n: "length ks = length ess"
    and ord: "ordered valid cmp (concat ess)" using st by (simp_all add: table_stored_def cmp_def)
  obtain es where "es \<in> set ess" "(k, v) \<in> set es" using k by auto
  then obtain j where j: "j < length ess" "(k, v) \<in> set (ess ! j)" by (metis in_set_conv_nth)
  have v: "valid k" using ord k unfolding ordered_def list_all_iff by blast
  have "\<not> cmp (ks ! j) k < 0"
    using separates_upper[OF sep _ j(2)] separates_valid[OF sep, of j] key_order.Compare_swap[OF ko, of "ks ! j" k] v j(1) n by simp
  then have le: "i \<le> j" using seek_index_props(2)[of j cmp ?ies k] j(1) n by (fastforce simp: i_def nth_index_entries)
  have "\<not> cmp (ks ! i) k < 0" using seek_index_props(3)[of cmp ?ies k] le j(1) n by (simp add: i_def nth_index_entries)
  then have "i = j" using separates_lower[OF sep, of i j k v] le j n by (cases "i = j") auto
  then show ?thesis using j by simp
qed

lemma filter_matches:
  assumes st: "table_stored valid opts Read ess ks" and p: "opt_filter_policy opts = Some p"
    and fp: "filter_policy fvalid (fp_CreateFilter p) (fp_KeyMayMatch p)" "list_all (\<lambda>(k, _). fvalid k) (concat ess)" "length (concat ess) < 2 ^ 31"
    and i: "i < length ess" "(k, v) \<in> set (ess ! i)"
  shows "FilterBlockReader_KeyMayMatch (fp_KeyMayMatch p) (FilterBlockReader_new (filter_contents (opt_block_restart_interval opts) ess p))
    (bh_offset (block_handle (opt_block_restart_interval opts) ess i)) k"
proof -
  let ?i = "opt_block_restart_interval opts"
  let ?off = "\<lambda>i. length (blocks_bytes ?i (take i ess))"
  let ?blocks = "filter_blocks ?i (ess @ [[]])"
  have len: "length (table_bytes opts ess ks) < 2 ^ 32" using st by (simp add: table_stored_def)
  have small: "?off j < 2 ^ 32" for j
    using len blocks_bytes_take_le[of ?i j ess] by (simp add: table_bytes_def Let_def)
  have blocks: "?blocks = map (\<lambda>j. (word_of_nat (?off j), map fst ((ess @ [[]]) ! j))) [0..<Suc (length ess)]" by (simp add: filter_blocks_def)
  have u: "unat (word_of_nat (?off j) :: u64) = ?off j" for j using small[of j] by (intro unat_word_of_nat) simp
  have "?off a \<le> ?off b" if "a \<le> b" for a b using blocks_bytes_take_le[of ?i a "take b ess"] that by (simp add: min_absorb2)
  then have sorted: "sorted (map (\<lambda>(off, ks). unat off) ?blocks)"
    unfolding blocks by (simp add: comp_def u sorted_iff_nth_mono del: upt_Suc)
  have keys: "concat (map snd ?blocks) = map fst (concat ess)"
  proof -
    have "map snd ?blocks = map (map fst) (ess @ [[]])" unfolding blocks map_map comp_def snd_conv by (rule nth_equalityI) (auto simp: nth_append simp del: upt_Suc)
    then show ?thesis by (simp add: map_concat)
  qed
  have mem: "(word_of_nat (?off i), map fst (ess ! i)) \<in> set ?blocks" "k \<in> set (map fst (ess ! i))"
    unfolding blocks using i by (force simp: nth_append, force)
  have fv: "list_all fvalid (map fst (concat ess))" using fp(2) by (simp add: list.pred_map comp_def case_prod_unfold)
  have "length (filter_contents ?i ess p) < 2 ^ 32" using stored_at_length[OF stored_filter[OF st p]] len by simp
  then have "FilterBlockReader_KeyMayMatch (fp_KeyMayMatch p) (FilterBlockReader_new (filter_contents ?i ess p)) (word_of_nat (?off i)) k"
    by (intro filter_policy.filter_block_no_false_negative[OF fp(1) sorted _ _ mem(1) mem(2) filter_contents_def])
      (use fv fp(3) in \<open>simp_all only: keys length_map\<close>)
  then show ?thesis by (simp add: block_handle_def handle_of_def)
qed

lemma InternalGet_stored:
  assumes st: "table_stored valid opts Read ess ks" and k: "valid k"
    and fp: "\<And>p. opt_filter_policy opts = Some p \<Longrightarrow> filter_policy fvalid (fp_CreateFilter p) (fp_KeyMayMatch p)"
      "list_all (\<lambda>(k, _). fvalid k) (concat ess)" "length (concat ess) < 2 ^ 31"
  shows "\<exists>res. InternalGet Read verify k (the_table opts ess ks) = Some (Status_OK, res) \<and> (\<forall>v. (k, v) \<in> set (concat ess) \<longrightarrow> res = Some (k, v)) \<and>
    (\<forall>e. res = Some e \<longrightarrow> (let j = seek_index (cmp_Compare (opt_comparator opts)) (concat ess) k in j < length (concat ess) \<and> e = concat ess ! j))"
proof -
  let ?cmp = "cmp_Compare (opt_comparator opts)" and ?t = "the_table opts ess ks" and ?iv = "opt_block_restart_interval opts"
  let ?ies = "index_entries ?iv ess ks"
  define i where "i = seek_index ?cmp ?ies k"
  have ko: "key_order valid ?cmp" and n: "length ks = length ess" and ord: "ordered valid ?cmp (concat ess)" using st by (simp_all add: table_stored_def)
  have c: "Table_Compare ?t = ?cmp" by (simp add: Table_Compare_def the_table_def)
  obtain x where x: "Seek (Any_Iterator ?cmp) k (Block_NewIterator (t_index_block ?t)) = Some x" "any_valid x \<longleftrightarrow> i < length ess" "any_status x = Status_OK"
      "i < length ess \<Longrightarrow> any_value x = Some (BlockHandle_EncodeTo (block_handle ?iv ess i) [])"
    using opened_seek[OF ko index_opened[OF st] k] n unfolding i_def[symmetric] by (auto simp: nth_index_entries)
  have present: "i < length ess \<and> (k, v) \<in> set (ess ! i)" if "(k, v) \<in> set (concat ess)" for v
    using key_in_block[OF st that] by (simp add: i_def)
  show ?thesis
  proof (cases "i < length ess")
    case False
    then show ?thesis using x present unfolding InternalGet_def c by auto
  next
    case True
    define q where "q = seek_index ?cmp (ess ! i) k"
    obtain b where b: "Table_BlockReader Read verify (BlockHandle_EncodeTo (block_handle ?iv ess i) []) = Some b" "opened valid ?cmp (ess ! i) (length (ess ! i)) b"
      using BlockReader_stored[OF st True] .
    obtain y where y: "Seek (Any_Iterator ?cmp) k b = Some y" "any_valid y \<longleftrightarrow> q < length (ess ! i)" "any_status y = Status_OK"
        "q < length (ess ! i) \<Longrightarrow> any_key y = fst (ess ! i ! q) \<and> any_value y = Some (snd (ess ! i ! q))"
      using opened_seek[OF ko b(2) k] unfolding q_def[symmetric] by blast
    define res where "res = (if q < length (ess ! i) then Some (ess ! i ! q) else None)"
    define hidden where "hidden \<longleftrightarrow> (\<exists>p. opt_filter_policy opts = Some p \<and>
      \<not> FilterBlockReader_KeyMayMatch (fp_KeyMayMatch p) (FilterBlockReader_new (filter_contents ?iv ess p)) (bh_offset (block_handle ?iv ess i)) k)"
    have get: "InternalGet Read verify k ?t = Some (Status_OK, if hidden then None else res)"
      using x y b(1) True unfolding InternalGet_def c
      by (cases "opt_filter_policy opts") (auto simp: the_table_def hidden_def res_def)
    have found: "\<not> hidden \<and> res = Some (k, v)" if "(k, v) \<in> set (concat ess)" for v
    proof -
      have "(k, v) \<in> set (ess ! i)" using present[OF that] by simp
      then show ?thesis
        using seek_present[OF ko block_ordered[OF ord True]] filter_matches[OF st _ fp(1) fp(2,3) True] by (auto simp: hidden_def res_def q_def)
    qed
    have "seek_index ?cmp (concat ess) k = concat_pos ess i q"
      using two_level.seek_concat[OF stored_two_level[OF st, of verify] k] True by (simp add: i_def q_def Let_def)
    then have "let j = seek_index ?cmp (concat ess) k in j < length (concat ess) \<and> e = concat ess ! j" if "res = Some e" for e
      using that nth_concat_pos[OF True, of q] by (auto simp: res_def Let_def split: if_splits)
    then show ?thesis using get found by auto
  qed
qed

end
