(* ===== verification/Ldb_Table_Props.thy ===== *)
theory Ldb_Table_Props
  imports Ldb_Table_Laws
begin

text \<open>LevelDB, what the writer and the reader of tables promise together.\<close>

section \<open>A builder on a file that does not fail\<close>

definition moved_on :: "('f \<Rightarrow> bool) \<Rightarrow> 'f TableBuilder \<Rightarrow> 'f TableBuilder \<Rightarrow> bool" where
  "moved_on good r r' \<longleftrightarrow> TableBuilder_ok r' \<and> good (tb_file r') \<and> tb_options r' = tb_options r \<and>
     (tb_filter_block r' = None \<longleftrightarrow> tb_filter_block r = None)"

lemma moved_on_trans: "moved_on good a b \<Longrightarrow> moved_on good b c \<Longrightarrow> moved_on good a c"
  by (simp add: moved_on_def)

context reliable_file
begin

lemma WriteRawBlock_completes:
  assumes "good (tb_file r)"
  shows "\<exists>h r'. WriteRawBlock Append data t r = Some (h, r') \<and> moved_on good r r'"
proof -
  obtain f where f: "Append data (tb_file r) = Some (Status_OK, f)" "good f" using Append_good[OF assms] by blast
  show ?thesis
    using f Append_good[OF f(2), of "[t] @ EncodeFixed32 (Crc_Mask (Extend (Crc_Value 0 data) 0 [t]))"]
    by (auto simp: WriteRawBlock_def Let_def moved_on_def TableBuilder_ok_def Status_ok_def Status_OK_def)
qed

lemma WriteBlock_completes:
  assumes "good (tb_file r)"
  shows "\<exists>h b' r'. WriteBlock Append b r = Some (h, b', r') \<and> moved_on good r r'"
proof -
  obtain data t b1 where "WriteBlock Append b r = map_option (\<lambda>(h, r'). (h, b1, r')) (WriteRawBlock Append data t r)"
    unfolding WriteBlock_def Let_def by (simp add: case_prod_unfold)
  then show ?thesis using WriteRawBlock_completes[OF assms, of data t] by auto
qed

lemma Flush_completes:
  assumes "good (tb_file r)" "TableBuilder_ok r"
  shows "\<exists>r'. TableBuilder_Flush Append Flush r = Some r' \<and> moved_on good r r'"
proof (cases "bb_buffer (tb_data_block r) = []")
  case True
  then show ?thesis using assms by (simp add: TableBuilder_Flush_def moved_on_def)
next
  case False
  obtain h b r1 where r1: "WriteBlock Append (tb_data_block r) r = Some (h, b, r1)" "moved_on good r r1"
    using WriteBlock_completes[OF assms(1)] by blast
  then obtain f where "Flush (tb_file r1) = Some (Status_OK, f)" "good f" using Flush_good by (auto simp: moved_on_def)
  then show ?thesis using r1 assms False by (simp add: TableBuilder_Flush_def Let_def moved_on_def TableBuilder_ok_def Status_ok_def Status_OK_def)
qed

lemma Add_completes:
  assumes "good (tb_file r)" "TableBuilder_ok r"
  shows "\<exists>r'. TableBuilder_Add Append Flush k v r = Some r' \<and> moved_on good r r'"
proof -
  have e: "moved_on good r (add_entry k v r)" using assms by (auto simp: moved_on_def add_entry_def add_index_entry_def Let_def TableBuilder_ok_def)
  then obtain r' where "TableBuilder_Flush Append Flush (add_entry k v r) = Some r'" "moved_on good (add_entry k v r) r'"
    using Flush_completes[of "add_entry k v r"] by (auto simp: moved_on_def)
  then show ?thesis using e assms(2) moved_on_trans[OF e] by (auto simp: TableBuilder_Add_entry)
qed

lemma run_calls_completes:
  assumes "good (tb_file r)" "TableBuilder_ok r"
  shows "\<exists>r'. run_calls Append Flush cs r = Some r' \<and> moved_on good r r'"
  using assms
proof (induction cs arbitrary: r)
  case Nil
  then show ?case by (simp add: moved_on_def)
next
  case (Cons c cs)
  obtain r1 where r1: "call_step Append Flush c r = Some r1" "moved_on good r r1"
    using Add_completes[OF Cons.prems] Flush_completes[OF Cons.prems] by (cases c) auto
  then obtain r' where "run_calls Append Flush cs r1 = Some r'" "moved_on good r1 r'" using Cons.IH[of r1] by (auto simp: moved_on_def)
  then show ?case using r1 moved_on_trans[OF r1(2)] by auto
qed

lemma finish_filter_completes:
  assumes "good (tb_file r)" "TableBuilder_ok r"
  shows "\<exists>h r'. finish_filter Append r = Some (h, r') \<and> moved_on good r r'"
proof (cases "tb_filter_block r")
  case (Some a)
  then show ?thesis using WriteRawBlock_completes[OF assms(1)] assms(2) by (cases a) (simp add: finish_filter_def)
qed (use assms in \<open>simp add: finish_filter_def moved_on_def\<close>)

lemma finish_metaindex_completes:
  assumes "good (tb_file r)" "TableBuilder_ok r" "tb_filter_block r = None \<or> opt_filter_policy (tb_options r) \<noteq> None"
  shows "\<exists>h r'. finish_metaindex Append fh r = Some (h, r') \<and> moved_on good r r'"
proof -
  obtain b where "finish_metaindex Append fh r = map_option (\<lambda>(h, b, r). (h, r)) (WriteBlock Append b r)"
    using assms(2,3) by (cases "tb_filter_block r"; cases "opt_filter_policy (tb_options r)") (auto simp: finish_metaindex_def)
  then show ?thesis using WriteBlock_completes[OF assms(1), of b] by auto
qed

lemma finish_index_completes:
  assumes "good (tb_file r)" "TableBuilder_ok r"
  shows "\<exists>h r'. finish_index Append r = Some (h, r') \<and> moved_on good r r'"
proof -
  let ?r = "if tb_pending_index_entry r then add_index_entry (cmp_FindShortSuccessor (opt_comparator (tb_options r)) (tb_last_key r)) r else r"
  have m: "moved_on good r ?r" using assms by (simp add: moved_on_def add_index_entry_def TableBuilder_ok_def)
  then have "good (tb_file ?r)" unfolding moved_on_def by blast
  then obtain h b r1 where "WriteBlock Append (tb_index_block ?r) ?r = Some (h, b, r1)" "moved_on good ?r r1"
    using WriteBlock_completes by blast
  moreover from this have "moved_on good r (r1\<lparr>tb_index_block := b\<rparr>)" using m by (simp add: moved_on_def TableBuilder_ok_def)
  ultimately show ?thesis using assms(2) unfolding finish_index_def Let_def by simp
qed

lemma Finish_completes:
  assumes "good (tb_file r)" "TableBuilder_ok r" "tb_filter_block r = None \<or> opt_filter_policy (tb_options r) \<noteq> None"
  shows "\<exists>r'. TableBuilder_Finish Append Flush r = Some (Status_OK, r')"
proof -
  obtain r0 where r0: "TableBuilder_Flush Append Flush r = Some r0" "moved_on good r r0" using Flush_completes[OF assms(1,2)] by blast
  let ?r0 = "r0\<lparr>tb_closed := True\<rparr>"
  have m0: "moved_on good r ?r0" using r0(2) by (simp add: moved_on_def TableBuilder_ok_def)
  obtain fh r1 where r1: "finish_filter Append ?r0 = Some (fh, r1)" "moved_on good ?r0 r1"
    using finish_filter_completes[of ?r0] m0 by (auto simp: moved_on_def)
  have m1: "moved_on good r r1" by (rule moved_on_trans[OF m0 r1(2)])
  then obtain mh r2 where r2: "finish_metaindex Append fh r1 = Some (mh, r2)" "moved_on good r1 r2"
    using finish_metaindex_completes[of r1 fh] assms(3) by (auto simp: moved_on_def)
  then obtain ih r3 where r3: "finish_index Append r2 = Some (ih, r3)" "moved_on good r2 r3"
    using finish_index_completes[of r2] by (auto simp: moved_on_def)
  then obtain f where "Append (Footer_EncodeTo \<lparr>metaindex_handle = mh, index_handle = ih\<rparr> []) (tb_file r3) = Some (Status_OK, f)" "TableBuilder_ok r3"
    using Append_good by (auto simp: moved_on_def)
  then show ?thesis using r0 r1 r2 r3 by (simp add: TableBuilder_Finish_def finish_footer_def Let_def)
qed

end

section \<open>The interfaces on the model's own definitions\<close>

interpretation posix_table: table_writer "PosixWritableFile_Append script_write strerror" "PosixWritableFile_Flush script_write strerror"
    "posix_contents k_file" "\<lambda>_. True"
    "Options_new\<lparr>opt_block_size := n, opt_block_restart_interval := Suc i, opt_filter_policy := p\<rparr>" for strerror n i p
  using script_file.writable_file_axioms bytewise.comparator_axioms
  by (simp add: table_writer_def table_writer_axioms_def Options_new_def BytewiseComparator_def)

text \<open>The two levels of a table that is stored in the file \<open>Read\<close>; where none is, there are no blocks.\<close>

definition when_stored :: "Options \<Rightarrow> random_access \<Rightarrow> entries list \<Rightarrow> slice list \<Rightarrow> 'a list \<Rightarrow> 'a list" where
  "when_stored opts Read ess ks xs = (if table_stored (\<lambda>_. True) opts Read ess ks then xs else [])"

lemma stored_or_empty:
  fixes opts Read ess ks
  defines "blocks \<equiv> when_stored (opts\<lparr>opt_comparator := BytewiseComparator\<rparr>) Read ess ks ess"
    and "ies \<equiv> when_stored (opts\<lparr>opt_comparator := BytewiseComparator\<rparr>) Read ess ks (index_entries (opt_block_restart_interval opts) ess ks)"
  shows "two_level (\<lambda>_. True) bytewise_Compare ies (Any_Iterator bytewise_Compare) (opened (\<lambda>_. True) bytewise_Compare ies)
    (Any_Iterator bytewise_Compare) (\<lambda>i. opened (\<lambda>_. True) bytewise_Compare (blocks ! i)) (Table_block_function Read verify) (\<lambda>_. True) blocks"
proof (cases "table_stored (\<lambda>_. True) (opts\<lparr>opt_comparator := BytewiseComparator\<rparr>) Read ess ks")
  case True
  then show ?thesis using stored_two_level[OF True, of verify] by (simp add: when_stored_def BytewiseComparator_def blocks_def ies_def)
next
  case False
  then show ?thesis
    by (intro two_level.intro opened_iterator bytewise.key_order_axioms two_level_axioms.intro) (simp_all add: when_stored_def blocks_def ies_def)
qed

interpretation stored_table: two_level "\<lambda>_. True" bytewise_Compare
    "when_stored (opts\<lparr>opt_comparator := BytewiseComparator\<rparr>) Read ess ks (index_entries (opt_block_restart_interval opts) ess ks)"
    "Any_Iterator bytewise_Compare"
    "opened (\<lambda>_. True) bytewise_Compare (when_stored (opts\<lparr>opt_comparator := BytewiseComparator\<rparr>) Read ess ks (index_entries (opt_block_restart_interval opts) ess ks))"
    "Any_Iterator bytewise_Compare"
    "\<lambda>i. opened (\<lambda>_. True) bytewise_Compare (when_stored (opts\<lparr>opt_comparator := BytewiseComparator\<rparr>) Read ess ks ess ! i)"
    "Table_block_function Read verify" "\<lambda>_. True" "when_stored (opts\<lparr>opt_comparator := BytewiseComparator\<rparr>) Read ess ks ess"
  for opts Read ess ks verify
  by (rule stored_or_empty)

section \<open>From the calls to the file\<close>

lemma built_table_stored:
  assumes cmp: "comparator valid (cmp_Compare (opt_comparator opts)) (cmp_FindShortestSeparator (opt_comparator opts)) (cmp_FindShortSuccessor (opt_comparator opts))"
    and wf: "writable_file fappend fflush contents" "contents f = []"
    and opts: "0 < opt_block_restart_interval opts" "opt_compression opts = kNoCompression \<or> opt_compression opts = kSnappyCompression"
    and calls: "run_calls fappend fflush calls (TableBuilder_new opts f) = Some r" "TableBuilder_Finish fappend fflush r = Some (st, r')" "Status_ok st"
    and ord: "ordered valid (cmp_Compare (opt_comparator opts)) (call_entries calls)"
    and small: "length (contents (tb_file r')) < 2 ^ 32" and read: "random_access_file Read (contents (tb_file r'))"
  obtains ess ks where "concat ess = call_entries calls" "table_stored valid opts Read ess ks" "contents (tb_file r') = table_bytes opts ess ks"
proof -
  have W: "table_writer fappend fflush contents valid opts"
    using cmp wf(1) opts by (simp add: table_writer_def table_writer_axioms_def)
  have "separates valid (cmp_Compare (opt_comparator opts)) [] ([] @ [[]])" by (simp add: separates_def)
  then have new: "holds_entries opts contents valid [] (TableBuilder_new opts f)"
    unfolding holds_entries_def using TableBuilder_new_inv[of contents f opts] wf(2) by (intro exI[of _ "[]"]) simp
  obtain r0 where "TableBuilder_Flush fappend fflush r = Some r0" "TableBuilder_ok r0" using table_writer.Finish_steps[OF W calls(2,3)] by metis
  then have "TableBuilder_ok r" using table_writer.call_step_ok[OF W, of Flush_Call] by simp
  then have "holds_entries opts contents valid (call_entries calls) r"
    using table_writer.run_calls_holds[OF W new calls(1)] ord by simp
  then obtain ess ks where "concat ess = call_entries calls" "[] \<notin> set ess" "length ks = length ess"
      "separates valid (cmp_Compare (opt_comparator opts)) ks ess" "contents (tb_file r') = table_bytes opts ess ks"
    using table_writer.Finish_bytes[OF W _ calls(2,3) ord] by blast
  then show thesis using that ord opts(1) small read cmp by (simp add: table_stored_def comparator_def)
qed

section \<open>An example\<close>

text \<open>A file in memory, and a table of two blocks with a Bloom filter.\<close>

definition mem_append :: "slice \<Rightarrow> byte list \<Rightarrow> (Status \<times> byte list) option" where
  "mem_append data f = Some (Status_OK, f @ data)"

definition mem_flush :: "byte list \<Rightarrow> (Status \<times> byte list) option" where
  "mem_flush f = Some (Status_OK, f)"

lemma mem_file: "writable_file mem_append mem_flush (\<lambda>f. f)"
  by unfold_locales (auto simp: mem_append_def mem_flush_def)

definition demo_policy :: FilterPolicy where
  "demo_policy = \<lparr>fp_Name = [98], fp_CreateFilter = bloom_CreateFilter 10, fp_KeyMayMatch = bloom_KeyMayMatch\<rparr>"

definition demo_options :: Options where
  "demo_options = Options_new\<lparr>opt_block_size := 1, opt_filter_policy := Some demo_policy\<rparr>"

definition demo_calls :: "table_call list" where
  "demo_calls = [Add_Call [97] [1], Add_Call [99] [2]]"

lemma length_Footer_EncodeTo: "length (Footer_EncodeTo f []) = 48"
  using Footer_EncodeTo_bytes[of f] by (auto simp: kEncodedLength_def kMaxEncodedLength_def)

lemma demo_values:
  "bytewise_FindShortestSeparator [97] [99] = [98]" "bytewise_FindShortSuccessor [99] = [100]"
  "BlockHandle_EncodeTo \<lparr>bh_offset = 0, bh_size = 13\<rparr> [] = [0, 13]" "BlockHandle_EncodeTo \<lparr>bh_offset = 18, bh_size = 13\<rparr> [] = [18, 13]"
  "BlockHandle_EncodeTo \<lparr>bh_offset = 36, bh_size = 18\<rparr> [] = [36, 18]" "length (lit ''filter.'') = 7"
  by code_simp+

lemmas demo_simps = TableBuilder_new_def TableBuilder_Add_def TableBuilder_Flush_def WriteBlock_def WriteRawBlock_def add_index_entry_def
  TableBuilder_ok_def CurrentSizeEstimate_def BlockBuilder_Add_def BlockBuilder_new_def BlockBuilder_Finish_def BlockBuilder_Reset_def Let_def
  mem_append_def mem_flush_def Status_ok_def Status_OK_def Snappy_Compress_def kSnappyCompression_def kNoCompression_def demo_options_def
  PutVarint32_def EncodeVarint32_def PutFixed32_def BytewiseComparator_def kBlockTrailerSize_def Options_new_def demo_values demo_calls_def
  StartBlock_def start_block_loop.simps AddKey_def FilterBlockBuilder_new_def kFilterBase_def kFilterBaseLg_def demo_policy_def

definition demo_builder :: "byte list \<Rightarrow> byte list TableBuilder" where
  "demo_builder f =
     \<lparr>tb_options = demo_options, tb_index_block_options = demo_options\<lparr>opt_block_restart_interval := 1\<rparr>, tb_file = f, tb_offset = 36,
      tb_status = None, tb_data_block = BlockBuilder_new,
      tb_index_block = \<lparr>bb_buffer = [0, 1, 2, 98, 0, 13], bb_restarts = [0], bb_counter = 1, bb_finished = False, bb_last_key = [98]\<rparr>,
      tb_last_key = [99], tb_num_entries = 2, tb_closed = False,
      tb_filter_block = Some (demo_policy, \<lparr>fb_keys = [97, 99], fb_start = [0, 1], fb_result = [], fb_offsets = []\<rparr>),
      tb_pending_index_entry = True, tb_pending_handle = \<lparr>bh_offset = 18, bh_size = 13\<rparr>\<rparr>"

lemma demo_run:
  "\<exists>f. length f = 36 \<and> run_calls mem_append mem_flush demo_calls (TableBuilder_new demo_options []) = Some (demo_builder f)"
  by (simp add: demo_simps demo_builder_def)

lemma demo_filter:
  "length (FilterBlockBuilder_Finish (bloom_CreateFilter 10) \<lparr>fb_keys = [97, 99], fb_start = [0, 1], fb_result = [], fb_offsets = []\<rparr>) = 18"
  by (simp add: FilterBlockBuilder_Finish_def GenerateFilter_def Let_def fold_PutFixed32 PutFixed32_def length_bloom_CreateFilter)

lemma demo_finish:
  "length f = 36 \<Longrightarrow> \<exists>r'. TableBuilder_Finish mem_append mem_flush (demo_builder f) = Some (Status_OK, r') \<and> length (tb_file r') < 2 ^ 32"
  by (simp add: demo_simps demo_builder_def TableBuilder_Finish_def finish_filter_def finish_metaindex_def finish_index_def finish_footer_def
      demo_filter[simplified] length_Footer_EncodeTo)

lemma demo_comparator:
  "comparator (\<lambda>_. True) (cmp_Compare (opt_comparator demo_options)) (cmp_FindShortestSeparator (opt_comparator demo_options))
     (cmp_FindShortSuccessor (opt_comparator demo_options))"
  using bytewise.comparator_axioms by (simp add: demo_options_def Options_new_def BytewiseComparator_def)

lemma demo_ordered: "ordered (\<lambda>_. True) (cmp_Compare (opt_comparator demo_options)) (call_entries demo_calls)"
  by (simp add: ordered_def demo_calls_def demo_options_def Options_new_def BytewiseComparator_def bytewise_Compare_def)

section \<open>Properties\<close>

text \<open>C3: a table refines the sorted list of its entries. Whatever a client adds to a table builder, in the order of the comparator and with
  \<^verbatim>\<open>Flush\<close> wherever it likes: if \<^verbatim>\<open>Finish\<close> reports success, opening the file gives a table, and an iterator over it shows, after any
  sequence of \<^verbatim>\<open>Seek\<close>, \<^verbatim>\<open>SeekToFirst\<close>, \<^verbatim>\<open>SeekToLast\<close>, \<^verbatim>\<open>Next\<close> and \<^verbatim>\<open>Prev\<close>, the entry at which the same operations on the list arrive, without an error.\<close>

theorem table_refines_entries:
  assumes "comparator valid (cmp_Compare (opt_comparator opts)) (cmp_FindShortestSeparator (opt_comparator opts)) (cmp_FindShortSuccessor (opt_comparator opts))"
    and "writable_file fappend fflush contents" "contents f = []"
    and "0 < opt_block_restart_interval opts" "opt_compression opts = kNoCompression \<or> opt_compression opts = kSnappyCompression"
    and "run_calls fappend fflush calls (TableBuilder_new opts f) = Some r" "TableBuilder_Finish fappend fflush r = Some (st, r')" "Status_ok st"
    and "ordered valid (cmp_Compare (opt_comparator opts)) (call_entries calls)"
    and "length (contents (tb_file r')) < 2 ^ 32" "random_access_file Read (contents (tb_file r'))"
    and "list_all (op_valid valid) ops"
    and "cursor_run (cmp_Compare (opt_comparator opts)) (call_entries calls) ops (length (call_entries calls)) = Some p"
  shows "\<exists>t it. Table_Open opts Read (word_of_nat (length (contents (tb_file r')))) = Some (Status_OK, Some t) \<and>
    iterator_run (Table_Iterator Read verify t) ops (Table_NewIterator t) = Some it \<and>
    shows_entry (Table_Iterator Read verify t) (call_entries calls) p it \<and> Status_ok (Iterator_status (Table_Iterator Read verify t) it)"
proof -
  obtain ess ks where es: "concat ess = call_entries calls" and st: "table_stored valid opts Read ess ks"
    and c: "contents (tb_file r') = table_bytes opts ess ks" using built_table_stored[OF assms(1-11)] .
  show ?thesis
    using Table_Open_stored[OF st] table_iterator_run[OF st assms(12), of p verify] assms(13) unfolding es c by blast
qed

theorem table_refines_entries_witness:
  "\<exists>file t it. Table_Open demo_options (PosixMmapReadableFile_Read (\<lambda>_. []) [] file) (word_of_nat (length file)) = Some (Status_OK, Some t) \<and>
    iterator_run (Table_Iterator (PosixMmapReadableFile_Read (\<lambda>_. []) [] file) True t) [To_Key [98], To_Prev] (Table_NewIterator t) = Some it \<and>
    shows_entry (Table_Iterator (PosixMmapReadableFile_Read (\<lambda>_. []) [] file) True t) [([97], [1]), ([99], [2])] 0 it \<and>
    Status_ok (Iterator_status (Table_Iterator (PosixMmapReadableFile_Read (\<lambda>_. []) [] file) True t) it)"
proof -
  obtain f where f: "length f = 36" "run_calls mem_append mem_flush demo_calls (TableBuilder_new demo_options []) = Some (demo_builder f)"
    using demo_run by blast
  obtain r' where r': "TableBuilder_Finish mem_append mem_flush (demo_builder f) = Some (Status_OK, r')" "length (tb_file r') < 2 ^ 32"
    using demo_finish[OF f(1)] by blast
  have e: "call_entries demo_calls = [([97], [1]), ([99], [2])]" by (simp add: demo_calls_def)
  have "seek_index bytewise_Compare [([97], [1]), ([99], [2])] [98] = 1" by (simp add: seek_index_def bytewise_Compare_def)
  then have "cursor_run (cmp_Compare (opt_comparator demo_options)) (call_entries demo_calls) [To_Key [98], To_Prev] (length (call_entries demo_calls)) = Some 0"
    by (simp add: e demo_options_def Options_new_def BytewiseComparator_def)
  from table_refines_entries[OF demo_comparator mem_file refl _ _ f(2) r'(1) _ demo_ordered r'(2) mmap_random_access_file _ this, of "\<lambda>_. []" "[]" True]
  show ?thesis unfolding e by (auto simp: demo_options_def Options_new_def op_valid_def Status_ok_def Status_OK_def)
qed

text \<open>C10: \<^verbatim>\<open>Table::InternalGet\<close> of such a table finds every key that was added, with its value, also when a filter is
  asked first; and what it hands out is never anything but the first entry that is not smaller than the key.\<close>

theorem table_lookup_finds:
  assumes "comparator valid (cmp_Compare (opt_comparator opts)) (cmp_FindShortestSeparator (opt_comparator opts)) (cmp_FindShortSuccessor (opt_comparator opts))"
    and "writable_file fappend fflush contents" "contents f = []"
    and "0 < opt_block_restart_interval opts" "opt_compression opts = kNoCompression \<or> opt_compression opts = kSnappyCompression"
    and "run_calls fappend fflush calls (TableBuilder_new opts f) = Some r" "TableBuilder_Finish fappend fflush r = Some (st, r')" "Status_ok st"
    and "ordered valid (cmp_Compare (opt_comparator opts)) (call_entries calls)"
    and "length (contents (tb_file r')) < 2 ^ 32" "random_access_file Read (contents (tb_file r'))"
    and "valid k" "\<And>p. opt_filter_policy opts = Some p \<Longrightarrow> filter_policy fvalid (fp_CreateFilter p) (fp_KeyMayMatch p)"
    and "list_all (\<lambda>(k, _). fvalid k) (call_entries calls)" "length (call_entries calls) < 2 ^ 31"
  shows "\<exists>t res. Table_Open opts Read (word_of_nat (length (contents (tb_file r')))) = Some (Status_OK, Some t) \<and>
    InternalGet Read verify k t = Some (Status_OK, res) \<and> (\<forall>v. (k, v) \<in> set (call_entries calls) \<longrightarrow> res = Some (k, v)) \<and>
    (\<forall>e. res = Some e \<longrightarrow> (let j = seek_index (cmp_Compare (opt_comparator opts)) (call_entries calls) k in
      j < length (call_entries calls) \<and> e = call_entries calls ! j))"
proof -
  obtain ess ks where es: "concat ess = call_entries calls" and st: "table_stored valid opts Read ess ks"
    and c: "contents (tb_file r') = table_bytes opts ess ks" using built_table_stored[OF assms(1-11)] .
  show ?thesis
    using Table_Open_stored[OF st] InternalGet_stored[OF st assms(12,13), of verify] assms(14,15) unfolding es c by blast
qed

theorem table_lookup_finds_witness:
  "\<exists>file t. Table_Open demo_options (PosixMmapReadableFile_Read (\<lambda>_. []) [] file) (word_of_nat (length file)) = Some (Status_OK, Some t) \<and>
    InternalGet (PosixMmapReadableFile_Read (\<lambda>_. []) [] file) True [99] t = Some (Status_OK, Some ([99], [2]))"
proof -
  obtain f where f: "length f = 36" "run_calls mem_append mem_flush demo_calls (TableBuilder_new demo_options []) = Some (demo_builder f)"
    using demo_run by blast
  obtain r' where r': "TableBuilder_Finish mem_append mem_flush (demo_builder f) = Some (Status_OK, r')" "length (tb_file r') < 2 ^ 32"
    using demo_finish[OF f(1)] by blast
  have p: "filter_policy (\<lambda>_. True) (fp_CreateFilter p) (fp_KeyMayMatch p)" if "opt_filter_policy demo_options = Some p" for p
    using that bloom.filter_policy_axioms by (auto simp: demo_options_def demo_policy_def)
  have e: "call_entries demo_calls = [([97], [1]), ([99], [2])]" by (simp add: demo_calls_def)
  from table_lookup_finds[where k = "[99]" and verify = True, OF demo_comparator mem_file refl _ _ f(2) r'(1) _ demo_ordered r'(2) mmap_random_access_file _ p, of "\<lambda>_. []" "[]"]
  show ?thesis unfolding e by (fastforce simp: demo_options_def Options_new_def Status_ok_def Status_OK_def)
qed

text \<open>C18: building a table completes: on a file whose operations return and succeed, such as a POSIX file whose writes are interrupted and cut short
  only finitely often, every sequence of calls returns, and \<^verbatim>\<open>Finish\<close> returns success.\<close>

theorem table_build_completes:
  assumes "reliable_file fappend fflush contents good" "good f"
  shows "\<exists>r r'. run_calls fappend fflush calls (TableBuilder_new opts f) = Some r \<and> TableBuilder_Finish fappend fflush r = Some (Status_OK, r')"
proof -
  have "good (tb_file (TableBuilder_new opts f))" "TableBuilder_ok (TableBuilder_new opts f)"
    using assms(2) by (simp_all add: TableBuilder_new_def TableBuilder_ok_def)
  from reliable_file.run_calls_completes[OF assms(1) this] obtain r where
    r: "run_calls fappend fflush calls (TableBuilder_new opts f) = Some r" "moved_on good (TableBuilder_new opts f) r" by blast
  then have "good (tb_file r)" "TableBuilder_ok r" "tb_filter_block r = None \<or> opt_filter_policy (tb_options r) \<noteq> None"
    by (auto simp: moved_on_def TableBuilder_new_def)
  from reliable_file.Finish_completes[OF assms(1) this] show ?thesis using r(1) by blast
qed

theorem table_build_completes_witness:
  "\<exists>r r'. run_calls (PosixWritableFile_Append script_write (\<lambda>_. [])) (PosixWritableFile_Flush script_write (\<lambda>_. [])) demo_calls
      (TableBuilder_new demo_options (PosixWritableFile_new [] \<lparr>k_file = [], k_pos = 0, k_script = [Interrupted, Bytes 3]\<rparr>)) = Some r \<and>
    TableBuilder_Finish (PosixWritableFile_Append script_write (\<lambda>_. [])) (PosixWritableFile_Flush script_write (\<lambda>_. [])) r = Some (Status_OK, r')"
  by (rule table_build_completes[OF script_file.reliable_file_axioms]) (simp add: PosixWritableFile_new_def script_healthy_def)

text \<open>C39: a damaged handle is not safe to read: the check of a mapped file adds offset and length in 64 bits, so a handle whose sum wraps
  passes it, and memory before the file is read.\<close>

theorem damaged_handle_reads_outside:
  assumes "length file < 2 ^ 63"
  shows "ReadBlock (PosixMmapReadableFile_Read strerror filename file) verify \<lparr>bh_offset = - 10, bh_size = 5\<rparr> = None"
proof -
  have "unat (- 10 :: u64) + unat (10 :: u64) > length file" using assms by simp
  then show ?thesis by (simp add: ReadBlock_def Let_def PosixMmapReadableFile_Read_def kBlockTrailerSize_def sub_slice_def)
qed

theorem damaged_handle_reads_outside_witness:
  "ReadBlock (PosixMmapReadableFile_Read (\<lambda>_. []) [] [1, 2, 3]) True \<lparr>bh_offset = - 10, bh_size = 5\<rparr> = None"
  by (rule damaged_handle_reads_outside) simp

end
