(* ===== verification/Ldb_Version_Edit.thy ===== *)
theory Ldb_Version_Edit
  imports Ldb_Coding Ldb_Status "HOL-Library.Product_Lexorder"
begin

text \<open>
  LevelDB, \<^verbatim>\<open>db/version_edit.h\<close> and \<^verbatim>\<open>db/version_edit.cc\<close>: the records of the manifest, which say how the set of table
  files changes. An \<^verbatim>\<open>InternalKey\<close> is the string that it wraps; the \<^verbatim>\<open>std::set\<close> of deleted files is the sorted list of its
  elements. \<^verbatim>\<open>DebugString\<close> is left out.
\<close>

section \<open>Edits\<close>















section \<open>Writing\<close>



section \<open>Reading\<close>











section \<open>An edit as a list of operations\<close>










subsection \<open>Writing lists the operations\<close>




subsection \<open>Reading replays them\<close>






subsection \<open>Well-formed edits\<close>











section \<open>Properties\<close>



end
