(* ===== verification/Spec2Isabelle.thy ===== *)
theory Spec2Isabelle
  imports Pb_Encode_Laws Pb_Decode_Laws Cct_Sizes Firebasecore_Nanopb Fbase64 Ldb_Memtable Ldb_Filter_Block Ldb_Log_Props Ldb_Table_Props Ldb_Version_Edit
begin

text \<open>
  A verification library for the C and C++ code of the ZipR application. The application itself is
  Swift; the code that is compiled from C and C++ sources are the libraries under \<^verbatim>\<open>src/ZipR/Pods\<close>:
  nanopb with the message tables generated for it (telemetry of Firebase), a base64 routine of the
  web socket of FirebaseDatabase, and LevelDB, in which FirebaseDatabase keeps its data.

  \<^bold>\<open>Conventions.\<close> Machine integers are words of their width and wrap; an index into a buffer that the
  source bounds is a natural number. A C++ \<^verbatim>\<open>Slice\<close> or \<^verbatim>\<open>std::string\<close> is the list of its bytes.
  Buffers have their length, and an access outside a buffer, a slice or a mapped file is an outcome of its own (\<open>UB\<close> of
  \<open>Prelude.outcome\<close>, or \<open>None\<close> in LevelDB), so that theorems about results are also theorems about memory safety.
  Memory that nanopb reaches through pointers is an explicit heap of bytes. Its loads and stores are total; \<open>UB\<close> there is to
  free or to reallocate a block that is not allocated, and to use a descriptor's pointer as what it does not point to. That stores stay inside a message is therefore stated by the theorems
  themselves, as what they leave unchanged. A routine that fails returns the
  error the source returns. Loops are functions with a termination proof; a loop whose end depends on
  a parameter (a system call that is interrupted again and again) is a partial function in the
  option type, and that it returns is a theorem. Where nanopb
  calls itself through a message table (submessages of submessages) the definitions take fuel, an upper bound
  of the nesting; \<open>Fuel\<close> is an outcome of its own, and theorems about results exclude it. Allocators, callbacks, comparators, filter
  policies, system calls and files are arguments of the definitions; what the code expects of
  them is stated in locales, which are interpreted on the model's own definitions.

  \<^bold>\<open>Foundations.\<close> \<open>Prelude\<close>: word types, the outcome type and its sequencing, little-endian bytes.
  \<open>C_Memory\<close>: the byte heap, loads and stores, the frame relation. \<open>Leb128\<close>: the varint format that nanopb
  and LevelDB share.

  \<^bold>\<open>nanopb\<close> (\<^verbatim>\<open>Pods/nanopb\<close>).
  \<^item> \<open>Pb_Types\<close>: \<^verbatim>\<open>pb.h\<close>, type constants, field descriptors, the descriptor macros over structure layouts.
  \<^item> \<open>Pb_Common\<close>: \<^verbatim>\<open>pb_common.c\<close>, the field iterator; it visits every field once and finds a tag exactly when
    the table has it.
  \<^item> \<open>Pb_Istream\<close>, \<open>Pb_Ostream\<close>, \<open>Pb_Env\<close>, \<open>Pb_Encode\<close>, \<open>Pb_Release\<close>, \<open>Pb_Decode\<close>: the streams, \<^verbatim>\<open>pb_encode.c\<close>
    and \<^verbatim>\<open>pb_decode.c\<close>, function by function.
  \<^item> \<open>Pb_Istream_Laws\<close>, \<open>Pb_Varint\<close>, \<open>Pb_Codec\<close>, \<open>Pb_Wire\<close>: readers stay inside the stream; writers and readers
    of the wire types are inverse to each other.
  \<^item> \<open>Pb_Encode_Laws\<close>: \<^verbatim>\<open>pb_encode\<close> writes the wire form of the message, the abstract encoder \<open>wire_message\<close>, into
    any buffer that is large enough and fails otherwise; sizing and delimiting agree with it.
  \<^item> \<open>Pb_Layout\<close>, \<open>Pb_Decode_Laws\<close>: \<^verbatim>\<open>pb_decode\<close> into a statically allocated message is memory safe on arbitrary input.
  \<^item> \<open>Pb_Tables\<close>, \<open>Cct_Nanopb\<close>, \<open>Cct_Sizes\<close>, \<open>Firebasecore_Nanopb\<close>: the generated structures and tables; every table
    describes its structure, refers to the tables of its substructures, and stated maximum sizes are upper bounds.

  \<^bold>\<open>Base64\<close>. \<open>Fbase64\<close>: \<^verbatim>\<open>fbase64.c\<close>, both directions on buffers; round trip, acceptance, bounds.

  \<^bold>\<open>LevelDB\<close> (\<^verbatim>\<open>Pods/leveldb-library\<close>).
  \<^item> \<open>Ldb_Coding\<close>, \<open>Ldb_Comparator\<close>, \<open>Ldb_Status\<close>, \<open>Ldb_Random\<close>, \<open>Ldb_Crc32c\<close>: number encodings, comparators, status
    values, the random generator, the checksum (the table-driven routine is the bit-serial one).
  \<^item> \<open>Ldb_Dbformat\<close>, \<open>Ldb_Write_Batch\<close>, \<open>Ldb_Skiplist\<close>, \<open>Ldb_Skiplist_Laws\<close>, \<open>Ldb_Memtable\<close>: internal keys, batches, the skip
    list (it refines a sorted list) and the memtable (it answers as the sequence of its updates says, for every
    snapshot).
  \<^item> \<open>Ldb_Version_Edit\<close>: the records of the manifest; writing lists the operations that an edit stands for, and reading
    replays them.
  \<^item> \<open>Ldb_Bloom\<close>, \<open>Ldb_Filter_Block\<close>: filters and filter blocks never deny a key that was added.
  \<^item> \<open>Ldb_File\<close>, \<open>Ldb_Log\<close>, \<open>Ldb_Log_Laws\<close>, \<open>Ldb_Log_Props\<close>: POSIX files over system calls, the write-ahead log; records
    are read back, also after a crash that cuts off the file, and the reader ends on any bytes.
  \<^item> \<open>Ldb_Iterator\<close>, \<open>Ldb_Block\<close>, \<open>Ldb_Block_Laws\<close>, \<open>Ldb_Block_Props\<close>: the iterator interface, the blocks of a table file; an
    iterator over a built block moves as a cursor over the list of its entries does.
  \<^item> \<open>Ldb_Format\<close>, \<open>Ldb_Two_Level\<close>, \<open>Ldb_Table_Builder\<close>, \<open>Ldb_Table\<close>: block handles, footer and files with random access, the
    iterator over an index and its blocks, writing and reading of table files. \<open>Ldb_Two_Level_Laws\<close> shows, in the locale \<open>two_level\<close>, that
    two levels of iterators keep the contract for the concatenation; \<open>Ldb_Table_Builder_Laws\<close>, in the locale \<open>table_writer\<close>, what a builder
    has written; \<open>Ldb_Table_Laws\<close> and \<open>Ldb_Table_Props\<close> that an opened table shows and finds exactly that.

  \<^bold>\<open>How the parts meet.\<close> \<open>memtable_reads_batch\<close> goes through batches, internal keys, the skip list and the
  memtable; \<open>log_round_trip\<close> through the log writer, checksums, POSIX files and the log reader;
  \<open>table_refines_entries\<close> through the table builder, block and filter builders, checksums, handles, the table reader, the two-level
  iterator and the block iterators.

  \<^bold>\<open>Not modelled.\<close> The Swift application and the Objective-C libraries have no C code of their own besides the files
  above. Of LevelDB, threads, locks, background compaction and the file system operations of the engine
  (\<^verbatim>\<open>db_impl.cc\<close>, \<^verbatim>\<open>version_set.cc\<close>, most of \<^verbatim>\<open>env_posix.cc\<close>) are left out: they are about the interleaving of threads and
  the state of the file system. The order of atomic accesses in the skip list is not modelled either: one
  writer, no concurrent reader.
\<close>

end
